(* ===== verification/Prelude.thy ===== *)
theory Prelude
  imports Main "HOL-Library.Word"
begin

unbundle bit_operations_syntax

text \<open>
  Shared vocabulary of the development: the machine integer types of the Rust
  sources, the integer operations of the Rust standard library that the sources
  call (\<open>saturating_sub\<close>, \<open>checked_add\<close> on \<open>i64\<close>, \<open>to_le_bytes\<close>,
  \<open>from_le_bytes\<close>), the collections of simplification rules that the
  component theories fill, and the lemmas on words, lists and sums that several
  components use.
\<close>

section \<open>Machine integers\<close>

type_synonym u8 = "8 word"
type_synonym u16 = "16 word"
type_synonym u32 = "32 word"
type_synonym u64 = "64 word"
type_synonym u128 = "128 word"

text \<open>An \<open>i64\<close> is a 64-bit word that the code reads with \<open>sint\<close>.\<close>

type_synonym i64 = "64 word"

type_synonym bytes = "u8 list"

text \<open>A fallible operation returns \<open>Inl\<close> its error or \<open>Inr\<close> its result.\<close>

type_synonym ('e, 'a) result = "'e + 'a"

text \<open>
  Where the source can also panic (\<open>assert!\<close>, an out-of-range index), the outcome is one
  of three: a result, an error value, or the panic.
\<close>

datatype ('e, 'a) outcome = Ok (ok_val: 'a) | Err (err_val: 'e) | Panic

fun bind_outcome :: "('e, 'a) outcome \<Rightarrow> ('a \<Rightarrow> ('e, 'b) outcome) \<Rightarrow> ('e, 'b) outcome" where
  "bind_outcome (Ok a) k = k a"
| "bind_outcome (Err e) k = Err e"
| "bind_outcome Panic k = Panic"

text \<open>
  An operation that takes \<open>&mut self\<close> and returns a \<open>Result\<close> gives back the result and the
  state, on the error path too; \<open>and_then\<close> is the \<open>?\<close> operator between two of them.
\<close>

fun and_then :: "('e + 'a) \<times> 's \<Rightarrow> ('a \<Rightarrow> 's \<Rightarrow> ('e + 'b) \<times> 's) \<Rightarrow> ('e + 'b) \<times> 's" where
  "and_then (Inl e, s) k = (Inl e, s)"
| "and_then (Inr a, s) k = k a s"

definition bind_result :: "'e + 'a \<Rightarrow> ('a \<Rightarrow> 'e + 'b) \<Rightarrow> 'e + 'b" where
  "bind_result r k = (case r of Inl e \<Rightarrow> Inl e | Inr a \<Rightarrow> k a)"

text \<open>Indexing and slicing, which panic out of range.\<close>

definition index_at :: "'a list \<Rightarrow> nat \<Rightarrow> ('e, 'a) outcome" where
  "index_at xs i = (if i < length xs then Ok (xs ! i) else Panic)"

definition slice :: "'a list \<Rightarrow> nat \<Rightarrow> nat \<Rightarrow> ('e, 'a list) outcome" where
  "slice xs a b = (if a \<le> b \<and> b \<le> length xs then Ok (take (b - a) (drop a xs)) else Panic)"

text \<open>Decimal and other text that the sources format into messages.\<close>

fun decimal :: "nat \<Rightarrow> string" where
  "decimal n = (if n < 10 then [char_of (48 + n)] else decimal (n div 10) @ [char_of (48 + n mod 10)])"

declare decimal.simps [simp del]

named_theorems const_defs "constants of the sources, to be evaluated"
named_theorems inv_defs "invariants of the components"
named_theorems frame_simps "fields that an operation leaves alone"

section \<open>Integer operations of the Rust standard library\<close>

text \<open>\<open>u64::saturating_sub\<close> and \<open>usize::saturating_add\<close> at the width of the word.\<close>

definition saturating_sub :: "'a::len word \<Rightarrow> 'a word \<Rightarrow> 'a word" where
  "saturating_sub a b = (if a \<le> b then 0 else a - b)"

definition saturating_add :: "'a::len word \<Rightarrow> 'a word \<Rightarrow> 'a word" where
  "saturating_add a b = (if unat a + unat b < 2 ^ LENGTH('a) then a + b else - 1)"

text \<open>\<open>i64::checked_add\<close>: \<open>None\<close> when the sum leaves the signed range.\<close>

definition checked_add_i64 :: "i64 \<Rightarrow> i64 \<Rightarrow> i64 option" where
  "checked_add_i64 a b =
     (let s = sint a + sint b
      in if - (2 ^ 63) \<le> s \<and> s < 2 ^ 63 then Some (word_of_int s) else None)"

text \<open>\<open>to_le_bytes\<close> and \<open>from_le_bytes\<close>, for any width.\<close>

definition to_le_bytes :: "nat \<Rightarrow> 'a::len word \<Rightarrow> bytes" where
  "to_le_bytes n w = map (\<lambda>i. ucast (drop_bit (8 * i) w)) [0..<n]"

fun from_le_bytes :: "bytes \<Rightarrow> 'a::len word" where
  "from_le_bytes [] = 0"
| "from_le_bytes (b # bs) = ucast b OR push_bit 8 (from_le_bytes bs)"

text \<open>\<open>leading_zeros\<close>: the number of clear bits above the highest set one.\<close>

definition leading_zeros :: "'a::len word \<Rightarrow> nat" where
  "leading_zeros w = length (takeWhile (\<lambda>i. \<not> bit w i) (rev [0..<LENGTH('a)]))"

section \<open>Outcomes\<close>

lemma bind_outcome_Ok [simp]: "bind_outcome m k = Ok b \<longleftrightarrow> (\<exists>a. m = Ok a \<and> k a = Ok b)"
  by (cases m) auto

lemma and_then_Inr:
  "and_then m k = (Inr y, s') \<longleftrightarrow> (\<exists>x s. m = (Inr x, s) \<and> k x s = (Inr y, s'))"
  by (cases m; cases "fst m") auto

lemma bind_result_simps [simp]: "bind_result (Inl e) k = Inl e" "bind_result (Inr a) k = k a"
  by (simp_all add: bind_result_def)

lemma bind_result_Inr: "bind_result r k = Inr b \<longleftrightarrow> (\<exists>a. r = Inr a \<and> k a = Inr b)"
  by (cases r) auto

section \<open>Words\<close>

lemma unat_saturating_sub [simp]: "unat (saturating_sub a b) = unat a - unat b"
  by (auto simp: saturating_sub_def unat_sub word_le_nat_alt not_le less_imp_le)

lemma unat_saturating_add:
  "unat (saturating_add a b :: 'a::len word) = min (unat a + unat b) (2 ^ LENGTH('a) - 1)"
  by (auto simp: saturating_add_def unat_word_ariths unsigned_minus_1_eq_mask mask_eq_exp_minus_1 min_def)

lemma checked_add_i64_Some:
  assumes "checked_add_i64 a b = Some c"
  shows "sint c = sint a + sint b"
proof -
  from assms have c: "c = word_of_int (sint a + sint b)"
    and r: "- (2 ^ 63) \<le> sint a + sint b" "sint a + sint b < 2 ^ 63"
    by (auto simp: checked_add_i64_def Let_def split: if_splits)
  have "sint c = signed_take_bit 63 (sint a + sint b)"
    unfolding c by (simp only: sint_sbintrunc') simp
  then show ?thesis using r by (simp add: signed_take_bit_int_eq_self)
qed

lemma checked_add_i64_None:
  "checked_add_i64 a b = None \<longleftrightarrow> sint a + sint b < - (2 ^ 63) \<or> 2 ^ 63 \<le> sint a + sint b"
  by (auto simp: checked_add_i64_def Let_def)

lemma word_less_add_one: "x \<noteq> - 1 \<Longrightarrow> x < x + (1 :: 'a::len word)"
  by (metis inc_less_eq_self_iff_eq not_le)

text \<open>A \<open>u64\<close> product in \<open>u128\<close> does not overflow: the idiom behind every cycle conversion.\<close>

lemma unat_u128_of_u64 [simp]: "unat (ucast (x :: u64) :: u128) = unat x"
  by (simp add: unsigned_ucast_eq take_bit_nat_eq_self less_trans [OF unsigned_less])

lemma unat_u128_mult:
  assumes "unat (a :: u128) * unat b < 2 ^ 128"
  shows "unat (a * b) = unat a * unat b"
  using assms by (simp add: unat_word_ariths)

lemma unat_u64_bound: "unat (x :: u64) < 2 ^ 64"
  by (rule order_less_le_trans [OF unsigned_less]) simp

lemma unat_u32_bound: "unat (x :: u32) < 2 ^ 32"
  by (rule order_less_le_trans [OF unsigned_less]) simp

lemma unat_u16_bound: "unat (x :: u16) < 2 ^ 16"
  by (rule order_less_le_trans [OF unsigned_less]) simp

lemma u64_mult_bound: "unat (x :: u64) * unat (y :: u64) < 2 ^ 128"
proof -
  have "unat x * unat y \<le> (2 ^ 64 - 1) * (2 ^ 64 - 1)"
    using unat_u64_bound [of x] unat_u64_bound [of y] by (intro mult_le_mono) auto
  also have "\<dots> < (2 :: nat) ^ 128" by simp
  finally show ?thesis .
qed

lemma unat_u128_mult_u64:
  "unat (ucast (x :: u64) * ucast (y :: u64) :: u128) = unat x * unat y"
  using u64_mult_bound [of x y] by (subst unat_u128_mult) simp_all

lemma unat_u64_of_u128: "unat (ucast (x :: u128) :: u64) = unat x mod 2 ^ 64"
  by (simp add: unsigned_ucast_eq take_bit_eq_mod)

section \<open>Little-endian bytes\<close>

lemma length_to_le_bytes [simp]: "length (to_le_bytes n w) = n"
  by (simp add: to_le_bytes_def)

lemma bit_from_le_bytes:
  "bit (from_le_bytes bs :: 'a::len word) k \<longleftrightarrow>
     k < LENGTH('a) \<and> k div 8 < length bs \<and> bit (bs ! (k div 8)) (k mod 8)"
proof (induction bs arbitrary: k)
  case Nil
  then show ?case by simp
next
  case (Cons b bs)
  show ?case
  proof (cases "k < 8")
    case True
    then show ?thesis
      using bit_imp_le_length [of b k]
      by (auto simp: bit_or_iff bit_push_bit_iff bit_unsigned_iff)
  next
    case False
    then obtain j where k: "k = j + 8" by (metis add.commute le_Suc_ex not_less)
    have "(j + 8) div 8 = Suc (j div 8)" by simp
    then show ?thesis
      using Cons [of j] bit_imp_le_length [of b k] k
      by (auto simp: bit_or_iff bit_push_bit_iff bit_unsigned_iff simp del: div_add_self2)
  qed
qed

lemma from_to_le_bytes:
  "LENGTH('a) \<le> 8 * n \<Longrightarrow> from_le_bytes (to_le_bytes n w) = (w :: 'a::len word)"
  by (rule bit_word_eqI)
    (auto simp: bit_from_le_bytes to_le_bytes_def bit_unsigned_iff bit_drop_bit_eq)

lemma to_from_le_bytes:
  assumes "8 * length bs \<le> LENGTH('a)"
  shows "to_le_bytes (length bs) (from_le_bytes bs :: 'a::len word) = bs"
proof (rule nth_equalityI)
  fix i
  assume "i < length (to_le_bytes (length bs) (from_le_bytes bs :: 'a word))"
  then have i: "i < length bs" by simp
  have "ucast (drop_bit (8 * i) (from_le_bytes bs :: 'a word)) = bs ! i"
  proof (rule bit_word_eqI)
    fix k
    assume "k < LENGTH(8)"
    then have k: "k < 8" by simp
    then have "(8 * i + k) div 8 = i" "(8 * i + k) mod 8 = k" by auto
    moreover have "8 * i + k < LENGTH('a)" using i k assms by linarith
    ultimately show "bit (ucast (drop_bit (8 * i) (from_le_bytes bs :: 'a word)) :: u8) k = bit (bs ! i) k"
      using i k by (simp add: bit_unsigned_iff bit_drop_bit_eq bit_from_le_bytes)
  qed
  then show "to_le_bytes (length bs) (from_le_bytes bs :: 'a word) ! i = bs ! i"
    using i by (simp add: to_le_bytes_def)
qed simp


section \<open>Bits and searches\<close>

lemma unat_of_nat_eq: "n < 2 ^ LENGTH('a) \<Longrightarrow> unat (of_nat n :: 'a::len word) = n"
  by (simp add: unsigned_of_nat take_bit_nat_eq_self)

lemma unat_ucast_up: "LENGTH('a) \<le> LENGTH('b) \<Longrightarrow> unat (ucast x :: 'b::len word) = unat x"
  for x :: "'a::len word"
  by (simp add: unsigned_ucast_eq take_bit_nat_eq_self order_less_le_trans [OF unsigned_less])

lemma ucast_ucast_up: "LENGTH('a) \<le> LENGTH('b) \<Longrightarrow> ucast (ucast w :: 'b::len word) = w"
  for w :: "'a::len word"
  by (rule bit_word_eqI) (simp add: bit_unsigned_iff)

lemma unat_drop_bit: "unat (drop_bit n w) = unat w div 2 ^ n" for w :: "'a::len word"
  by (simp only: unsigned_drop_bit_eq) (simp add: drop_bit_eq_div take_bit_nat_eq_self unsigned_less)

lemma unat_take_bit: "unat (take_bit n w) = unat w mod 2 ^ n" for w :: "'a::len word"
  by (simp only: unsigned_take_bit_eq) (simp only: take_bit_eq_mod)

lemma unat_push_bit: "unat (push_bit n w) = unat w * 2 ^ n mod 2 ^ LENGTH('a)"
  for w :: "'a::len word"
  by (simp only: unsigned_push_bit_eq) (simp only: take_bit_eq_mod push_bit_eq_mult)

lemma unat_and_mask: "unat (v AND mask n) = unat v mod 2 ^ n" for v :: "'a::len word"
  by (simp only: unat_take_bit take_bit_eq_mask [symmetric])

text \<open>The index \<open>31 - leading_zeros\<close> computes is the highest set bit.\<close>

lemma highest_bit_leading_zeros:
  fixes w :: "'a::len word"
  assumes "w \<noteq> 0"
  defines "b \<equiv> LENGTH('a) - 1 - leading_zeros w"
  shows "bit w b" and "\<And>j. b < j \<Longrightarrow> \<not> bit w j" and "b < LENGTH('a)"
proof -
  let ?xs = "rev [0..<LENGTH('a)]"
  let ?P = "\<lambda>i. \<not> bit w i"
  obtain k where k: "bit w k" using assms(1) by (auto simp: bit_eq_iff)
  then have "k \<in> set ?xs" by (auto dest: bit_imp_le_length)
  with k have "takeWhile ?P ?xs \<noteq> ?xs" by (auto simp: takeWhile_eq_all_conv)
  then have lt: "leading_zeros w < LENGTH('a)"
    using length_takeWhile_le [of ?P ?xs] takeWhile_eq_take [of ?P ?xs]
    by (auto simp: leading_zeros_def le_less)
  have nth: "?xs ! i = LENGTH('a) - 1 - i" if "i < LENGTH('a)" for i
    using that by (simp add: rev_nth)
  show "bit w b"
    using nth_length_takeWhile [of ?P ?xs] lt nth [OF lt] by (simp add: leading_zeros_def b_def)
  show "\<not> bit w j" if "b < j" for j
  proof
    assume j: "bit w j"
    then have jl: "j < LENGTH('a)" by (rule bit_imp_le_length)
    define i where "i = LENGTH('a) - 1 - j"
    have i: "i < leading_zeros w" "i < LENGTH('a)" and ji: "j = LENGTH('a) - 1 - i"
      using that jl lt by (auto simp: i_def b_def)
    have "?P (takeWhile ?P ?xs ! i)"
      using i(1) nth_mem [of i "takeWhile ?P ?xs"] set_takeWhileD [of _ ?P ?xs]
      unfolding leading_zeros_def by blast
    then show False
      using j i nth [OF i(2)] ji by (simp add: takeWhile_nth leading_zeros_def)
  qed
  show "b < LENGTH('a)" by (simp add: b_def)
qed

text \<open>A search from the end of an enumerated list finds the last element that qualifies.\<close>

lemma sum_list_bound: "\<forall>x \<in> set xs. f x \<le> (n :: nat) \<Longrightarrow> sum_list (map f xs) \<le> length xs * n"
  by (induction xs) (auto simp: add_mono)

lemma find_rev_enumerate_None:
  "find (\<lambda>(i, w). P w) (rev (enumerate n ws)) = None \<longleftrightarrow> (\<forall>w \<in> set ws. \<not> P w)"
proof -
  have "set ws = snd ` set (enumerate n ws)" by (metis list.set_map map_snd_enumerate)
  then show ?thesis by (force simp: find_None_iff)
qed

lemma find_rev_enumerate_Some:
  assumes "find (\<lambda>(i, w). P w) (rev (enumerate 0 ws)) = Some (i, w)"
  shows "i < length ws \<and> w = ws ! i \<and> P w \<and> (\<forall>j. i < j \<and> j < length ws \<longrightarrow> \<not> P (ws ! j))"
  using assms
proof (induction ws rule: rev_induct)
  case Nil
  then show ?case by simp
next
  case (snoc x ws)
  then show ?case
    by (auto simp: enumerate_append_eq nth_append less_Suc_eq split: if_splits)
qed

end
