(* ===== verification/Vtsc.thy ===== *)
theory Vtsc
  imports Prelude
begin

text \<open>
  The virtual clock of \<open>src/src/vtsc.rs\<close>. A \<open>VirtualClock\<close> holds a handle on a shared
  cell (\<open>Rc<Cell<i64>>\<close>) with the TSC offset, so the cells are an explicit store and a
  clone of a clock is a clock on the same cell. The host TSC and the KVM vCPU are outside
  the program: a host sample is an argument, and the two device-attribute calls on the
  vCPU are parameters.
\<close>

section \<open>The frequency module\<close>

record TscFrequency =
  freq_hz :: u64

definition from_hz :: "u64 \<Rightarrow> (unit, TscFrequency) outcome" where
  "from_hz h = (if h > 0 then Ok \<lparr>freq_hz = h\<rparr> else Panic)"

definition from_khz :: "u32 \<Rightarrow> (unit, TscFrequency) outcome" where
  "from_khz khz = from_hz (ucast khz * 1000)"

definition hz :: "TscFrequency \<Rightarrow> u64" where
  "hz f = freq_hz f"

definition khz :: "TscFrequency \<Rightarrow> u64" where
  "khz f = freq_hz f div 1000"

definition cycles_to_ns :: "TscFrequency \<Rightarrow> u64 \<Rightarrow> u64" where
  "cycles_to_ns f cycles =
     ucast ((ucast cycles * 1000000000 :: u128) div ucast (freq_hz f))"

definition ns_to_cycles :: "TscFrequency \<Rightarrow> u64 \<Rightarrow> u64" where
  "ns_to_cycles f ns =
     ucast ((ucast ns * ucast (freq_hz f) :: u128) div 1000000000)"

section \<open>The clock\<close>

type_synonym cell_id = nat
type_synonym cells = "cell_id \<Rightarrow> i64"

record VirtualClock =
  vc_cell :: cell_id
  vc_freq :: TscFrequency

text \<open>What the process sees of the host: the contents of the cells and the TSC's value.\<close>

record host =
  host_cells :: cells
  host_rdtsc :: u64

datatype VtscError =
    KhzFailed
  | ZeroFrequency
  | OffsetUnavailable
  | GetOffsetFailed
  | OffsetOverflow i64 i64
  | SetOffsetFailed

definition clock_new :: "cells \<Rightarrow> cell_id \<Rightarrow> i64 \<Rightarrow> TscFrequency \<Rightarrow> cells \<times> VirtualClock" where
  "clock_new cs c off f = (cs(c := off), \<lparr>vc_cell = c, vc_freq = f\<rparr>)"

text \<open>\<open>#[derive(Clone)]\<close>: an \<open>Rc\<close> clone is the same cell.\<close>

definition clock_clone :: "VirtualClock \<Rightarrow> VirtualClock" where
  "clock_clone clk = \<lparr>vc_cell = vc_cell clk, vc_freq = vc_freq clk\<rparr>"

text \<open>
  The device-attribute ioctls on the vCPU are parameters: \<open>has_attr\<close> and \<open>get_attr\<close> are
  \<open>KVM_HAS_DEVICE_ATTR\<close> and \<open>KVM_GET_DEVICE_ATTR\<close> on the offset attribute, \<open>set_attr\<close>
  is \<open>KVM_SET_DEVICE_ATTR\<close> with the vCPU after it, and \<open>get_khz\<close> is \<open>KVM_GET_TSC_KHZ\<close>;
  \<open>None\<close> is a failed call.
\<close>

definition read_tsc_offset ::
  "('v \<Rightarrow> bool) \<Rightarrow> ('v \<Rightarrow> i64 option) \<Rightarrow> 'v \<Rightarrow> (VtscError, i64) outcome" where
  "read_tsc_offset has_attr get_attr vcpu =
     (if \<not> has_attr vcpu then Err OffsetUnavailable
      else case get_attr vcpu of None \<Rightarrow> Err GetOffsetFailed | Some off \<Rightarrow> Ok off)"

definition write_tsc_offset ::
  "('v \<Rightarrow> i64 \<Rightarrow> 'v option) \<Rightarrow> 'v \<Rightarrow> i64 \<Rightarrow> (VtscError, 'v) outcome" where
  "write_tsc_offset set_attr vcpu off =
     (case set_attr vcpu off of None \<Rightarrow> Err SetOffsetFailed | Some vcpu' \<Rightarrow> Ok vcpu')"

definition from_vcpu ::
  "('v \<Rightarrow> u32 option) \<Rightarrow> ('v \<Rightarrow> bool) \<Rightarrow> ('v \<Rightarrow> i64 option) \<Rightarrow> cells \<Rightarrow> cell_id \<Rightarrow> 'v
     \<Rightarrow> (VtscError, cells \<times> VirtualClock) outcome" where
  "from_vcpu get_khz has_attr get_attr cs c vcpu =
     (case get_khz vcpu of
        None \<Rightarrow> Err KhzFailed
      | Some k \<Rightarrow>
          if k = 0 then Err ZeroFrequency
          else (case from_khz k of
                  Ok f \<Rightarrow>
                    bind_outcome (read_tsc_offset has_attr get_attr vcpu)
                      (\<lambda>off. Ok (clock_new cs c off f))
                | _ \<Rightarrow> Panic))"

definition tsc_offset :: "cells \<Rightarrow> VirtualClock \<Rightarrow> i64" where
  "tsc_offset cs clk = cs (vc_cell clk)"

text \<open>The sum is formed in \<open>i128\<close>, where it cannot overflow, and truncated to \<open>u64\<close>.\<close>

definition vtsc_from_host :: "cells \<Rightarrow> VirtualClock \<Rightarrow> u64 \<Rightarrow> u64" where
  "vtsc_from_host cs clk h = word_of_int (uint h + sint (tsc_offset cs clk))"

definition vtsc_now :: "host \<Rightarrow> VirtualClock \<Rightarrow> u64" where
  "vtsc_now env clk = vtsc_from_host (host_cells env) clk (host_rdtsc env)"

text \<open>Write-through: the cell is written only after the attribute write succeeds.\<close>

definition bump_offset ::
  "('v \<Rightarrow> i64 \<Rightarrow> 'v option) \<Rightarrow> cells \<Rightarrow> VirtualClock \<Rightarrow> 'v \<Rightarrow> i64 \<Rightarrow> (VtscError, cells \<times> 'v) outcome" where
  "bump_offset set_attr cs clk vcpu delta =
     (if sint delta < 0 then Panic
      else let old = tsc_offset cs clk
           in case checked_add_i64 old delta of
                None \<Rightarrow> Err (OffsetOverflow old delta)
              | Some new \<Rightarrow>
                  bind_outcome (write_tsc_offset set_attr vcpu new)
                    (\<lambda>vcpu'. Ok (cs(vc_cell clk := new), vcpu')))"

section \<open>Conversions\<close>

lemma unat_cycles_to_ns:
  "unat (cycles_to_ns f c) = unat c * 1000000000 div unat (freq_hz f) mod 2 ^ 64"
proof -
  have "unat c * 1000000000 < 2 ^ 64 * 1000000000"
    using unat_u64_bound [of c] by simp
  then have "unat (ucast c * 1000000000 :: u128) = unat c * 1000000000"
    by (subst unat_u128_mult) simp_all
  then show ?thesis
    by (simp add: cycles_to_ns_def unat_u64_of_u128 unat_div)
qed

lemma unat_ns_to_cycles:
  "unat (ns_to_cycles f n) = unat n * unat (freq_hz f) div 1000000000 mod 2 ^ 64"
  by (simp add: ns_to_cycles_def unat_u64_of_u128 unat_div unat_u128_mult_u64)

lemma from_khz_Ok: "k \<noteq> 0 \<Longrightarrow> \<exists>f. from_khz k = Ok f \<and> unat (freq_hz f) = unat k * 1000"
proof -
  assume "k \<noteq> 0"
  then have pos: "0 < unat k" by (simp add: unat_gt_0)
  have b: "unat k * 1000 < 2 ^ 64" using unat_u32_bound [of k] by simp
  have "unat (ucast k :: u64) = unat k"
    using unat_u32_bound [of k] by (simp add: unsigned_ucast_eq take_bit_nat_eq_self)
  then have u: "unat (ucast k * 1000 :: u64) = unat k * 1000"
    using b by (simp add: unat_word_ariths)
  then have "ucast k * 1000 > (0 :: u64)" using pos by (simp add: word_less_nat_alt)
  then show ?thesis using u by (simp add: from_khz_def from_hz_def)
qed

section \<open>The clock under a jump\<close>

lemma vtsc_from_host_eq: "vtsc_from_host cs clk h = h + tsc_offset cs clk"
  by (simp add: vtsc_from_host_def)

lemma bump_offset_Ok:
  assumes "bump_offset set_attr cs clk vcpu delta = Ok (cs', vcpu')"
  shows "cs' = cs(vc_cell clk := tsc_offset cs clk + delta)"
    and "set_attr vcpu (tsc_offset cs clk + delta) = Some vcpu'"
    and "0 \<le> sint delta"
    and "sint (tsc_offset cs clk + delta) = sint (tsc_offset cs clk) + sint delta"
proof -
  from assms obtain new where
      new: "checked_add_i64 (tsc_offset cs clk) delta = Some new"
    and set: "set_attr vcpu new = Some vcpu'" and cs': "cs' = cs(vc_cell clk := new)"
    and nn: "0 \<le> sint delta"
    by (auto simp: bump_offset_def write_tsc_offset_def Let_def split: if_splits option.splits)
  have sum: "new = tsc_offset cs clk + delta"
    using new by (auto simp: checked_add_i64_def Let_def split: if_splits)
  show "cs' = cs(vc_cell clk := tsc_offset cs clk + delta)" using cs' sum by simp
  show "set_attr vcpu (tsc_offset cs clk + delta) = Some vcpu'" using set sum by simp
  show "0 \<le> sint delta" by (rule nn)
  show "sint (tsc_offset cs clk + delta) = sint (tsc_offset cs clk) + sint delta"
    using checked_add_i64_Some [OF new] sum by simp
qed

lemma vtsc_from_host_bump:
  assumes "bump_offset set_attr cs clk vcpu delta = Ok (cs', vcpu')"
    and "vc_cell other = vc_cell clk"
  shows "vtsc_from_host cs' other h = vtsc_from_host cs other h + delta"
  using bump_offset_Ok (1) [OF assms(1)] assms(2)
  by (simp add: vtsc_from_host_eq tsc_offset_def)

lemma tsc_offset_clone [simp]: "tsc_offset cs (clock_clone clk) = tsc_offset cs clk"
  by (simp add: tsc_offset_def clock_clone_def)

section \<open>Properties\<close>

text \<open>
  C15. A fast-forward jump lands exactly. If the clock is bumped by the distance from its
  reading at a host sample \<open>h\<close> to a deadline, then at the same sample every clone reads
  exactly that deadline, every other sample is shifted by the same distance, the offset
  KVM holds for the guest equals the cached one, and the signed offset has not decreased.
  The one hypothesis on KVM is that a successful write of the attribute stores it.
\<close>

theorem jump_lands_exactly:
  assumes kvm: "\<And>v off v'. set_attr v off = Some v' \<Longrightarrow> kvm_offset v' = off"
    and bump: "bump_offset set_attr cs clk vcpu (deadline - vtsc_from_host cs clk h) = Ok (cs', vcpu')"
  shows "vtsc_from_host cs' (clock_clone clk) h = deadline
    \<and> (\<forall>h'. vtsc_from_host cs' clk h' = vtsc_from_host cs clk h' + (deadline - vtsc_from_host cs clk h))
    \<and> kvm_offset vcpu' = tsc_offset cs' clk
    \<and> sint (tsc_offset cs clk) \<le> sint (tsc_offset cs' clk)"
proof (intro conjI allI)
  note ok = bump_offset_Ok [OF bump]
  show "vtsc_from_host cs' (clock_clone clk) h = deadline"
    using vtsc_from_host_bump [OF bump, of "clock_clone clk" h]
    by (simp add: clock_clone_def vtsc_from_host_eq tsc_offset_def)
  show "vtsc_from_host cs' clk h' = vtsc_from_host cs clk h' + (deadline - vtsc_from_host cs clk h)" for h'
    by (rule vtsc_from_host_bump [OF bump refl])
  show "kvm_offset vcpu' = tsc_offset cs' clk"
    using kvm [OF ok(2)] ok(1) by (simp add: tsc_offset_def)
  show "sint (tsc_offset cs clk) \<le> sint (tsc_offset cs' clk)"
    using ok by (simp add: tsc_offset_def)
qed

theorem jump_lands_exactly_witness:
  "bump_offset (\<lambda>v off. Some off) (\<lambda>_. 100) \<lparr>vc_cell = 0, vc_freq = \<lparr>freq_hz = 3000000000\<rparr>\<rparr> 7
      (5000 - vtsc_from_host (\<lambda>_. 100) \<lparr>vc_cell = 0, vc_freq = \<lparr>freq_hz = 3000000000\<rparr>\<rparr> 1000)
     = Ok ((\<lambda>_. 100)(0 := 4000), 4000)
   \<and> vtsc_from_host ((\<lambda>_. 100)(0 := 4000))
       (clock_clone \<lparr>vc_cell = 0, vc_freq = \<lparr>freq_hz = 3000000000\<rparr>\<rparr>) 1000 = 5000"
proof -
  let ?clk = "\<lparr>vc_cell = 0, vc_freq = \<lparr>freq_hz = 3000000000\<rparr>\<rparr>"
  have b: "bump_offset (\<lambda>v off. Some off) (\<lambda>_. 100) ?clk 7 (5000 - vtsc_from_host (\<lambda>_. 100) ?clk 1000)
     = Ok ((\<lambda>_. 100)(0 := 4000), 4000)"
    by (simp add: bump_offset_def write_tsc_offset_def vtsc_from_host_def tsc_offset_def checked_add_i64_def)
  show ?thesis
    using b jump_lands_exactly [of "\<lambda>v off. Some off" "\<lambda>v. v", OF _ b] by simp
qed

text \<open>
  A nanosecond timeout converted to cycles and back never grows and loses less than one
  cycle plus one nanosecond, provided the cycle count fits 64 bits: the park never oversleeps
  a deadline through rounding.
\<close>

theorem ns_cycles_rounding:
  assumes "freq_hz f > 0"
    and "unat ns * unat (freq_hz f) div 1000000000 < 2 ^ 64"
  shows "unat (cycles_to_ns f (ns_to_cycles f ns)) \<le> unat ns
    \<and> (unat ns - unat (cycles_to_ns f (ns_to_cycles f ns))) * unat (freq_hz f)
        < 1000000000 + unat (freq_hz f)"
proof -
  define H where "H = unat (freq_hz f)"
  define n where "n = unat ns"
  define c where "c = n * H div 1000000000"
  define r where "r = c * 1000000000 div H"
  have H: "0 < H" using assms(1) by (simp add: H_def word_less_nat_alt)
  have c: "unat (ns_to_cycles f ns) = c"
    using assms(2) by (simp add: unat_ns_to_cycles c_def n_def H_def)
  have "c * 1000000000 \<le> n * H" by (simp add: c_def)
  then have "r \<le> n * H div H" unfolding r_def by (rule div_le_mono)
  then have rn: "r \<le> n" using H by simp
  then have "r < 2 ^ 64" using unat_u64_bound [of ns] by (simp add: n_def)
  then have r: "unat (cycles_to_ns f (ns_to_cycles f ns)) = r"
    by (simp add: unat_cycles_to_ns c r_def H_def)
  have c_gt: "n * H < c * 1000000000 + 1000000000"
    using mod_less_divisor [of 1000000000 "n * H"] div_mult_mod_eq [of "n * H" 1000000000]
    unfolding c_def by linarith
  have r_gt: "c * 1000000000 < r * H + H"
    using mod_less_divisor [OF H, of "c * 1000000000"] div_mult_mod_eq [of "c * 1000000000" H]
    unfolding r_def by linarith
  have "(n - r) * H = n * H - r * H" by (simp add: diff_mult_distrib)
  then have "(n - r) * H < 1000000000 + H" using c_gt r_gt by linarith
  then show ?thesis using r rn by (simp add: n_def H_def)
qed

theorem ns_cycles_rounding_witness:
  "unat (cycles_to_ns \<lparr>freq_hz = 3072000000\<rparr> (ns_to_cycles \<lparr>freq_hz = 3072000000\<rparr> 1001)) \<le> 1001
   \<and> ns_to_cycles \<lparr>freq_hz = 3072000000\<rparr> 1001 = 3075"
  using ns_cycles_rounding [of "\<lparr>freq_hz = 3072000000\<rparr>" 1001]
  by (simp add: ns_to_cycles_def)

text \<open>
  The conversions form the product in 128 bits but truncate the quotient to 64: at 4 GHz a
  nanosecond count of \<open>2^62\<close> converts to zero cycles.
\<close>

lemma ns_to_cycles_truncates: "ns_to_cycles \<lparr>freq_hz = 4000000000\<rparr> (2 ^ 62) = 0"
  by (simp add: ns_to_cycles_def)

end
