(* ===== verification/Events.thy ===== *)
theory Events
  imports Prelude "HOL-Library.Product_Lexorder" "HOL-Library.Multiset"
begin

text \<open>
  The event queue of \<open>src/src/events.rs\<close>: a priority queue of \<open>(vtsc, payload)\<close> entries,
  earliest deadline first and first-in first-out among equal deadlines. The
  \<open>std::collections::BinaryHeap\<close> underneath is modelled by what it promises: a bag of
  elements whose \<open>peek\<close> and \<open>pop\<close> select a greatest element in the element type's \<open>Ord\<close>.
  The locale \<open>event_queue\<close> is the contract the run loop relies on, stated over the
  abstract list of pending entries; it is interpreted on the operations of this theory.
\<close>

section \<open>Events and their order\<close>

datatype ordering = Less | Equal | Greater

fun then_with :: "ordering \<Rightarrow> ordering \<Rightarrow> ordering" where
  "then_with Equal o2 = o2"
| "then_with o1 _ = o1"

definition cmp_u64 :: "u64 \<Rightarrow> u64 \<Rightarrow> ordering" where
  "cmp_u64 a b = (if a < b then Less else if a = b then Equal else Greater)"

record 't Event =
  deadline :: u64
  payload :: 't
  seq :: u64

definition event_eq :: "'t Event \<Rightarrow> 't Event \<Rightarrow> bool" where
  "event_eq a b \<longleftrightarrow> deadline a = deadline b \<and> seq a = seq b"

text \<open>The reversed comparison: an earlier deadline, then an earlier \<open>seq\<close>, is greater.\<close>

definition event_cmp :: "'t Event \<Rightarrow> 't Event \<Rightarrow> ordering" where
  "event_cmp a b = then_with (cmp_u64 (deadline b) (deadline a)) (cmp_u64 (seq b) (seq a))"

section \<open>The heap\<close>

text \<open>The greatest element of the bag in \<open>event_cmp\<close>.\<close>

fun heap_peek :: "'t Event list \<Rightarrow> 't Event option" where
  "heap_peek [] = None"
| "heap_peek (e # es) =
     (case heap_peek es of
        None \<Rightarrow> Some e
      | Some m \<Rightarrow> if event_cmp e m = Greater then Some e else Some m)"

definition heap_pop :: "'t Event list \<Rightarrow> 't Event option \<times> 't Event list" where
  "heap_pop es =
     (case heap_peek es of None \<Rightarrow> (None, es) | Some m \<Rightarrow> (Some m, remove1 m es))"

section \<open>The queue\<close>

record 't EventQueue =
  heap :: "'t Event list"
  next_seq :: u64

definition eq_new :: "'t EventQueue" where
  "eq_new = \<lparr>heap = [], next_seq = 0\<rparr>"

definition eq_len :: "'t EventQueue \<Rightarrow> nat" where
  "eq_len q = length (heap q)"

definition eq_is_empty :: "'t EventQueue \<Rightarrow> bool" where
  "eq_is_empty q \<longleftrightarrow> heap q = []"

definition eq_push :: "'t EventQueue \<Rightarrow> u64 \<Rightarrow> 't \<Rightarrow> 't EventQueue" where
  "eq_push q d p =
     \<lparr>heap = \<lparr>deadline = d, payload = p, seq = next_seq q\<rparr> # heap q, next_seq = next_seq q + 1\<rparr>"

definition eq_peek_deadline :: "'t EventQueue \<Rightarrow> u64 option" where
  "eq_peek_deadline q = map_option deadline (heap_peek (heap q))"

definition eq_clear :: "'t EventQueue \<Rightarrow> 't EventQueue" where
  "eq_clear q = q\<lparr>heap := []\<rparr>"

definition eq_pop_due :: "'t EventQueue \<Rightarrow> u64 \<Rightarrow> 't Event option \<times> 't EventQueue" where
  "eq_pop_due q now =
     (case heap_peek (heap q) of
        Some e \<Rightarrow>
          if deadline e \<le> now then
            (let (m, es) = heap_pop (heap q) in (m, q\<lparr>heap := es\<rparr>))
          else (None, q)
      | None \<Rightarrow> (None, q))"

section \<open>The contract\<close>

text \<open>
  Entries in the order they fire. \<open>enter\<close> puts a new entry behind every entry with the same
  or an earlier deadline.
\<close>

fun enter :: "u64 \<Rightarrow> 't \<Rightarrow> (u64 \<times> 't) list \<Rightarrow> (u64 \<times> 't) list" where
  "enter d p [] = [(d, p)]"
| "enter d p ((d', p') # xs) =
     (if d < d' then (d, p) # (d', p') # xs else (d', p') # enter d p xs)"

lemma set_enter: "set (enter d p xs) = insert (d, p) (set xs)"
  by (induction d p xs rule: enter.induct) (auto split: if_splits)

lemma sorted_enter: "sorted (map fst xs) \<Longrightarrow> sorted (map fst (enter d p xs))"
  by (induction d p xs rule: enter.induct) (auto simp: set_enter split: if_splits)

lemma length_enter: "length (enter d p xs) = Suc (length xs)"
  by (induction d p xs rule: enter.induct) auto

locale event_queue =
  fixes new :: 'q
    and push :: "'q \<Rightarrow> u64 \<Rightarrow> 't \<Rightarrow> 'q"
    and peek_deadline :: "'q \<Rightarrow> u64 option"
    and pop_due :: "'q \<Rightarrow> u64 \<Rightarrow> 't Event option \<times> 'q"
    and clear :: "'q \<Rightarrow> 'q"
    and pending :: "'q \<Rightarrow> (u64 \<times> 't) list"
    and room :: "'q \<Rightarrow> bool"
    and invar :: "'q \<Rightarrow> bool"
  assumes invar_new: "invar new"
    and pending_new: "pending new = []"
    and invar_push: "invar q \<Longrightarrow> room q \<Longrightarrow> invar (push q d p)"
    and pending_push: "invar q \<Longrightarrow> room q \<Longrightarrow> pending (push q d p) = enter d p (pending q)"
    and invar_clear: "invar q \<Longrightarrow> invar (clear q)"
    and pending_clear: "pending (clear q) = []"
    and pending_sorted: "invar q \<Longrightarrow> sorted (map fst (pending q))"
    and peek_pending:
      "invar q \<Longrightarrow> peek_deadline q = (case pending q of [] \<Rightarrow> None | x # _ \<Rightarrow> Some (fst x))"
    and pop_due_None:
      "invar q \<Longrightarrow> (\<forall>x \<in> set (pending q). now < fst x) \<Longrightarrow> pop_due q now = (None, q)"
    and pop_due_Some:
      "invar q \<Longrightarrow> pending q = (d, p) # xs \<Longrightarrow> d \<le> now \<Longrightarrow>
         \<exists>e q'. pop_due q now = (Some e, q') \<and> deadline e = d \<and> payload e = p
              \<and> pending q' = xs \<and> invar q'"
begin

lemma pop_due_cases:
  assumes "invar q"
  obtains (none) "pop_due q now = (None, q)" "\<forall>x \<in> set (pending q). now < fst x"
  | (due) e q' where "pop_due q now = (Some e, q')" "pending q = (deadline e, payload e) # pending q'"
      "deadline e \<le> now" "invar q'"
proof (cases "pending q")
  case Nil
  then show thesis using none pop_due_None [OF assms, of now] by simp
next
  case (Cons x xs)
  obtain d p where x: "x = (d, p)" by (cases x)
  show thesis
  proof (cases "d \<le> now")
    case True
    then show thesis using due pop_due_Some [OF assms, of d p xs now] Cons x by force
  next
    case False
    have "\<forall>y \<in> set (pending q). now < fst y"
      using pending_sorted [OF assms] Cons x False by force
    then show thesis using none pop_due_None [OF assms] by blast
  qed
qed

lemma peek_is_minimum:
  assumes "invar q" and "peek_deadline q = Some d"
  shows "\<forall>x \<in> set (pending q). d \<le> fst x"
  using peek_pending [OF assms(1)] pending_sorted [OF assms(1)] assms(2)
  by (auto split: list.splits)

lemma peek_None_iff: "invar q \<Longrightarrow> peek_deadline q = None \<longleftrightarrow> pending q = []"
  by (simp add: peek_pending split: list.splits)

end

section \<open>The heap selects the least entry\<close>

abbreviation key :: "'t Event \<Rightarrow> u64 \<times> u64" where
  "key e \<equiv> (deadline e, seq e)"

lemma event_cmp_Greater: "event_cmp a b = Greater \<longleftrightarrow> key a < key b"
  by (auto simp: event_cmp_def cmp_u64_def less_prod_def split: if_splits)

lemma heap_peek_None [simp]: "heap_peek es = None \<longleftrightarrow> es = []"
  by (cases es) (auto split: option.splits)

lemma heap_peek_least:
  "heap_peek es = Some m \<Longrightarrow> m \<in> set es \<and> (\<forall>e \<in> set es. key m \<le> key e)"
proof (induction es arbitrary: m)
  case Nil
  then show ?case by simp
next
  case (Cons e es)
  show ?case
  proof (cases "heap_peek es")
    case None
    then show ?thesis using Cons.prems by simp
  next
    case (Some k)
    then show ?thesis
      using Cons.prems Cons.IH [OF Some]
      by (auto simp: event_cmp_Greater not_less simp del: less_prod_simp less_eq_prod_simp
          split: if_splits intro: order_trans less_imp_le)
  qed
qed

definition eq_pending :: "'t EventQueue \<Rightarrow> (u64 \<times> 't) list" where
  "eq_pending q = map (\<lambda>e. (deadline e, payload e)) (sort_key key (heap q))"

definition eq_room :: "'t EventQueue \<Rightarrow> bool" where
  "eq_room q \<longleftrightarrow> next_seq q \<noteq> - 1"

definition eq_invar :: "'t EventQueue \<Rightarrow> bool" where
  "eq_invar q \<longleftrightarrow> distinct (map seq (heap q)) \<and> (\<forall>e \<in> set (heap q). seq e < next_seq q)"

lemma distinct_seq_inj_key: "distinct (map seq es) \<Longrightarrow> inj_on key (set es)"
  by (auto simp: distinct_map inj_on_def)

lemma heap_peek_sort_key:
  assumes "distinct (map seq es)"
  shows "heap_peek es = (case sort_key key es of [] \<Rightarrow> None | x # _ \<Rightarrow> Some x)"
proof (cases "heap_peek es")
  case None
  then show ?thesis by simp
next
  case (Some m)
  then have m: "m \<in> set es" "\<forall>e \<in> set es. key m \<le> key e"
    by (auto dest: heap_peek_least simp del: less_eq_prod_simp)
  have set_eq: "set (sort_key key es) = set es" by simp
  obtain x xs where sk: "sort_key key es = x # xs"
    using m(1) set_eq by (cases "sort_key key es") (auto simp del: set_sort)
  have x: "x \<in> set es" and mx: "m = x \<or> m \<in> set xs"
    using set_eq m(1) unfolding sk by auto
  have "sorted (map key (x # xs))" using sorted_sort_key [of key es] unfolding sk .
  then have "key x \<le> key m" using mx by (auto simp del: less_eq_prod_simp)
  then have "key x = key m" by (rule order_antisym) (use m(2) x in blast)
  then have "x = m"
    using distinct_seq_inj_key [OF assms] x m(1) by (auto simp: inj_on_def)
  then show ?thesis using Some sk by simp
qed

section \<open>The queue implements the contract\<close>

lemma map_insort_key_enter:
  assumes "\<forall>x \<in> set xs. seq x < seq e"
  shows "map (\<lambda>e. (deadline e, payload e)) (insort_key key e xs)
       = enter (deadline e) (payload e) (map (\<lambda>e. (deadline e, payload e)) xs)"
  using assms
proof (induction xs)
  case Nil
  then show ?case by simp
next
  case (Cons x xs)
  then have "key e \<le> key x \<longleftrightarrow> deadline e < deadline x" by (auto simp: not_le)
  with Cons show ?case by (simp del: less_eq_prod_simp)
qed

lemma eq_pending_push:
  assumes "eq_invar q"
  shows "eq_pending (eq_push q d p) = enter d p (eq_pending q)"
proof -
  let ?e = "\<lparr>deadline = d, payload = p, seq = next_seq q\<rparr>"
  have "\<forall>x \<in> set (sort_key key (heap q)). seq x < seq ?e"
    using assms by (simp add: eq_invar_def)
  from map_insort_key_enter [OF this] show ?thesis
    by (simp add: eq_pending_def eq_push_def)
qed

lemma eq_invar_push:
  assumes "eq_invar q" and "eq_room q"
  shows "eq_invar (eq_push q d p)"
proof -
  have lt: "next_seq q < next_seq q + 1"
    using assms(2) by (simp add: eq_room_def word_less_add_one)
  have "distinct (map seq (heap (eq_push q d p)))"
    using assms(1) by (auto simp: eq_invar_def eq_push_def)
  moreover have "\<forall>e \<in> set (heap (eq_push q d p)). seq e < next_seq (eq_push q d p)"
    using assms(1) lt by (auto simp: eq_invar_def eq_push_def)
  ultimately show ?thesis by (simp add: eq_invar_def)
qed

lemma sort_key_remove1_head:
  assumes "distinct (map seq es)" and "sort_key key es = m # xs"
  shows "sort_key key (remove1 m es) = xs"
proof (rule sort_key_inj_key_eq)
  have "mset (sort_key key es) = mset es" by simp
  then have ms: "mset es = add_mset m (mset xs)" unfolding assms(2) by simp
  then show "mset (remove1 m es) = mset xs" by simp
  have "set (remove1 m es) \<subseteq> set es" by (rule set_remove1_subset)
  with distinct_seq_inj_key [OF assms(1)] show "inj_on key (set (remove1 m es))"
    by (rule inj_on_subset)
  have "sorted (map key (m # xs))" using sorted_sort_key [of key es] unfolding assms(2) .
  then show "sorted (map key xs)" by simp
qed

lemma eq_invar_remove:
  assumes "eq_invar q"
  shows "eq_invar (q\<lparr>heap := remove1 m (heap q)\<rparr>)"
proof -
  have "set (remove1 m (heap q)) \<subseteq> set (heap q)" by (rule set_remove1_subset)
  then have "inj_on seq (set (remove1 m (heap q)))" "\<forall>e \<in> set (remove1 m (heap q)). seq e < next_seq q"
    using assms by (auto simp only: eq_invar_def distinct_map intro: inj_on_subset)
  then show ?thesis
    using assms by (simp add: eq_invar_def distinct_map del: set_remove1_eq)
qed

interpretation evq: event_queue eq_new eq_push eq_peek_deadline eq_pop_due eq_clear
    eq_pending eq_room eq_invar
proof (unfold_locales, goal_cases)
  case 1
  show ?case by (simp add: eq_invar_def eq_new_def)
next
  case 2
  show ?case by (simp add: eq_pending_def eq_new_def)
next
  case 3
  then show ?case by (rule eq_invar_push)
next
  case 4
  then show ?case by (simp add: eq_pending_push)
next
  case 5
  then show ?case by (simp add: eq_invar_def eq_clear_def)
next
  case 6
  show ?case by (simp add: eq_pending_def eq_clear_def)
next
  case (7 q)
  have "sorted (map key (sort_key key (heap q)))" by (rule sorted_sort_key)
  then have "sorted_wrt (\<lambda>x y. key x \<le> key y) (sort_key key (heap q))"
    by (simp add: sorted_wrt_map del: less_eq_prod_simp)
  then have "sorted_wrt (\<lambda>x y. deadline x \<le> deadline y) (sort_key key (heap q))"
    by (rule sorted_wrt_mono_rel [rotated]) auto
  then show ?case by (simp add: eq_pending_def sorted_wrt_map)
next
  case (8 q)
  then show ?case
    by (simp add: eq_pending_def eq_peek_deadline_def heap_peek_sort_key eq_invar_def split: list.splits)
next
  case (9 q now)
  then have hp: "heap_peek (heap q) = (case sort_key key (heap q) of [] \<Rightarrow> None | x # _ \<Rightarrow> Some x)"
    by (intro heap_peek_sort_key) (simp add: eq_invar_def)
  show ?case
  proof (cases "sort_key key (heap q)")
    case Nil
    then show ?thesis using hp by (simp add: eq_pop_due_def)
  next
    case (Cons x xs)
    then have "now < deadline x" using 9(2) by (simp add: eq_pending_def del: set_sort)
    then show ?thesis using hp Cons by (auto simp: eq_pop_due_def)
  qed
next
  case (10 q d p xs now)
  then obtain m ms where sk: "sort_key key (heap q) = m # ms"
    and m: "deadline m = d" "payload m = p"
    and xs: "xs = map (\<lambda>e. (deadline e, payload e)) ms"
    by (auto simp: eq_pending_def)
  have dist: "distinct (map seq (heap q))" using 10(1) by (simp add: eq_invar_def)
  have pk: "heap_peek (heap q) = Some m" using heap_peek_sort_key [OF dist] sk by simp
  have "eq_pop_due q now = (Some m, q\<lparr>heap := remove1 m (heap q)\<rparr>)"
    using pk m 10(3) by (simp add: eq_pop_due_def heap_pop_def)
  moreover have "eq_pending (q\<lparr>heap := remove1 m (heap q)\<rparr>) = xs"
    using sort_key_remove1_head [OF dist sk] xs by (simp add: eq_pending_def)
  ultimately show ?case using m eq_invar_remove [OF 10(1)] by blast
qed

section \<open>Properties\<close>

text \<open>
  C38. \<open>pop_due\<close> hands out pending events in firing order and loses none. It returns an
  event exactly when one is due; that event is the head of the pending list (least deadline,
  first inserted among equals), the rest of the list is what stays pending, and the queue's
  invariant is kept. When nothing is due the queue is unchanged.
\<close>

theorem pop_due_fires_in_order:
  assumes "eq_invar q"
  shows "case eq_pop_due q now of
           (Some e, q') \<Rightarrow> deadline e \<le> now \<and> eq_pending q = (deadline e, payload e) # eq_pending q'
                          \<and> eq_invar q'
         | (None, q') \<Rightarrow> q' = q \<and> (\<forall>x \<in> set (eq_pending q). now < fst x)"
  by (cases rule: evq.pop_due_cases [OF assms, of now]) auto

theorem pop_due_fires_in_order_witness:
  "let q = eq_push (eq_push (eq_push eq_new 20 ''b'') 10 ''a'') 20 ''c'' in
     eq_invar q \<and> (case eq_pop_due q 30 of
           (Some e, q') \<Rightarrow> deadline e \<le> 30 \<and> eq_pending q = (deadline e, payload e) # eq_pending q'
                          \<and> eq_invar q'
         | (None, q') \<Rightarrow> q' = q \<and> (\<forall>x \<in> set (eq_pending q). 30 < fst x))"
proof -
  let ?q = "eq_push (eq_push (eq_push eq_new 20 ''b'') 10 ''a'') 20 ''c''"
  have "eq_invar ?q" by (simp add: eq_invar_def eq_push_def eq_new_def)
  with pop_due_fires_in_order [OF this, of 30] show ?thesis by (simp only: Let_def simp_thms)
qed

text \<open>
  A push refines insertion into the pending list: the new entry goes behind every entry
  with the same or an earlier deadline and before every later one, no other entry moves, and
  the invariant is kept, as long as the 64-bit sequence counter has not reached its last value.
\<close>

theorem push_refines_enter:
  assumes "eq_invar q" and "eq_room q"
  shows "eq_pending (eq_push q d p) = enter d p (eq_pending q) \<and> eq_invar (eq_push q d p)
       \<and> eq_len (eq_push q d p) = Suc (eq_len q)"
  using evq.pending_push [OF assms] evq.invar_push [OF assms]
  by (simp add: eq_len_def eq_push_def)

theorem push_refines_enter_witness:
  "eq_invar (eq_push eq_new 7 True) \<and> eq_room (eq_push eq_new 7 True)
   \<and> eq_pending (eq_push (eq_push eq_new 7 True) 7 False) = [(7, True), (7, False)]"
proof -
  have i: "eq_invar (eq_push eq_new 7 True)" and r: "eq_room (eq_push eq_new 7 True)"
    by (simp_all add: eq_invar_def eq_room_def eq_push_def eq_new_def)
  have "eq_pending (eq_push eq_new 7 True) = [(7, True)]"
    by (simp add: eq_pending_def eq_push_def eq_new_def)
  with push_refines_enter [OF i r, of 7 False] i r show ?thesis by simp
qed

end
