(* ===== verification/Lapic.thy ===== *)
theory Lapic
  imports Vtsc
begin

text \<open>
  The userspace local APIC of \<open>src/src/lapic.rs\<close>: the 256-bit vector registers, priority
  and delivery, the MMIO register file and the one-shot and periodic timer, which is a
  function of the virtual clock. The locale \<open>vector_set\<close> is the contract of the vector
  registers (a finite set with its greatest element); delivery and nesting are proved over it.
  Log lines are not part of the state and are left out.
\<close>

section \<open>Constants\<close>

definition XAPIC_BASE :: u64 where [const_defs]: "XAPIC_BASE = 0xfee00000"
definition XAPIC_LEN :: u64 where [const_defs]: "XAPIC_LEN = 0x1000"
definition DEFAULT_APIC_BUS_HZ :: u64 where [const_defs]: "DEFAULT_APIC_BUS_HZ = 25000000"
definition REG_ID :: u32 where [const_defs]: "REG_ID = 0x020"
definition REG_VERSION :: u32 where [const_defs]: "REG_VERSION = 0x030"
definition REG_TPR :: u32 where [const_defs]: "REG_TPR = 0x080"
definition REG_APR :: u32 where [const_defs]: "REG_APR = 0x090"
definition REG_PPR :: u32 where [const_defs]: "REG_PPR = 0x0a0"
definition REG_EOI :: u32 where [const_defs]: "REG_EOI = 0x0b0"
definition REG_RRD :: u32 where [const_defs]: "REG_RRD = 0x0c0"
definition REG_LDR :: u32 where [const_defs]: "REG_LDR = 0x0d0"
definition REG_DFR :: u32 where [const_defs]: "REG_DFR = 0x0e0"
definition REG_SVR :: u32 where [const_defs]: "REG_SVR = 0x0f0"
definition REG_ISR0 :: u32 where [const_defs]: "REG_ISR0 = 0x100"
definition REG_TMR0 :: u32 where [const_defs]: "REG_TMR0 = 0x180"
definition REG_IRR0 :: u32 where [const_defs]: "REG_IRR0 = 0x200"
definition REG_ESR :: u32 where [const_defs]: "REG_ESR = 0x280"
definition REG_ICR_LOW :: u32 where [const_defs]: "REG_ICR_LOW = 0x300"
definition REG_ICR_HIGH :: u32 where [const_defs]: "REG_ICR_HIGH = 0x310"
definition REG_LVT_TIMER :: u32 where [const_defs]: "REG_LVT_TIMER = 0x320"
definition REG_LVT_THERMAL :: u32 where [const_defs]: "REG_LVT_THERMAL = 0x330"
definition REG_LVT_PERF :: u32 where [const_defs]: "REG_LVT_PERF = 0x340"
definition REG_LVT_LINT0 :: u32 where [const_defs]: "REG_LVT_LINT0 = 0x350"
definition REG_LVT_LINT1 :: u32 where [const_defs]: "REG_LVT_LINT1 = 0x360"
definition REG_LVT_ERROR :: u32 where [const_defs]: "REG_LVT_ERROR = 0x370"
definition REG_TIMER_ICT :: u32 where [const_defs]: "REG_TIMER_ICT = 0x380"
definition REG_TIMER_CCT :: u32 where [const_defs]: "REG_TIMER_CCT = 0x390"
definition REG_TIMER_DCR :: u32 where [const_defs]: "REG_TIMER_DCR = 0x3e0"
definition SVR_ENABLE :: u32 where [const_defs]: "SVR_ENABLE = push_bit 8 1"
definition LVT_MASK :: u32 where [const_defs]: "LVT_MASK = push_bit 16 1"
definition LVT_TIMER_MODE_SHIFT :: nat where [const_defs]: "LVT_TIMER_MODE_SHIFT = 17"
definition LVT_TIMER_MODE_ONESHOT :: u32 where [const_defs]: "LVT_TIMER_MODE_ONESHOT = 0"
definition LVT_TIMER_MODE_PERIODIC :: u32 where [const_defs]: "LVT_TIMER_MODE_PERIODIC = 1"
definition LVT_TIMER_MODE_TSCDEADLINE :: u32 where [const_defs]: "LVT_TIMER_MODE_TSCDEADLINE = 2"
definition LAPIC_VERSION :: u32 where [const_defs]: "LAPIC_VERSION = 0x14 OR push_bit 16 5"

definition in_lapic :: "u64 \<Rightarrow> bool" where
  "in_lapic addr \<longleftrightarrow> XAPIC_BASE \<le> addr \<and> addr < XAPIC_BASE + XAPIC_LEN"

section \<open>Frequencies from CPUID\<close>

text \<open>The \<open>CPUID\<close> instruction is a parameter.\<close>

record CpuidResult =
  eax :: u32
  ebx :: u32
  ecx :: u32
  edx :: u32

definition apic_bus_hz_from_cpuid :: "(u32 \<Rightarrow> CpuidResult) \<Rightarrow> u64" where
  "apic_bus_hz_from_cpuid cpuid =
     (let l15 = cpuid 0x15;
          denom = ucast (eax l15) :: u64;
          numer = ucast (ebx l15) :: u64;
          crystal_hz = ucast (ecx l15) :: u64
      in if crystal_hz \<noteq> 0 then crystal_hz
         else if denom \<noteq> 0 \<and> numer \<noteq> 0 then
           (let base_mhz = ucast (eax (cpuid 0x16)) :: u64
            in if base_mhz \<noteq> 0 then base_mhz * 1000000 * denom div numer
               else DEFAULT_APIC_BUS_HZ)
         else DEFAULT_APIC_BUS_HZ)"

definition apic_timer_tsc_ratio :: "(u32 \<Rightarrow> CpuidResult) \<Rightarrow> u64 \<Rightarrow> u64 \<times> u64" where
  "apic_timer_tsc_ratio cpuid tsc_hz =
     (let l15 = cpuid 0x15;
          den = ucast (eax l15) :: u64;
          num = ucast (ebx l15) :: u64
      in if num \<noteq> 0 \<and> den \<noteq> 0 then (num, den) else (tsc_hz, apic_bus_hz_from_cpuid cpuid))"

section \<open>Vector registers\<close>

record VecBits =
  words :: "u32 list"

definition vb_default :: VecBits where
  "vb_default = \<lparr>words = replicate 8 0\<rparr>"

definition vb_set :: "VecBits \<Rightarrow> u8 \<Rightarrow> VecBits" where
  "vb_set vb vec =
     (let i = unat (drop_bit 5 vec)
      in \<lparr>words = (words vb)[i := words vb ! i OR push_bit (unat (vec AND 31)) 1]\<rparr>)"

definition vb_clear :: "VecBits \<Rightarrow> u8 \<Rightarrow> VecBits" where
  "vb_clear vb vec =
     (let i = unat (drop_bit 5 vec)
      in \<lparr>words = (words vb)[i := words vb ! i AND NOT (push_bit (unat (vec AND 31)) 1)]\<rparr>)"

definition vb_get :: "VecBits \<Rightarrow> u8 \<Rightarrow> bool" where
  "vb_get vb vec \<longleftrightarrow> words vb ! unat (drop_bit 5 vec) AND push_bit (unat (vec AND 31)) 1 \<noteq> 0"

definition vb_highest :: "VecBits \<Rightarrow> u8 option" where
  "vb_highest vb =
     map_option (\<lambda>(i, w). of_nat i * 32 + of_nat (31 - leading_zeros w))
       (find (\<lambda>(i, w). w \<noteq> 0) (rev (enumerate 0 (words vb))))"

section \<open>State\<close>

record Lapic =
  lapic_clock :: VirtualClock
  tsc_per_count_num :: u64
  tsc_per_count_den :: u64
  lapic_id :: u32
  tpr :: u32
  svr :: u32
  ldr :: u32
  dfr :: u32
  esr :: u32
  lvt_timer :: u32
  lvt_thermal :: u32
  lvt_perf :: u32
  lvt_lint0 :: u32
  lvt_lint1 :: u32
  lvt_error :: u32
  irr :: VecBits
  isr :: VecBits
  timer_deadline :: "u64 option"
  timer_period :: u64
  timer_dcr :: u32
  timer_ict :: u32

definition lapic_new :: "VirtualClock \<Rightarrow> u64 \<Rightarrow> u64 \<Rightarrow> (unit, Lapic) outcome" where
  "lapic_new clock num den =
     (if num > 0 \<and> den > 0 then
        Ok \<lparr>lapic_clock = clock, tsc_per_count_num = num, tsc_per_count_den = den,
            lapic_id = 0, tpr = 0, svr = 0xff, ldr = 0, dfr = 0xffffffff, esr = 0,
            lvt_timer = LVT_MASK, lvt_thermal = LVT_MASK, lvt_perf = LVT_MASK,
            lvt_lint0 = LVT_MASK, lvt_lint1 = LVT_MASK, lvt_error = LVT_MASK,
            irr = vb_default, isr = vb_default,
            timer_deadline = None, timer_period = 0, timer_dcr = 0, timer_ict = 0\<rparr>
      else Panic)"

section \<open>Priority and delivery\<close>

definition lapic_enabled :: "Lapic \<Rightarrow> bool" where
  "lapic_enabled l \<longleftrightarrow> svr l AND SVR_ENABLE \<noteq> 0"

definition sync_tpr_from_cr8 :: "Lapic \<Rightarrow> u64 \<Rightarrow> Lapic" where
  "sync_tpr_from_cr8 l cr8 = l\<lparr>tpr := push_bit 4 (ucast (cr8 AND 0xf))\<rparr>"

definition highest_isr :: "Lapic \<Rightarrow> u32" where
  "highest_isr l = (case vb_highest (isr l) of None \<Rightarrow> 0 | Some v \<Rightarrow> ucast v)"

definition highest_irr :: "Lapic \<Rightarrow> u32" where
  "highest_irr l = (case vb_highest (irr l) of None \<Rightarrow> 0 | Some v \<Rightarrow> ucast v)"

definition ppr :: "Lapic \<Rightarrow> u32" where
  "ppr l =
     (let isrv = highest_isr l
      in if isrv AND 0xf0 \<le> tpr l AND 0xf0 then tpr l else isrv AND 0xf0)"

definition deliverable_vector :: "Lapic \<Rightarrow> u8 option" where
  "deliverable_vector l =
     (if \<not> lapic_enabled l then None
      else let irrv = highest_irr l
           in if irrv = 0 then None
              else if ppr l AND 0xf0 < irrv AND 0xf0 then Some (ucast irrv)
              else None)"

definition ack_injected :: "Lapic \<Rightarrow> u8 \<Rightarrow> Lapic" where
  "ack_injected l vec = l\<lparr>irr := vb_clear (irr l) vec, isr := vb_set (isr l) vec\<rparr>"

definition lapic_raise :: "Lapic \<Rightarrow> u8 \<Rightarrow> Lapic" where
  "lapic_raise l vec = l\<lparr>irr := vb_set (irr l) vec\<rparr>"

definition eoi :: "Lapic \<Rightarrow> Lapic" where
  "eoi l = (case vb_highest (isr l) of Some vec \<Rightarrow> l\<lparr>isr := vb_clear (isr l) vec\<rparr> | None \<Rightarrow> l)"

text \<open>
  The two-bit shorthand is at most 3, so the unreachable arm of the source's match is not a
  case here: 3 (all excluding self) reaches nobody.
\<close>

definition write_icr :: "Lapic \<Rightarrow> u32 \<Rightarrow> Lapic" where
  "write_icr l val =
     (let vector = ucast (val AND 0xff) :: u8;
          delivery_mode = drop_bit 8 val AND 0x7;
          dest_shorthand = drop_bit 18 val AND 0x3
      in if delivery_mode \<noteq> 0 then l
         else if dest_shorthand \<le> 2 then lapic_raise l vector
         else l)"

section \<open>Timer\<close>

definition timer_mode :: "Lapic \<Rightarrow> u32" where
  "timer_mode l = drop_bit LVT_TIMER_MODE_SHIFT (lvt_timer l) AND 0x3"

definition timer_vector :: "Lapic \<Rightarrow> u8" where
  "timer_vector l = ucast (lvt_timer l AND 0xff)"

definition timer_masked :: "Lapic \<Rightarrow> bool" where
  "timer_masked l \<longleftrightarrow> lvt_timer l AND LVT_MASK \<noteq> 0"

definition timer_divisor :: "Lapic \<Rightarrow> u64" where
  "timer_divisor l =
     (let code = drop_bit 1 (timer_dcr l AND 0x8) OR (timer_dcr l AND 0x3)
      in if code = 0 then 2 else if code = 1 then 4 else if code = 2 then 8
         else if code = 3 then 16 else if code = 4 then 32 else if code = 5 then 64
         else if code = 6 then 128 else if code = 7 then 1 else 1)"

definition span_from_count :: "Lapic \<Rightarrow> u32 \<Rightarrow> u64" where
  "span_from_count l count =
     ucast ((ucast count :: u128) * ucast (timer_divisor l) * ucast (tsc_per_count_num l)
            div ucast (tsc_per_count_den l))"

definition count_until :: "Lapic \<Rightarrow> u64 \<Rightarrow> u64 \<Rightarrow> u32" where
  "count_until l deadline now =
     (if deadline \<le> now then 0
      else let c = (ucast (deadline - now) :: u128) * ucast (tsc_per_count_den l)
                   div (ucast (timer_divisor l) * ucast (tsc_per_count_num l))
           in ucast (min c (ucast (- 1 :: u32))))"

definition write_lvt_timer :: "Lapic \<Rightarrow> u32 \<Rightarrow> Lapic" where
  "write_lvt_timer l val =
     (let old_mode = timer_mode l; l = l\<lparr>lvt_timer := val\<rparr>
      in if timer_mode l \<noteq> old_mode then l\<lparr>timer_deadline := None, timer_period := 0\<rparr> else l)"

definition write_timer_ict :: "host \<Rightarrow> Lapic \<Rightarrow> u32 \<Rightarrow> Lapic" where
  "write_timer_ict env l val =
     (let l = l\<lparr>timer_ict := val\<rparr>; mode = timer_mode l
      in if mode = LVT_TIMER_MODE_TSCDEADLINE then l
         else if val = 0 then l\<lparr>timer_deadline := None, timer_period := 0\<rparr>
         else let now = vtsc_now env (lapic_clock l); span = span_from_count l val
              in l\<lparr>timer_deadline := Some (now + span),
                   timer_period := (if mode = LVT_TIMER_MODE_PERIODIC then span else 0)\<rparr>)"

definition timer_current_count :: "host \<Rightarrow> Lapic \<Rightarrow> u32" where
  "timer_current_count env l =
     (if timer_mode l = LVT_TIMER_MODE_ONESHOT \<or> timer_mode l = LVT_TIMER_MODE_PERIODIC then
        (case timer_deadline l of
           Some dl \<Rightarrow> count_until l dl (vtsc_now env (lapic_clock l))
         | None \<Rightarrow> 0)
      else 0)"

definition write_tsc_deadline :: "Lapic \<Rightarrow> u64 \<Rightarrow> Lapic" where
  "write_tsc_deadline l dl =
     l\<lparr>timer_deadline := (if dl = 0 then None else Some dl), timer_period := 0\<rparr>"

definition read_tsc_deadline :: "Lapic \<Rightarrow> u64" where
  "read_tsc_deadline l =
     (case timer_deadline l of
        Some dl \<Rightarrow> if timer_mode l = LVT_TIMER_MODE_TSCDEADLINE then dl else 0
      | None \<Rightarrow> 0)"

text \<open>
  The loop that moves a periodic deadline past \<open>now\<close>. Its 64-bit additions wrap, so it need
  not end: a run that never leaves the loop is \<open>None\<close>.
\<close>

partial_function (option) rearm :: "u64 \<Rightarrow> u64 \<Rightarrow> u64 \<Rightarrow> u64 option" where
  "rearm now period next = (if next \<le> now then rearm now period (next + period) else Some next)"

definition fire_timer_if_due :: "Lapic \<Rightarrow> u64 \<Rightarrow> (Lapic \<times> bool) option" where
  "fire_timer_if_due l now =
     (case timer_deadline l of
        Some dl \<Rightarrow>
          if dl \<le> now then
            (case (if timer_period l > 0
                   then map_option (\<lambda>next. l\<lparr>timer_deadline := Some next\<rparr>) (rearm now (timer_period l) dl)
                   else Some (l\<lparr>timer_deadline := None\<rparr>)) of
               None \<Rightarrow> None
             | Some l \<Rightarrow> Some (if timer_masked l then l else lapic_raise l (timer_vector l), True))
          else Some (l, False)
      | None \<Rightarrow> Some (l, False))"

section \<open>MMIO\<close>

definition lapic_mmio_read :: "host \<Rightarrow> Lapic \<Rightarrow> u32 \<Rightarrow> u32" where
  "lapic_mmio_read env l off =
     (if off = REG_ID then push_bit 24 (lapic_id l)
      else if off = REG_VERSION then LAPIC_VERSION
      else if off = REG_TPR then tpr l
      else if off = REG_APR then ppr l
      else if off = REG_PPR then ppr l
      else if off = REG_LDR then ldr l
      else if off = REG_DFR then dfr l
      else if off = REG_SVR then svr l
      else if off = REG_ESR then 0
      else if off = REG_ICR_LOW then 0
      else if off = REG_ICR_HIGH then 0
      else if off = REG_LVT_TIMER then lvt_timer l
      else if off = REG_LVT_THERMAL then lvt_thermal l
      else if off = REG_LVT_PERF then lvt_perf l
      else if off = REG_LVT_LINT0 then lvt_lint0 l
      else if off = REG_LVT_LINT1 then lvt_lint1 l
      else if off = REG_LVT_ERROR then lvt_error l
      else if off = REG_TIMER_ICT then timer_ict l
      else if off = REG_TIMER_CCT then timer_current_count env l
      else if off = REG_TIMER_DCR then timer_dcr l
      else if off = REG_RRD then 0
      else if REG_ISR0 \<le> off \<and> off < REG_ISR0 + 0x80 \<and> off mod 0x10 = 0
        then words (isr l) ! unat ((off - REG_ISR0) div 0x10)
      else if REG_TMR0 \<le> off \<and> off < REG_TMR0 + 0x80 \<and> off mod 0x10 = 0 then 0
      else if REG_IRR0 \<le> off \<and> off < REG_IRR0 + 0x80 \<and> off mod 0x10 = 0
        then words (irr l) ! unat ((off - REG_IRR0) div 0x10)
      else 0)"

definition lapic_mmio_write :: "host \<Rightarrow> Lapic \<Rightarrow> u32 \<Rightarrow> u32 \<Rightarrow> Lapic" where
  "lapic_mmio_write env l off val =
     (if off = REG_ID then l\<lparr>lapic_id := drop_bit 24 val\<rparr>
      else if off = REG_TPR then l\<lparr>tpr := val AND 0xff\<rparr>
      else if off = REG_EOI then eoi l
      else if off = REG_LDR then l\<lparr>ldr := val\<rparr>
      else if off = REG_DFR then l\<lparr>dfr := val\<rparr>
      else if off = REG_SVR then l\<lparr>svr := val\<rparr>
      else if off = REG_ESR then l\<lparr>esr := 0\<rparr>
      else if off = REG_ICR_HIGH then l
      else if off = REG_ICR_LOW then write_icr l val
      else if off = REG_LVT_TIMER then write_lvt_timer l val
      else if off = REG_LVT_THERMAL then l\<lparr>lvt_thermal := val\<rparr>
      else if off = REG_LVT_PERF then l\<lparr>lvt_perf := val\<rparr>
      else if off = REG_LVT_LINT0 then l\<lparr>lvt_lint0 := val\<rparr>
      else if off = REG_LVT_LINT1 then l\<lparr>lvt_lint1 := val\<rparr>
      else if off = REG_LVT_ERROR then l\<lparr>lvt_error := val\<rparr>
      else if off = REG_TIMER_ICT then write_timer_ict env l val
      else if off = REG_TIMER_DCR then l\<lparr>timer_dcr := val\<rparr>
      else l)"

section \<open>Vector registers are finite sets with a greatest element\<close>

locale vector_set =
  fixes put :: "'b \<Rightarrow> u8 \<Rightarrow> 'b"
    and del :: "'b \<Rightarrow> u8 \<Rightarrow> 'b"
    and top :: "'b \<Rightarrow> u8 option"
    and members :: "'b \<Rightarrow> u8 set"
    and ok :: "'b \<Rightarrow> bool"
  assumes ok_put: "ok b \<Longrightarrow> ok (put b v)"
    and ok_del: "ok b \<Longrightarrow> ok (del b v)"
    and members_put: "ok b \<Longrightarrow> members (put b v) = insert v (members b)"
    and members_del: "ok b \<Longrightarrow> members (del b v) = members b - {v}"
    and top_None: "ok b \<Longrightarrow> top b = None \<longleftrightarrow> members b = {}"
    and top_Some: "ok b \<Longrightarrow> top b = Some v \<Longrightarrow> v \<in> members b \<and> (\<forall>u \<in> members b. u \<le> v)"
begin

lemma top_eq_Some_iff:
  assumes "ok b"
  shows "top b = Some v \<longleftrightarrow> v \<in> members b \<and> (\<forall>u \<in> members b. u \<le> v)"
proof
  assume v: "v \<in> members b \<and> (\<forall>u \<in> members b. u \<le> v)"
  then obtain w where "top b = Some w" using top_None [OF assms] by fastforce
  then show "top b = Some v" using top_Some [OF assms, of w] v by (auto intro: order_antisym)
qed (rule top_Some [OF assms])

lemma put_top_del:
  assumes "ok b" and "\<forall>u \<in> members b. u < v"
  shows "top (put b v) = Some v" and "members (del (put b v) v) = members b"
  using assms by (auto simp: top_eq_Some_iff ok_put members_put members_del less_imp_le)

end

definition vb_ok :: "VecBits \<Rightarrow> bool" where
  "vb_ok vb \<longleftrightarrow> length (words vb) = 8"

definition vb_members :: "VecBits \<Rightarrow> u8 set" where
  "vb_members vb = {v. vb_get vb v}"

lemma vb_index: "unat (drop_bit 5 (v :: u8)) = unat v div 32" "unat (v AND 31) = unat v mod 32"
  using unat_drop_bit [of 5 v] unat_and_mask [of v 5] by (simp_all add: mask_eq_exp_minus_1)

lemma vb_index_less: "unat (v :: u8) div 32 < 8"
  using less_mult_imp_div_less [of "unat v" 8 32] order_less_le_trans [OF unsigned_less [of v], of 256] by simp

lemma u8_index_eq_iff: "u = v \<longleftrightarrow> unat u div 32 = unat v div 32 \<and> unat u mod 32 = unat v mod 32"
  for u v :: u8
  by (metis div_mult_mod_eq unsigned_word_eqI)

lemma vb_get_bit: "vb_get vb v \<longleftrightarrow> bit (words vb ! (unat v div 32)) (unat v mod 32)"
  by (simp add: vb_get_def vb_index bit_iff_and_push_bit_not_eq_0)

lemma vb_members_set:
  assumes "vb_ok vb"
  shows "vb_members (vb_set vb v) = insert v (vb_members vb)"
proof (rule set_eqI)
  fix u :: u8
  have "bit (push_bit (unat v mod 32) (1 :: u32)) (unat u mod 32) \<longleftrightarrow> unat u mod 32 = unat v mod 32"
    by (auto simp: bit_simps)
  then show "u \<in> vb_members (vb_set vb v) \<longleftrightarrow> u \<in> insert v (vb_members vb)"
    using assms vb_index_less [of u] vb_index_less [of v]
    by (auto simp: vb_members_def vb_get_bit vb_set_def Let_def vb_index vb_ok_def nth_list_update
        bit_or_iff u8_index_eq_iff [of u v])
qed

lemma vb_members_clear:
  assumes "vb_ok vb"
  shows "vb_members (vb_clear vb v) = vb_members vb - {v}"
proof (rule set_eqI)
  fix u :: u8
  have "bit (NOT (push_bit (unat v mod 32) (1 :: u32))) (unat u mod 32) \<longleftrightarrow> unat u mod 32 \<noteq> unat v mod 32"
    by (auto simp: bit_simps)
  then show "u \<in> vb_members (vb_clear vb v) \<longleftrightarrow> u \<in> vb_members vb - {v}"
    using assms vb_index_less [of u] vb_index_less [of v]
    by (auto simp: vb_members_def vb_get_bit vb_clear_def Let_def vb_index vb_ok_def nth_list_update
        bit_and_iff u8_index_eq_iff [of u v])
qed

lemma unat_vb_vector:
  assumes "i < 8" and "b < 32"
  shows "unat (of_nat i * 32 + of_nat b :: u8) = 32 * i + b"
proof -
  have "(of_nat i * 32 + of_nat b :: u8) = of_nat (32 * i + b)" by simp
  moreover have "32 * i + b < 2 ^ LENGTH(8)" using assms by simp
  ultimately show ?thesis by (simp only: unat_of_nat_eq)
qed

lemma vb_highest_None:
  assumes "vb_ok vb"
  shows "vb_highest vb = None \<longleftrightarrow> vb_members vb = {}"
proof -
  have *: "bit w b \<Longrightarrow> w \<noteq> 0" for w :: u32 and b by auto
  have "(\<exists>w \<in> set (words vb). w \<noteq> 0) \<longleftrightarrow> (\<exists>v. vb_get vb v)"
  proof
    assume "\<exists>w \<in> set (words vb). w \<noteq> 0"
    then obtain i where i: "i < 8" and nz: "words vb ! i \<noteq> 0"
      using assms by (auto simp: in_set_conv_nth vb_ok_def)
    from nz obtain b where b: "bit (words vb ! i) b" by (auto simp: bit_eq_iff)
    then have "b < 32" using bit_imp_le_length [OF b] by simp
    then have "vb_get vb (of_nat i * 32 + of_nat b)"
      using i b by (simp only: vb_get_bit unat_vb_vector) simp
    then show "\<exists>v. vb_get vb v" ..
  next
    assume "\<exists>v. vb_get vb v"
    then obtain v :: u8 where "bit (words vb ! (unat v div 32)) (unat v mod 32)"
      by (auto simp: vb_get_bit)
    moreover have "words vb ! (unat v div 32) \<in> set (words vb)"
      using assms vb_index_less [of v] by (simp add: vb_ok_def)
    ultimately show "\<exists>w \<in> set (words vb). w \<noteq> 0" using * by blast
  qed
  then show ?thesis
    by (auto simp: vb_highest_def vb_members_def find_rev_enumerate_None)
qed

lemma vb_highest_Some:
  assumes "vb_ok vb" and "vb_highest vb = Some v"
  shows "v \<in> vb_members vb \<and> (\<forall>u \<in> vb_members vb. u \<le> v)"
proof -
  obtain i w where f: "find (\<lambda>(i, w). w \<noteq> 0) (rev (enumerate 0 (words vb))) = Some (i, w)"
    and v: "v = of_nat i * 32 + of_nat (31 - leading_zeros w)"
    using assms(2) by (auto simp: vb_highest_def)
  note last = find_rev_enumerate_Some [OF f]
  have i: "i < 8" and w: "w = words vb ! i" "w \<noteq> 0"
    and above: "\<And>j. i < j \<Longrightarrow> j < 8 \<Longrightarrow> words vb ! j = 0"
    using last assms(1) by (auto simp: vb_ok_def)
  define b where "b = 31 - leading_zeros w"
  have b: "bit w b" "b < 32" "\<And>j. b < j \<Longrightarrow> \<not> bit w j"
    using highest_bit_leading_zeros [OF w(2)] by (simp_all add: b_def)
  have uv: "unat v = 32 * i + b"
    unfolding v b_def [symmetric] by (rule unat_vb_vector [OF i b(2)])
  have "v \<in> vb_members vb" using b w uv by (simp add: vb_members_def vb_get_bit)
  moreover have "u \<le> v" if u: "u \<in> vb_members vb" for u
  proof (rule ccontr)
    assume "\<not> u \<le> v"
    then have lt: "32 * i + b < unat u" using uv by (simp add: word_le_nat_alt)
    have bu: "bit (words vb ! (unat u div 32)) (unat u mod 32)"
      using u by (simp add: vb_members_def vb_get_bit)
    show False
    proof (cases "i < unat u div 32")
      case True
      then show False using bu above [OF _ vb_index_less] by simp
    next
      case False
      moreover have "unat u = 32 * (unat u div 32) + unat u mod 32" "unat u mod 32 < 32" by simp_all
      ultimately have "unat u div 32 = i" "b < unat u mod 32" using lt b(2) by linarith+
      then show False using bu b(3) w(1) by simp
    qed
  qed
  ultimately show ?thesis by blast
qed

interpretation vb: vector_set vb_set vb_clear vb_highest vb_members vb_ok
  by unfold_locales
    (auto simp: vb_members_set vb_members_clear vb_highest_None dest: vb_highest_Some,
     auto simp: vb_ok_def vb_set_def vb_clear_def Let_def)

section \<open>Delivery\<close>

text \<open>The priority class of a vector, and the invariant of the register file.\<close>

definition prio :: "u8 \<Rightarrow> nat" where
  "prio v = unat v div 16"

abbreviation pending :: "Lapic \<Rightarrow> u8 set" where
  "pending l \<equiv> vb_members (irr l)"

abbreviation in_service :: "Lapic \<Rightarrow> u8 set" where
  "in_service l \<equiv> vb_members (isr l)"

definition lapic_invar :: "Lapic \<Rightarrow> bool" where
  "lapic_invar l \<longleftrightarrow> vb_ok (irr l) \<and> vb_ok (isr l) \<and> unat (tpr l) < 256
     \<and> 0 < tsc_per_count_num l \<and> 0 < tsc_per_count_den l
     \<and> (timer_period l \<noteq> 0 \<longrightarrow> timer_mode l = LVT_TIMER_MODE_PERIODIC \<and> timer_deadline l \<noteq> None)"

lemma unat_and_f0: "unat (x AND 0xf0 :: u32) = 16 * (unat x div 16 mod 16)"
proof -
  have f0: "(0xf0 :: u32) = push_bit 4 (mask 4)" by (simp add: mask_eq_exp_minus_1 push_bit_eq_mult)
  have "x AND push_bit 4 (mask 4) = push_bit 4 (take_bit 4 (drop_bit 4 x))"
    by (rule bit_word_eqI) (auto simp: bit_simps)
  then show ?thesis unfolding f0
    by (simp only: unat_push_bit unat_take_bit unat_drop_bit) simp
qed

lemma unat_u8_bound: "unat (v :: u8) < 256"
  by (rule order_less_le_trans [OF unsigned_less]) simp

lemma prio_less_16: "prio v < 16"
  using unat_u8_bound [of v] by (simp add: prio_def)

lemma prio_mono: "u \<le> v \<Longrightarrow> prio u \<le> prio v"
  by (simp add: prio_def word_le_nat_alt div_le_mono)

lemma prio_less_imp_less: "prio u < prio v \<Longrightarrow> u < v"
  using prio_mono [of v u] by (metis linorder_not_le)

lemma unat_ppr_class:
  assumes "lapic_invar l"
  shows "unat (ppr l AND 0xf0)
       = 16 * max (unat (tpr l) div 16) (case vb_highest (isr l) of None \<Rightarrow> 0 | Some v \<Rightarrow> prio v)"
proof -
  have t: "unat (tpr l) div 16 mod 16 = unat (tpr l) div 16"
    using assms by (auto simp: lapic_invar_def)
  have c: "unat (highest_isr l) div 16 mod 16 = (case vb_highest (isr l) of None \<Rightarrow> 0 | Some v \<Rightarrow> prio v)"
    by (auto simp: highest_isr_def unat_ucast_up prio_less_16 prio_def [symmetric] split: option.split)
  have "unat (ppr l AND 0xf0) = 16 * max (unat (tpr l) div 16 mod 16) (unat (highest_isr l) div 16 mod 16)"
    by (simp add: ppr_def Let_def word_le_nat_alt unat_and_f0 max_def)
  then show ?thesis unfolding t c .
qed

lemma deliverable_iff:
  assumes "lapic_invar l"
  shows "deliverable_vector l = Some v \<longleftrightarrow>
     lapic_enabled l \<and> v \<in> pending l \<and> (\<forall>u \<in> pending l. u \<le> v)
     \<and> unat (tpr l) div 16 < prio v \<and> (\<forall>u \<in> in_service l. prio u < prio v)"
proof -
  have ok: "vb_ok (irr l)" "vb_ok (isr l)" using assms by (auto simp: lapic_invar_def)
  let ?cls = "case vb_highest (isr l) of None \<Rightarrow> 0 | Some v \<Rightarrow> prio v"
  have isr: "unat (tpr l) div 16 < prio v \<and> ?cls < prio v
      \<longleftrightarrow> unat (tpr l) div 16 < prio v \<and> (\<forall>u \<in> in_service l. prio u < prio v)"
  proof (cases "vb_highest (isr l)")
    case None
    then have "in_service l = {}" using vb.top_None [OF ok(2)] by simp
    moreover have "a < n \<Longrightarrow> 0 < n" for a n :: nat by simp
    ultimately show ?thesis unfolding None option.case by blast
  next
    case (Some w)
    then show ?thesis
      using vb.top_Some [OF ok(2), of w] prio_mono by (auto intro: order_le_less_trans)
  qed
  have "deliverable_vector l = Some v \<longleftrightarrow>
      lapic_enabled l \<and> vb_highest (irr l) = Some v \<and> unat (tpr l) div 16 < prio v \<and> ?cls < prio v"
  proof (cases "vb_highest (irr l)")
    case None
    then show ?thesis by (simp add: deliverable_vector_def highest_irr_def)
  next
    case (Some w)
    have "ucast (ucast w :: u32) = w" by (simp add: ucast_ucast_up)
    moreover have "unat (ucast w AND 0xf0 :: u32) = 16 * prio w"
      by (simp add: unat_and_f0 unat_ucast_up prio_less_16 flip: prio_def)
    moreover have "(ucast w :: u32) = 0 \<Longrightarrow> prio w = 0"
      using unat_ucast_up [of w, where 'b = 32] by (simp add: prio_def)
    ultimately show ?thesis
      using Some by (auto simp: deliverable_vector_def highest_irr_def Let_def word_less_nat_alt
          unat_ppr_class [OF assms])
  qed
  then show ?thesis using isr vb.top_eq_Some_iff [OF ok(1)] by auto
qed

section \<open>The register file keeps its invariant\<close>

lemma lapic_new_invar:
  assumes "lapic_new clock num den = Ok l"
  shows "lapic_invar l" and "in_service l = {}" and "pending l = {}"
proof -
  have "vb_members vb_default = {}"
  proof -
    have "words vb_default ! (unat v div 32) = 0" for v :: u8
      using vb_index_less [of v] by (simp only: vb_default_def VecBits.select_convs nth_replicate)
    then show ?thesis by (auto simp: vb_members_def vb_get_bit)
  qed
  moreover have "vb_ok vb_default" by (simp add: vb_ok_def vb_default_def)
  ultimately show "lapic_invar l" "in_service l = {}" "pending l = {}"
    using assms by (auto simp: lapic_new_def lapic_invar_def split: if_splits)
qed

lemma lapic_invar_raise: "lapic_invar l \<Longrightarrow> lapic_invar (lapic_raise l v)"
  by (simp add: lapic_invar_def lapic_raise_def timer_mode_def vb.ok_put)

lemma lapic_invar_ack: "lapic_invar l \<Longrightarrow> lapic_invar (ack_injected l v)"
  by (simp add: lapic_invar_def ack_injected_def timer_mode_def vb.ok_put vb.ok_del)

lemma lapic_invar_eoi: "lapic_invar l \<Longrightarrow> lapic_invar (eoi l)"
  by (simp add: lapic_invar_def eoi_def timer_mode_def vb.ok_del split: option.split)

lemma lapic_invar_sync: "lapic_invar l \<Longrightarrow> lapic_invar (sync_tpr_from_cr8 l cr8)"
proof -
  have "cr8 AND 0xf = cr8 AND mask 4" by (simp add: mask_eq_exp_minus_1)
  then have "unat (cr8 AND 0xf) = unat cr8 mod 16" by (simp only: unat_and_mask) simp
  then have "unat (ucast (cr8 AND 0xf) :: u32) = unat cr8 mod 16"
    by (simp add: unsigned_ucast_eq take_bit_nat_eq_self)
  then have "unat (push_bit 4 (ucast (cr8 AND 0xf)) :: u32) < 256"
    by (simp only: unat_push_bit) simp
  then show "lapic_invar l \<Longrightarrow> lapic_invar (sync_tpr_from_cr8 l cr8)"
    by (simp add: lapic_invar_def sync_tpr_from_cr8_def timer_mode_def del: push_bit_numeral)
qed

lemma lapic_invar_fire:
  "lapic_invar l \<Longrightarrow> fire_timer_if_due l now = Some (l', b) \<Longrightarrow> lapic_invar l'"
  by (auto simp: fire_timer_if_due_def lapic_invar_def lapic_raise_def timer_mode_def vb.ok_put
      word_gt_0 split: option.splits if_splits)

lemma lapic_invar_storage [frame_simps]:
  "lapic_invar (l\<lparr>lapic_id := x\<rparr>) = lapic_invar l"
  "lapic_invar (l\<lparr>ldr := x\<rparr>) = lapic_invar l"
  "lapic_invar (l\<lparr>dfr := x\<rparr>) = lapic_invar l"
  "lapic_invar (l\<lparr>svr := x\<rparr>) = lapic_invar l"
  "lapic_invar (l\<lparr>esr := x\<rparr>) = lapic_invar l"
  "lapic_invar (l\<lparr>lvt_thermal := x\<rparr>) = lapic_invar l"
  "lapic_invar (l\<lparr>lvt_perf := x\<rparr>) = lapic_invar l"
  "lapic_invar (l\<lparr>lvt_lint0 := x\<rparr>) = lapic_invar l"
  "lapic_invar (l\<lparr>lvt_lint1 := x\<rparr>) = lapic_invar l"
  "lapic_invar (l\<lparr>lvt_error := x\<rparr>) = lapic_invar l"
  "lapic_invar (l\<lparr>timer_ict := x\<rparr>) = lapic_invar l"
  "lapic_invar (l\<lparr>timer_dcr := x\<rparr>) = lapic_invar l"
  by (simp_all add: lapic_invar_def timer_mode_def)

lemma lapic_invar_tpr: "lapic_invar l \<Longrightarrow> lapic_invar (l\<lparr>tpr := val AND 0xff\<rparr>)"
proof -
  have "unat (val AND 0xff) < 256" using unat_and_mask [of val 8] by (simp add: mask_eq_exp_minus_1)
  then show "lapic_invar l \<Longrightarrow> lapic_invar (l\<lparr>tpr := val AND 0xff\<rparr>)"
    by (simp add: lapic_invar_def timer_mode_def)
qed

lemma lapic_invar_write_icr: "lapic_invar l \<Longrightarrow> lapic_invar (write_icr l val)"
  by (simp add: write_icr_def Let_def lapic_invar_raise)

lemma lapic_invar_write_lvt_timer: "lapic_invar l \<Longrightarrow> lapic_invar (write_lvt_timer l val)"
  by (auto simp: lapic_invar_def write_lvt_timer_def timer_mode_def Let_def)

lemma lapic_invar_write_timer_ict: "lapic_invar l \<Longrightarrow> lapic_invar (write_timer_ict env l val)"
  by (auto simp: lapic_invar_def write_timer_ict_def timer_mode_def Let_def)

lemma lapic_invar_mmio_write: "lapic_invar l \<Longrightarrow> lapic_invar (lapic_mmio_write env l off val)"
  unfolding lapic_mmio_write_def
  by (simp add: frame_simps lapic_invar_eoi lapic_invar_tpr lapic_invar_write_icr
      lapic_invar_write_lvt_timer lapic_invar_write_timer_ict)

section \<open>Steps of the interrupt controller\<close>

text \<open>
  Everything the run loop does to the controller: a device or the guest raises a vector, the
  deliverable vector is injected and acknowledged, the guest writes a register or \<open>CR8\<close>, the
  timer is serviced.
\<close>

inductive lapic_step :: "Lapic \<Rightarrow> Lapic \<Rightarrow> bool" where
  step_raise: "lapic_step l (lapic_raise l v)"
| step_inject: "deliverable_vector l = Some v \<Longrightarrow> lapic_step l (ack_injected l v)"
| step_write: "lapic_step l (lapic_mmio_write env l off val)"
| step_cr8: "lapic_step l (sync_tpr_from_cr8 l cr8)"
| step_fire: "fire_timer_if_due l now = Some (l', b) \<Longrightarrow> lapic_step l l'"

inductive_cases lapic_stepE: "lapic_step l l'"

lemma isr_mmio_write:
  "isr (lapic_mmio_write env l off val) = (if off = REG_EOI then isr (eoi l) else isr l)"
  unfolding lapic_mmio_write_def
  by (simp add: write_icr_def lapic_raise_def write_lvt_timer_def write_timer_ict_def Let_def
      const_defs)

lemma irr_write_icr: "irr (write_icr l val) = irr l \<or> (\<exists>v. irr (write_icr l val) = vb_set (irr l) v)"
  by (auto simp: write_icr_def lapic_raise_def Let_def)

lemma irr_mmio_write:
  "irr (lapic_mmio_write env l off val) = (if off = REG_ICR_LOW then irr (write_icr l val) else irr l)"
  unfolding lapic_mmio_write_def
  by (simp add: write_lvt_timer_def write_timer_ict_def Let_def eoi_def const_defs split: option.split)

lemma fire_frame:
  assumes "fire_timer_if_due l now = Some (l', b)"
  shows "isr l' = isr l" and "irr l' = irr l \<or> (\<exists>v. irr l' = vb_set (irr l) v)"
  using assms by (auto simp: fire_timer_if_due_def lapic_raise_def split: option.splits if_splits)

lemma lapic_step_invar: "lapic_step l l' \<Longrightarrow> lapic_invar l \<Longrightarrow> lapic_invar l'"
  by (auto elim!: lapic_stepE simp: lapic_invar_raise lapic_invar_ack lapic_invar_mmio_write
      lapic_invar_sync intro: lapic_invar_fire)

text \<open>In service, at most one vector per priority class, and none in class zero.\<close>

definition nested :: "u8 set \<Rightarrow> bool" where
  "nested S \<longleftrightarrow> inj_on prio S \<and> (\<forall>v \<in> S. 0 < prio v)"

lemma nested_card: "nested S \<Longrightarrow> card S \<le> 15"
proof -
  assume n: "nested S"
  have "prio v \<in> {1..15}" if "v \<in> S" for v
    using n that prio_less_16 [of v] by (simp add: nested_def Suc_le_eq)
  then have "prio ` S \<subseteq> {1..15}" by (rule image_subsetI)
  then have "card (prio ` S) \<le> card {1..15 :: nat}" by (rule card_mono [OF finite_atLeastAtMost])
  then show ?thesis using n by (simp add: nested_def card_image)
qed

lemma nested_step:
  assumes "lapic_step l l'" and "lapic_invar l" and "nested (in_service l)"
  shows "nested (in_service l')"
  using assms(1)
proof (cases rule: lapic_step.cases)
  case (step_inject v)
  have ok: "vb_ok (isr l)" using assms(2) by (simp add: lapic_invar_def)
  have v: "unat (tpr l) div 16 < prio v" "\<forall>u \<in> in_service l. prio u < prio v"
    using step_inject deliverable_iff [OF assms(2)] by auto
  then have "prio v \<notin> prio ` in_service l" by (metis imageE less_irrefl)
  then have "inj_on prio (insert v (in_service l))"
    using assms(3) by (auto simp: nested_def)
  moreover have "0 < prio v" using v(1) by (rule order_le_less_trans [OF le0])
  ultimately show ?thesis
    using assms(3) ok step_inject(1) by (auto simp: nested_def ack_injected_def vb.members_put)
next
  case (step_write env off val)
  have ok: "vb_ok (isr l)" using assms(2) by (simp add: lapic_invar_def)
  have "in_service (eoi l) \<subseteq> in_service l"
    using ok by (auto simp: eoi_def vb.members_del split: option.split)
  then have "in_service l' \<subseteq> in_service l" using step_write isr_mmio_write by auto
  then show ?thesis using assms(3) by (auto simp: nested_def intro: inj_on_subset)
next
  case (step_fire now b)
  then show ?thesis using assms(3) fire_frame(1) by auto
qed (use assms(3) in \<open>auto simp: lapic_raise_def sync_tpr_from_cr8_def\<close>)

section \<open>The timer\<close>

lemma rearm_advances:
  assumes "0 < period" and "unat now + unat period < 2 ^ 64" and "next \<le> now"
  shows "\<exists>k. rearm now period next = Some (next + of_nat k * period)
           \<and> unat (next + of_nat k * period) = unat next + k * unat period
           \<and> now < next + of_nat k * period \<and> next + of_nat k * period \<le> now + period"
  using assms(3)
proof (induction "unat now + 1 - unat next" arbitrary: "next" rule: less_induct)
  case less
  have P: "0 < unat period" using assms(1) by (simp add: word_less_nat_alt)
  have np: "unat (now + period) = unat now + unat period"
    using assms(2) by (simp add: unat_word_ariths)
  have le: "unat next \<le> unat now" using less.prems by (simp add: word_le_nat_alt)
  then have xp: "unat (next + period) = unat next + unat period"
    using assms(2) by (simp add: unat_word_ariths)
  have unfold: "rearm now period next = rearm now period (next + period)"
    using less.prems by (subst rearm.simps) simp
  show ?case
  proof (cases "next + period \<le> now")
    case True
    have "unat now + 1 - unat (next + period) < unat now + 1 - unat next" using xp P le by simp
    from less.hyps [OF this True] obtain k where
      k: "rearm now period (next + period) = Some (next + period + of_nat k * period)"
        "unat (next + period + of_nat k * period) = unat (next + period) + k * unat period"
        "now < next + period + of_nat k * period" "next + period + of_nat k * period \<le> now + period"
      by blast
    have eq: "next + of_nat (Suc k) * period = next + period + of_nat k * period"
      by (simp add: algebra_simps)
    then show ?thesis using k xp unfold by (intro exI [of _ "Suc k"]) (simp only: eq, simp)
  next
    case False
    then have "rearm now period (next + period) = Some (next + period)" by (subst rearm.simps) simp
    then show ?thesis
      using False unfold xp np le by (intro exI [of _ 1]) (simp add: word_le_nat_alt word_less_nat_alt not_le)
  qed
qed

text \<open>At the last value of the clock no deadline lies in the future, and the loop never ends.\<close>

lemma rearm_diverges: "rearm (- 1) period next = None"
proof (rule ccontr)
  assume "rearm (- 1) period next \<noteq> None"
  then obtain y where y: "rearm (- 1) period next = Some y" by blast
  have "(- 1 :: u64) \<noteq> - 1"
    by (rule rearm.raw_induct [where P = "\<lambda>now _ _ _. now \<noteq> - 1", OF _ y]) (auto split: if_splits)
  then show False by simp
qed

lemma timer_divisor_range: "1 \<le> unat (timer_divisor l)" "unat (timer_divisor l) \<le> 128"
  by (auto simp: timer_divisor_def Let_def)

lemma unat_span_from_count:
  "unat (span_from_count l c)
     = unat c * unat (timer_divisor l) * unat (tsc_per_count_num l) div unat (tsc_per_count_den l) mod 2 ^ 64"
proof -
  let ?d = "timer_divisor l" and ?n = "tsc_per_count_num l"
  have c: "unat (ucast c :: u128) = unat c" by (simp add: unat_ucast_up)
  have cd: "unat c * unat ?d \<le> 2 ^ 32 * 128"
    using unat_u32_bound [of c] timer_divisor_range(2) [of l] by (intro mult_le_mono) auto
  then have "unat c * unat ?d * unat ?n \<le> (2 ^ 32 * 128) * 2 ^ 64"
    by (rule mult_le_mono) (use unat_u64_bound [of ?n] in simp)
  then have cdn: "unat c * unat ?d * unat ?n < 2 ^ 128" by (rule order_le_less_trans) simp
  have "unat (ucast c * ucast ?d :: u128) = unat c * unat ?d"
    using cd by (subst unat_u128_mult) (simp_all add: c)
  then have "unat (ucast c * ucast ?d * ucast ?n :: u128) = unat c * unat ?d * unat ?n"
    using cdn by (subst unat_u128_mult) simp_all
  then show ?thesis by (simp add: span_from_count_def unat_u64_of_u128 unat_div)
qed

lemma unat_count_until:
  assumes "now < dl"
  shows "unat (count_until l dl now)
     = min (unat (dl - now) * unat (tsc_per_count_den l)
              div (unat (timer_divisor l) * unat (tsc_per_count_num l))) (2 ^ 32 - 1)"
proof -
  define c where "c = (ucast (dl - now) :: u128) * ucast (tsc_per_count_den l)
                   div (ucast (timer_divisor l) * ucast (tsc_per_count_num l))"
  have uc: "unat c = unat (dl - now) * unat (tsc_per_count_den l)
              div (unat (timer_divisor l) * unat (tsc_per_count_num l))"
    by (simp add: c_def unat_div unat_u128_mult_u64)
  have m: "unat (ucast (- 1 :: u32) :: u128) = 2 ^ 32 - 1" by (simp add: unat_ucast_up unsigned_minus_1_eq_mask mask_eq_exp_minus_1)
  have mono: "unat (min c (ucast (- 1 :: u32))) = min (unat c) (2 ^ 32 - 1)"
    using m by (auto simp: min_def word_le_nat_alt)
  then have "unat (ucast (min c (ucast (- 1 :: u32))) :: u32) = min (unat c) (2 ^ 32 - 1)"
    by (simp add: unsigned_ucast_eq take_bit_nat_eq_self)
  moreover have "count_until l dl now = ucast (min c (ucast (- 1 :: u32)))"
    using assms by (simp only: count_until_def c_def Let_def not_le [symmetric] if_False simp_thms)
  ultimately show ?thesis using uc by simp
qed

section \<open>Properties\<close>

text \<open>A concrete controller: enabled, vector 0x31 pending, periodic timer on vector 0xec.\<close>

definition sample_lapic :: Lapic where
  "sample_lapic =
     \<lparr>lapic_clock = \<lparr>vc_cell = 0, vc_freq = \<lparr>freq_hz = 3072000000\<rparr>\<rparr>,
      tsc_per_count_num = 160, tsc_per_count_den = 2,
      lapic_id = 0, tpr = 0x10, svr = 0x1ff, ldr = 0, dfr = 0xffffffff, esr = 0,
      lvt_timer = 0x200ec, lvt_thermal = 0, lvt_perf = 0, lvt_lint0 = 0, lvt_lint1 = 0, lvt_error = 0,
      irr = vb_set vb_default 0x31, isr = vb_default,
      timer_deadline = Some 1000, timer_period = 300, timer_dcr = 0xb, timer_ict = 0\<rparr>"

lemma sample_lapic_facts:
  "lapic_invar sample_lapic" "pending sample_lapic = {0x31}" "in_service sample_lapic = {}"
  "lapic_enabled sample_lapic" "deliverable_vector sample_lapic = Some 0x31"
proof -
  obtain l where l: "lapic_new (lapic_clock sample_lapic) 160 2 = Ok l"
    and d: "irr l = vb_default" "isr l = vb_default"
    by (simp add: lapic_new_def)
  have ok: "vb_ok vb_default" and mt: "vb_members vb_default = {}"
    using lapic_new_invar [OF l] d by (simp_all add: lapic_invar_def)
  show i: "lapic_invar sample_lapic"
    using ok by (simp add: lapic_invar_def sample_lapic_def vb.ok_put timer_mode_def const_defs)
  show p: "pending sample_lapic = {0x31}"
    using ok mt by (simp add: sample_lapic_def vb.members_put)
  show s: "in_service sample_lapic = {}" using mt by (simp add: sample_lapic_def)
  show e: "lapic_enabled sample_lapic" by (simp add: lapic_enabled_def sample_lapic_def const_defs)
  show "deliverable_vector sample_lapic = Some 0x31"
    unfolding deliverable_iff [OF i] using p s e by (simp add: prio_def sample_lapic_def)
qed

text \<open>
  C16. The vector chosen for injection is exactly the textbook one: the controller is enabled,
  the vector is pending and the greatest pending one, and its priority class is strictly above
  the class of the task priority and of every vector in service.
\<close>

theorem deliverable_vector_spec:
  assumes "lapic_invar l"
  shows "deliverable_vector l = Some v \<longleftrightarrow>
     lapic_enabled l \<and> v \<in> pending l \<and> (\<forall>u \<in> pending l. u \<le> v)
     \<and> unat (tpr l) div 16 < prio v \<and> (\<forall>u \<in> in_service l. prio u < prio v)"
  by (rule deliverable_iff [OF assms])

theorem deliverable_vector_spec_witness:
  "lapic_invar sample_lapic \<and> 0x31 \<in> pending sample_lapic
   \<and> unat (tpr sample_lapic) div 16 < prio 0x31"
  using deliverable_vector_spec [OF sample_lapic_facts(1), where v = "0x31"] sample_lapic_facts by simp

text \<open>
  C17. Injection and end-of-interrupt nest like a stack. Injecting the deliverable vector moves
  exactly it from pending to in service; until its EOI only a vector of a strictly higher class
  is deliverable; and the EOI removes exactly it, giving back the vectors in service before.
\<close>

theorem inject_then_eoi:
  assumes "lapic_invar l" and "deliverable_vector l = Some v"
  shows "pending (ack_injected l v) = pending l - {v}
    \<and> in_service (ack_injected l v) = insert v (in_service l)
    \<and> (\<forall>u. deliverable_vector (ack_injected l v) = Some u \<longrightarrow> prio v < prio u)
    \<and> in_service (eoi (ack_injected l v)) = in_service l
    \<and> pending (eoi (ack_injected l v)) = pending l - {v}"
proof (intro conjI allI impI)
  have ok: "vb_ok (irr l)" "vb_ok (isr l)" using assms(1) by (auto simp: lapic_invar_def)
  have above: "\<forall>u \<in> in_service l. u < v"
    using assms deliverable_iff [OF assms(1)] prio_less_imp_less by blast
  show p: "pending (ack_injected l v) = pending l - {v}"
    using ok by (simp add: ack_injected_def vb.members_del)
  show i: "in_service (ack_injected l v) = insert v (in_service l)"
    using ok by (simp add: ack_injected_def vb.members_put)
  show "prio v < prio u" if "deliverable_vector (ack_injected l v) = Some u" for u
    using that i deliverable_iff [OF lapic_invar_ack [OF assms(1)]] by blast
  show "in_service (eoi (ack_injected l v)) = in_service l"
    using vb.put_top_del [OF ok(2) above] by (simp add: eoi_def ack_injected_def)
  show "pending (eoi (ack_injected l v)) = pending l - {v}"
    using p by (simp add: eoi_def split: option.split)
qed

theorem inject_then_eoi_witness:
  "lapic_invar sample_lapic \<and> deliverable_vector sample_lapic = Some 0x31
   \<and> in_service (ack_injected sample_lapic 0x31) = {0x31}
   \<and> in_service (eoi (ack_injected sample_lapic 0x31)) = {}"
  using inject_then_eoi [OF sample_lapic_facts(1,5)] sample_lapic_facts by simp

text \<open>
  C18. However the run loop, the devices and the guest drive the controller from reset, the
  vectors in service have pairwise different priority classes, none of them class zero, so at
  most fifteen interrupts are ever nested; and the register file stays well formed.
\<close>

theorem interrupt_nesting_bounded:
  assumes "lapic_new clock num den = Ok l0" and "lapic_step\<^sup>*\<^sup>* l0 l"
  shows "lapic_invar l \<and> inj_on prio (in_service l) \<and> (\<forall>v \<in> in_service l. 0 < prio v)
    \<and> card (in_service l) \<le> 15"
proof -
  from assms(2) have "lapic_invar l \<and> nested (in_service l)"
  proof (induction rule: rtranclp_induct)
    case base
    then show ?case using lapic_new_invar [OF assms(1)] by (simp add: nested_def)
  next
    case (step y z)
    then show ?case using lapic_step_invar nested_step by blast
  qed
  then show ?thesis using nested_card by (auto simp: nested_def)
qed

theorem interrupt_nesting_bounded_witness:
  "\<exists>l0. lapic_new (lapic_clock sample_lapic) 160 2 = Ok l0 \<and> lapic_step\<^sup>*\<^sup>* l0 (lapic_raise l0 0x31)
     \<and> card (in_service (lapic_raise l0 0x31)) \<le> 15"
proof -
  obtain l0 where n: "lapic_new (lapic_clock sample_lapic) 160 2 = Ok l0"
    by (simp add: lapic_new_def)
  have r: "lapic_step\<^sup>*\<^sup>* l0 (lapic_raise l0 0x31)" by (rule r_into_rtranclp) (rule step_raise)
  from n r interrupt_nesting_bounded [OF n r] show ?thesis by blast
qed

text \<open>
  C19. No interrupt is lost: a step of the controller leaves a pending vector pending, unless
  it is the injection of that very vector, which then is in service.
\<close>

theorem pending_kept_until_injected:
  assumes "lapic_invar l" and "lapic_step l l'" and "v \<in> pending l"
  shows "v \<in> pending l' \<or> deliverable_vector l = Some v \<and> l' = ack_injected l v \<and> v \<in> in_service l'"
proof -
  have ok: "vb_ok (irr l)" "vb_ok (isr l)" using assms(1) by (auto simp: lapic_invar_def)
  have keep: "irr l' = irr l \<or> (\<exists>u. irr l' = vb_set (irr l) u) \<Longrightarrow> v \<in> pending l'"
    using assms(3) ok(1) by (auto simp: vb.members_put)
  from assms(2) show ?thesis
  proof (cases rule: lapic_step.cases)
    case (step_inject u)
    then show ?thesis using assms(3) ok by (auto simp: ack_injected_def vb.members_del vb.members_put)
  next
    case (step_write env off val)
    then show ?thesis using keep irr_mmio_write irr_write_icr by auto
  next
    case (step_fire now b)
    then show ?thesis using keep fire_frame(2) by blast
  qed (use keep in \<open>auto simp: lapic_raise_def sync_tpr_from_cr8_def\<close>)
qed

theorem pending_kept_until_injected_witness:
  "lapic_invar sample_lapic \<and> lapic_step sample_lapic (lapic_raise sample_lapic 0x20)
   \<and> 0x31 \<in> pending sample_lapic
   \<and> (0x31 \<in> pending (lapic_raise sample_lapic 0x20)
      \<or> deliverable_vector sample_lapic = Some 0x31
        \<and> lapic_raise sample_lapic 0x20 = ack_injected sample_lapic 0x31
        \<and> 0x31 \<in> in_service (lapic_raise sample_lapic 0x20))"
proof -
  have st: "lapic_step sample_lapic (lapic_raise sample_lapic 0x20)" by (rule step_raise)
  have p: "0x31 \<in> pending sample_lapic" using sample_lapic_facts(2) by simp
  from pending_kept_until_injected [OF sample_lapic_facts(1) st p] st p sample_lapic_facts(1)
  show ?thesis by blast
qed

text \<open>A due timer, serviced.\<close>

lemma fire_timer_due:
  assumes "lapic_invar l" and "timer_deadline l = Some dl" and "dl \<le> now"
    and "unat now + unat (timer_period l) < 2 ^ 64"
  shows "\<exists>l'. fire_timer_if_due l now = Some (l', True)
    \<and> pending l' = (if timer_masked l then pending l else insert (timer_vector l) (pending l))
    \<and> in_service l' = in_service l
    \<and> (timer_period l = 0 \<longrightarrow> timer_deadline l' = None)
    \<and> (timer_period l \<noteq> 0 \<longrightarrow>
         (\<exists>k next. timer_deadline l' = Some next \<and> unat next = unat dl + k * unat (timer_period l)
            \<and> now < next \<and> next \<le> now + timer_period l))"
proof -
  have ok: "vb_ok (irr l)" using assms(1) by (simp add: lapic_invar_def)
  have fr: "timer_masked (l\<lparr>timer_deadline := x\<rparr>) = timer_masked l"
    "timer_vector (l\<lparr>timer_deadline := x\<rparr>) = timer_vector l" for x
    by (simp_all add: timer_masked_def timer_vector_def)
  show ?thesis
  proof (cases "timer_period l = 0")
    case True
    then show ?thesis
      using assms ok by (simp add: fire_timer_if_due_def fr lapic_raise_def vb.members_put)
  next
    case False
    then have "0 < timer_period l" by (simp add: word_gt_0)
    with rearm_advances [OF this assms(4,3)] show ?thesis
      using assms ok by (auto simp: fire_timer_if_due_def fr lapic_raise_def vb.members_put)
  qed
qed

text \<open>
  C36. Servicing a due timer returns, raises the timer vector exactly when it is not masked and
  touches no other vector. A one-shot timer is disarmed. A periodic timer is re-armed to the
  first point of its grid after \<open>now\<close>, so missed periods coalesce into one interrupt; the
  clock must be at least one period away from the end of its 64-bit range.
\<close>

theorem fire_timer_spec:
  assumes "lapic_invar l" and "timer_deadline l = Some dl" and "dl \<le> now"
    and "unat now + unat (timer_period l) < 2 ^ 64"
  shows "\<exists>l'. fire_timer_if_due l now = Some (l', True)
    \<and> pending l' = (if timer_masked l then pending l else insert (timer_vector l) (pending l))
    \<and> in_service l' = in_service l
    \<and> (timer_period l = 0 \<longrightarrow> timer_deadline l' = None)
    \<and> (timer_period l \<noteq> 0 \<longrightarrow>
         (\<exists>k next. timer_deadline l' = Some next \<and> unat next = unat dl + k * unat (timer_period l)
            \<and> now < next \<and> next \<le> now + timer_period l))"
  by (rule fire_timer_due [OF assms])

theorem fire_timer_spec_witness:
  "\<exists>l' k next. fire_timer_if_due sample_lapic 2000 = Some (l', True)
     \<and> timer_deadline l' = Some next \<and> unat next = 1000 + k * 300 \<and> 2000 < next \<and> next \<le> 2300
     \<and> pending l' = {0xec, 0x31}"
proof -
  have d: "timer_deadline sample_lapic = Some 1000" "timer_period sample_lapic = 300"
    "\<not> timer_masked sample_lapic" "timer_vector sample_lapic = 0xec"
    by (simp_all add: sample_lapic_def timer_masked_def timer_vector_def const_defs)
  have "(1000 :: u64) \<le> 2000" "unat (2000 :: u64) + unat (timer_period sample_lapic) < 2 ^ 64"
    by (simp_all add: d)
  from fire_timer_spec [OF sample_lapic_facts(1) d(1) this] show ?thesis
    using d sample_lapic_facts(2) by auto
qed

text \<open>
  Programming an initial count and reading the current count back at the same instant
  gives the same count when the TSC ratio divides evenly, and otherwise at most one count
  less, never more (for a count whose span fits the 64-bit clock).
\<close>

theorem timer_count_roundtrip:
  assumes "lapic_invar l" and "0 < span_from_count l c"
    and "unat c * unat (timer_divisor l) * unat (tsc_per_count_num l) div unat (tsc_per_count_den l)
           + unat now < 2 ^ 64"
    and "unat (tsc_per_count_den l) \<le> unat (timer_divisor l) * unat (tsc_per_count_num l)"
  shows "unat (count_until l (now + span_from_count l c) now) \<le> unat c
    \<and> unat c \<le> unat (count_until l (now + span_from_count l c) now) + 1
    \<and> (unat (tsc_per_count_den l) dvd unat (timer_divisor l) * unat (tsc_per_count_num l) \<longrightarrow>
         count_until l (now + span_from_count l c) now = c)"
proof -
  define E where "E = unat (timer_divisor l) * unat (tsc_per_count_num l)"
  define D where "D = unat (tsc_per_count_den l)"
  define S where "S = unat c * E div D"
  have D: "0 < D" "D \<le> E" using assms by (auto simp: D_def E_def lapic_invar_def word_less_nat_alt)
  have S: "unat (span_from_count l c) = S"
    using assms(3) by (simp add: unat_span_from_count S_def E_def D_def mult.assoc)
  have lt: "now < now + span_from_count l c" and diff: "unat (now + span_from_count l c - now) = S"
    using assms(2,3) S by (simp_all add: word_less_nat_alt unat_word_ariths S_def E_def D_def mult.assoc)
  have le: "S * D \<le> unat c * E" by (simp add: S_def)
  then have up: "S * D div E \<le> unat c" using D by (metis div_le_mono div_mult_self_is_m order_less_le_trans)
  have cnt: "unat (count_until l (now + span_from_count l c) now) = S * D div E"
    using unat_count_until [OF lt, of l] up unat_u32_bound [of c] by (simp add: S E_def D_def min_def)
  have "unat c * E < S * D + D" using dividend_less_div_times [OF D(1), of "unat c * E"] by (simp add: S_def add.commute)
  then have "unat c * E \<le> S * D + E" using D by simp
  then have "unat c \<le> (S * D + E) div E" using D
    by (metis div_le_mono div_mult_self_is_m order_less_le_trans)
  moreover have "(S * D + E) div E = S * D div E + 1" by (rule div_add_self2) (use D in simp)
  ultimately have low: "unat c \<le> S * D div E + 1" by simp
  have "S * D div E = unat c" if "D dvd E"
    using that D by (auto simp: S_def elim!: dvdE)
  then show ?thesis using cnt up low
    by (auto simp: E_def D_def intro: unsigned_word_eqI [where 'a = nat])
qed

theorem timer_count_roundtrip_witness:
  "count_until sample_lapic (5000 + span_from_count sample_lapic 1000) 5000 = 1000
   \<and> span_from_count sample_lapic 1000 = 80000"
proof -
  have d: "timer_divisor sample_lapic = 1" "tsc_per_count_num sample_lapic = 160"
    "tsc_per_count_den sample_lapic = 2"
    by (simp_all add: sample_lapic_def timer_divisor_def)
  have s: "span_from_count sample_lapic 1000 = 80000" by (simp add: span_from_count_def d)
  have "0 < span_from_count sample_lapic 1000" by (simp add: s)
  from timer_count_roundtrip [OF sample_lapic_facts(1) this, of 5000] show ?thesis
    by (simp add: d s)
qed

end
