(* ===== verification/Ioapic.thy ===== *)
theory Ioapic
  imports Lapic
begin

text \<open>
  The userspace I/O APIC of \<open>src/src/ioapic.rs\<close> (index and data window, 24 redirection
  entries, edge delivery only), the ISA line to pin wiring of \<open>src/src/mptable.rs\<close> and the
  routing of a device line into the local APIC (\<open>raise_irq\<close> of \<open>src/src/main.rs\<close>).
\<close>

section \<open>Constants\<close>

definition IOAPIC_BASE :: u64 where [const_defs]: "IOAPIC_BASE = 0xfec00000"
definition IOAPIC_LEN :: u64 where [const_defs]: "IOAPIC_LEN = 0x20"
definition NUM_RTES :: nat where [const_defs]: "NUM_RTES = 24"
definition IOREGSEL :: u64 where [const_defs]: "IOREGSEL = 0x00"
definition IOWIN :: u64 where [const_defs]: "IOWIN = 0x10"
definition IOAPIC_REG_ID :: u32 where [const_defs]: "IOAPIC_REG_ID = 0x00"
definition IOAPIC_REG_VER :: u32 where [const_defs]: "IOAPIC_REG_VER = 0x01"
definition IOAPIC_REG_ARB :: u32 where [const_defs]: "IOAPIC_REG_ARB = 0x02"
definition IOAPIC_REG_REDTBL_BASE :: u32 where [const_defs]: "IOAPIC_REG_REDTBL_BASE = 0x10"
definition IOAPIC_REG_REDTBL_END :: u32 where
  [const_defs]: "IOAPIC_REG_REDTBL_END = IOAPIC_REG_REDTBL_BASE + of_nat NUM_RTES * 2"
definition RTE_MASK :: u64 where [const_defs]: "RTE_MASK = push_bit 16 1"
definition RTE_TRIGGER_LEVEL :: u64 where [const_defs]: "RTE_TRIGGER_LEVEL = push_bit 15 1"
definition IOAPIC_VERSION :: u32 where
  [const_defs]: "IOAPIC_VERSION = 0x17 OR push_bit 16 (of_nat NUM_RTES - 1)"

section \<open>State and registers\<close>

record Ioapic =
  ioregsel :: u32
  ioapic_id :: u32
  redtbl :: "u64 list"
  apic_id :: u32

definition ioapic_new :: "u8 \<Rightarrow> Ioapic" where
  "ioapic_new aid =
     \<lparr>ioregsel = 0, ioapic_id = push_bit 24 (ucast aid), redtbl = replicate NUM_RTES RTE_MASK,
      apic_id = ucast aid\<rparr>"

definition ioapic_handles :: "u64 \<Rightarrow> bool" where
  "ioapic_handles addr \<longleftrightarrow> IOAPIC_BASE \<le> addr \<and> addr < IOAPIC_BASE + IOAPIC_LEN"

definition read_indirect :: "Ioapic \<Rightarrow> u32 \<Rightarrow> u32" where
  "read_indirect io i =
     (if i = IOAPIC_REG_ID then ioapic_id io
      else if i = IOAPIC_REG_VER then IOAPIC_VERSION
      else if i = IOAPIC_REG_ARB then ioapic_id io
      else if IOAPIC_REG_REDTBL_BASE \<le> i \<and> i < IOAPIC_REG_REDTBL_END then
        (let rel = i - IOAPIC_REG_REDTBL_BASE; entry = unat (rel div 2); rte = redtbl io ! entry
         in if rel mod 2 = 0 then ucast rte else ucast (drop_bit 32 rte))
      else 0)"

definition write_indirect :: "Ioapic \<Rightarrow> u32 \<Rightarrow> u32 \<Rightarrow> Ioapic" where
  "write_indirect io i val =
     (if i = IOAPIC_REG_ID then io\<lparr>ioapic_id := val AND 0x0f000000\<rparr>
      else if i = IOAPIC_REG_VER \<or> i = IOAPIC_REG_ARB then io
      else if IOAPIC_REG_REDTBL_BASE \<le> i \<and> i < IOAPIC_REG_REDTBL_END then
        (let rel = i - IOAPIC_REG_REDTBL_BASE; entry = unat (rel div 2); rte = redtbl io ! entry
         in if rel mod 2 = 0
            then io\<lparr>redtbl := (redtbl io)[entry := (rte AND 0xffffffff00000000) OR ucast val]\<rparr>
            else io\<lparr>redtbl := (redtbl io)[entry :=
                    (rte AND 0x00000000ffffffff) OR push_bit 32 (ucast val)]\<rparr>)
      else io)"

definition ioapic_mmio_read :: "Ioapic \<Rightarrow> u64 \<Rightarrow> u32" where
  "ioapic_mmio_read io addr =
     (let off = addr - IOAPIC_BASE
      in if off = IOREGSEL then ioregsel io
         else if off = IOWIN then read_indirect io (ioregsel io)
         else 0)"

definition ioapic_mmio_write :: "Ioapic \<Rightarrow> u64 \<Rightarrow> u32 \<Rightarrow> Ioapic" where
  "ioapic_mmio_write io addr val =
     (let off = addr - IOAPIC_BASE
      in if off = IOREGSEL then io\<lparr>ioregsel := val AND 0xff\<rparr>
         else if off = IOWIN then write_indirect io (ioregsel io) val
         else io)"

definition edge_vector :: "Ioapic \<Rightarrow> nat \<Rightarrow> u8 option" where
  "edge_vector io pin =
     (if NUM_RTES \<le> pin then None
      else let rte = redtbl io ! pin
           in if rte AND RTE_MASK \<noteq> 0 then None
              else if rte AND RTE_TRIGGER_LEVEL \<noteq> 0 then None
              else Some (ucast (rte AND 0xff)))"

section \<open>Wiring\<close>

definition isa_irq_to_ioapic_pin :: "u8 \<Rightarrow> u8" where
  "isa_irq_to_ioapic_pin irq = (if irq = 0 then 2 else if irq = 2 then 0 else irq)"

definition raise_irq :: "Lapic \<Rightarrow> Ioapic \<Rightarrow> u32 \<Rightarrow> Lapic" where
  "raise_irq l io irq =
     (let pin = unat (isa_irq_to_ioapic_pin (ucast irq))
      in case edge_vector io pin of
           Some vector \<Rightarrow> lapic_raise l vector
         | None \<Rightarrow> l)"

section \<open>Lemmas\<close>

definition ioapic_invar :: "Ioapic \<Rightarrow> bool" where
  "ioapic_invar io \<longleftrightarrow> length (redtbl io) = NUM_RTES \<and> unat (ioregsel io) < 256"

lemma ioapic_new_invar: "ioapic_invar (ioapic_new aid)"
  by (simp add: ioapic_invar_def ioapic_new_def)

lemma unat_and_ff: "unat (v AND 0xff) = unat v mod 256" for v :: u32
  using unat_and_mask [of v 8] by (simp add: mask_eq_exp_minus_1)

lemma ioapic_write_invar: "ioapic_invar io \<Longrightarrow> ioapic_invar (ioapic_mmio_write io addr val)"
  by (auto simp: ioapic_invar_def ioapic_mmio_write_def write_indirect_def Let_def unat_and_ff)

text \<open>The two halves of a redirection entry.\<close>

definition put_low :: "u64 \<Rightarrow> u32 \<Rightarrow> u64" where
  "put_low rte val = (rte AND 0xffffffff00000000) OR ucast val"

definition put_high :: "u64 \<Rightarrow> u32 \<Rightarrow> u64" where
  "put_high rte val = (rte AND 0x00000000ffffffff) OR push_bit 32 (ucast val)"

lemma high_mask: "(0xffffffff00000000 :: u64) = push_bit 32 (mask 32)"
  by (simp add: mask_eq_exp_minus_1 push_bit_eq_mult)

lemma low_mask: "(0x00000000ffffffff :: u64) = mask 32"
  by (simp add: mask_eq_exp_minus_1)

lemma bit_put_low: "bit (put_low rte val) n \<longleftrightarrow> (if n < 32 then bit val n else bit rte n)"
  unfolding put_low_def high_mask
  by (auto simp: bit_simps dest: bit_imp_le_length)

lemma bit_put_high: "bit (put_high rte val) n \<longleftrightarrow>
    (if n < 32 then bit rte n else n < 64 \<and> bit val (n - 32))"
  unfolding put_high_def low_mask
  by (auto simp: bit_simps dest: bit_imp_le_length)

text \<open>What a guest does to program the two halves of an entry, and to read one back.\<close>

definition guest_write_reg :: "Ioapic \<Rightarrow> nat \<Rightarrow> u32 \<Rightarrow> Ioapic" where
  "guest_write_reg io i val =
     ioapic_mmio_write (ioapic_mmio_write io IOAPIC_BASE (of_nat i)) (IOAPIC_BASE + IOWIN) val"

definition guest_program_rte :: "Ioapic \<Rightarrow> nat \<Rightarrow> u32 \<Rightarrow> u32 \<Rightarrow> Ioapic" where
  "guest_program_rte io pin lo hi =
     guest_write_reg (guest_write_reg io (0x10 + 2 * pin) lo) (0x11 + 2 * pin) hi"

definition guest_read_reg :: "Ioapic \<Rightarrow> nat \<Rightarrow> u32" where
  "guest_read_reg io i =
     ioapic_mmio_read (ioapic_mmio_write io IOAPIC_BASE (of_nat i)) (IOAPIC_BASE + IOWIN)"

lemma small_u32: "n < 256 \<Longrightarrow> unat (of_nat n :: u32) = n"
  by (rule unat_of_nat_eq) simp

lemma select_index: "n < 256 \<Longrightarrow> (of_nat n AND 0xff :: u32) = of_nat n"
  by (rule unsigned_word_eqI [where 'a = nat]) (simp add: unat_and_ff small_u32)

lemma redtbl_index:
  assumes "pin < NUM_RTES" and "h < 2"
  shows "IOAPIC_REG_REDTBL_BASE \<le> of_nat (0x10 + 2 * pin + h)"
    and "of_nat (0x10 + 2 * pin + h) < IOAPIC_REG_REDTBL_END"
    and "unat ((of_nat (0x10 + 2 * pin + h) - IOAPIC_REG_REDTBL_BASE) div 2) = pin"
    and "(of_nat (0x10 + 2 * pin + h) - IOAPIC_REG_REDTBL_BASE) mod 2 = (of_nat h :: u32)"
    and "of_nat (0x10 + 2 * pin + h) \<notin> {IOAPIC_REG_ID, IOAPIC_REG_VER, IOAPIC_REG_ARB}"
proof -
  let ?i = "of_nat (0x10 + 2 * pin + h) :: u32"
  have n: "0x10 + 2 * pin + h < 256" using assms by (simp add: const_defs)
  have u: "unat ?i = 0x10 + 2 * pin + h" by (rule small_u32 [OF n])
  show b: "IOAPIC_REG_REDTBL_BASE \<le> ?i" by (simp only: word_le_nat_alt u) (simp add: const_defs)
  show "?i < IOAPIC_REG_REDTBL_END"
    using assms by (simp only: word_less_nat_alt u) (simp add: const_defs)
  have d: "unat (?i - IOAPIC_REG_REDTBL_BASE) = 2 * pin + h"
    using b by (simp only: unat_sub u) (simp add: const_defs)
  show "unat ((?i - IOAPIC_REG_REDTBL_BASE) div 2) = pin"
    using assms(2) by (simp only: unat_div d) simp
  show "(?i - IOAPIC_REG_REDTBL_BASE) mod 2 = (of_nat h :: u32)"
  proof (rule unsigned_word_eqI [where 'a = nat])
    have "unat ((?i - IOAPIC_REG_REDTBL_BASE) mod 2) = (2 * pin + h) mod 2"
      by (simp only: unat_mod d) simp
    then show "unat ((?i - IOAPIC_REG_REDTBL_BASE) mod 2) = unat (of_nat h :: u32)"
      using assms(2) small_u32 [of h] by simp
  qed
  show "?i \<notin> {IOAPIC_REG_ID, IOAPIC_REG_VER, IOAPIC_REG_ARB}"
  proof
    assume "?i \<in> {IOAPIC_REG_ID, IOAPIC_REG_VER, IOAPIC_REG_ARB}"
    then have "unat ?i < 0x10" by (auto simp only: insert_iff empty_iff) (simp_all add: const_defs)
    then show False unfolding u by simp
  qed
qed

lemma guest_write_reg_rte:
  assumes "pin < NUM_RTES" and "h < 2"
  shows "guest_write_reg io (0x10 + 2 * pin + h) val
       = io\<lparr>ioregsel := of_nat (0x10 + 2 * pin + h),
            redtbl := (redtbl io)[pin := (if h = 0 then put_low else put_high) (redtbl io ! pin) val]\<rparr>"
proof -
  define i :: u32 where "i = of_nat (0x10 + 2 * pin + h)"
  have "0x10 + 2 * pin + h < 256" using assms by (simp add: const_defs)
  then have "i AND 0xff = i" unfolding i_def by (rule select_index)
  moreover have "(of_nat h :: u32) = 0 \<longleftrightarrow> h = 0"
    using assms(2) by (cases h) auto
  moreover note redtbl_index [OF assms, folded i_def]
  ultimately show ?thesis
    unfolding guest_write_reg_def i_def [symmetric]
    by (simp add: ioapic_mmio_write_def write_indirect_def Let_def put_low_def put_high_def
        IOREGSEL_def IOWIN_def)
qed

lemma guest_read_reg_rte:
  assumes "pin < NUM_RTES" and "h < 2"
  shows "guest_read_reg io (0x10 + 2 * pin + h)
       = (if h = 0 then ucast (redtbl io ! pin) else ucast (drop_bit 32 (redtbl io ! pin)))"
proof -
  define i :: u32 where "i = of_nat (0x10 + 2 * pin + h)"
  have "0x10 + 2 * pin + h < 256" using assms by (simp add: const_defs)
  then have "i AND 0xff = i" unfolding i_def by (rule select_index)
  moreover have "(of_nat h :: u32) = 0 \<longleftrightarrow> h = 0"
    using assms(2) by (cases h) auto
  moreover note redtbl_index [OF assms, folded i_def]
  ultimately show ?thesis
    unfolding guest_read_reg_def i_def [symmetric]
    by (simp add: ioapic_mmio_write_def ioapic_mmio_read_def read_indirect_def Let_def
        IOREGSEL_def IOWIN_def)
qed

lemma guest_program_rte_eq:
  assumes "ioapic_invar io" and "pin < NUM_RTES"
  shows "guest_program_rte io pin lo hi
       = io\<lparr>ioregsel := of_nat (0x11 + 2 * pin),
            redtbl := (redtbl io)[pin := put_high (put_low (redtbl io ! pin) lo) hi]\<rparr>"
  using assms guest_write_reg_rte [OF assms(2), of 0] guest_write_reg_rte [OF assms(2), of 1]
  by (simp add: guest_program_rte_def ioapic_invar_def)

lemma halves_of_entry:
  "ucast (put_high (put_low rte lo) hi) = lo"
  "ucast (drop_bit 32 (put_high (put_low rte lo) hi)) = hi"
  by (rule bit_word_eqI; simp add: bit_simps bit_put_high bit_put_low)+

lemma entry_fields:
  "put_high (put_low rte lo) hi AND RTE_MASK = 0 \<longleftrightarrow> \<not> bit lo 16"
  "put_high (put_low rte lo) hi AND RTE_TRIGGER_LEVEL = 0 \<longleftrightarrow> \<not> bit lo 15"
  "ucast (put_high (put_low rte lo) hi AND 0xff) = (ucast (lo AND 0xff) :: u8)"
proof -
  have ff: "(0xff :: u64) = mask 8" "(0xff :: u32) = mask 8" by (simp_all add: mask_eq_exp_minus_1)
  show "ucast (put_high (put_low rte lo) hi AND 0xff) = (ucast (lo AND 0xff) :: u8)"
    unfolding ff by (rule bit_word_eqI) (simp add: bit_simps bit_put_high bit_put_low)
  show "put_high (put_low rte lo) hi AND RTE_MASK = 0 \<longleftrightarrow> \<not> bit lo 16"
    using bit_iff_and_push_bit_not_eq_0 [of "put_high (put_low rte lo) hi" 16]
    unfolding RTE_MASK_def bit_put_high bit_put_low by simp
  show "put_high (put_low rte lo) hi AND RTE_TRIGGER_LEVEL = 0 \<longleftrightarrow> \<not> bit lo 15"
    using bit_iff_and_push_bit_not_eq_0 [of "put_high (put_low rte lo) hi" 15]
    unfolding RTE_TRIGGER_LEVEL_def bit_put_high bit_put_low by simp
qed

section \<open>Properties\<close>

text \<open>
  Register round trip through the window: after the guest writes both halves of the entry
  of a pin, reading them back gives what was written, the entry of every other pin and the rest
  of the controller's state are unchanged, and the table keeps its 24 entries.
\<close>

theorem rte_roundtrip:
  assumes "ioapic_invar io" and "pin < NUM_RTES"
  shows "guest_read_reg (guest_program_rte io pin lo hi) (0x10 + 2 * pin) = lo
    \<and> guest_read_reg (guest_program_rte io pin lo hi) (0x11 + 2 * pin) = hi
    \<and> (\<forall>p < NUM_RTES. p \<noteq> pin \<longrightarrow> redtbl (guest_program_rte io pin lo hi) ! p = redtbl io ! p)
    \<and> ioapic_id (guest_program_rte io pin lo hi) = ioapic_id io
    \<and> ioapic_invar (guest_program_rte io pin lo hi)"
proof (intro conjI allI impI)
  note eq = guest_program_rte_eq [OF assms]
  have pin: "pin < length (redtbl io)" using assms by (simp add: ioapic_invar_def)
  show "guest_read_reg (guest_program_rte io pin lo hi) (0x10 + 2 * pin) = lo"
    using guest_read_reg_rte [OF assms(2), of 0] pin by (simp add: eq halves_of_entry)
  show "guest_read_reg (guest_program_rte io pin lo hi) (0x11 + 2 * pin) = hi"
    using guest_read_reg_rte [OF assms(2), of 1] pin by (simp add: eq halves_of_entry)
  show "redtbl (guest_program_rte io pin lo hi) ! p = redtbl io ! p" if "p \<noteq> pin" for p
    using that by (simp add: eq)
  show "ioapic_id (guest_program_rte io pin lo hi) = ioapic_id io" by (simp add: eq)
  show "ioapic_invar (guest_program_rte io pin lo hi)"
    unfolding guest_program_rte_def guest_write_reg_def by (intro ioapic_write_invar assms(1))
qed

theorem rte_roundtrip_witness:
  "ioapic_invar (ioapic_new 1) \<and> 4 < NUM_RTES
   \<and> guest_read_reg (guest_program_rte (ioapic_new 1) 4 0x31 0x01000000) 0x18 = 0x31
   \<and> guest_read_reg (guest_program_rte (ioapic_new 1) 4 0x31 0x01000000) 0x19 = 0x01000000"
proof -
  have p: "4 < NUM_RTES" by (simp add: const_defs)
  show ?thesis using rte_roundtrip [OF ioapic_new_invar p, of 1 "0x31" "0x01000000"] p
    by (simp add: ioapic_new_invar)
qed

text \<open>
  C39. From device line to local APIC: once the guest has programmed the pin that an ISA line
  is wired to, an edge on the line posts exactly the programmed vector if the entry is unmasked
  and edge-triggered, and otherwise changes nothing. Two ISA lines never share a pin.
\<close>

theorem programmed_line_delivery:
  assumes "ioapic_invar io" and "irq < 16"
  shows "raise_irq l (guest_program_rte io (unat (isa_irq_to_ioapic_pin irq)) lo hi) (ucast irq)
       = (if bit lo 16 \<or> bit lo 15 then l else lapic_raise l (ucast (lo AND 0xff)))
    \<and> isa_irq_to_ioapic_pin (isa_irq_to_ioapic_pin irq) = irq"
proof
  have "isa_irq_to_ioapic_pin irq < 16" using assms(2) by (simp add: isa_irq_to_ioapic_pin_def)
  then have pin: "unat (isa_irq_to_ioapic_pin irq) < NUM_RTES"
    by (simp add: word_less_nat_alt const_defs)
  then have "unat (isa_irq_to_ioapic_pin irq) < length (redtbl io)"
    using assms(1) by (simp add: ioapic_invar_def)
  then have "edge_vector (guest_program_rte io (unat (isa_irq_to_ioapic_pin irq)) lo hi)
        (unat (isa_irq_to_ioapic_pin irq))
      = (if bit lo 16 \<or> bit lo 15 then None else Some (ucast (lo AND 0xff)))"
    using pin by (simp add: edge_vector_def Let_def guest_program_rte_eq [OF assms(1) pin] entry_fields)
  then show "raise_irq l (guest_program_rte io (unat (isa_irq_to_ioapic_pin irq)) lo hi) (ucast irq)
       = (if bit lo 16 \<or> bit lo 15 then l else lapic_raise l (ucast (lo AND 0xff)))"
    by (simp add: raise_irq_def ucast_ucast_up)
  show "isa_irq_to_ioapic_pin (isa_irq_to_ioapic_pin irq) = irq"
    by (simp add: isa_irq_to_ioapic_pin_def)
qed

theorem programmed_line_delivery_witness:
  "ioapic_invar (ioapic_new 1) \<and> (4 :: u8) < 16
   \<and> raise_irq sample_lapic (guest_program_rte (ioapic_new 1) 4 0x31 0) 4 = lapic_raise sample_lapic 0x31"
  using programmed_line_delivery [OF ioapic_new_invar, of 4 sample_lapic 1 "0x31" 0]
  by (simp add: ioapic_new_invar isa_irq_to_ioapic_pin_def bit_simps)

end
