(* ===== verification/Pic.thy ===== *)
theory Pic
  imports Prelude
begin

text \<open>
  The masked 8259A stub of \<open>src/src/pic.rs\<close>: the initialization word sequence and the mask
  register of the two controllers. No interrupt is delivered through it.
\<close>

section \<open>One controller\<close>

definition PIC1_CMD :: u16 where [const_defs]: "PIC1_CMD = 0x20"
definition PIC1_DATA :: u16 where [const_defs]: "PIC1_DATA = 0x21"
definition PIC2_CMD :: u16 where [const_defs]: "PIC2_CMD = 0xa0"
definition PIC2_DATA :: u16 where [const_defs]: "PIC2_DATA = 0xa1"

record Pic8259 =
  imr :: u8
  icw_step :: u8
  expect_icw4 :: bool

definition pic8259_new :: Pic8259 where
  "pic8259_new = \<lparr>imr = 0xff, icw_step = 0, expect_icw4 = False\<rparr>"

definition write_cmd :: "Pic8259 \<Rightarrow> u8 \<Rightarrow> Pic8259" where
  "write_cmd p val =
     (if val AND 0x10 \<noteq> 0 then p\<lparr>expect_icw4 := (val AND 0x01 \<noteq> 0), icw_step := 1\<rparr> else p)"

definition write_data :: "Pic8259 \<Rightarrow> u8 \<Rightarrow> Pic8259" where
  "write_data p val =
     (if icw_step p = 1 then p\<lparr>icw_step := 2\<rparr>
      else if icw_step p = 2 then p\<lparr>icw_step := 3\<rparr>
      else if icw_step p = 3 then p\<lparr>icw_step := (if expect_icw4 p then 4 else 0)\<rparr>
      else if icw_step p = 4 then p\<lparr>icw_step := 0\<rparr>
      else p\<lparr>imr := val\<rparr>)"

definition read_data :: "Pic8259 \<Rightarrow> u8" where
  "read_data p = imr p"

section \<open>The pair\<close>

record PicStub =
  master :: Pic8259
  slave :: Pic8259

definition pic_new :: PicStub where
  "pic_new = \<lparr>master = pic8259_new, slave = pic8259_new\<rparr>"

definition pic_handles :: "u16 \<Rightarrow> bool" where
  "pic_handles port \<longleftrightarrow> port = PIC1_CMD \<or> port = PIC1_DATA \<or> port = PIC2_CMD \<or> port = PIC2_DATA"

definition pic_write :: "PicStub \<Rightarrow> u16 \<Rightarrow> u8 \<Rightarrow> PicStub" where
  "pic_write pic port val =
     (if port = PIC1_CMD then pic\<lparr>master := write_cmd (master pic) val\<rparr>
      else if port = PIC1_DATA then pic\<lparr>master := write_data (master pic) val\<rparr>
      else if port = PIC2_CMD then pic\<lparr>slave := write_cmd (slave pic) val\<rparr>
      else if port = PIC2_DATA then pic\<lparr>slave := write_data (slave pic) val\<rparr>
      else pic)"

definition pic_read :: "PicStub \<Rightarrow> u16 \<Rightarrow> u8" where
  "pic_read pic port =
     (if port = PIC1_DATA then read_data (master pic)
      else if port = PIC2_DATA then read_data (slave pic)
      else if port = PIC1_CMD \<or> port = PIC2_CMD then 0
      else 0xff)"

section \<open>Initialization takes one word too many\<close>

text \<open>The initialization words a controller is owed, by its step.\<close>

definition words_owed :: "Pic8259 \<Rightarrow> nat" where
  "words_owed p =
     (if icw_step p = 1 then (if expect_icw4 p then 4 else 3)
      else if icw_step p = 2 then (if expect_icw4 p then 3 else 2)
      else if icw_step p = 3 then (if expect_icw4 p then 2 else 1)
      else if icw_step p = 4 then 1 else 0)"

lemma write_data_owed:
  "words_owed (write_data p v) = words_owed p - 1"
  "imr (write_data p v) = (if words_owed p = 0 then v else imr p)"
  by (auto simp: words_owed_def write_data_def)

lemma fold_write_data_owed:
  "words_owed (fold (\<lambda>v p. write_data p v) vs p) = words_owed p - length vs"
  "length vs \<le> words_owed p \<Longrightarrow> imr (fold (\<lambda>v p. write_data p v) vs p) = imr p"
  by (induction vs arbitrary: p) (auto simp: write_data_owed)

text \<open>
  C40. After ICW1 and the initialization words it announces (ICW2, ICW3, and ICW4 when its bit 0
  is set), the controller is still owed one word: the first mask write that follows is swallowed
  and the mask register keeps its old value; only the second mask write is remembered.
\<close>

theorem first_mask_after_init_swallowed:
  assumes "icw1 AND 0x10 \<noteq> 0" and "length icws = (if icw1 AND 0x01 \<noteq> 0 then 3 else 2)"
  shows "imr (fold (\<lambda>v p. write_data p v) (icws @ [m]) (write_cmd p icw1)) = imr p
    \<and> imr (fold (\<lambda>v p. write_data p v) (icws @ [m, m']) (write_cmd p icw1)) = m'"
proof -
  let ?p = "write_cmd p icw1"
  have owed: "words_owed ?p = length icws + 1" "imr ?p = imr p"
    using assms by (auto simp: write_cmd_def words_owed_def)
  have "imr (fold (\<lambda>v p. write_data p v) (icws @ [m]) ?p) = imr p"
    using fold_write_data_owed(2) [of "icws @ [m]" ?p] owed by simp
  moreover have "words_owed (fold (\<lambda>v p. write_data p v) (icws @ [m]) ?p) = 0"
    using owed by (simp only: fold_write_data_owed(1)) simp
  ultimately show ?thesis by (simp add: write_data_owed)
qed

theorem first_mask_after_init_swallowed_witness:
  "(0x11 :: u8) AND 0x10 \<noteq> 0
   \<and> pic_read (foldl (\<lambda>pic (port, v). pic_write pic port v) pic_new
        [(PIC1_CMD, 0x11), (PIC1_DATA, 0x20), (PIC1_DATA, 0x04), (PIC1_DATA, 0x01), (PIC1_DATA, 0xfb)])
        PIC1_DATA = 0xff"
proof -
  have "imr (fold (\<lambda>v p. write_data p v) ([0x20, 0x04, 0x01] @ [0xfb]) (write_cmd pic8259_new 0x11))
      = imr pic8259_new"
    by (rule conjunct1 [OF first_mask_after_init_swallowed]) simp_all
  then show ?thesis
    by (simp add: pic_read_def pic_write_def pic_new_def read_data_def const_defs)
       (simp add: pic8259_new_def)
qed

text \<open>
  Outside initialization the mask register reads back what was last written to it, through
  the ports; a write to one controller's ports never changes the other one, and the command
  ports read as zero: no interrupt is ever reported.
\<close>

theorem mask_readback_and_independence:
  "(icw_step (master pic) = 0 \<longrightarrow> pic_read (pic_write pic PIC1_DATA v) PIC1_DATA = v)
   \<and> (icw_step (slave pic) = 0 \<longrightarrow> pic_read (pic_write pic PIC2_DATA v) PIC2_DATA = v)
   \<and> (port \<in> {PIC1_CMD, PIC1_DATA} \<longrightarrow> slave (pic_write pic port v) = slave pic)
   \<and> (port \<in> {PIC2_CMD, PIC2_DATA} \<longrightarrow> master (pic_write pic port v) = master pic)
   \<and> (\<not> pic_handles port \<longrightarrow> pic_write pic port v = pic \<and> pic_read pic port = 0xff)
   \<and> pic_read pic PIC1_CMD = 0 \<and> pic_read pic PIC2_CMD = 0"
  by (auto simp: pic_read_def pic_write_def read_data_def write_data_def pic_handles_def const_defs)

theorem mask_readback_and_independence_witness:
  "icw_step (master pic_new) = 0 \<and> pic_read (pic_write pic_new PIC1_DATA 0xfb) PIC1_DATA = 0xfb
   \<and> slave (pic_write pic_new PIC1_DATA 0xfb) = slave pic_new"
  using mask_readback_and_independence [of pic_new "0xfb" PIC1_DATA]
  by (simp add: pic_new_def pic8259_new_def)

end
