(* ===== verification/Pit.thy ===== *)
theory Pit
  imports Vtsc
begin

text \<open>
  The 8254 counter stub of \<open>src/src/pit.rs\<close>: three 16-bit down-counters that are functions of
  the virtual clock, their low/high byte flip-flops and latches, and the two ELCR registers.
\<close>

section \<open>Channels\<close>

definition PIT_FREQ_HZ :: u64 where [const_defs]: "PIT_FREQ_HZ = 1193182"
definition PIT_CH0 :: u16 where [const_defs]: "PIT_CH0 = 0x40"
definition PIT_CH1 :: u16 where [const_defs]: "PIT_CH1 = 0x41"
definition PIT_CH2 :: u16 where [const_defs]: "PIT_CH2 = 0x42"
definition PIT_CTRL :: u16 where [const_defs]: "PIT_CTRL = 0x43"
definition ELCR_MASTER :: u16 where [const_defs]: "ELCR_MASTER = 0x4d0"
definition ELCR_SLAVE :: u16 where [const_defs]: "ELCR_SLAVE = 0x4d1"

datatype AccessMode = LoByte | HiByte | LoHiByte

definition from_bits :: "u8 \<Rightarrow> AccessMode" where
  "from_bits bits =
     (let b = bits AND 3 in if b = 1 then LoByte else if b = 2 then HiByte else LoHiByte)"

record Channel =
  access :: AccessMode
  write_lo_next :: bool
  write_lo_latch :: u8
  initial :: u16
  anchor_vtsc :: u64
  read_lo_next :: bool
  latched :: "u16 option"

definition channel_default :: Channel where
  "channel_default =
     \<lparr>access = LoHiByte, write_lo_next = True, write_lo_latch = 0, initial = 0xffff,
      anchor_vtsc = 0, read_lo_next = True, latched = None\<rparr>"

definition pit_ticks_since :: "u64 \<Rightarrow> u64 \<Rightarrow> TscFrequency \<Rightarrow> u64" where
  "pit_ticks_since anchor now freq =
     (let dv = saturating_sub now anchor
      in ucast ((ucast dv :: u128) * ucast PIT_FREQ_HZ div ucast (hz freq)))"

definition counter :: "Channel \<Rightarrow> u64 \<Rightarrow> TscFrequency \<Rightarrow> u16" where
  "counter ch now freq =
     (let ticks = pit_ticks_since (anchor_vtsc ch) now freq
      in ucast ((ucast (initial ch) :: u64) - ticks))"

definition read_byte :: "Channel \<Rightarrow> u64 \<Rightarrow> TscFrequency \<Rightarrow> Channel \<times> u8" where
  "read_byte ch now freq =
     (let v = (case latched ch of Some v \<Rightarrow> v | None \<Rightarrow> counter ch now freq)
      in case access ch of
           LoByte \<Rightarrow> (ch\<lparr>latched := None\<rparr>, ucast v)
         | HiByte \<Rightarrow> (ch\<lparr>latched := None\<rparr>, ucast (drop_bit 8 v))
         | LoHiByte \<Rightarrow>
             if read_lo_next ch then (ch\<lparr>read_lo_next := False\<rparr>, ucast v)
             else (ch\<lparr>read_lo_next := True, latched := None\<rparr>, ucast (drop_bit 8 v)))"

definition write_byte :: "Channel \<Rightarrow> u8 \<Rightarrow> u64 \<Rightarrow> Channel" where
  "write_byte ch byte now =
     (case access ch of
        LoByte \<Rightarrow> ch\<lparr>initial := ucast byte, anchor_vtsc := now\<rparr>
      | HiByte \<Rightarrow> ch\<lparr>initial := push_bit 8 (ucast byte), anchor_vtsc := now\<rparr>
      | LoHiByte \<Rightarrow>
          if write_lo_next ch then ch\<lparr>write_lo_latch := byte, write_lo_next := False\<rparr>
          else ch\<lparr>initial := push_bit 8 (ucast byte) OR ucast (write_lo_latch ch),
                  write_lo_next := True, anchor_vtsc := now\<rparr>)"

definition program :: "Channel \<Rightarrow> AccessMode \<Rightarrow> Channel" where
  "program ch a = ch\<lparr>access := a, read_lo_next := True, write_lo_next := True, latched := None\<rparr>"

definition latch :: "Channel \<Rightarrow> u64 \<Rightarrow> TscFrequency \<Rightarrow> Channel" where
  "latch ch now freq =
     (if latched ch = None then ch\<lparr>latched := Some (counter ch now freq), read_lo_next := True\<rparr>
      else ch)"

section \<open>The stub\<close>

record PitStub =
  channels :: "Channel list"
  elcr :: "u8 list"
  pit_clock :: VirtualClock

definition pit_new :: "VirtualClock \<Rightarrow> PitStub" where
  "pit_new clock = \<lparr>channels = replicate 3 channel_default, elcr = replicate 2 0, pit_clock = clock\<rparr>"

definition pit_handles :: "u16 \<Rightarrow> bool" where
  "pit_handles port \<longleftrightarrow> PIT_CH0 \<le> port \<and> port \<le> PIT_CTRL \<or> port = ELCR_MASTER \<or> port = ELCR_SLAVE"

definition write_control :: "PitStub \<Rightarrow> u8 \<Rightarrow> u64 \<Rightarrow> TscFrequency \<Rightarrow> PitStub" where
  "write_control pit cw now freq =
     (let sel = drop_bit 6 cw
      in if sel = 3 then
           (if cw AND 0x20 = 0 then
              pit\<lparr>channels := map (\<lambda>(i, ch). if cw AND push_bit (i + 1) 1 \<noteq> 0 then latch ch now freq else ch)
                               (enumerate 0 (channels pit))\<rparr>
            else pit)
         else let ch = channels pit ! unat sel; access_bits = drop_bit 4 cw AND 3
              in if access_bits = 0 then pit\<lparr>channels := (channels pit)[unat sel := latch ch now freq]\<rparr>
                 else pit\<lparr>channels := (channels pit)[unat sel := program ch (from_bits access_bits)]\<rparr>)"

definition read_at :: "PitStub \<Rightarrow> u16 \<Rightarrow> u64 \<Rightarrow> PitStub \<times> u8" where
  "read_at pit port now =
     (let freq = vc_freq (pit_clock pit)
      in if port = PIT_CH0 \<or> port = PIT_CH1 \<or> port = PIT_CH2 then
           (let idx = unat (port - PIT_CH0); (ch, v) = read_byte (channels pit ! idx) now freq
            in (pit\<lparr>channels := (channels pit)[idx := ch]\<rparr>, v))
         else if port = PIT_CTRL then (pit, 0xff)
         else if port = ELCR_MASTER then (pit, elcr pit ! 0)
         else if port = ELCR_SLAVE then (pit, elcr pit ! 1)
         else (pit, 0xff))"

definition write_at :: "PitStub \<Rightarrow> u16 \<Rightarrow> u8 \<Rightarrow> u64 \<Rightarrow> PitStub" where
  "write_at pit port val now =
     (let freq = vc_freq (pit_clock pit)
      in if port = PIT_CH0 \<or> port = PIT_CH1 \<or> port = PIT_CH2 then
           (let idx = unat (port - PIT_CH0)
            in pit\<lparr>channels := (channels pit)[idx := write_byte (channels pit ! idx) val now]\<rparr>)
         else if port = PIT_CTRL then write_control pit val now freq
         else if port = ELCR_MASTER then pit\<lparr>elcr := (elcr pit)[0 := val]\<rparr>
         else if port = ELCR_SLAVE then pit\<lparr>elcr := (elcr pit)[1 := val]\<rparr>
         else pit)"

definition pit_read :: "host \<Rightarrow> PitStub \<Rightarrow> u16 \<Rightarrow> PitStub \<times> u8" where
  "pit_read env pit port = read_at pit port (vtsc_now env (pit_clock pit))"

definition pit_write :: "host \<Rightarrow> PitStub \<Rightarrow> u16 \<Rightarrow> u8 \<Rightarrow> PitStub" where
  "pit_write env pit port val = write_at pit port val (vtsc_now env (pit_clock pit))"

section \<open>Loading, latching and reading one channel\<close>

lemma join_bytes: "push_bit 8 (ucast (ucast (drop_bit 8 n) :: u8)) OR ucast (ucast n :: u8) = n" for n :: u16
  by (rule bit_word_eqI) (auto simp: bit_simps)

lemma load_channel:
  "write_byte (write_byte (program ch LoHiByte) (ucast n) t) (ucast (drop_bit 8 n)) t
   = (program ch LoHiByte)\<lparr>write_lo_latch := ucast n, initial := n, anchor_vtsc := t\<rparr>"
  by (simp add: write_byte_def program_def join_bytes)

lemma sample_channel:
  assumes "access ch = LoHiByte" and "latched ch = None"
  shows "read_byte (latch ch t1 f) t2 f
       = (ch\<lparr>latched := Some (counter ch t1 f), read_lo_next := False\<rparr>, ucast (counter ch t1 f))"
    and "read_byte (ch\<lparr>latched := Some (counter ch t1 f), read_lo_next := False\<rparr>) t3 f
       = (ch\<lparr>read_lo_next := True\<rparr>, ucast (drop_bit 8 (counter ch t1 f)))"
  using assms by (simp_all add: latch_def read_byte_def)

lemma ucast_u16_diff: "ucast (a - b) = (ucast a - ucast b :: u16)" for a b :: u64
proof transfer
  fix a b :: int
  have "take_bit 16 (take_bit 64 a - take_bit 64 b)
      = take_bit 16 (take_bit 16 (take_bit 64 a) - take_bit 16 (take_bit 64 b))"
    by (rule take_bit_diff [symmetric])
  also have "\<dots> = take_bit 16 (take_bit 16 a - take_bit 16 b)" by simp
  also have "\<dots> = take_bit 16 (a - b)" by (rule take_bit_diff)
  finally show "take_bit LENGTH(16) (take_bit LENGTH(64) (a - b))
      = take_bit LENGTH(16) (take_bit LENGTH(64) a - take_bit LENGTH(64) b)" by simp
qed

lemma counter_eq:
  "counter ch now f = initial ch - of_nat (unat (pit_ticks_since (anchor_vtsc ch) now f))"
  by (simp add: counter_def ucast_u16_diff ucast_ucast_up)

lemma unat_pit_ticks_since:
  assumes "anchor \<le> now"
  shows "unat (pit_ticks_since anchor now f)
       = (unat now - unat anchor) * 1193182 div unat (freq_hz f) mod 2 ^ 64"
  by (simp only: pit_ticks_since_def Let_def unat_u64_of_u128 unat_div unat_u128_mult_u64
      unat_u128_of_u64 unat_saturating_sub hz_def) (simp add: const_defs)

text \<open>
  What a guest does: load a 16-bit count in low/high mode, and later latch the counter and read
  the two bytes, at different times.
\<close>

definition guest_load :: "PitStub \<Rightarrow> nat \<Rightarrow> u16 \<Rightarrow> u64 \<Rightarrow> PitStub" where
  "guest_load pit c n t =
     write_at (write_at (write_at pit PIT_CTRL (of_nat (64 * c + 0x30)) t)
       (PIT_CH0 + of_nat c) (ucast n) t) (PIT_CH0 + of_nat c) (ucast (drop_bit 8 n)) t"

definition guest_sample :: "PitStub \<Rightarrow> nat \<Rightarrow> u64 \<Rightarrow> u64 \<Rightarrow> u64 \<Rightarrow> PitStub \<times> u16" where
  "guest_sample pit c t1 t2 t3 =
     (let pit = write_at pit PIT_CTRL (of_nat (64 * c)) t1;
          (pit, lo) = read_at pit (PIT_CH0 + of_nat c) t2;
          (pit, hi) = read_at pit (PIT_CH0 + of_nat c) t3
      in (pit, push_bit 8 (ucast hi) OR ucast lo))"

lemma channel_cases: "c < 3 \<Longrightarrow> c = 0 \<or> c = 1 \<or> c = (2 :: nat)"
  by auto

lemma guest_load_eq:
  assumes "c < 3" and "length (channels pit) = 3"
  shows "guest_load pit c n t = pit\<lparr>channels := (channels pit)[c :=
           (program (channels pit ! c) LoHiByte)\<lparr>write_lo_latch := ucast n, initial := n, anchor_vtsc := t\<rparr>]\<rparr>"
  using channel_cases [OF assms(1)] assms(2)
  by (elim disjE) (simp_all add: guest_load_def write_at_def write_control_def from_bits_def Let_def
      const_defs flip: load_channel)

lemma guest_sample_eq:
  assumes "c < 3" and "length (channels pit) = 3"
    and "access (channels pit ! c) = LoHiByte" and "latched (channels pit ! c) = None"
  shows "guest_sample pit c t1 t2 t3
       = (pit\<lparr>channels := (channels pit)[c := (channels pit ! c)\<lparr>read_lo_next := True\<rparr>]\<rparr>,
          counter (channels pit ! c) t1 (vc_freq (pit_clock pit)))"
  using channel_cases [OF assms(1)] assms(2-4)
  by (elim disjE) (simp_all add: guest_sample_def write_at_def read_at_def write_control_def Let_def
      const_defs sample_channel join_bytes)

section \<open>Properties\<close>

text \<open>
  The counter is a function of the virtual clock alone. A count loaded into a channel at
  virtual time \<open>t\<close> and latched at \<open>t1\<close> reads back, whenever the two bytes are fetched, as the
  loaded count minus the whole number of PIT ticks in \<open>t1 - t\<close>, modulo 2 to the 16; the other
  channels are not disturbed.
\<close>

theorem pit_count_is_virtual_time:
  assumes "c < 3" and "length (channels pit) = 3" and "t \<le> t1"
    and "freq_hz (vc_freq (pit_clock pit)) > 0"
    and "(unat t1 - unat t) * 1193182 div unat (freq_hz (vc_freq (pit_clock pit))) < 2 ^ 64"
  shows "snd (guest_sample (guest_load pit c n t) c t1 t2 t3)
       = n - of_nat ((unat t1 - unat t) * 1193182 div unat (freq_hz (vc_freq (pit_clock pit))))
    \<and> (\<forall>d < 3. d \<noteq> c \<longrightarrow>
         channels (fst (guest_sample (guest_load pit c n t) c t1 t2 t3)) ! d = channels pit ! d)"
proof -
  let ?f = "vc_freq (pit_clock pit)"
  let ?ch = "(program (channels pit ! c) LoHiByte)\<lparr>write_lo_latch := ucast n, initial := n, anchor_vtsc := t\<rparr>"
  have "guest_sample (guest_load pit c n t) c t1 t2 t3
      = (pit\<lparr>channels := (channels pit)[c := ?ch\<lparr>read_lo_next := True\<rparr>]\<rparr>, counter ?ch t1 ?f)"
    using assms(1,2) by (simp add: guest_load_eq guest_sample_eq program_def)
  moreover have "counter ?ch t1 ?f = n - of_nat (unat (pit_ticks_since t t1 ?f))"
    by (simp add: counter_eq)
  ultimately show ?thesis
    using assms by (simp add: unat_pit_ticks_since)
qed

theorem pit_count_is_virtual_time_witness:
  "let pit = pit_new \<lparr>vc_cell = 0, vc_freq = \<lparr>freq_hz = 3072000000\<rparr>\<rparr> in
     snd (guest_sample (guest_load pit 2 0xffff 5000) 2 3072005000 3072005900 3072006000)
       = 0xffff - of_nat 1193182"
proof -
  let ?pit = "pit_new \<lparr>vc_cell = 0, vc_freq = \<lparr>freq_hz = 3072000000\<rparr>\<rparr>"
  have f: "freq_hz (vc_freq (pit_clock ?pit)) = 3072000000" "length (channels ?pit) = 3"
    by (simp_all add: pit_new_def)
  have "(2 :: nat) < 3" "(5000 :: u64) \<le> 3072005000" "freq_hz (vc_freq (pit_clock ?pit)) > 0"
    "(unat (3072005000 :: u64) - unat (5000 :: u64)) * 1193182
       div unat (freq_hz (vc_freq (pit_clock ?pit))) < 2 ^ 64"
    by (simp_all add: f)
  from pit_count_is_virtual_time [OF this(1) f(2) this(2-4), of "0xffff" 3072005900 3072006000]
  show ?thesis unfolding f Let_def by simp
qed

end
