(* ===== verification/EgressCodec.thy ===== *)
theory EgressCodec
  imports Prelude
begin

text \<open>
  The binary mux protocol of \<open>src/tdvmm-proto/src/egress.rs\<close>: frames, the encoder and the
  decoder. The decoder reads untrusted bytes, so its indexing is modelled with the panic it
  would raise out of range, and shown never to raise it.
\<close>

section \<open>Frames\<close>

definition EGRESS_SCHEMA :: u32 where [const_defs]: "EGRESS_SCHEMA = 1"
definition EGRESS_VERSION :: u8 where [const_defs]: "EGRESS_VERSION = 1"
definition EGRESS_HEADER_LEN :: nat where [const_defs]: "EGRESS_HEADER_LEN = 6"
definition EGRESS_MAX_PAYLOAD :: nat where [const_defs]: "EGRESS_MAX_PAYLOAD = 65535"
definition EGRESS_MAX_HOST_LEN :: nat where [const_defs]: "EGRESS_MAX_HOST_LEN = 255"
definition T_OPEN :: u8 where [const_defs]: "T_OPEN = 1"
definition T_OPEN_OK :: u8 where [const_defs]: "T_OPEN_OK = 2"
definition T_OPEN_ERR :: u8 where [const_defs]: "T_OPEN_ERR = 3"
definition T_DATA :: u8 where [const_defs]: "T_DATA = 4"
definition T_CLOSE :: u8 where [const_defs]: "T_CLOSE = 5"
definition T_RST :: u8 where [const_defs]: "T_RST = 6"
definition T_WINDOW :: u8 where [const_defs]: "T_WINDOW = 7"

datatype EgressReason =
    ResolveFailed | ConnectRefused | Unreachable | StreamLimit | ProtocolError | Overrun | Other u8

fun code :: "EgressReason \<Rightarrow> u8" where
  "code ResolveFailed = 0"
| "code ConnectRefused = 1"
| "code Unreachable = 2"
| "code StreamLimit = 3"
| "code ProtocolError = 4"
| "code Overrun = 5"
| "code (Other x) = x"

definition from_code :: "u8 \<Rightarrow> EgressReason" where
  "from_code c =
     (if c = 0 then ResolveFailed else if c = 1 then ConnectRefused else if c = 2 then Unreachable
      else if c = 3 then StreamLimit else if c = 4 then ProtocolError else if c = 5 then Overrun
      else Other c)"

fun reason_display :: "EgressReason \<Rightarrow> string" where
  "reason_display ResolveFailed = ''resolve failed''"
| "reason_display ConnectRefused = ''connection refused''"
| "reason_display Unreachable = ''destination unreachable''"
| "reason_display StreamLimit = ''too many streams''"
| "reason_display ProtocolError = ''protocol error''"
| "reason_display Overrun = ''buffer overrun''"
| "reason_display (Other x) = ''reason '' @ decimal (unat x)"

datatype EgressFrame =
    Open u16 u16 bytes
  | OpenOk u16
  | OpenErr u16 EgressReason
  | Data u16 bytes
  | Close u16
  | Rst u16
  | Window u16 u32

fun frame_stream :: "EgressFrame \<Rightarrow> u16" where
  "frame_stream (Open stream _ _) = stream"
| "frame_stream (OpenOk stream) = stream"
| "frame_stream (OpenErr stream _) = stream"
| "frame_stream (Data stream _) = stream"
| "frame_stream (Close stream) = stream"
| "frame_stream (Rst stream) = stream"
| "frame_stream (Window stream _) = stream"

record Decoded =
  frame :: EgressFrame
  consumed :: nat

datatype EgressCodecError =
    UnsupportedVersion u8
  | UnknownType u8
  | BadLength u8 u16
  | HostTooLong nat
  | PayloadTooLong nat

fun codec_error_display :: "EgressCodecError \<Rightarrow> string" where
  "codec_error_display (UnsupportedVersion v) = ''unsupported egress frame version '' @ decimal (unat v)"
| "codec_error_display (UnknownType t) = ''unknown egress frame type '' @ decimal (unat t)"
| "codec_error_display (BadLength ty len) =
     ''illegal length '' @ decimal (unat len) @ '' for egress frame type '' @ decimal (unat ty)"
| "codec_error_display (HostTooLong n) =
     ''hostname is '' @ decimal n @ '' bytes, over the '' @ decimal EGRESS_MAX_HOST_LEN @ ''-byte limit''"
| "codec_error_display (PayloadTooLong n) =
     ''payload is '' @ decimal n @ '' bytes, over the '' @ decimal EGRESS_MAX_PAYLOAD @ ''-byte frame limit''"

section \<open>Encoder\<close>

definition write_header :: "bytes \<Rightarrow> u8 \<Rightarrow> u16 \<Rightarrow> nat \<Rightarrow> (EgressCodecError, bytes) result" where
  "write_header out ty stream len =
     (if len < 65536 then
        Inr (out @ [EGRESS_VERSION, ty] @ to_le_bytes 2 stream @ to_le_bytes 2 (of_nat len :: u16))
      else Inl (PayloadTooLong len))"

fun encode :: "EgressFrame \<Rightarrow> bytes \<Rightarrow> (EgressCodecError, bytes) result" where
  "encode (Open stream port host) out =
     (if length host > EGRESS_MAX_HOST_LEN then Inl (HostTooLong (length host))
      else case write_header out T_OPEN stream (2 + length host) of
             Inl e \<Rightarrow> Inl e
           | Inr out \<Rightarrow> Inr (out @ to_le_bytes 2 port @ host))"
| "encode (OpenOk stream) out = write_header out T_OPEN_OK stream 0"
| "encode (OpenErr stream reason) out =
     (case write_header out T_OPEN_ERR stream 1 of
        Inl e \<Rightarrow> Inl e
      | Inr out \<Rightarrow> Inr (out @ [code reason]))"
| "encode (Data stream payload) out =
     (if length payload > EGRESS_MAX_PAYLOAD then Inl (PayloadTooLong (length payload))
      else case write_header out T_DATA stream (length payload) of
             Inl e \<Rightarrow> Inl e
           | Inr out \<Rightarrow> Inr (out @ payload))"
| "encode (Close stream) out = write_header out T_CLOSE stream 0"
| "encode (Rst stream) out = write_header out T_RST stream 0"
| "encode (Window stream credit) out =
     (case write_header out T_WINDOW stream 4 of
        Inl e \<Rightarrow> Inl e
      | Inr out \<Rightarrow> Inr (out @ to_le_bytes 4 credit))"

section \<open>Decoder\<close>

text \<open>The match on the type byte, with the payload already sliced out.\<close>

definition decode_body ::
  "u8 \<Rightarrow> u16 \<Rightarrow> u16 \<Rightarrow> bytes \<Rightarrow> (EgressCodecError, EgressFrame) outcome" where
  "decode_body ty stream len pl =
     (let bad_len = Err (BadLength ty len)
      in if ty = T_OPEN then
           (if length pl < 2 \<or> length pl - 2 > EGRESS_MAX_HOST_LEN then bad_len
            else bind_outcome (index_at pl 0) (\<lambda>p0.
                 bind_outcome (index_at pl 1) (\<lambda>p1.
                 bind_outcome (slice pl 2 (length pl)) (\<lambda>host.
                   Ok (Open stream (from_le_bytes [p0, p1]) host)))))
         else if ty = T_OPEN_OK then (if len \<noteq> 0 then bad_len else Ok (OpenOk stream))
         else if ty = T_OPEN_ERR then
           (if len \<noteq> 1 then bad_len
            else bind_outcome (index_at pl 0) (\<lambda>c. Ok (OpenErr stream (from_code c))))
         else if ty = T_DATA then Ok (Data stream pl)
         else if ty = T_CLOSE then (if len \<noteq> 0 then bad_len else Ok (Close stream))
         else if ty = T_RST then (if len \<noteq> 0 then bad_len else Ok (Rst stream))
         else if ty = T_WINDOW then
           (if len \<noteq> 4 then bad_len
            else bind_outcome (index_at pl 0) (\<lambda>c0.
                 bind_outcome (index_at pl 1) (\<lambda>c1.
                 bind_outcome (index_at pl 2) (\<lambda>c2.
                 bind_outcome (index_at pl 3) (\<lambda>c3.
                   Ok (Window stream (from_le_bytes [c0, c1, c2, c3])))))))
         else Err (UnknownType ty))"

definition decode :: "bytes \<Rightarrow> (EgressCodecError, Decoded option) outcome" where
  "decode input =
     (if input \<noteq> [] \<and> hd input \<noteq> EGRESS_VERSION then Err (UnsupportedVersion (hd input))
      else if length input < EGRESS_HEADER_LEN then Ok None
      else bind_outcome (index_at input 1) (\<lambda>ty.
           bind_outcome (index_at input 2) (\<lambda>s0.
           bind_outcome (index_at input 3) (\<lambda>s1.
           bind_outcome (index_at input 4) (\<lambda>l0.
           bind_outcome (index_at input 5) (\<lambda>l1.
             let stream = from_le_bytes [s0, s1];
                 len = from_le_bytes [l0, l1] :: u16;
                 total = EGRESS_HEADER_LEN + unat len
             in if length input < total then Ok None
                else bind_outcome (slice input EGRESS_HEADER_LEN total) (\<lambda>pl.
                     bind_outcome (decode_body ty stream len pl) (\<lambda>f.
                       Ok (Some \<lparr>frame = f, consumed = total\<rparr>)))))))))"

section \<open>The two sides agree\<close>

text \<open>A reason that this build decodes to itself: not an \<open>Other\<close> with a known code.\<close>

definition canonical_reason :: "EgressReason \<Rightarrow> bool" where
  "canonical_reason r \<longleftrightarrow> from_code (code r) = r"

fun encodable :: "EgressFrame \<Rightarrow> bool" where
  "encodable (Open _ _ host) \<longleftrightarrow> length host \<le> EGRESS_MAX_HOST_LEN"
| "encodable (OpenErr _ r) \<longleftrightarrow> canonical_reason r"
| "encodable (Data _ pl) \<longleftrightarrow> length pl \<le> EGRESS_MAX_PAYLOAD"
| "encodable _ \<longleftrightarrow> True"

text \<open>Type byte and payload of a frame.\<close>

fun frame_type :: "EgressFrame \<Rightarrow> u8" where
  "frame_type (Open _ _ _) = T_OPEN"
| "frame_type (OpenOk _) = T_OPEN_OK"
| "frame_type (OpenErr _ _) = T_OPEN_ERR"
| "frame_type (Data _ _) = T_DATA"
| "frame_type (Close _) = T_CLOSE"
| "frame_type (Rst _) = T_RST"
| "frame_type (Window _ _) = T_WINDOW"

fun frame_payload :: "EgressFrame \<Rightarrow> bytes" where
  "frame_payload (Open _ port host) = to_le_bytes 2 port @ host"
| "frame_payload (OpenErr _ r) = [code r]"
| "frame_payload (Data _ pl) = pl"
| "frame_payload (Window _ c) = to_le_bytes 4 c"
| "frame_payload _ = []"

definition wire :: "EgressFrame \<Rightarrow> bytes" where
  "wire f = [EGRESS_VERSION, frame_type f] @ to_le_bytes 2 (frame_stream f)
            @ to_le_bytes 2 (of_nat (length (frame_payload f)) :: u16) @ frame_payload f"

lemma encode_eq:
  "encode f out =
     (case f of
        Open _ _ host \<Rightarrow> if length host \<le> EGRESS_MAX_HOST_LEN then Inr (out @ wire f)
                        else Inl (HostTooLong (length host))
      | Data _ pl \<Rightarrow> if length pl \<le> EGRESS_MAX_PAYLOAD then Inr (out @ wire f)
                     else Inl (PayloadTooLong (length pl))
      | _ \<Rightarrow> Inr (out @ wire f))"
  by (cases f) (auto simp: write_header_def wire_def const_defs)

lemma encode_encodable: "encodable f \<Longrightarrow> encode f out = Inr (out @ wire f)"
  by (cases f) (simp_all add: encode_eq)

lemma length6E:
  assumes "6 \<le> length xs"
  obtains v ty s0 s1 l0 l1 rest where "xs = v # ty # s0 # s1 # l0 # l1 # rest"
  using assms that by (auto simp: numeral_eq_Suc Suc_le_length_iff)

lemma decode_cons:
  "decode (v # ty # s0 # s1 # l0 # l1 # rest) =
     (let len = from_le_bytes [l0, l1] :: u16
      in if v \<noteq> EGRESS_VERSION then Err (UnsupportedVersion v)
         else if length rest < unat len then Ok None
         else bind_outcome (decode_body ty (from_le_bytes [s0, s1]) len (take (unat len) rest))
                (\<lambda>f. Ok (Some \<lparr>frame = f, consumed = 6 + unat len\<rparr>)))"
  by (simp add: decode_def const_defs index_at_def slice_def Let_def)

lemma to_le_bytes_2: "to_le_bytes 2 w = [ucast w, ucast (drop_bit 8 w)]"
  by (simp add: to_le_bytes_def upt_conv_Cons)

lemma to_le_bytes_4:
  "to_le_bytes 4 w = [ucast w, ucast (drop_bit 8 w), ucast (drop_bit 16 w), ucast (drop_bit 24 w)]"
  by (simp add: to_le_bytes_def upt_conv_Cons)

lemma from_le_bytes_2: "from_le_bytes [ucast w, ucast (drop_bit 8 w)] = w" for w :: u16
  using from_to_le_bytes [of 2 w] by (simp only: to_le_bytes_2) simp

lemma from_le_bytes_4:
  "from_le_bytes [ucast w, ucast (drop_bit 8 w), ucast (drop_bit 16 w), ucast (drop_bit 24 w)] = w"
  for w :: u32
  using from_to_le_bytes [of 4 w] by (simp only: to_le_bytes_4) simp

text \<open>The body decodes the payload of every encodable frame back to the frame.\<close>

lemma decode_body_payload:
  assumes "encodable f"
  shows "decode_body (frame_type f) (frame_stream f) (of_nat (length (frame_payload f))) (frame_payload f) = Ok f"
  using assms
  by (cases f)
    (simp_all add: decode_body_def const_defs Let_def index_at_def slice_def to_le_bytes_2 to_le_bytes_4
      from_le_bytes_2 from_le_bytes_4 canonical_reason_def del: from_le_bytes.simps)

lemma encodable_length: "encodable f \<Longrightarrow> length (frame_payload f) < 65536"
  by (cases f) (auto simp: const_defs)

lemma decode_wire_append:
  assumes "encodable f"
  shows "decode (wire f @ rest) = Ok (Some \<lparr>frame = f, consumed = length (wire f)\<rparr>)"
proof -
  let ?n = "length (frame_payload f)"
  have n: "unat (of_nat ?n :: u16) = ?n"
    using encodable_length [OF assms] by (intro unat_of_nat_eq) simp
  have w: "wire f @ rest = EGRESS_VERSION # frame_type f # ucast (frame_stream f) # ucast (drop_bit 8 (frame_stream f))
      # ucast (of_nat ?n :: u16) # ucast (drop_bit 8 (of_nat ?n :: u16)) # frame_payload f @ rest"
    by (simp only: wire_def to_le_bytes_2) simp
  show ?thesis
    unfolding w decode_cons from_le_bytes_2 Let_def n
    by (simp add: decode_body_payload [OF assms] wire_def)
qed

lemma decode_wire_prefix:
  assumes "encodable f" and "wire f = p @ q" and "q \<noteq> []"
  shows "decode p = Ok None"
proof (cases "6 \<le> length p")
  case False
  then show ?thesis using assms(2) by (cases p) (auto simp: decode_def wire_def const_defs)
next
  case True
  let ?n = "length (frame_payload f)"
  have n: "unat (of_nat ?n :: u16) = ?n"
    using encodable_length [OF assms(1)] by (intro unat_of_nat_eq) simp
  obtain v ty s0 s1 l0 l1 r where p: "p = v # ty # s0 # s1 # l0 # l1 # r" using True by (rule length6E)
  define m :: u16 where "m = of_nat ?n"
  have eq: "v = EGRESS_VERSION" "l0 = ucast m" "l1 = ucast (drop_bit 8 m)" "frame_payload f = r @ q"
    using assms(2) unfolding p wire_def to_le_bytes_2 m_def [symmetric] by simp_all
  have "length r < unat m" using assms(3) eq(4) n unfolding m_def by simp
  then show ?thesis
    unfolding p decode_cons Let_def eq(2,3) from_le_bytes_2 using eq(1) by simp
qed

lemma to_from_le_bytes_2: "to_le_bytes 2 (from_le_bytes [a, b] :: u16) = [a, b]"
  using to_from_le_bytes [of "[a, b]", where 'a = 16] by (simp add: numeral_2_eq_2)

lemma to_from_le_bytes_4: "to_le_bytes 4 (from_le_bytes [a, b, c, d] :: u32) = [a, b, c, d]"
  using to_from_le_bytes [of "[a, b, c, d]", where 'a = 32] by (simp add: numeral_eq_Suc)

lemma code_from_code [simp]: "code (from_code c) = c"
  by (simp add: from_code_def)

lemma length2E:
  assumes "2 \<le> length xs"
  obtains a b ys where "xs = a # b # ys"
  using assms that by (auto simp: numeral_eq_Suc Suc_le_length_iff)

lemma length4E:
  assumes "length xs = 4"
  obtains a b c d where "xs = [a, b, c, d]"
  using assms that by (auto simp: numeral_eq_Suc length_Suc_conv)

lemma decode_body_no_panic:
  assumes "length pl = unat len"
  shows "decode_body ty stream len pl \<noteq> Panic"
  using assms by (auto simp: decode_body_def Let_def index_at_def slice_def)

lemma decode_body_Ok:
  assumes "decode_body ty stream len pl = Ok f" and "length pl = unat len"
  shows "frame_type f = ty \<and> frame_stream f = stream \<and> frame_payload f = pl \<and> encodable f"
proof -
  have n: "length pl \<le> EGRESS_MAX_PAYLOAD"
    using assms(2) unat_u16_bound [of len] by (simp add: const_defs)
  consider "ty = T_OPEN" | "ty = T_OPEN_ERR" | "ty = T_DATA" | "ty = T_WINDOW"
    | "ty = T_OPEN_OK \<or> ty = T_CLOSE \<or> ty = T_RST"
    using assms(1) by (auto simp: decode_body_def Let_def split: if_splits)
  then show ?thesis
  proof cases
    case 1
    then have l: "2 \<le> length pl" "length pl \<le> 257"
      using assms(1) by (auto simp: decode_body_def Let_def const_defs split: if_splits)
    obtain a b ys where "pl = a # b # ys" using l(1) by (rule length2E)
    then show ?thesis
      using assms(1) 1 l
      by (auto simp: decode_body_def Let_def index_at_def slice_def to_from_le_bytes_2 const_defs
          simp del: from_le_bytes.simps split: if_splits)
  next
    case 2
    then have "length pl = 1"
      using assms by (auto simp: decode_body_def Let_def const_defs split: if_splits)
    then obtain a where "pl = [a]" by (auto simp: length_Suc_conv)
    then show ?thesis
      using assms(1) 2
      by (auto simp: decode_body_def Let_def index_at_def canonical_reason_def const_defs split: if_splits)
  next
    case 3
    then show ?thesis using assms(1) n by (auto simp: decode_body_def Let_def const_defs)
  next
    case 4
    then have "length pl = 4"
      using assms by (auto simp: decode_body_def Let_def const_defs split: if_splits)
    then obtain a b c d where "pl = [a, b, c, d]" by (rule length4E)
    then show ?thesis
      using assms(1) 4
      by (auto simp: decode_body_def Let_def index_at_def to_from_le_bytes_4 const_defs
          simp del: from_le_bytes.simps split: if_splits)
  next
    case 5
    then show ?thesis
      using assms by (auto simp: decode_body_def Let_def const_defs split: if_splits)
  qed
qed

lemma decode_no_panic: "decode input \<noteq> Panic"
proof (cases "6 \<le> length input")
  case False
  then show ?thesis by (auto simp: decode_def const_defs)
next
  case True
  then obtain v ty s0 s1 l0 l1 r where p: "input = v # ty # s0 # s1 # l0 # l1 # r" by (rule length6E)
  let ?len = "from_le_bytes [l0, l1] :: u16"
  have "unat ?len \<le> length r \<Longrightarrow> decode_body ty (from_le_bytes [s0, s1]) ?len (take (unat ?len) r) \<noteq> Panic"
    by (rule decode_body_no_panic) simp
  then show ?thesis
    unfolding p decode_cons Let_def
    by (cases "decode_body ty (from_le_bytes [s0, s1]) ?len (take (unat ?len) r)")
       (auto simp: not_less)
qed

lemma decode_Some_wire:
  assumes "decode input = Ok (Some d)"
  shows "encodable (frame d) \<and> consumed d = length (wire (frame d))
       \<and> input = wire (frame d) @ drop (consumed d) input"
proof -
  have "6 \<le> length input"
    using assms by (auto simp: decode_def const_defs split: if_splits)
  then obtain v ty s0 s1 l0 l1 r where p: "input = v # ty # s0 # s1 # l0 # l1 # r" by (rule length6E)
  define len :: u16 where "len = from_le_bytes [l0, l1]"
  define s :: u16 where "s = from_le_bytes [s0, s1]"
  have v: "v = EGRESS_VERSION" and l: "unat len \<le> length r"
    and b: "decode_body ty s len (take (unat len) r) = Ok (frame d)" and c: "consumed d = 6 + unat len"
    using assms unfolding p decode_cons len_def [symmetric] s_def [symmetric] Let_def
    by (auto split: if_splits)
  have t: "length (take (unat len) r) = unat len" using l by simp
  note f = decode_body_Ok [OF b t]
  have "of_nat (length (frame_payload (frame d))) = len" using f t by simp
  then have "wire (frame d) = v # ty # s0 # s1 # l0 # l1 # take (unat len) r"
    using f v to_from_le_bytes_2 [of s0 s1] to_from_le_bytes_2 [of l0 l1]
    by (simp only: wire_def s_def len_def) simp
  moreover have "drop (6 + unat len) (v # ty # s0 # s1 # l0 # l1 # r) = drop (unat len) r"
    by (simp add: numeral_eq_Suc)
  ultimately show ?thesis using f c l by (simp add: p)
qed

section \<open>Properties\<close>

text \<open>
  C37. Round trip and framing. Every encodable frame is encoded by appending bytes to the
  output, those bytes followed by anything decode to that frame and consume exactly them, and
  every proper prefix of them decodes to "more bytes needed": a frame split at any byte of the
  serial line is never misread. (An \<open>Other\<close> reason that carries a known code is the one frame
  that does not come back as itself.)
\<close>

theorem encode_decode_roundtrip:
  assumes "encodable f"
  shows "\<exists>ms. encode f out = Inr (out @ ms)
    \<and> (\<forall>rest. decode (ms @ rest) = Ok (Some \<lparr>frame = f, consumed = length ms\<rparr>))
    \<and> (\<forall>p q. ms = p @ q \<longrightarrow> q \<noteq> [] \<longrightarrow> decode p = Ok None)"
  using encode_encodable [OF assms] decode_wire_append [OF assms] decode_wire_prefix [OF assms] by blast

theorem encode_decode_roundtrip_witness:
  "encodable (Window 7 65536)
   \<and> (\<exists>ms. encode (Window 7 65536) [9] = Inr ([9] @ ms)
        \<and> decode (ms @ [1, 2]) = Ok (Some \<lparr>frame = Window 7 65536, consumed = length ms\<rparr>))"
  using encode_decode_roundtrip [of "Window 7 65536" "[9]"] by auto

text \<open>
  The decoder is safe on hostile bytes: it never panics; a frame it returns obeys the host
  and payload limits, consumes at least a header and no more than the input, and is exactly what
  the encoder would have produced for the consumed bytes; so two inputs that agree on those
  bytes decode alike and no byte is silently dropped.
\<close>

theorem decode_total_and_exact:
  "decode input \<noteq> Panic
   \<and> (\<forall>d. decode input = Ok (Some d) \<longrightarrow>
        encodable (frame d) \<and> EGRESS_HEADER_LEN \<le> consumed d \<and> consumed d \<le> length input
        \<and> encode (frame d) [] = Inr (take (consumed d) input))"
proof (intro conjI allI impI)
  show "decode input \<noteq> Panic" by (rule decode_no_panic)
  fix d
  assume "decode input = Ok (Some d)"
  note w = decode_Some_wire [OF this]
  show "encodable (frame d)" using w by blast
  show "EGRESS_HEADER_LEN \<le> consumed d" using w by (simp add: wire_def const_defs)
  have len: "length (wire (frame d)) \<le> length input" using w by (metis le_add1 length_append)
  then show "consumed d \<le> length input" using w by simp
  have "take (consumed d) input = wire (frame d)"
    using w by (metis append_eq_conv_conj)
  then show "encode (frame d) [] = Inr (take (consumed d) input)"
    using w encode_encodable by simp
qed

theorem decode_total_and_exact_witness:
  "decode [1, 5, 7, 0, 0, 0, 99] = Ok (Some \<lparr>frame = Close 7, consumed = 6\<rparr>)
   \<and> encode (Close 7) [] = Inr [1, 5, 7, 0, 0, 0]"
proof -
  have d: "decode [1, 5, 7, 0, 0, 0, 99] = Ok (Some \<lparr>frame = Close 7, consumed = 6\<rparr>)"
    by (simp add: decode_cons decode_body_def const_defs)
  with decode_total_and_exact [of "[1, 5, 7, 0, 0, 0, 99]"] show ?thesis by simp
qed

end
