(* ===== verification/Collections.thy ===== *)
theory Collections
  imports Prelude
begin

text \<open>
  The ordered map of the Rust standard library (\<open>BTreeMap\<close>) as a list of entries in ascending
  key order, with the contract its clients rely on as the locale \<open>ordered_map\<close>: what a lookup
  returns after an insertion or a removal, and that the keys are listed in order, once each.
\<close>

section \<open>Operations\<close>

type_synonym ('k, 'v) btree = "('k \<times> 'v) list"

definition bt_get :: "('k, 'v) btree \<Rightarrow> 'k \<Rightarrow> 'v option" where
  "bt_get t k = map_of t k"

fun bt_insert :: "'k::linorder \<Rightarrow> 'v \<Rightarrow> ('k, 'v) btree \<Rightarrow> ('k, 'v) btree" where
  "bt_insert k v [] = [(k, v)]"
| "bt_insert k v ((k', v') # t) =
     (if k < k' then (k, v) # (k', v') # t
      else if k = k' then (k, v) # t
      else (k', v') # bt_insert k v t)"

definition bt_remove :: "'k \<Rightarrow> ('k, 'v) btree \<Rightarrow> ('k, 'v) btree" where
  "bt_remove k t = filter (\<lambda>e. fst e \<noteq> k) t"

definition bt_keys :: "('k, 'v) btree \<Rightarrow> 'k list" where
  "bt_keys t = map fst t"

definition bt_ok :: "('k::linorder, 'v) btree \<Rightarrow> bool" where
  "bt_ok t \<longleftrightarrow> sorted_wrt (<) (map fst t)"

section \<open>Contract\<close>

locale ordered_map =
  fixes empty :: 'm
    and get :: "'m \<Rightarrow> 'k::linorder \<Rightarrow> 'v option"
    and ins :: "'k \<Rightarrow> 'v \<Rightarrow> 'm \<Rightarrow> 'm"
    and rm :: "'k \<Rightarrow> 'm \<Rightarrow> 'm"
    and keys :: "'m \<Rightarrow> 'k list"
    and ok :: "'m \<Rightarrow> bool"
  assumes ok_empty: "ok empty"
    and get_empty: "get empty k = None"
    and ok_ins: "ok t \<Longrightarrow> ok (ins k v t)"
    and get_ins: "ok t \<Longrightarrow> get (ins k v t) k' = (if k' = k then Some v else get t k')"
    and ok_rm: "ok t \<Longrightarrow> ok (rm k t)"
    and get_rm: "ok t \<Longrightarrow> get (rm k t) k' = (if k' = k then None else get t k')"
    and keys_sorted: "ok t \<Longrightarrow> sorted_wrt (<) (keys t)"
    and keys_get: "ok t \<Longrightarrow> k \<in> set (keys t) \<longleftrightarrow> get t k \<noteq> None"
begin

lemma keys_distinct: "ok t \<Longrightarrow> distinct (keys t)"
  using keys_sorted strict_sorted_iff by blast

lemma keys_ins: "ok t \<Longrightarrow> set (keys (ins k v t)) = insert k (set (keys t))"
  by (auto simp: keys_get ok_ins get_ins split: if_splits)

lemma keys_rm: "ok t \<Longrightarrow> set (keys (rm k t)) = set (keys t) - {k}"
  by (auto simp: keys_get ok_rm get_rm split: if_splits)

lemma length_keys: "ok t \<Longrightarrow> length (keys t) = card (set (keys t))"
  by (simp add: keys_distinct distinct_card)

lemma length_keys_ins: "ok t \<Longrightarrow> length (keys (ins k v t)) \<le> Suc (length (keys t))"
  by (simp add: length_keys ok_ins keys_ins card_insert_le_m1 card_insert_if)

lemma length_keys_ins_present:
  "ok t \<Longrightarrow> get t k \<noteq> None \<Longrightarrow> length (keys (ins k v t)) = length (keys t)"
  by (simp add: length_keys ok_ins keys_ins keys_get insert_absorb)

lemma length_keys_rm: "ok t \<Longrightarrow> length (keys (rm k t)) \<le> length (keys t)"
  by (simp add: length_keys ok_rm keys_rm card_mono)

lemma length_keys_rm_present:
  "ok t \<Longrightarrow> get t k \<noteq> None \<Longrightarrow> Suc (length (keys (rm k t))) = length (keys t)"
  using keys_get [of t k] card_Suc_Diff1 [of "set (keys t)" k]
  by (simp add: length_keys ok_rm keys_rm del: card_Diff_insert)

lemma all_ins:
  assumes "ok t" and "\<forall>k' v'. get t k' = Some v' \<longrightarrow> P k' v'" and "P k v"
  shows "\<forall>k' v'. get (ins k v t) k' = Some v' \<longrightarrow> P k' v'"
  using assms by (auto simp: get_ins)

lemma all_rm:
  assumes "ok t" and "\<forall>k' v'. get t k' = Some v' \<longrightarrow> P k' v'"
  shows "\<forall>k' v'. get (rm k t) k' = Some v' \<longrightarrow> P k' v'"
  using assms by (auto simp: get_rm split: if_splits)

end

section \<open>The list of entries implements the contract\<close>

lemma set_bt_insert: "fst ` set (bt_insert k v t) = insert k (fst ` set t)"
  by (induction k v t rule: bt_insert.induct) auto

lemma bt_ok_insert: "bt_ok t \<Longrightarrow> bt_ok (bt_insert k v t)"
proof (induction k v t rule: bt_insert.induct)
  case (1 k v)
  then show ?case by (simp add: bt_ok_def)
next
  case (2 k v k' v' t)
  have "\<forall>x \<in> set (bt_insert k v t). fst x \<in> insert k (fst ` set t)"
    using set_bt_insert [of k v t] by blast
  with 2 show ?case by (fastforce simp: bt_ok_def)
qed

lemma bt_get_insert: "bt_ok t \<Longrightarrow> bt_get (bt_insert k v t) k' = (if k' = k then Some v else bt_get t k')"
  by (induction k v t rule: bt_insert.induct)
     (auto simp: bt_get_def bt_ok_def map_of_eq_None_iff)

lemma bt_get_remove: "bt_get (bt_remove k t) k' = (if k' = k then None else bt_get t k')"
  by (induction t) (auto simp: bt_get_def bt_remove_def)

lemma bt_ok_remove: "bt_ok t \<Longrightarrow> bt_ok (bt_remove k t)"
  by (simp add: bt_ok_def bt_remove_def sorted_wrt_map sorted_wrt_filter)

interpretation bt: ordered_map "[]" bt_get bt_insert bt_remove bt_keys bt_ok
proof (unfold_locales, goal_cases)
  case 1
  show ?case by (simp add: bt_ok_def)
next
  case 2
  show ?case by (simp add: bt_get_def)
next
  case 7
  then show ?case by (simp add: bt_ok_def bt_keys_def)
next
  case (8 t k)
  show ?case by (auto simp: bt_keys_def bt_get_def map_of_eq_None_iff image_iff)
qed (simp_all add: bt_ok_insert bt_get_insert bt_get_remove bt_ok_remove)

end
