(* ===== verification/Text.thy ===== *)
theory Text
  imports Prelude
begin

text \<open>
  Text as the sources handle it. A Rust string is the list of its UTF-8 bytes; the constants of
  the sources are ASCII and written as HOL strings. The theory has the conversions of the
  standard library that the sources call on untrusted bytes (\<open>String::from_utf8_lossy\<close>,
  \<open>from_str_radix\<close>, trimming) and fixed-width number formatting, with their round trips.
\<close>

section \<open>ASCII\<close>

definition ascii :: "string \<Rightarrow> bytes" where
  "ascii s = map (\<lambda>c. of_nat (of_char c)) s"

definition is_ascii :: "bytes \<Rightarrow> bool" where
  "is_ascii bs \<longleftrightarrow> (\<forall>b \<in> set bs. b < 0x80)"

section \<open>Lossy decoding\<close>

text \<open>
  \<open>from_utf8_lossy\<close>: well-formed sequences stay, every maximal ill-formed part becomes the
  replacement character. \<open>second_ok\<close> is the range of the second byte after a lead byte, which
  excludes overlong forms, surrogates and values past the last code point.
\<close>

definition is_cont :: "u8 \<Rightarrow> bool" where
  "is_cont b \<longleftrightarrow> 0x80 \<le> b \<and> b \<le> 0xbf"

definition second_ok :: "u8 \<Rightarrow> u8 \<Rightarrow> bool" where
  "second_ok lead b \<longleftrightarrow>
     (if lead = 0xe0 then 0xa0 \<le> b \<and> b \<le> 0xbf
      else if lead = 0xed then 0x80 \<le> b \<and> b \<le> 0x9f
      else if lead = 0xf0 then 0x90 \<le> b \<and> b \<le> 0xbf
      else if lead = 0xf4 then 0x80 \<le> b \<and> b \<le> 0x8f
      else is_cont b)"

definition replacement :: bytes where
  "replacement = [0xef, 0xbf, 0xbd]"

text \<open>How many bytes the next sequence takes and whether it is well-formed.\<close>

definition utf8_step :: "bytes \<Rightarrow> nat \<times> bool" where
  "utf8_step bs =
     (let b = hd bs; at = (\<lambda>i. if i < length bs then Some (bs ! i) else None);
          ok2 = (case at 1 of Some c \<Rightarrow> second_ok b c | None \<Rightarrow> False);
          ok3 = (case at 2 of Some c \<Rightarrow> is_cont c | None \<Rightarrow> False);
          ok4 = (case at 3 of Some c \<Rightarrow> is_cont c | None \<Rightarrow> False)
      in if b < 0x80 then (1, True)
         else if 0xc2 \<le> b \<and> b \<le> 0xdf then (if ok2 then (2, True) else (1, False))
         else if 0xe0 \<le> b \<and> b \<le> 0xef then
           (if \<not> ok2 then (1, False) else if \<not> ok3 then (2, False) else (3, True))
         else if 0xf0 \<le> b \<and> b \<le> 0xf4 then
           (if \<not> ok2 then (1, False) else if \<not> ok3 then (2, False)
            else if \<not> ok4 then (3, False) else (4, True))
         else (1, False))"

lemma utf8_step_pos: "0 < fst (utf8_step bs)"
  by (simp add: utf8_step_def Let_def)

function from_utf8_lossy :: "bytes \<Rightarrow> bytes" where
  "from_utf8_lossy [] = []"
| "from_utf8_lossy (b # bs) =
     (let (n, ok) = utf8_step (b # bs)
      in (if ok then take n (b # bs) else replacement) @ from_utf8_lossy (drop n (b # bs)))"
  by pat_completeness auto
termination
proof (relation "measure length", simp, goal_cases)
  case (1 b bs x n ok)
  then have "0 < n" using utf8_step_pos [of "b # bs"] by (metis fst_conv)
  then show ?case by simp
qed

lemma from_utf8_lossy_ascii [simp]: "is_ascii bs \<Longrightarrow> from_utf8_lossy bs = bs"
  by (induction bs) (auto simp: is_ascii_def utf8_step_def)

section \<open>Trimming and parsing numbers\<close>

definition trim_matches :: "('a \<Rightarrow> bool) \<Rightarrow> 'a list \<Rightarrow> 'a list" where
  "trim_matches p xs = rev (dropWhile p (rev (dropWhile p xs)))"

lemma trim_matches_id:
  assumes "xs = [] \<or> \<not> p (hd xs) \<and> \<not> p (last xs)"
  shows "trim_matches p xs = xs"
proof -
  have "dropWhile p xs = xs" using assms dropWhile_eq_self_iff [of p xs] by blast
  moreover have "dropWhile p (rev xs) = rev xs"
    using assms dropWhile_eq_self_iff [of p "rev xs"] by (auto simp: hd_rev)
  ultimately show ?thesis by (simp add: trim_matches_def)
qed

text \<open>
  \<open>u64::from_str_radix\<close>: one leading plus sign is accepted, an empty string, a lone sign, a
  foreign digit or a value past 64 bits is an error.
\<close>

definition radix_value :: "nat \<Rightarrow> bytes \<Rightarrow> nat" where
  "radix_value r ds = foldl (\<lambda>v d. v * r + (unat d - 48)) 0 ds"

definition from_str_radix_u64 :: "nat \<Rightarrow> bytes \<Rightarrow> nat option" where
  "from_str_radix_u64 r s =
     (let ds = (if s \<noteq> [] \<and> hd s = 43 then tl s else s)
      in if ds \<noteq> [] \<and> (\<forall>d \<in> set ds. 48 \<le> unat d \<and> unat d < 48 + r) \<and> radix_value r ds < 2 ^ 64
         then Some (radix_value r ds) else None)"

section \<open>Fixed-width numbers\<close>

text \<open>\<open>n\<close> digits of a number in base \<open>r\<close>, most significant first.\<close>

fun digits :: "nat \<Rightarrow> nat \<Rightarrow> nat \<Rightarrow> nat list" where
  "digits r 0 v = []"
| "digits r (Suc n) v = digits r n (v div r) @ [v mod r]"

lemma length_digits [simp]: "length (digits r n v) = n"
  by (induction n arbitrary: v) auto

lemma digits_less: "0 < r \<Longrightarrow> d \<in> set (digits r n v) \<Longrightarrow> d < r"
  by (induction n arbitrary: v) auto

lemma digits_value: "foldl (\<lambda>v d. v * r + d) 0 (digits r n v) = v mod r ^ n"
proof (induction n arbitrary: v)
  case (Suc n)
  have "v mod (r * r ^ n) = r * (v div r mod r ^ n) + v mod r" by (rule mod_mult2_eq)
  then show ?case by (simp add: Suc mult.commute)
qed simp

text \<open>Octal text of at least \<open>w\<close> digits (\<open>{:0w$o}\<close>): as many digits as the number needs.\<close>

function octal_len :: "nat \<Rightarrow> nat" where
  "octal_len v = (if v < 8 then 1 else Suc (octal_len (v div 8)))"
  by pat_completeness auto
termination by (relation "measure id") auto

declare octal_len.simps [simp del]

definition octal :: "nat \<Rightarrow> nat \<Rightarrow> bytes" where
  "octal w v = map (\<lambda>d. of_nat (48 + d)) (digits 8 (max w (octal_len v)) v)"

lemma octal_len_le: "v < 8 ^ n \<Longrightarrow> 0 < n \<Longrightarrow> octal_len v \<le> n"
proof (induction v arbitrary: n rule: octal_len.induct)
  case (1 v)
  show ?case
  proof (cases "v < 8")
    case True
    then show ?thesis using "1.prems" by (subst octal_len.simps) simp
  next
    case False
    then obtain m where n: "n = Suc m" "0 < m"
      using "1.prems" by (cases n; cases "n - 1") auto
    have "v div 8 < 8 ^ m" using "1.prems" n by (simp add: less_mult_imp_div_less mult.commute)
    then show ?thesis using 1 False n by (subst octal_len.simps) simp
  qed
qed

lemma octal_fixed: "v < 8 ^ n \<Longrightarrow> 0 < n \<Longrightarrow> octal n v = map (\<lambda>d. of_nat (48 + d)) (digits 8 n v)"
  using octal_len_le [of v n] by (simp add: octal_def max_def)

lemma octal_digit: "d < 8 \<Longrightarrow> unat (of_nat (48 + d) :: u8) = 48 + d"
  by (rule unat_of_nat_eq) simp

lemma radix_value_map:
  assumes "\<forall>d \<in> set ds. d < 8"
  shows "radix_value 8 (map (\<lambda>d. of_nat (48 + d)) ds) = foldl (\<lambda>v d. v * 8 + d) 0 ds"
  using assms
proof (induction ds rule: rev_induct)
  case (snoc d ds)
  then show ?case using octal_digit [of d] by (simp add: radix_value_def del: of_nat_add)
qed (simp add: radix_value_def)

lemma octal_chars:
  assumes "v < 8 ^ n" and "0 < n"
  shows "length (octal n v) = n" and "b \<in> set (octal n v) \<Longrightarrow> 48 \<le> unat b \<and> unat b < 56"
    and "radix_value 8 (octal n v) = v"
proof -
  have d: "\<forall>d \<in> set (digits 8 n v). d < 8" using digits_less [of 8] by auto
  show "length (octal n v) = n" by (simp add: octal_fixed [OF assms])
  show "48 \<le> unat b \<and> unat b < 56" if "b \<in> set (octal n v)"
    using that d octal_digit by (auto simp: octal_fixed [OF assms] simp del: of_nat_add)
  show "radix_value 8 (octal n v) = v"
    using assms(1) by (simp add: octal_fixed [OF assms] radix_value_map [OF d] digits_value del: of_nat_add)
qed

lemma octal_ascii: "v < 8 ^ n \<Longrightarrow> 0 < n \<Longrightarrow> is_ascii (octal n v)"
  using octal_chars(2) [of v n] by (fastforce simp: is_ascii_def word_less_nat_alt)

lemma from_str_radix_octal:
  assumes "v < 8 ^ n" and "0 < n" and "v < 2 ^ 64"
  shows "from_str_radix_u64 8 (octal n v) = Some v"
proof -
  have ne: "octal n v \<noteq> []" using octal_chars(1) [OF assms(1,2)] assms(2) by auto
  then have "48 \<le> unat (hd (octal n v))" using octal_chars(2) [OF assms(1,2)] by simp
  then have "hd (octal n v) \<noteq> 43" by auto
  then show ?thesis
    using ne octal_chars(2,3) [OF assms(1,2)] assms(3) by (simp add: from_str_radix_u64_def)
qed

section \<open>Lower-case hexadecimal\<close>

definition hex_digit :: "nat \<Rightarrow> u8" where
  "hex_digit d = of_nat (if d < 10 then 48 + d else 87 + d)"

text \<open>\<open>{:x}\<close> of a 16-bit word: as many digits as the number needs.\<close>

definition hex_u16 :: "u16 \<Rightarrow> bytes" where
  "hex_u16 w =
     (let v = unat w; n = (if v < 16 then 1 else if v < 256 then 2 else if v < 4096 then 3 else 4)
      in map hex_digit (digits 16 n v))"

lemma hex_u16_length: "0 < length (hex_u16 w)" "length (hex_u16 w) \<le> 4"
  by (simp_all add: hex_u16_def Let_def)

section \<open>Slices and text\<close>

text \<open>\<open>std::str::from_utf8\<close> succeeds.\<close>

function is_utf8 :: "bytes \<Rightarrow> bool" where
  "is_utf8 [] = True"
| "is_utf8 (b # bs) = (let (n, ok) = utf8_step (b # bs) in ok \<and> is_utf8 (drop n (b # bs)))"
  by pat_completeness auto
termination
proof (relation "measure length", simp, goal_cases)
  case (1 b bs x n ok)
  then have "0 < n" using utf8_step_pos [of "b # bs"] by (metis fst_conv)
  then show ?case by simp
qed

text \<open>\<open>strip_prefix\<close>.\<close>

definition strip_prefix :: "'a list \<Rightarrow> 'a list \<Rightarrow> 'a list option" where
  "strip_prefix p xs = (if take (length p) xs = p then Some (drop (length p) xs) else None)"

end
