(* ===== verification/Egress.thy ===== *)
theory Egress
  imports EgressCodec Collections Text
begin

text \<open>
  The host side of guest egress, the \<open>EgressBackend\<close> of \<open>src/src/egress.rs\<close>: the session
  table, the frame parser, the resolve, connect and close life cycle of a stream, flow control
  and the quiescence predicate that gates a clock jump. The connector (name resolution and
  sockets, the trait \<open>EgressConnector\<close>) and \<open>epoll_ctl\<close> are a record of functions over an
  abstract state, the first argument \<open>K\<close> of the operations. An operation that takes \<open>&mut self\<close>
  and returns a \<open>Result\<close> gives back the result and the state, on the error path too. Counters
  are 64-bit words; buffer lengths are natural numbers.
\<close>

section \<open>Data\<close>

definition WINDOW_BYTES :: nat where [const_defs]: "WINDOW_BYTES = 32 * 1024"
definition READ_CHUNK :: nat where [const_defs]: "READ_CHUNK = 16 * 1024"
definition TO_SOCKET_CAP :: nat where [const_defs]: "TO_SOCKET_CAP = 256 * 1024"
definition MAX_SESSIONS :: nat where [const_defs]: "MAX_SESSIONS = 256"

text \<open>Of an I/O error only the context string is kept.\<close>

datatype EgressError = EgIo string | EgFrame EgressCodecError

record EgressStats =
  sessions_total :: u64
  opens_failed :: u64
  bytes_up :: u64
  bytes_down :: u64
  gated_real_ns :: u64
  gated_intervals :: u64

type_synonym StreamId = u16

record 'a Resolved =
  res_stream :: StreamId
  res_addr :: "'a option"

datatype ConnectPoll = Pending | Connected | Failed EgressReason

datatype io_count = IoOk "nat option" | IoErr

datatype epoll_op = EPOLL_CTL_ADD | EPOLL_CTL_MOD | EPOLL_CTL_DEL

text \<open>
  \<open>conn_read c id want\<close> gives the result, the bytes it put at the front of the buffer and the
  new state. \<open>start_resolve\<close> gets the host name as the UTF-8 bytes of a string.
\<close>

record ('c, 'a, 'p) EgressConnector =
  start_resolve :: "'c \<Rightarrow> StreamId \<Rightarrow> bytes \<Rightarrow> u16 \<Rightarrow> 'c"
  take_resolved :: "'c \<Rightarrow> 'a Resolved list \<times> 'c"
  start_connect :: "'c \<Rightarrow> StreamId \<Rightarrow> 'a \<Rightarrow> bool \<times> 'c"
  poll_connect :: "'c \<Rightarrow> StreamId \<Rightarrow> ConnectPoll \<times> 'c"
  conn_read :: "'c \<Rightarrow> StreamId \<Rightarrow> nat \<Rightarrow> io_count \<times> bytes \<times> 'c"
  conn_write :: "'c \<Rightarrow> StreamId \<Rightarrow> bytes \<Rightarrow> io_count \<times> 'c"
  shutdown_write :: "'c \<Rightarrow> StreamId \<Rightarrow> 'c"
  conn_close :: "'c \<Rightarrow> StreamId \<Rightarrow> 'c"
  stream_fd :: "'c \<Rightarrow> StreamId \<Rightarrow> nat option"
  resolver_fd :: "'c \<Rightarrow> nat option"
  os_epoll_ctl :: "'p \<Rightarrow> epoll_op \<Rightarrow> nat \<Rightarrow> u32 \<Rightarrow> bool \<times> 'p"

datatype SessionState = Resolving | Connecting | Established | HalfClosed

record Session =
  sess_state :: SessionState
  to_socket :: bytes
  to_guest :: bytes
  to_guest_credit :: nat
  guest_write_closed :: bool
  host_read_closed :: bool
  host_close_sent :: bool
  epoll_mask :: u32

definition new_resolving :: Session where
  "new_resolving =
     \<lparr>sess_state = Resolving, to_socket = [], to_guest = [], to_guest_credit = WINDOW_BYTES,
      guest_write_closed = False, host_read_closed = False, host_close_sent = False, epoll_mask = 0\<rparr>"

definition is_drained :: "Session \<Rightarrow> bool" where
  "is_drained s \<longleftrightarrow> guest_write_closed s \<and> host_read_closed s \<and> to_socket s = [] \<and> to_guest s = []"

datatype OwnedFrame =
    OOpen StreamId u16 bytes
  | OData StreamId bytes
  | OClose StreamId
  | ORst StreamId
  | OWindow StreamId u32
  | OUnexpected StreamId

datatype Disposition = Keep | Remove

record ('c, 'p) EgressBackend =
  connector :: 'c
  epoll :: 'p
  sessions :: "(StreamId, Session) btree"
  resolving :: "StreamId set"
  rx_parse :: bytes
  tx_pending :: bytes
  stats :: EgressStats

section \<open>epoll\<close>

definition EPOLLIN :: u32 where [const_defs]: "EPOLLIN = 1"
definition EPOLLOUT :: u32 where [const_defs]: "EPOLLOUT = 4"

definition epoll_add :: "('c, 'a, 'p) EgressConnector \<Rightarrow> 'p \<Rightarrow> nat \<Rightarrow> u32 \<Rightarrow> bool \<times> 'p" where
  "epoll_add K ep fd events = os_epoll_ctl K ep EPOLL_CTL_ADD fd events"

definition epoll_mod :: "('c, 'a, 'p) EgressConnector \<Rightarrow> 'p \<Rightarrow> nat \<Rightarrow> u32 \<Rightarrow> bool \<times> 'p" where
  "epoll_mod K ep fd events = os_epoll_ctl K ep EPOLL_CTL_MOD fd events"

definition epoll_del :: "('c, 'a, 'p) EgressConnector \<Rightarrow> 'p \<Rightarrow> nat \<Rightarrow> 'p" where
  "epoll_del K ep fd = snd (os_epoll_ctl K ep EPOLL_CTL_DEL fd 0)"

section \<open>Construction and observers\<close>

definition stats_default :: EgressStats where
  "stats_default = \<lparr>sessions_total = 0, opens_failed = 0, bytes_up = 0, bytes_down = 0,
                    gated_real_ns = 0, gated_intervals = 0\<rparr>"

text \<open>\<open>ep\<close> is the outcome of \<open>epoll_create1\<close>.\<close>

definition with_connector ::
  "('c, 'a, 'p) EgressConnector \<Rightarrow> 'p option \<Rightarrow> 'c \<Rightarrow> EgressError + ('c, 'p) EgressBackend" where
  "with_connector K ep c =
     (case ep of
        None \<Rightarrow> Inl (EgIo ''creating egress epoll fd'')
      | Some ep \<Rightarrow>
          (case (case resolver_fd K c of
                   Some fd \<Rightarrow> epoll_add K ep fd EPOLLIN
                 | None \<Rightarrow> (True, ep)) of
             (False, _) \<Rightarrow> Inl (EgIo ''registering resolver fd'')
           | (True, ep) \<Rightarrow>
               Inr \<lparr>connector = c, epoll = ep, sessions = [], resolving = {}, rx_parse = [],
                    tx_pending = [], stats = stats_default\<rparr>))"

definition is_quiescent :: "('c, 'p) EgressBackend \<Rightarrow> bool" where
  "is_quiescent b \<longleftrightarrow> sessions b = [] \<and> resolving b = {} \<and> rx_parse b = [] \<and> tx_pending b = []"

definition state_summary :: "('c, 'p) EgressBackend \<Rightarrow> string" where
  "state_summary b =
     ''sessions='' @ decimal (length (sessions b))
     @ '' resolves_in_flight='' @ decimal (card (resolving b))
     @ '' rx_parse='' @ decimal (length (rx_parse b)) @ ''B''
     @ '' tx_pending='' @ decimal (length (tx_pending b)) @ ''B''"

definition backend_note_gated_interval :: "('c, 'p) EgressBackend \<Rightarrow> u64 \<Rightarrow> ('c, 'p) EgressBackend" where
  "backend_note_gated_interval b real_ns =
     b\<lparr>stats := (stats b)\<lparr>gated_real_ns := saturating_add (gated_real_ns (stats b)) real_ns,
                         gated_intervals := saturating_add (gated_intervals (stats b)) 1\<rparr>\<rparr>"

definition drain_to_guest :: "('c, 'p) EgressBackend \<Rightarrow> nat \<Rightarrow> bytes \<times> ('c, 'p) EgressBackend" where
  "drain_to_guest b mx =
     (let n = min mx (length (tx_pending b))
      in (take n (tx_pending b), b\<lparr>tx_pending := drop n (tx_pending b)\<rparr>))"

definition unshift_to_guest :: "('c, 'p) EgressBackend \<Rightarrow> bytes \<Rightarrow> ('c, 'p) EgressBackend" where
  "unshift_to_guest b bs = b\<lparr>tx_pending := fold (\<lambda>x q. x # q) (rev bs) (tx_pending b)\<rparr>"

definition has_frames_for_guest :: "('c, 'p) EgressBackend \<Rightarrow> bool" where
  "has_frames_for_guest b \<longleftrightarrow> tx_pending b \<noteq> []"

definition open_session_count :: "('c, 'p) EgressBackend \<Rightarrow> nat" where
  "open_session_count b = length (sessions b)"

definition ff_jump_allowed :: "('c, 'p) EgressBackend option \<Rightarrow> bool" where
  "ff_jump_allowed egress \<longleftrightarrow> (case egress of None \<Rightarrow> True | Some b \<Rightarrow> is_quiescent b)"

text \<open>The always-on assertion before a jump.\<close>

definition assert_ff_jump_legal :: "('c, 'p) EgressBackend option \<Rightarrow> (string, unit) outcome" where
  "assert_ff_jump_legal egress = (if ff_jump_allowed egress then Ok () else Panic)"

section \<open>Streams\<close>

definition enqueue :: "bytes \<Rightarrow> EgressFrame \<Rightarrow> EgressError + bytes" where
  "enqueue tx f = (case encode f [] of Inl e \<Rightarrow> Inl (EgFrame e) | Inr buf \<Rightarrow> Inr (tx @ buf))"

text \<open>\<open>enqueue(&mut self.tx_pending, f)\<close>.\<close>

definition push_frame ::
  "('c, 'p) EgressBackend \<Rightarrow> EgressFrame \<Rightarrow> (EgressError + unit) \<times> ('c, 'p) EgressBackend" where
  "push_frame b f =
     (case enqueue (tx_pending b) f of
        Inl e \<Rightarrow> (Inl e, b)
      | Inr tx \<Rightarrow> (Inr (), b\<lparr>tx_pending := tx\<rparr>))"

definition detach_socket ::
  "('c, 'a, 'p) EgressConnector \<Rightarrow> ('c, 'p) EgressBackend \<Rightarrow> StreamId \<Rightarrow> ('c, 'p) EgressBackend" where
  "detach_socket K b stream =
     (let ep = (case stream_fd K (connector b) stream of
                  Some fd \<Rightarrow> epoll_del K (epoll b) fd
                | None \<Rightarrow> epoll b)
      in b\<lparr>epoll := ep, connector := conn_close K (connector b) stream\<rparr>)"

definition remove_session :: "('c, 'p) EgressBackend \<Rightarrow> StreamId \<Rightarrow> ('c, 'p) EgressBackend" where
  "remove_session b stream = b\<lparr>sessions := bt_remove stream (sessions b)\<rparr>"

definition put_session :: "('c, 'p) EgressBackend \<Rightarrow> StreamId \<Rightarrow> Session \<Rightarrow> ('c, 'p) EgressBackend" where
  "put_session b stream s = b\<lparr>sessions := bt_insert stream s (sessions b)\<rparr>"

definition reset_stream ::
  "('c, 'a, 'p) EgressConnector \<Rightarrow> ('c, 'p) EgressBackend \<Rightarrow> StreamId
     \<Rightarrow> (EgressError + unit) \<times> ('c, 'p) EgressBackend" where
  "reset_stream K b stream = push_frame (remove_session (detach_socket K b stream) stream) (Rst stream)"

definition abort_open ::
  "('c, 'a, 'p) EgressConnector \<Rightarrow> ('c, 'p) EgressBackend \<Rightarrow> StreamId
     \<Rightarrow> (EgressError + Disposition) \<times> ('c, 'p) EgressBackend" where
  "abort_open K b stream =
     and_then (push_frame (detach_socket K b stream) (Rst stream)) (\<lambda>_ b. (Inr Remove, b))"

definition count_open_failed :: "('c, 'p) EgressBackend \<Rightarrow> ('c, 'p) EgressBackend" where
  "count_open_failed b = b\<lparr>stats := (stats b)\<lparr>opens_failed := opens_failed (stats b) + 1\<rparr>\<rparr>"

definition fail_open ::
  "('c, 'a, 'p) EgressConnector \<Rightarrow> ('c, 'p) EgressBackend \<Rightarrow> StreamId \<Rightarrow> EgressReason
     \<Rightarrow> (EgressError + unit) \<times> ('c, 'p) EgressBackend" where
  "fail_open K b stream reason =
     push_frame (count_open_failed (remove_session (detach_socket K b stream) stream)) (OpenErr stream reason)"

definition drop_stream ::
  "('c, 'a, 'p) EgressConnector \<Rightarrow> ('c, 'p) EgressBackend \<Rightarrow> StreamId \<Rightarrow> ('c, 'p) EgressBackend" where
  "drop_stream K b stream = remove_session (detach_socket K b stream) stream"

definition update_epoll ::
  "('c, 'a, 'p) EgressConnector \<Rightarrow> ('c, 'p) EgressBackend \<Rightarrow> StreamId \<Rightarrow> Session
     \<Rightarrow> (EgressError + unit) \<times> Session \<times> ('c, 'p) EgressBackend" where
  "update_epoll K b sid s =
     (let mask = (if \<not> host_read_closed s \<and> length (to_guest s) < WINDOW_BYTES then EPOLLIN else 0)
                 OR (if to_socket s \<noteq> [] then EPOLLOUT else 0)
      in if mask \<noteq> epoll_mask s then
           (case (case stream_fd K (connector b) sid of
                    Some fd \<Rightarrow> epoll_mod K (epoll b) fd mask
                  | None \<Rightarrow> (True, epoll b)) of
              (False, ep) \<Rightarrow> (Inl (EgIo ''updating egress epoll interest''), s, b\<lparr>epoll := ep\<rparr>)
            | (True, ep) \<Rightarrow> (Inr (), s\<lparr>epoll_mask := mask\<rparr>, b\<lparr>epoll := ep\<rparr>))
         else (Inr (), s, b))"

section \<open>Frames from the guest\<close>

fun to_owned :: "EgressFrame \<Rightarrow> OwnedFrame" where
  "to_owned (Open stream port host) = OOpen stream port host"
| "to_owned (Data stream pl) = OData stream pl"
| "to_owned (Close stream) = OClose stream"
| "to_owned (Rst stream) = ORst stream"
| "to_owned (Window stream credit) = OWindow stream credit"
| "to_owned (OpenOk stream) = OUnexpected stream"
| "to_owned (OpenErr stream _) = OUnexpected stream"

definition handle_open ::
  "('c, 'a, 'p) EgressConnector \<Rightarrow> ('c, 'p) EgressBackend \<Rightarrow> StreamId \<Rightarrow> u16 \<Rightarrow> bytes
     \<Rightarrow> (EgressError + unit) \<times> ('c, 'p) EgressBackend" where
  "handle_open K b stream port host =
     (if bt_get (sessions b) stream \<noteq> None \<or> stream \<in> resolving b then reset_stream K b stream
      else if MAX_SESSIONS \<le> length (sessions b) then fail_open K b stream StreamLimit
      else if host = [] \<or> port = 0 then fail_open K b stream ProtocolError
      else (Inr (),
            put_session
              (b\<lparr>connector := start_resolve K (connector b) stream (from_utf8_lossy host) port,
                 resolving := insert stream (resolving b),
                 stats := (stats b)\<lparr>sessions_total := sessions_total (stats b) + 1\<rparr>\<rparr>)
              stream new_resolving))"

definition handle_data ::
  "('c, 'a, 'p) EgressConnector \<Rightarrow> ('c, 'p) EgressBackend \<Rightarrow> StreamId \<Rightarrow> bytes
     \<Rightarrow> (EgressError + unit) \<times> ('c, 'p) EgressBackend" where
  "handle_data K b stream pl =
     (case bt_get (sessions b) stream of
        Some s \<Rightarrow>
          if \<not> guest_write_closed s then
            (let s = s\<lparr>to_socket := to_socket s @ pl\<rparr>; b = put_session b stream s
             in if TO_SOCKET_CAP < length (to_socket s) then reset_stream K b stream else (Inr (), b))
          else reset_stream K b stream
      | None \<Rightarrow> reset_stream K b stream)"

definition handle_close ::
  "('c, 'a, 'p) EgressConnector \<Rightarrow> ('c, 'p) EgressBackend \<Rightarrow> StreamId \<Rightarrow> ('c, 'p) EgressBackend" where
  "handle_close K b stream =
     (case bt_get (sessions b) stream of
        Some s \<Rightarrow>
          (let s = s\<lparr>guest_write_closed := True,
                     sess_state := (if sess_state s = Established then HalfClosed else sess_state s)\<rparr>;
               b = put_session b stream s
           in b\<lparr>connector := shutdown_write K (connector b) stream\<rparr>)
      | None \<Rightarrow> b)"

fun handle_frame ::
  "('c, 'a, 'p) EgressConnector \<Rightarrow> ('c, 'p) EgressBackend \<Rightarrow> OwnedFrame
     \<Rightarrow> (EgressError + unit) \<times> ('c, 'p) EgressBackend" where
  "handle_frame K b (OOpen stream port host) = handle_open K b stream port host"
| "handle_frame K b (OData stream pl) = handle_data K b stream pl"
| "handle_frame K b (OClose stream) = (Inr (), handle_close K b stream)"
| "handle_frame K b (ORst stream) = (Inr (), drop_stream K b stream)"
| "handle_frame K b (OWindow stream credit) =
     (Inr (), case bt_get (sessions b) stream of
                Some s \<Rightarrow> put_session b stream
                  (s\<lparr>to_guest_credit := min (to_guest_credit s + unat credit) (2 ^ 64 - 1)\<rparr>)
              | None \<Rightarrow> b)"
| "handle_frame K b (OUnexpected stream) = reset_stream K b stream"

fun handle_frames ::
  "('c, 'a, 'p) EgressConnector \<Rightarrow> ('c, 'p) EgressBackend \<Rightarrow> OwnedFrame list
     \<Rightarrow> (EgressError + unit) \<times> ('c, 'p) EgressBackend" where
  "handle_frames K b [] = (Inr (), b)"
| "handle_frames K b (f # fs) = and_then (handle_frame K b f) (\<lambda>_ b. handle_frames K b fs)"

text \<open>
  The parse loop: the owned frames from \<open>offset\<close> on and the offset where it stopped. Every
  decoded frame consumes at least its header, so the loop ends; the decoder does not panic, so
  its \<open>Panic\<close> case is never taken.
\<close>

function parse_frames :: "bytes \<Rightarrow> nat \<Rightarrow> OwnedFrame list \<Rightarrow> EgressCodecError + OwnedFrame list \<times> nat" where
  "parse_frames rx offset owned =
     (case decode (drop offset rx) of
        Ok (Some d) \<Rightarrow> parse_frames rx (offset + consumed d) (owned @ [to_owned (frame d)])
      | Ok None \<Rightarrow> Inr (owned, offset)
      | Err e \<Rightarrow> Inl e
      | Panic \<Rightarrow> Inr (owned, offset))"
  by pat_completeness auto
termination
proof (relation "measure (\<lambda>(rx, offset, owned). length rx - offset)", simp, goal_cases)
  case (1 rx offset owned d d')
  then have "length (wire (frame d')) \<le> length (drop offset rx)" "6 \<le> length (wire (frame d'))"
      "consumed d' = length (wire (frame d'))"
    using decode_Some_wire [of "drop offset rx" d']
    by (auto simp: wire_def intro: order_trans dest: arg_cong [where f = length])
  then show ?case by simp
qed

declare parse_frames.simps [simp del]

definition ingest_and_parse ::
  "('c, 'a, 'p) EgressConnector \<Rightarrow> ('c, 'p) EgressBackend \<Rightarrow> bytes
     \<Rightarrow> (EgressError + unit) \<times> ('c, 'p) EgressBackend" where
  "ingest_and_parse K b from_guest =
     (let rx = rx_parse b @ from_guest
      in case parse_frames rx 0 [] of
           Inl e \<Rightarrow> (Inl (EgFrame e), b\<lparr>rx_parse := []\<rparr>)
         | Inr (owned, offset) \<Rightarrow> handle_frames K (b\<lparr>rx_parse := drop offset rx\<rparr>) owned)"

section \<open>Resolutions and sockets\<close>

definition harvest_one ::
  "('c, 'a, 'p) EgressConnector \<Rightarrow> ('c, 'p) EgressBackend \<Rightarrow> 'a Resolved
     \<Rightarrow> (EgressError + unit) \<times> ('c, 'p) EgressBackend" where
  "harvest_one K b r =
     (let sid = res_stream r; b = b\<lparr>resolving := resolving b - {sid}\<rparr>
      in if map_option sess_state (bt_get (sessions b) sid) \<noteq> Some Resolving then (Inr (), b)
         else case res_addr r of
           None \<Rightarrow> fail_open K b sid ResolveFailed
         | Some addr \<Rightarrow>
             (case start_connect K (connector b) sid addr of
                (True, c) \<Rightarrow>
                  (let b = b\<lparr>connector := c\<rparr>; mask = EPOLLIN OR EPOLLOUT
                   in case (case stream_fd K c sid of
                              Some fd \<Rightarrow> epoll_add K (epoll b) fd mask
                            | None \<Rightarrow> (True, epoll b)) of
                        (False, ep) \<Rightarrow> (Inl (EgIo ''registering egress socket''), b\<lparr>epoll := ep\<rparr>)
                      | (True, ep) \<Rightarrow>
                          (Inr (), case bt_get (sessions b) sid of
                                     Some s \<Rightarrow> put_session (b\<lparr>epoll := ep\<rparr>) sid
                                       (s\<lparr>sess_state := Connecting, epoll_mask := mask\<rparr>)
                                   | None \<Rightarrow> b\<lparr>epoll := ep\<rparr>))
              | (False, c) \<Rightarrow> fail_open K (b\<lparr>connector := c\<rparr>) sid Unreachable))"

fun harvest_all ::
  "('c, 'a, 'p) EgressConnector \<Rightarrow> ('c, 'p) EgressBackend \<Rightarrow> 'a Resolved list
     \<Rightarrow> (EgressError + unit) \<times> ('c, 'p) EgressBackend" where
  "harvest_all K b [] = (Inr (), b)"
| "harvest_all K b (r # rs) = and_then (harvest_one K b r) (\<lambda>_ b. harvest_all K b rs)"

definition harvest_resolves ::
  "('c, 'a, 'p) EgressConnector \<Rightarrow> ('c, 'p) EgressBackend \<Rightarrow> (EgressError + unit) \<times> ('c, 'p) EgressBackend" where
  "harvest_resolves K b =
     (let (rs, c) = take_resolved K (connector b) in harvest_all K (b\<lparr>connector := c\<rparr>) rs)"

definition run_connecting ::
  "('c, 'a, 'p) EgressConnector \<Rightarrow> StreamId \<Rightarrow> Session \<times> ('c, 'p) EgressBackend
     \<Rightarrow> (EgressError + Disposition) \<times> Session \<times> ('c, 'p) EgressBackend" where
  "run_connecting K sid sb =
     (let (s, b) = sb; (p, c) = poll_connect K (connector b) sid; b = b\<lparr>connector := c\<rparr>
      in case p of
           Pending \<Rightarrow> (Inr Keep, s, b)
         | Connected \<Rightarrow>
             (case push_frame b (OpenOk sid) of
                (Inl e, b) \<Rightarrow> (Inl e, s, b)
              | (Inr _, b) \<Rightarrow>
                  (let (s, b) = (if guest_write_closed s
                                 then (s\<lparr>sess_state := HalfClosed\<rparr>,
                                       b\<lparr>connector := shutdown_write K (connector b) sid\<rparr>)
                                 else (s\<lparr>sess_state := Established\<rparr>, b))
                   in and_then (update_epoll K b sid s) (\<lambda>_ sb. (Inr Keep, sb))))
         | Failed reason \<Rightarrow>
             (case push_frame (count_open_failed (detach_socket K b sid)) (OpenErr sid reason) of
                (Inl e, b) \<Rightarrow> (Inl e, s, b)
              | (Inr _, b) \<Rightarrow> (Inr Remove, s, b)))"

text \<open>
  Step 1, flushing to the socket: whether it ended without an error, the connector, what is
  left to write and the byte counter. A write hands over the whole remaining buffer.
\<close>

function write_loop ::
  "('c, 'a, 'p) EgressConnector \<Rightarrow> StreamId \<Rightarrow> 'c \<Rightarrow> bytes \<Rightarrow> u64 \<Rightarrow> bool \<times> 'c \<times> bytes \<times> u64" where
  "write_loop K sid c q up =
     (if q = [] then (True, c, q, up)
      else case conn_write K c sid q of
             (IoOk (Some n), c) \<Rightarrow>
               if n > 0 then
                 (let n = min n (length q) in write_loop K sid c (drop n q) (up + of_nat n))
               else (True, c, q, up)
           | (IoOk None, c) \<Rightarrow> (True, c, q, up)
           | (IoErr, c) \<Rightarrow> (False, c, q, up))"
  by pat_completeness auto
termination
  by (relation "measure (\<lambda>(K, sid, c, q, up). length q)") (auto simp: min_def)

declare write_loop.simps [simp del]

text \<open>
  Step 2, reading into the window buffer \<open>q\<close>; \<open>buf\<close> is the scratch array. The result says
  whether the socket failed and whether it reached the end of file.
\<close>

definition store_front :: "(nat \<Rightarrow> u8) \<Rightarrow> bytes \<Rightarrow> nat \<Rightarrow> u8" where
  "store_front buf data = (\<lambda>i. if i < length data then data ! i else buf i)"

datatype read_end = ReadFailed | ReadEof | ReadMore

function read_loop ::
  "('c, 'a, 'p) EgressConnector \<Rightarrow> StreamId \<Rightarrow> 'c \<Rightarrow> bytes \<Rightarrow> (nat \<Rightarrow> u8) \<Rightarrow> read_end \<times> 'c \<times> bytes" where
  "read_loop K sid c q buf =
     (if length q < WINDOW_BYTES then
        (let want = min (WINDOW_BYTES - length q) READ_CHUNK
         in case conn_read K c sid want of
              (IoOk (Some n), data, c) \<Rightarrow>
                if n = 0 then (ReadEof, c, q)
                else (let buf = store_front buf (take want data)
                      in read_loop K sid c (q @ map buf [0..<min n want]) buf)
            | (IoOk None, data, c) \<Rightarrow> (ReadMore, c, q)
            | (IoErr, data, c) \<Rightarrow> (ReadFailed, c, q))
      else (ReadMore, c, q))"
  by pat_completeness auto
termination
proof (relation "measure (\<lambda>(K, sid, c, q, buf). WINDOW_BYTES - length q)", goal_cases)
  case 1
  show ?case by simp
next
  case (2 K sid c q buf want)
  have "0 < READ_CHUNK" by (simp add: READ_CHUNK_def)
  with 2 show ?case by simp
qed

declare read_loop.simps [simp del]

text \<open>Step 3, framing towards the guest, bounded by the credit.\<close>

function frame_loop ::
  "StreamId \<Rightarrow> bytes \<Rightarrow> bytes \<Rightarrow> nat \<Rightarrow> u64 \<Rightarrow> (EgressError + unit) \<times> bytes \<times> bytes \<times> nat \<times> u64" where
  "frame_loop sid tx q credit down =
     (if q \<noteq> [] \<and> credit > 0 then
        (let n = min (min (length q) credit) EGRESS_MAX_PAYLOAD
         in case enqueue tx (Data sid (take n q)) of
              Inl e \<Rightarrow> (Inl e, tx, q, credit, down)
            | Inr tx \<Rightarrow> frame_loop sid tx (drop n q) (credit - n) (down + of_nat n))
      else (Inr (), tx, q, credit, down))"
  by pat_completeness auto
termination
proof (relation "measure (\<lambda>(sid, tx, q, credit, down). length q)", goal_cases)
  case 1
  show ?case by simp
next
  case (2 sid tx q credit down n tx')
  then show ?case by (simp add: EGRESS_MAX_PAYLOAD_def)
qed

declare frame_loop.simps [simp del]

text \<open>The steps of \<open>run_open_io\<close>; the early returns of a failed socket are \<open>None\<close>.\<close>

definition flush_step ::
  "('c, 'a, 'p) EgressConnector \<Rightarrow> StreamId \<Rightarrow> Session \<times> ('c, 'p) EgressBackend
     \<Rightarrow> bool \<times> Session \<times> ('c, 'p) EgressBackend" where
  "flush_step K sid sb =
     (let (s, b) = sb;
          (ok, c, q, up) = write_loop K sid (connector b) (to_socket s) (bytes_up (stats b))
      in (ok, s\<lparr>to_socket := q\<rparr>, b\<lparr>connector := c, stats := (stats b)\<lparr>bytes_up := up\<rparr>\<rparr>))"

definition read_step ::
  "('c, 'a, 'p) EgressConnector \<Rightarrow> StreamId \<Rightarrow> Session \<times> ('c, 'p) EgressBackend
     \<Rightarrow> bool \<times> Session \<times> ('c, 'p) EgressBackend" where
  "read_step K sid sb =
     (let (s, b) = sb
      in if host_read_closed s then (True, s, b)
         else let (r, c, q) = read_loop K sid (connector b) (to_guest s) (\<lambda>_. 0);
                  s = s\<lparr>to_guest := q\<rparr>; b = b\<lparr>connector := c\<rparr>
              in case r of
                   ReadFailed \<Rightarrow> (False, s, b)
                 | ReadMore \<Rightarrow> (True, s, b)
                 | ReadEof \<Rightarrow>
                     (True, s\<lparr>host_read_closed := True,
                              sess_state := (if sess_state s = Established then HalfClosed else sess_state s)\<rparr>, b))"

definition frame_step ::
  "StreamId \<Rightarrow> Session \<times> ('c, 'p) EgressBackend \<Rightarrow> (EgressError + unit) \<times> Session \<times> ('c, 'p) EgressBackend" where
  "frame_step sid sb =
     (let (s, b) = sb;
          (r, tx, q, credit, down) =
            frame_loop sid (tx_pending b) (to_guest s) (to_guest_credit s) (bytes_down (stats b))
      in (r, s\<lparr>to_guest := q, to_guest_credit := credit\<rparr>,
          b\<lparr>tx_pending := tx, stats := (stats b)\<lparr>bytes_down := down\<rparr>\<rparr>))"

definition close_step ::
  "StreamId \<Rightarrow> Session \<times> ('c, 'p) EgressBackend \<Rightarrow> (EgressError + unit) \<times> Session \<times> ('c, 'p) EgressBackend" where
  "close_step sid sb =
     (let (s, b) = sb
      in if host_read_closed s \<and> to_guest s = [] \<and> \<not> host_close_sent s then
           (case push_frame b (Close sid) of
              (Inl e, b) \<Rightarrow> (Inl e, s, b)
            | (Inr _, b) \<Rightarrow> (Inr (), s\<lparr>host_close_sent := True\<rparr>, b))
         else (Inr (), s, b))"

definition abort_step ::
  "('c, 'a, 'p) EgressConnector \<Rightarrow> StreamId \<Rightarrow> Session \<times> ('c, 'p) EgressBackend
     \<Rightarrow> (EgressError + Disposition) \<times> Session \<times> ('c, 'p) EgressBackend" where
  "abort_step K sid sb = (let (s, b) = sb; (r, b) = abort_open K b sid in (r, s, b))"

definition run_open_io ::
  "('c, 'a, 'p) EgressConnector \<Rightarrow> StreamId \<Rightarrow> Session \<times> ('c, 'p) EgressBackend
     \<Rightarrow> (EgressError + Disposition) \<times> Session \<times> ('c, 'p) EgressBackend" where
  "run_open_io K sid sb =
     (let (ok, sb) = flush_step K sid sb
      in if \<not> ok then abort_step K sid sb
         else let (ok, sb) = read_step K sid sb
              in if \<not> ok then abort_step K sid sb
                 else and_then (frame_step sid sb) (\<lambda>_ sb.
                      and_then (close_step sid sb) (\<lambda>_ sb.
                      and_then (update_epoll K (snd sb) sid (fst sb)) (\<lambda>_ sb.
                        if is_drained (fst sb) then (Inr Remove, fst sb, detach_socket K (snd sb) sid)
                        else (Inr Keep, sb)))))"

section \<open>The pump\<close>

definition service_one ::
  "('c, 'a, 'p) EgressConnector \<Rightarrow> ('c, 'p) EgressBackend \<Rightarrow> StreamId
     \<Rightarrow> (EgressError + unit) \<times> ('c, 'p) EgressBackend" where
  "service_one K b sid =
     (case bt_get (sessions b) sid of
        None \<Rightarrow> (Inr (), b)
      | Some s \<Rightarrow>
          (let b = remove_session b sid;
               (r, s, b) = (case sess_state s of
                              Resolving \<Rightarrow> (Inr Keep, s, b)
                            | Connecting \<Rightarrow> run_connecting K sid (s, b)
                            | _ \<Rightarrow> run_open_io K sid (s, b))
           in case r of
                Inr Keep \<Rightarrow> (Inr (), put_session b sid s)
              | Inr Remove \<Rightarrow> (Inr (), b)
              | Inl e \<Rightarrow> (Inl e, put_session b sid s)))"

fun service_ids ::
  "('c, 'a, 'p) EgressConnector \<Rightarrow> ('c, 'p) EgressBackend \<Rightarrow> StreamId list
     \<Rightarrow> (EgressError + unit) \<times> ('c, 'p) EgressBackend" where
  "service_ids K b [] = (Inr (), b)"
| "service_ids K b (i # is) = and_then (service_one K b i) (\<lambda>_ b. service_ids K b is)"

definition service_sessions ::
  "('c, 'a, 'p) EgressConnector \<Rightarrow> ('c, 'p) EgressBackend \<Rightarrow> (EgressError + unit) \<times> ('c, 'p) EgressBackend" where
  "service_sessions K b = service_ids K b (bt_keys (sessions b))"

definition backend_pump ::
  "('c, 'a, 'p) EgressConnector \<Rightarrow> ('c, 'p) EgressBackend \<Rightarrow> bytes
     \<Rightarrow> (EgressError + unit) \<times> ('c, 'p) EgressBackend" where
  "backend_pump K b from_guest =
     and_then (ingest_and_parse K b from_guest) (\<lambda>_ b.
     and_then (harvest_resolves K b) (\<lambda>_ b.
       service_sessions K b))"

end
