(* ===== verification/EgressSessions.thy ===== *)
theory EgressSessions
  imports Egress
begin

text \<open>
  Correctness of the egress backend: the session-table invariant and that a pump keeps it, the
  frames a pump emits, byte conservation and flow control of an open stream, reassembly of
  frames from arbitrary chunks, the error paths, and quiescence.
\<close>

section \<open>Frames that fit\<close>

fun fits :: "EgressFrame \<Rightarrow> bool" where
  "fits (Open _ _ host) \<longleftrightarrow> length host \<le> EGRESS_MAX_HOST_LEN"
| "fits (Data _ pl) \<longleftrightarrow> length pl \<le> EGRESS_MAX_PAYLOAD"
| "fits _ \<longleftrightarrow> True"

fun to_guest_frame :: "EgressFrame \<Rightarrow> bool" where
  "to_guest_frame (Open _ _ _) \<longleftrightarrow> False"
| "to_guest_frame (Window _ _) \<longleftrightarrow> False"
| "to_guest_frame _ \<longleftrightarrow> True"

lemma enqueue_fits: "fits f \<Longrightarrow> enqueue tx f = Inr (tx @ wire f)"
  by (cases f) (simp_all add: enqueue_def encode_eq)

lemma push_frame_fits: "fits f \<Longrightarrow> push_frame b f = (Inr (), b\<lparr>tx_pending := tx_pending b @ wire f\<rparr>)"
  by (simp add: push_frame_def enqueue_fits)

text \<open>\<open>b'\<close> is \<open>b\<close> with whole frames for the guest appended to the pending bytes.\<close>

definition emits :: "bytes \<Rightarrow> EgressFrame list \<Rightarrow> bytes \<Rightarrow> bool" where
  "emits tx fs tx' \<longleftrightarrow> tx' = tx @ concat (map wire fs) \<and> (\<forall>f \<in> set fs. fits f \<and> to_guest_frame f)"

lemma emits_Nil [simp]: "emits tx [] tx' \<longleftrightarrow> tx' = tx"
  by (simp add: emits_def)

lemma emits_one: "fits f \<Longrightarrow> to_guest_frame f \<Longrightarrow> emits tx [f] (tx @ wire f)"
  by (simp add: emits_def)

lemma emits_append: "emits tx fs tx' \<Longrightarrow> emits tx' gs tx'' \<Longrightarrow> emits tx (fs @ gs) tx''"
  by (auto simp: emits_def)

section \<open>What the stream operations do\<close>

lemma detach_socket_frame [simp]:
  "sessions (detach_socket K b sid) = sessions b" "resolving (detach_socket K b sid) = resolving b"
  "rx_parse (detach_socket K b sid) = rx_parse b" "tx_pending (detach_socket K b sid) = tx_pending b"
  "stats (detach_socket K b sid) = stats b"
  by (simp_all add: detach_socket_def Let_def)

lemma remove_session_frame [simp]:
  "sessions (remove_session b sid) = bt_remove sid (sessions b)"
  "resolving (remove_session b sid) = resolving b" "rx_parse (remove_session b sid) = rx_parse b"
  "tx_pending (remove_session b sid) = tx_pending b" "stats (remove_session b sid) = stats b"
  "connector (remove_session b sid) = connector b" "epoll (remove_session b sid) = epoll b"
  by (simp_all add: remove_session_def)

lemma put_session_frame [simp]:
  "sessions (put_session b sid s) = bt_insert sid s (sessions b)"
  "resolving (put_session b sid s) = resolving b" "rx_parse (put_session b sid s) = rx_parse b"
  "tx_pending (put_session b sid s) = tx_pending b" "stats (put_session b sid s) = stats b"
  "connector (put_session b sid s) = connector b" "epoll (put_session b sid s) = epoll b"
  by (simp_all add: put_session_def)

lemma count_open_failed_frame [simp]:
  "sessions (count_open_failed b) = sessions b" "resolving (count_open_failed b) = resolving b"
  "rx_parse (count_open_failed b) = rx_parse b" "tx_pending (count_open_failed b) = tx_pending b"
  by (simp_all add: count_open_failed_def)

text \<open>A stream leaves the table with one frame, or silently.\<close>

lemma reset_stream_spec:
  "\<exists>b'. reset_stream K b sid = (Inr (), b') \<and> sessions b' = bt_remove sid (sessions b)
      \<and> resolving b' = resolving b \<and> rx_parse b' = rx_parse b \<and> tx_pending b' = tx_pending b @ wire (Rst sid)"
  by (simp add: reset_stream_def push_frame_fits)

lemma fail_open_spec:
  "\<exists>b'. fail_open K b sid r = (Inr (), b') \<and> sessions b' = bt_remove sid (sessions b)
      \<and> resolving b' = resolving b \<and> rx_parse b' = rx_parse b \<and> tx_pending b' = tx_pending b @ wire (OpenErr sid r)"
  by (simp add: fail_open_def push_frame_fits)

section \<open>The session-table invariant\<close>

definition session_ok :: "StreamId set \<Rightarrow> StreamId \<Rightarrow> Session \<Rightarrow> bool" where
  "session_ok R sid s \<longleftrightarrow>
     length (to_socket s) \<le> TO_SOCKET_CAP \<and> length (to_guest s) \<le> WINDOW_BYTES
     \<and> (sess_state s = Resolving \<longrightarrow> sid \<in> R)
     \<and> (host_close_sent s \<longrightarrow> host_read_closed s \<and> to_guest s = [])
     \<and> (sess_state s = Resolving \<or> sess_state s = Connecting \<longrightarrow> to_guest s = [] \<and> \<not> host_read_closed s)
     \<and> (sess_state s = Established \<longrightarrow> \<not> guest_write_closed s \<and> \<not> host_read_closed s)
     \<and> (sess_state s = HalfClosed \<longrightarrow> guest_write_closed s \<or> host_read_closed s)"

definition backend_ok :: "('c, 'p) EgressBackend \<Rightarrow> bool" where
  "backend_ok b \<longleftrightarrow> bt_ok (sessions b) \<and> length (sessions b) \<le> MAX_SESSIONS
     \<and> (\<forall>sid s. bt_get (sessions b) sid = Some s \<longrightarrow> session_ok (resolving b) sid s)"

lemma length_sessions: "length (bt_keys t) = length t"
  by (simp add: bt_keys_def)

lemma backend_ok_remove:
  assumes "backend_ok b" and "sessions b' = bt_remove sid (sessions b)" and "resolving b' = resolving b"
  shows "backend_ok b'"
  using assms bt.length_keys_rm [of "sessions b" sid] bt.all_rm [of "sessions b" "session_ok (resolving b)" sid]
  by (auto simp: backend_ok_def bt.ok_rm length_sessions)

lemma backend_ok_update:
  assumes "backend_ok b" and "bt_get (sessions b) sid = Some s0" and "session_ok (resolving b) sid s"
    and "sessions b' = bt_insert sid s (sessions b)" and "resolving b' = resolving b"
  shows "backend_ok b'"
  using assms bt.length_keys_ins_present [of "sessions b" sid s]
    bt.all_ins [of "sessions b" "session_ok (resolving b)" sid s]
  by (auto simp: backend_ok_def bt.ok_ins length_sessions)

lemma backend_ok_same:
  "sessions b' = sessions b \<Longrightarrow> resolving b' = resolving b \<Longrightarrow> backend_ok b' = backend_ok b"
  by (simp add: backend_ok_def)

lemma backend_ok_session: "backend_ok b \<Longrightarrow> bt_get (sessions b) sid = Some s \<Longrightarrow> session_ok (resolving b) sid s"
  by (simp add: backend_ok_def)

lemma new_resolving_ok: "sid \<in> R \<Longrightarrow> session_ok R sid new_resolving"
  by (simp add: session_ok_def new_resolving_def const_defs)

lemma session_ok_mono: "R \<subseteq> R' \<Longrightarrow> session_ok R sid s \<Longrightarrow> session_ok R' sid s"
  by (auto simp: session_ok_def)

section \<open>Frames from the guest\<close>

text \<open>Handling a frame never fails, keeps the invariant and emits at most one frame.\<close>

definition handled :: "('c, 'p) EgressBackend \<Rightarrow> (EgressError + unit) \<times> ('c, 'p) EgressBackend \<Rightarrow> bool" where
  "handled b rb \<longleftrightarrow> fst rb = Inr () \<and> (backend_ok b \<longrightarrow> backend_ok (snd rb)) \<and> rx_parse (snd rb) = rx_parse b
     \<and> (\<exists>fs. length fs \<le> 1 \<and> emits (tx_pending b) fs (tx_pending (snd rb)))"

lemma handled_reset: "handled b (reset_stream K b sid)"
  using reset_stream_spec [of K b sid]
  by (auto simp: handled_def emits_def intro: backend_ok_remove intro!: exI [of _ "[Rst sid]"])

lemma handled_fail_open: "handled b (fail_open K b sid r)"
  using fail_open_spec [of K b sid r]
  by (auto simp: handled_def emits_def intro: backend_ok_remove intro!: exI [of _ "[OpenErr sid r]"])

lemma handled_silent:
  assumes "tx_pending b' = tx_pending b" and "rx_parse b' = rx_parse b" and "backend_ok b \<Longrightarrow> backend_ok b'"
  shows "handled b (Inr (), b')"
  using assms by (auto simp: handled_def intro!: exI [of _ "[]"])

lemma handled_open: "handled b (handle_open K b sid port host)"
proof (cases "bt_get (sessions b) sid \<noteq> None \<or> sid \<in> resolving b")
  case True
  then show ?thesis unfolding handle_open_def using handled_reset [of b K sid] by simp
next
  case fresh: False
  show ?thesis
  proof (cases "MAX_SESSIONS \<le> length (sessions b) \<or> host = [] \<or> port = 0")
    case True
    then show ?thesis unfolding handle_open_def using fresh handled_fail_open [of b K sid] by auto
  next
    case False
    let ?b = "put_session (b\<lparr>connector := start_resolve K (connector b) sid (from_utf8_lossy host) port,
        resolving := insert sid (resolving b),
        stats := (stats b)\<lparr>sessions_total := sessions_total (stats b) + 1\<rparr>\<rparr>) sid new_resolving"
    have "backend_ok ?b" if ok: "backend_ok b"
    proof -
      have t: "bt_ok (sessions b)" using ok by (simp add: backend_ok_def)
      have "\<forall>k v. bt_get (sessions b) k = Some v \<longrightarrow> session_ok (insert sid (resolving b)) k v"
        using ok session_ok_mono [OF subset_insertI] by (auto simp: backend_ok_def)
      from bt.all_ins [OF t this, of sid new_resolving]
      have "\<forall>k v. bt_get (bt_insert sid new_resolving (sessions b)) k = Some v \<longrightarrow>
          session_ok (insert sid (resolving b)) k v"
        by (simp add: new_resolving_ok)
      then show ?thesis
        using False t bt.length_keys_ins [OF t, of sid new_resolving]
        by (simp add: backend_ok_def bt.ok_ins length_sessions)
    qed
    then show ?thesis
      unfolding handle_open_def using False fresh by (simp add: handled_silent)
  qed
qed

lemma handled_data: "handled b (handle_data K b sid pl)"
proof (cases "bt_get (sessions b) sid")
  case None
  then show ?thesis by (simp add: handle_data_def handled_reset)
next
  case (Some s)
  let ?s = "s\<lparr>to_socket := to_socket s @ pl\<rparr>"
  have reset: "handled b (reset_stream K (put_session b sid ?s) sid)"
  proof -
    obtain b' where b': "reset_stream K (put_session b sid ?s) sid = (Inr (), b')"
      "sessions b' = bt_remove sid (bt_insert sid ?s (sessions b))" "resolving b' = resolving b"
      "rx_parse b' = rx_parse b" "tx_pending b' = tx_pending b @ wire (Rst sid)"
      using reset_stream_spec [of K "put_session b sid ?s" sid] by auto
    have "backend_ok b'" if ok: "backend_ok b"
    proof -
      have t: "bt_ok (sessions b)" using ok by (simp add: backend_ok_def)
      have "bt_get (sessions b') k = Some v \<Longrightarrow> bt_get (sessions b) k = Some v" for k v
        using t by (auto simp: b' bt.get_rm bt.get_ins bt.ok_ins split: if_splits)
      moreover have "length (sessions b') \<le> length (sessions b)"
        using bt.length_keys_rm [OF bt.ok_ins [OF t], of sid sid ?s] bt.length_keys_ins_present [OF t, of sid ?s] Some
        by (simp add: b' length_sessions)
      ultimately show ?thesis
        using ok t by (auto simp: backend_ok_def b' bt.ok_rm bt.ok_ins)
    qed
    then show ?thesis using b' by (auto simp: handled_def emits_def intro!: exI [of _ "[Rst sid]"])
  qed
  have "handled b (Inr (), put_session b sid ?s)" if "length (to_socket ?s) \<le> TO_SOCKET_CAP" "\<not> guest_write_closed s"
  proof (rule handled_silent)
    assume ok: "backend_ok b"
    have "session_ok (resolving b) sid ?s"
      using backend_ok_session [OF ok Some] that by (auto simp: session_ok_def)
    then show "backend_ok (put_session b sid ?s)" by (rule backend_ok_update [OF ok Some]) simp_all
  qed simp_all
  then show ?thesis using Some reset handled_reset [of b K sid] by (auto simp: handle_data_def Let_def)
qed

lemma handled_close: "handled b (Inr (), handle_close K b sid)"
proof (cases "bt_get (sessions b) sid")
  case None
  then show ?thesis by (simp add: handle_close_def handled_silent)
next
  case (Some s)
  let ?s = "s\<lparr>guest_write_closed := True, sess_state := (if sess_state s = Established then HalfClosed else sess_state s)\<rparr>"
  show ?thesis
  proof (rule handled_silent)
    assume ok: "backend_ok b"
    have "session_ok (resolving b) sid ?s"
      using backend_ok_session [OF ok Some] by (auto simp: session_ok_def)
    then show "backend_ok (handle_close K b sid)"
      by (rule backend_ok_update [OF ok Some]) (simp_all add: handle_close_def Some Let_def)
  qed (simp_all add: handle_close_def Some Let_def)
qed

lemma handled_frame: "handled b (handle_frame K b f)"
proof (cases f)
  case (ORst sid)
  then show ?thesis
    by (auto simp: drop_stream_def intro!: handled_silent intro: backend_ok_remove)
next
  case (OWindow sid credit)
  show ?thesis
  proof (cases "bt_get (sessions b) sid")
    case None
    then show ?thesis using OWindow by (simp add: handled_silent)
  next
    case (Some s)
    let ?s = "s\<lparr>to_guest_credit := min (to_guest_credit s + unat credit) (2 ^ 64 - 1)\<rparr>"
    have "handled b (Inr (), put_session b sid ?s)"
    proof (rule handled_silent)
      assume ok: "backend_ok b"
      have "session_ok (resolving b) sid ?s"
        using backend_ok_session [OF ok Some] by (simp add: session_ok_def)
      then show "backend_ok (put_session b sid ?s)" by (rule backend_ok_update [OF ok Some]) simp_all
    qed simp_all
    then show ?thesis using OWindow Some by simp
  qed
qed (simp_all add: handled_open handled_data handled_close handled_reset)

section \<open>The calls on a socket\<close>

text \<open>
  What a stream's socket was asked and answered, in order: the bytes it took of a write, the bytes it
  gave for a read, the end of file, a write or a read that would block, and a failure. A write offers
  all that is queued for the socket; a read asks for a chunk within the room left in the window. A run
  of calls leads from the two buffers and the connector's state to those after it.
\<close>

datatype socket_call = Took bytes | Gave bytes | AtEof | WriteBlocked | ReadBlocked | Broke

definition read_room :: "bytes \<Rightarrow> nat" where
  "read_room g = min (WINDOW_BYTES - length g) READ_CHUNK"

inductive socket_step ::
  "('c, 'a, 'p) EgressConnector \<Rightarrow> StreamId \<Rightarrow> bytes \<times> bytes \<times> 'c \<Rightarrow> socket_call \<Rightarrow> bytes \<times> bytes \<times> 'c \<Rightarrow> bool"
  for K sid where
  took: "q \<noteq> [] \<Longrightarrow> conn_write K c sid q = (IoOk (Some n), c') \<Longrightarrow> 0 < n
    \<Longrightarrow> socket_step K sid (q, g, c) (Took (take n q)) (drop n q, g, c')"
| write_blocked: "q \<noteq> [] \<Longrightarrow> conn_write K c sid q = (IoOk None, c') \<or> conn_write K c sid q = (IoOk (Some 0), c')
    \<Longrightarrow> socket_step K sid (q, g, c) WriteBlocked (q, g, c')"
| write_broke: "q \<noteq> [] \<Longrightarrow> conn_write K c sid q = (IoErr, c') \<Longrightarrow> socket_step K sid (q, g, c) Broke (q, g, c')"
| gave: "0 < read_room g \<Longrightarrow> conn_read K c sid (read_room g) = (IoOk (Some n), data, c') \<Longrightarrow> 0 < n
    \<Longrightarrow> socket_step K sid (q, g, c) (Gave data) (q, g @ data, c')"
| at_eof: "0 < read_room g \<Longrightarrow> conn_read K c sid (read_room g) = (IoOk (Some 0), data, c')
    \<Longrightarrow> socket_step K sid (q, g, c) AtEof (q, g, c')"
| read_blocked: "0 < read_room g \<Longrightarrow> conn_read K c sid (read_room g) = (IoOk None, data, c')
    \<Longrightarrow> socket_step K sid (q, g, c) ReadBlocked (q, g, c')"
| read_broke: "0 < read_room g \<Longrightarrow> conn_read K c sid (read_room g) = (IoErr, data, c')
    \<Longrightarrow> socket_step K sid (q, g, c) Broke (q, g, c')"

inductive socket_calls ::
  "('c, 'a, 'p) EgressConnector \<Rightarrow> StreamId \<Rightarrow> bytes \<times> bytes \<times> 'c \<Rightarrow> socket_call list \<Rightarrow> bytes \<times> bytes \<times> 'c \<Rightarrow> bool"
  for K sid where
  none: "socket_calls K sid c [] c"
| call: "socket_step K sid c x c1 \<Longrightarrow> socket_calls K sid c1 xs c2 \<Longrightarrow> socket_calls K sid c (x # xs) c2"

lemma socket_calls_append: "socket_calls K sid c xs c1 \<Longrightarrow> socket_calls K sid c1 ys c2 \<Longrightarrow> socket_calls K sid c (xs @ ys) c2"
  by (induction rule: socket_calls.induct) (auto intro: socket_calls.call)

lemma socket_calls_one: "socket_step K sid c x c1 \<Longrightarrow> socket_calls K sid c [x] c1"
  by (rule socket_calls.call [OF _ socket_calls.none])

definition taken :: "socket_call list \<Rightarrow> bytes" where
  "taken xs = concat (map (\<lambda>x. case x of Took d \<Rightarrow> d | _ \<Rightarrow> []) xs)"

definition given :: "socket_call list \<Rightarrow> bytes" where
  "given xs = concat (map (\<lambda>x. case x of Gave d \<Rightarrow> d | _ \<Rightarrow> []) xs)"

lemma taken_simps [simp]: "taken [] = []" "taken (x # xs) = (case x of Took d \<Rightarrow> d | _ \<Rightarrow> []) @ taken xs" "taken (xs @ ys) = taken xs @ taken ys"
  by (simp_all add: taken_def)

lemma given_simps [simp]: "given [] = []" "given (x # xs) = (case x of Gave d \<Rightarrow> d | _ \<Rightarrow> []) @ given xs" "given (xs @ ys) = given xs @ given ys"
  by (simp_all add: given_def)

text \<open>The contract of \<open>read\<close>: the count is the number of bytes stored, at most what was asked.\<close>

definition counts_reads :: "('c, 'a, 'p) EgressConnector \<Rightarrow> bool" where
  "counts_reads K \<longleftrightarrow> (\<forall>c sid want n data c'. conn_read K c sid want = (IoOk (Some n), data, c') \<longrightarrow> length data = n \<and> n \<le> want)"

definition write_calls :: "socket_call list \<Rightarrow> bool" where
  "write_calls xs \<longleftrightarrow> given xs = [] \<and> AtEof \<notin> set xs \<and> ReadBlocked \<notin> set xs"

definition read_calls :: "socket_call list \<Rightarrow> bool" where
  "read_calls xs \<longleftrightarrow> taken xs = [] \<and> WriteBlocked \<notin> set xs"

section \<open>The loops of an open stream\<close>

lemma write_loop_calls:
  "write_loop K sid c q up = (ok, c', q', up') \<Longrightarrow>
     \<exists>xs. socket_calls K sid (q, g, c) xs (q', g, c') \<and> write_calls xs \<and> q = taken xs @ q' \<and> ok = (Broke \<notin> set xs)
        \<and> (ok \<longrightarrow> q' = [] \<or> WriteBlocked \<in> set xs)"
proof (induction K sid c q up arbitrary: ok c' q' up' rule: write_loop.induct)
  case (1 K sid c q up)
  have one: ?case if "socket_step K sid (q, g, c) x (q, g, c')" "q' = q" "x = WriteBlocked \<and> ok \<or> x = Broke \<and> \<not> ok" for x
    using socket_calls_one [OF that(1)] that(2,3) by (intro exI [of _ "[x]"]) (auto simp: write_calls_def)
  obtain a c1 where a: "conn_write K c sid q = (a, c1)" by fastforce
  show ?case
  proof (cases "q = []")
    case True
    then show ?thesis using "1.prems" socket_calls.none
      by (subst (asm) write_loop.simps) (auto simp: write_calls_def intro!: exI [of _ "[]"])
  next
    case q: False
    consider (err) "a = IoErr" | (block) "a = IoOk None \<or> a = IoOk (Some 0)" | (some) n where "a = IoOk (Some n)" "0 < n"
      by (metis gr0I io_count.exhaust option.exhaust)
    then show ?thesis
    proof cases
      case err
      then have "ok = False \<and> c' = c1 \<and> q' = q" using "1.prems" q a by (subst (asm) write_loop.simps) auto
      then show ?thesis using one [OF socket_step.write_broke [OF q]] a err by auto
    next
      case block
      then have "ok \<and> c' = c1 \<and> q' = q" using "1.prems" q a by (subst (asm) write_loop.simps) auto
      then show ?thesis using one [OF socket_step.write_blocked [OF q]] a block by auto
    next
      case (some n)
      let ?n = "min n (length q)"
      have "write_loop K sid c1 (drop ?n q) (up + of_nat ?n) = (ok, c', q', up')"
        using "1.prems" q a some by (subst (asm) write_loop.simps) (simp add: Let_def)
      from "1.IH" [OF q a [unfolded some(1), symmetric] refl refl some(2) refl this] obtain xs where
        xs: "socket_calls K sid (drop ?n q, g, c1) xs (q', g, c')" "write_calls xs" "drop ?n q = taken xs @ q'" "ok = (Broke \<notin> set xs)"
          "ok \<longrightarrow> q' = [] \<or> WriteBlocked \<in> set xs" by blast
      have "q = take n q @ taken xs @ q'" using xs(3) by (metis append_take_drop_id min_def take_all drop_all linear)
      moreover have "drop ?n q = drop n q" by (simp add: min_def)
      then have "socket_calls K sid (q, g, c) (Took (take n q) # xs) (q', g, c')"
        using socket_step.took [OF q] a some xs(1) by (intro socket_calls.call) auto
      ultimately show ?thesis using xs by (intro exI [of _ "Took (take n q) # xs"]) (auto simp: write_calls_def)
    qed
  qed
qed

lemma write_loop_suffix:
  "write_loop K sid c q up = (ok, c', q', up') \<Longrightarrow>
     \<exists>n \<le> length q. q' = drop n q \<and> up' = up + of_nat n \<and> (ok \<or> q' \<noteq> [])"
proof (induction K sid c q up arbitrary: ok c' q' up' rule: write_loop.induct)
  case (1 K sid c q up)
  show ?case
  proof (cases "q \<noteq> [] \<and> (\<exists>n c1. conn_write K c sid q = (IoOk (Some n), c1) \<and> 0 < n)")
    case False
    then show ?thesis
      using "1.prems" by (subst (asm) write_loop.simps)
        (auto split: if_splits prod.splits io_count.splits option.splits intro!: exI [of _ 0])
  next
    case True
    then obtain n c1 where w: "q \<noteq> []" "conn_write K c sid q = (IoOk (Some n), c1)" "0 < n" by blast
    let ?n = "min n (length q)"
    have "write_loop K sid c1 (drop ?n q) (up + of_nat ?n) = (ok, c', q', up')"
      using "1.prems" w by (subst (asm) write_loop.simps) (simp add: Let_def)
    from "1.IH" [OF w(1) w(2) [symmetric] refl refl w(3) refl this] obtain m where
      "m \<le> length (drop ?n q)" "q' = drop m (drop ?n q)" "up' = up + of_nat ?n + of_nat m" "ok \<or> q' \<noteq> []"
      by blast
    then show ?thesis by (intro exI [of _ "?n + m"]) (auto simp: add.commute)
  qed
qed

lemma read_loop_extends:
  "read_loop K sid c q buf = (r, c', q') \<Longrightarrow> length q \<le> WINDOW_BYTES \<Longrightarrow>
     \<exists>new. q' = q @ new \<and> length q' \<le> WINDOW_BYTES"
proof (induction K sid c q buf arbitrary: r c' q' rule: read_loop.induct)
  case (1 K sid c q buf)
  let ?want = "min (WINDOW_BYTES - length q) READ_CHUNK"
  show ?case
  proof (cases "length q < WINDOW_BYTES \<and> (\<exists>n d c1. conn_read K c sid ?want = (IoOk (Some n), d, c1) \<and> n \<noteq> 0)")
    case False
    then show ?thesis
      using "1.prems" by (subst (asm) read_loop.simps)
        (auto simp: Let_def split: if_splits prod.splits io_count.splits option.splits)
  next
    case True
    then obtain n d c1 where w: "length q < WINDOW_BYTES"
      "conn_read K c sid ?want = (IoOk (Some n), d, c1)" "n \<noteq> 0" by blast
    let ?buf = "store_front buf (take ?want d)"
    let ?new = "map ?buf [0..<min n ?want]"
    have rec: "read_loop K sid c1 (q @ ?new) ?buf = (r, c', q')"
      using "1.prems"(1) w by (subst (asm) read_loop.simps) (simp add: Let_def)
    have "length (q @ ?new) \<le> WINDOW_BYTES" using w(1) by simp
    from "1.IH" [OF w(1) refl w(2) [symmetric] refl refl refl w(3) refl rec this] obtain more where
      "q' = (q @ ?new) @ more" "length q' \<le> WINDOW_BYTES" by blast
    then show ?thesis by (intro exI [of _ "?new @ more"]) simp
  qed
qed

lemma read_loop_calls:
  "read_loop K sid c q buf = (r, c', q') \<Longrightarrow> counts_reads K \<Longrightarrow> length q \<le> WINDOW_BYTES \<Longrightarrow>
     \<exists>xs. socket_calls K sid (out, q, c) xs (out, q', c') \<and> read_calls xs \<and> q' = q @ given xs
        \<and> (r = ReadFailed) = (Broke \<in> set xs) \<and> (r = ReadEof) = (AtEof \<in> set xs)
        \<and> (r = ReadMore \<longrightarrow> ReadBlocked \<in> set xs \<or> length q' = WINDOW_BYTES)"
proof (induction K sid c q buf arbitrary: r c' q' rule: read_loop.induct)
  case (1 K sid c q buf)
  let ?want = "min (WINDOW_BYTES - length q) READ_CHUNK"
  have one: ?case if "socket_step K sid (out, q, c) x (out, q, c')" "q' = q"
    "x = ReadBlocked \<and> r = ReadMore \<or> x = Broke \<and> r = ReadFailed \<or> x = AtEof \<and> r = ReadEof" for x
    using socket_calls_one [OF that(1)] that(2,3) by (intro exI [of _ "[x]"]) (auto simp: read_calls_def)
  obtain a d c1 where a: "conn_read K c sid ?want = (a, d, c1)" by (metis prod_cases3)
  show ?case
  proof (cases "length q < WINDOW_BYTES")
    case False
    then show ?thesis using "1.prems" socket_calls.none
      by (subst (asm) read_loop.simps) (auto simp: read_calls_def intro!: exI [of _ "[]"])
  next
    case q: True
    have want: "0 < read_room q" using q by (simp add: READ_CHUNK_def read_room_def)
    consider (err) "a = IoErr" | (block) "a = IoOk None" | (eof) "a = IoOk (Some 0)" | (some) n where "a = IoOk (Some n)" "n \<noteq> 0"
      by (metis io_count.exhaust option.exhaust)
    then show ?thesis
    proof cases
      case err
      then have "r = ReadFailed \<and> c' = c1 \<and> q' = q" using "1.prems"(1) q a by (subst (asm) read_loop.simps) (auto simp: Let_def)
      then show ?thesis using one [OF socket_step.read_broke [OF want]] a err by (auto simp: read_room_def)
    next
      case block
      then have "r = ReadMore \<and> c' = c1 \<and> q' = q" using "1.prems"(1) q a by (subst (asm) read_loop.simps) (auto simp: Let_def)
      then show ?thesis using one [OF socket_step.read_blocked [OF want]] a block by (auto simp: read_room_def)
    next
      case eof
      then have "r = ReadEof \<and> c' = c1 \<and> q' = q" using "1.prems"(1) q a by (subst (asm) read_loop.simps) (auto simp: Let_def)
      then show ?thesis using one [OF socket_step.at_eof [OF want]] a eof by (auto simp: read_room_def)
    next
      case (some n)
      note a = a [unfolded some(1)]
      have n: "length d = n" "n \<le> ?want" using "1.prems"(2) a unfolding counts_reads_def by blast+
      let ?buf = "store_front buf (take ?want d)"
      have new: "map ?buf [0..<min n ?want] = d" using n by (intro nth_equalityI) (auto simp: store_front_def)
      have rec: "read_loop K sid c1 (q @ map ?buf [0..<min n ?want]) ?buf = (r, c', q')"
        using "1.prems"(1) q a some(2) by (subst (asm) read_loop.simps) (simp add: Let_def)
      have "length (q @ map ?buf [0..<min n ?want]) \<le> WINDOW_BYTES" using q by simp
      from "1.IH" [OF q refl a [symmetric] refl refl refl some(2) refl rec "1.prems"(2) this] obtain xs where
        xs: "socket_calls K sid (out, q @ d, c1) xs (out, q', c')" "read_calls xs" "q' = (q @ d) @ given xs" "(r = ReadFailed) = (Broke \<in> set xs)"
          "(r = ReadEof) = (AtEof \<in> set xs)" "r = ReadMore \<longrightarrow> ReadBlocked \<in> set xs \<or> length q' = WINDOW_BYTES"
        unfolding new by blast
      have "socket_calls K sid (out, q, c) (Gave d # xs) (out, q', c')"
        using socket_step.gave [OF want] a some(2) xs(1) by (intro socket_calls.call) (auto simp: read_room_def)
      then show ?thesis using xs by (intro exI [of _ "Gave d # xs"]) (auto simp: read_calls_def)
    qed
  qed
qed

lemma frame_loop_frames:
  "frame_loop sid tx q credit down = (r, tx', q', credit', down') \<Longrightarrow>
     \<exists>ps. r = Inr () \<and> emits tx (map (Data sid) ps) tx' \<and> q = concat ps @ q'
        \<and> credit = length (concat ps) + credit' \<and> down' = down + of_nat (length (concat ps))
        \<and> (\<forall>p \<in> set ps. p \<noteq> []) \<and> (q' = [] \<or> credit' = 0)"
proof (induction sid tx q credit down arbitrary: r tx' q' credit' down' rule: frame_loop.induct)
  case (1 sid tx q credit down)
  show ?case
  proof (cases "q \<noteq> [] \<and> 0 < credit")
    case False
    then show ?thesis
      using "1.prems" by (subst (asm) frame_loop.simps) (auto intro!: exI [of _ "[]"])
  next
    case True
    let ?n = "min (min (length q) credit) EGRESS_MAX_PAYLOAD"
    have n: "0 < ?n" "?n \<le> length q" "?n \<le> credit" using True by (auto simp: EGRESS_MAX_PAYLOAD_def)
    have e: "enqueue tx (Data sid (take ?n q)) = Inr (tx @ wire (Data sid (take ?n q)))"
      by (rule enqueue_fits) simp
    have "frame_loop sid (tx @ wire (Data sid (take ?n q))) (drop ?n q) (credit - ?n) (down + of_nat ?n)
        = (r, tx', q', credit', down')"
      using "1.prems" True e by (subst (asm) frame_loop.simps) (simp add: Let_def)
    from "1.IH" [OF True refl e this] obtain ps where ps: "r = Inr ()"
      "emits (tx @ wire (Data sid (take ?n q))) (map (Data sid) ps) tx'" "drop ?n q = concat ps @ q'"
      "credit - ?n = length (concat ps) + credit'" "down' = down + of_nat ?n + of_nat (length (concat ps))"
      "\<forall>p \<in> set ps. p \<noteq> []" "q' = [] \<or> credit' = 0" by blast
    have "q = take ?n q @ concat ps @ q'" using ps(3) by (metis append_take_drop_id)
    moreover have "emits tx (map (Data sid) (take ?n q # ps)) tx'"
      using ps(2) by (auto simp: emits_def)
    moreover have "credit = length (concat (take ?n q # ps)) + credit'" using ps(4) n by simp
    moreover have "down' = down + of_nat (length (concat (take ?n q # ps)))" using ps(5) n by (simp add: add.assoc)
    ultimately show ?thesis using ps(1,6,7) n True by (intro exI [of _ "take ?n q # ps"]) auto
  qed
qed

section \<open>One service of an open stream\<close>

text \<open>The only I/O failure of a stream's service: \<open>epoll_ctl\<close> refused a request.\<close>

definition refuses :: "('c, 'a, 'p) EgressConnector \<Rightarrow> bool" where
  "refuses K \<longleftrightarrow> (\<exists>ep op fd ev. \<not> fst (os_epoll_ctl K ep op fd ev))"

lemma refusesI: "os_epoll_ctl K ep op fd ev = (False, ep') \<Longrightarrow> refuses K"
  unfolding refuses_def by (intro exI [of _ ep] exI [of _ op] exI [of _ fd] exI [of _ ev]) simp

lemma update_epoll_frame:
  assumes "update_epoll K b sid s = (r, s', b')"
  obtains m ep where "s' = s\<lparr>epoll_mask := m\<rparr>" and "b' = b\<lparr>epoll := ep\<rparr>"
    and "r = Inr () \<or> r = Inl (EgIo ''updating egress epoll interest'') \<and> refuses K"
proof (rule that)
  show "s' = s\<lparr>epoll_mask := epoll_mask s'\<rparr>" "b' = b\<lparr>epoll := epoll b'\<rparr>"
    "r = Inr () \<or> r = Inl (EgIo ''updating egress epoll interest'') \<and> refuses K"
    using assms
    by (auto simp: update_epoll_def Let_def epoll_mod_def split: if_splits prod.splits bool.splits option.splits intro: refusesI)
qed

lemma flush_step_frame:
  assumes "flush_step K sid (s, b) = (ok, s', b')"
  shows "\<exists>n c st. n \<le> length (to_socket s) \<and> s' = s\<lparr>to_socket := drop n (to_socket s)\<rparr>
      \<and> b' = b\<lparr>connector := c, stats := st\<rparr> \<and> bytes_up st = bytes_up (stats b) + of_nat n"
proof -
  obtain ok1 c q up where w: "write_loop K sid (connector b) (to_socket s) (bytes_up (stats b)) = (ok1, c, q, up)"
    by (metis prod_cases4)
  from write_loop_suffix [OF w] obtain n where n: "n \<le> length (to_socket s)" "q = drop n (to_socket s)"
    "up = bytes_up (stats b) + of_nat n" by blast
  show ?thesis
    using assms w n unfolding flush_step_def
    by (intro exI [of _ n] exI [of _ c] exI [of _ "(stats b)\<lparr>bytes_up := up\<rparr>"]) simp
qed

lemma read_step_frame:
  assumes "read_step K sid (s, b) = (ok, s', b')" and "length (to_guest s) \<le> WINDOW_BYTES"
  shows "\<exists>new c. to_guest s' = to_guest s @ new \<and> length (to_guest s') \<le> WINDOW_BYTES
      \<and> b' = b\<lparr>connector := c\<rparr>
      \<and> (host_read_closed s \<longrightarrow> new = [] \<and> s' = s)
      \<and> (s' = s\<lparr>to_guest := to_guest s @ new\<rparr>
         \<or> s' = s\<lparr>to_guest := to_guest s @ new, host_read_closed := True,
                  sess_state := (if sess_state s = Established then HalfClosed else sess_state s)\<rparr>)"
proof (cases "host_read_closed s")
  case True
  then show ?thesis
    using assms by (auto simp: read_step_def intro!: exI [of _ "connector b"])
next
  case False
  obtain r c q where w: "read_loop K sid (connector b) (to_guest s) (\<lambda>_. 0) = (r, c, q)"
    by (metis prod_cases3)
  from read_loop_extends [OF w assms(2)] obtain new where
    "q = to_guest s @ new" "length q \<le> WINDOW_BYTES" by blast
  then show ?thesis
    using assms(1) w False
    by (intro exI [of _ new] exI [of _ c]) (cases r; auto simp: read_step_def Let_def)
qed

text \<open>
  What one service emits and keeps: \<open>ps\<close> are the payloads framed, \<open>new\<close> the bytes read from the
  socket, \<open>up\<close> the number of bytes the socket took.
\<close>

definition served ::
  "StreamId \<Rightarrow> Session \<Rightarrow> ('c, 'p) EgressBackend \<Rightarrow> Session \<Rightarrow> ('c, 'p) EgressBackend \<Rightarrow> bytes list \<Rightarrow> bytes \<Rightarrow> nat \<Rightarrow> bool" where
  "served sid s b s' b' ps new up \<longleftrightarrow>
     (\<exists>cs. emits (tx_pending b) (map (Data sid) ps @ cs) (tx_pending b')
        \<and> cs = (if host_read_closed s' \<and> to_guest s' = [] \<and> \<not> host_close_sent s then [Close sid] else [])
        \<and> host_close_sent s' = (host_close_sent s \<or> cs \<noteq> []))
     \<and> to_guest s @ new = concat ps @ to_guest s'
     \<and> to_guest_credit s = length (concat ps) + to_guest_credit s'
     \<and> length (to_guest s') \<le> WINDOW_BYTES
     \<and> (host_read_closed s \<longrightarrow> new = [] \<and> host_read_closed s')
     \<and> up \<le> length (to_socket s) \<and> to_socket s' = drop up (to_socket s)
     \<and> guest_write_closed s' = guest_write_closed s
     \<and> sess_state s' = (if sess_state s = Established \<and> host_read_closed s' \<and> \<not> host_read_closed s
                         then HalfClosed else sess_state s)"

lemma close_step_spec:
  "close_step sid (s, b) =
     (if host_read_closed s \<and> to_guest s = [] \<and> \<not> host_close_sent s
      then (Inr (), s\<lparr>host_close_sent := True\<rparr>, b\<lparr>tx_pending := tx_pending b @ wire (Close sid)\<rparr>)
      else (Inr (), s, b))"
  by (simp add: close_step_def push_frame_fits)

lemma frame_step_spec:
  assumes "frame_step sid (s, b) = (r, s', b')"
  shows "\<exists>ps tx q cr st. r = Inr () \<and> emits (tx_pending b) (map (Data sid) ps) tx
      \<and> to_guest s = concat ps @ q \<and> to_guest_credit s = length (concat ps) + cr \<and> (q = [] \<or> cr = 0)
      \<and> s' = s\<lparr>to_guest := q, to_guest_credit := cr\<rparr> \<and> b' = b\<lparr>tx_pending := tx, stats := st\<rparr>"
proof -
  obtain r1 tx q cr dn where w: "frame_loop sid (tx_pending b) (to_guest s) (to_guest_credit s) (bytes_down (stats b))
      = (r1, tx, q, cr, dn)"
    by (metis prod_cases5)
  from frame_loop_frames [OF w] obtain ps where ps: "r1 = Inr ()" "emits (tx_pending b) (map (Data sid) ps) tx"
    "to_guest s = concat ps @ q" "to_guest_credit s = length (concat ps) + cr" "q = [] \<or> cr = 0" by blast
  show ?thesis
    using assms w ps unfolding frame_step_def
    by (intro exI [of _ ps] exI [of _ tx] exI [of _ q] exI [of _ cr]
        exI [of _ "(stats b)\<lparr>bytes_down := dn\<rparr>"]) auto
qed

lemma abort_step_spec:
  assumes "abort_step K sid (s, b) = (r, s', b')"
  shows "r = Inr Remove \<and> sessions b' = sessions b \<and> resolving b' = resolving b \<and> rx_parse b' = rx_parse b
    \<and> emits (tx_pending b) [Rst sid] (tx_pending b')"
  using assms by (auto simp: abort_step_def abort_open_def push_frame_fits emits_def)

text \<open>What follows the socket: the buffered bytes framed for the guest, the close, the interest in events.\<close>

definition put_on_wire ::
  "StreamId \<Rightarrow> Session \<Rightarrow> ('c, 'p) EgressBackend \<Rightarrow> Session \<Rightarrow> ('c, 'p) EgressBackend \<Rightarrow> bytes list \<Rightarrow> bool" where
  "put_on_wire sid s b s' b' ps \<longleftrightarrow>
     emits (tx_pending b) (map (Data sid) ps @ (if host_read_closed s \<and> to_guest s' = [] \<and> \<not> host_close_sent s then [Close sid] else []))
       (tx_pending b')
     \<and> to_guest s = concat ps @ to_guest s' \<and> to_guest_credit s = length (concat ps) + to_guest_credit s'
     \<and> (to_guest s' = [] \<or> to_guest_credit s' = 0)
     \<and> host_close_sent s' = (host_close_sent s \<or> host_read_closed s \<and> to_guest s' = [])
     \<and> host_read_closed s' = host_read_closed s \<and> guest_write_closed s' = guest_write_closed s
     \<and> to_socket s' = to_socket s \<and> sess_state s' = sess_state s
     \<and> sessions b' = sessions b \<and> resolving b' = resolving b \<and> rx_parse b' = rx_parse b"

lemma finish_io:
  assumes "and_then (frame_step sid (s, b)) (\<lambda>_ sb.
      and_then (close_step sid sb) (\<lambda>_ sb.
      and_then (update_epoll K (snd sb) sid (fst sb)) (\<lambda>_ sb.
        if is_drained (fst sb) then (Inr Remove, fst sb, detach_socket K (snd sb) sid) else (Inr Keep, sb)))) = (r, s', b')"
  shows "\<exists>ps. put_on_wire sid s b s' b' ps
    \<and> (r = Inr Keep \<and> \<not> is_drained s' \<and> connector b' = connector b
       \<or> r = Inr Remove \<and> is_drained s' \<and> connector b' = conn_close K (connector b) sid
       \<or> r = Inl (EgIo ''updating egress epoll interest'') \<and> refuses K \<and> connector b' = connector b)"
proof -
  obtain r1 s1 b1 where fr: "frame_step sid (s, b) = (r1, s1, b1)" by (metis prod_cases3)
  from frame_step_spec [OF fr] obtain ps tx q cr st where
    fr': "r1 = Inr ()" "emits (tx_pending b) (map (Data sid) ps) tx" "to_guest s = concat ps @ q"
      "to_guest_credit s = length (concat ps) + cr" "q = [] \<or> cr = 0" "s1 = s\<lparr>to_guest := q, to_guest_credit := cr\<rparr>"
      "b1 = b\<lparr>tx_pending := tx, stats := st\<rparr>"
    by blast
  let ?close = "host_read_closed s1 \<and> to_guest s1 = [] \<and> \<not> host_close_sent s1"
  define s2 where "s2 = (if ?close then s1\<lparr>host_close_sent := True\<rparr> else s1)"
  define b2 where "b2 = (if ?close then b1\<lparr>tx_pending := tx_pending b1 @ wire (Close sid)\<rparr> else b1)"
  have c: "close_step sid (s1, b1) = (Inr (), s2, b2)" by (simp add: close_step_spec s2_def b2_def)
  obtain r3 s3 b3 where u: "update_epoll K b2 sid s2 = (r3, s3, b3)" by (metis prod_cases3)
  from u obtain m ep where u': "s3 = s2\<lparr>epoll_mask := m\<rparr>" "b3 = b2\<lparr>epoll := ep\<rparr>"
    "r3 = Inr () \<or> r3 = Inl (EgIo ''updating egress epoll interest'') \<and> refuses K" by (rule update_epoll_frame)
  have out: "(r, s', b') = and_then (r3, s3, b3) (\<lambda>_ sb.
      if is_drained (fst sb) then (Inr Remove, fst sb, detach_socket K (snd sb) sid) else (Inr Keep, sb))"
    using assms fr fr'(1) c u by simp
  have "connector b3 = connector b" by (simp add: u'(2) b2_def fr'(7))
  then have s': "s' = s3" "tx_pending b' = tx_pending b3" "sessions b' = sessions b3" "resolving b' = resolving b3"
    "rx_parse b' = rx_parse b3"
    "r = Inr Keep \<and> \<not> is_drained s' \<and> connector b' = connector b
       \<or> r = Inr Remove \<and> is_drained s' \<and> connector b' = conn_close K (connector b) sid
       \<or> r = Inl (EgIo ''updating egress epoll interest'') \<and> refuses K \<and> connector b' = connector b"
    using u'(3) out by (cases "is_drained s3"; auto simp: detach_socket_def Let_def)+
  have "put_on_wire sid s b s' b' ps"
    using fr'(2-5) unfolding put_on_wire_def
    by (auto simp: s'(1-5) u'(1,2) s2_def b2_def fr'(6,7) emits_def)
  then show ?thesis using s'(6) by blast
qed

lemma run_open_io_cases:
  assumes "run_open_io K sid (s, b) = (r, s', b')"
  obtains (failed) ok1 s1 b1 ok2 s2 b2 where "flush_step K sid (s, b) = (ok1, s1, b1)" "read_step K sid (s1, b1) = (ok2, s2, b2)"
      "\<not> ok1 \<and> abort_step K sid (s1, b1) = (r, s', b') \<or> ok1 \<and> \<not> ok2 \<and> abort_step K sid (s2, b2) = (r, s', b')"
    | (went) s1 b1 s2 b2 ps where "flush_step K sid (s, b) = (True, s1, b1)" "read_step K sid (s1, b1) = (True, s2, b2)"
      "put_on_wire sid s2 b2 s' b' ps"
      "r = Inr Keep \<and> \<not> is_drained s' \<and> connector b' = connector b2
       \<or> r = Inr Remove \<and> is_drained s' \<and> connector b' = conn_close K (connector b2) sid
       \<or> r = Inl (EgIo ''updating egress epoll interest'') \<and> refuses K \<and> connector b' = connector b2"
proof -
  obtain ok1 s1 b1 where f: "flush_step K sid (s, b) = (ok1, s1, b1)" by (metis prod_cases3)
  obtain ok2 s2 b2 where rd: "read_step K sid (s1, b1) = (ok2, s2, b2)" by (metis prod_cases3)
  show thesis
  proof (cases "ok1 \<and> ok2")
    case False
    then show thesis using failed [OF f rd] assms f rd by (cases ok1) (auto simp: run_open_io_def)
  next
    case True
    then have "\<exists>ps. put_on_wire sid s2 b2 s' b' ps
        \<and> (r = Inr Keep \<and> \<not> is_drained s' \<and> connector b' = connector b2
           \<or> r = Inr Remove \<and> is_drained s' \<and> connector b' = conn_close K (connector b2) sid
           \<or> r = Inl (EgIo ''updating egress epoll interest'') \<and> refuses K \<and> connector b' = connector b2)"
      using assms f rd by (intro finish_io) (simp add: run_open_io_def)
    then show thesis using went [OF f [unfolded conjunct1 [OF True, THEN eqTrueI]] rd [unfolded conjunct2 [OF True, THEN eqTrueI]]]
      by (elim exE conjE)
  qed
qed

lemma run_open_io_spec:
  assumes "run_open_io K sid (s, b) = (r, s', b')" and "length (to_guest s) \<le> WINDOW_BYTES"
  shows "sessions b' = sessions b \<and> resolving b' = resolving b \<and> rx_parse b' = rx_parse b
    \<and> (r = Inr Remove \<and> emits (tx_pending b) [Rst sid] (tx_pending b')
       \<or> (\<exists>ps new up. served sid s b s' b' ps new up)
         \<and> (r = Inr Keep \<or> r = Inr Remove \<and> is_drained s' \<or> r = Inl (EgIo ''updating egress epoll interest'') \<and> refuses K))"
  using assms(1)
proof (cases rule: run_open_io_cases)
  case (failed ok1 s1 b1 ok2 s2 b2)
  obtain c1 st c2 where "b1 = b\<lparr>connector := c1, stats := st\<rparr>" "length (to_guest s1) \<le> WINDOW_BYTES"
    using flush_step_frame [OF failed(1)] assms(2) by auto
  moreover from read_step_frame [OF failed(2) this(2)] obtain c2 where "b2 = b1\<lparr>connector := c2\<rparr>" by blast
  ultimately show ?thesis using failed(3) abort_step_spec [of K sid s1 b1 r s' b'] abort_step_spec [of K sid s2 b2 r s' b'] by auto
next
  case (went s1 b1 s2 b2 ps)
  from flush_step_frame [OF went(1)] obtain up c1 st1 where
    f: "up \<le> length (to_socket s)" "s1 = s\<lparr>to_socket := drop up (to_socket s)\<rparr>" "b1 = b\<lparr>connector := c1, stats := st1\<rparr>"
    by blast
  from read_step_frame [OF went(2)] assms(2) f(2) obtain new c2 where
    rd: "to_guest s2 = to_guest s1 @ new" "length (to_guest s2) \<le> WINDOW_BYTES" "b2 = b1\<lparr>connector := c2\<rparr>"
      "host_read_closed s1 \<longrightarrow> new = [] \<and> s2 = s1"
      "s2 = s1\<lparr>to_guest := to_guest s1 @ new\<rparr>
         \<or> s2 = s1\<lparr>to_guest := to_guest s1 @ new, host_read_closed := True,
                  sess_state := (if sess_state s1 = Established then HalfClosed else sess_state s1)\<rparr>"
    by auto
  have s2: "host_close_sent s2 = host_close_sent s" "guest_write_closed s2 = guest_write_closed s"
    "to_socket s2 = drop up (to_socket s)" "to_guest s2 = to_guest s @ new" "to_guest_credit s2 = to_guest_credit s"
    "sess_state s2 = (if sess_state s = Established \<and> host_read_closed s2 \<and> \<not> host_read_closed s
       then HalfClosed else sess_state s)"
    "host_read_closed s \<longrightarrow> new = [] \<and> host_read_closed s2"
    using rd(4,5) f(2) by auto
  note fr = went(3) [unfolded put_on_wire_def]
  have "length (to_guest s') \<le> WINDOW_BYTES" using fr rd(2) by (auto dest: arg_cong [where f = length])
  then have "served sid s b s' b' ps new up"
    using fr s2 f(1,3) rd(3) unfolding served_def by (auto split: if_splits)
  then show ?thesis using fr went(4) f(3) rd(3) by auto
qed

text \<open>
  One service against the socket: \<open>xs\<close> is what the socket was asked and answered, \<open>c\<close> the connector
  after it.
\<close>

lemma flush_step_calls:
  assumes "flush_step K sid (s, b) = (ok, s', b')"
  shows "\<exists>xs. socket_calls K sid (to_socket s, g, connector b) xs (to_socket s', g, connector b') \<and> write_calls xs \<and> to_socket s = taken xs @ to_socket s'
    \<and> ok = (Broke \<notin> set xs) \<and> (ok \<longrightarrow> to_socket s' = [] \<or> WriteBlocked \<in> set xs)"
proof -
  obtain ok1 c q up where w: "write_loop K sid (connector b) (to_socket s) (bytes_up (stats b)) = (ok1, c, q, up)"
    by (metis prod_cases4)
  then have "ok = ok1" "to_socket s' = q" "connector b' = c" using assms by (auto simp: flush_step_def)
  then show ?thesis using write_loop_calls [OF w, of g] by simp
qed

lemma read_step_calls:
  assumes "read_step K sid (s, b) = (ok, s', b')" and "counts_reads K" and "length (to_guest s) \<le> WINDOW_BYTES"
  shows "\<exists>xs. socket_calls K sid (q, to_guest s, connector b) xs (q, to_guest s', connector b') \<and> read_calls xs \<and> to_guest s' = to_guest s @ given xs
    \<and> ok = (Broke \<notin> set xs) \<and> (ok \<longrightarrow> host_read_closed s' = (host_read_closed s \<or> AtEof \<in> set xs)
    \<and> (host_read_closed s' \<or> ReadBlocked \<in> set xs \<or> length (to_guest s') = WINDOW_BYTES))
    \<and> (host_read_closed s \<longrightarrow> xs = []) \<and> to_socket s' = to_socket s"
proof (cases "host_read_closed s")
  case True
  then show ?thesis using assms(1) socket_calls.none by (auto simp: read_step_def read_calls_def intro!: exI [of _ "[]"])
next
  case False
  obtain r c g where w: "read_loop K sid (connector b) (to_guest s) (\<lambda>_. 0) = (r, c, g)" by (metis prod_cases3)
  have s': "to_guest s' = g" "connector b' = c" "ok = (r \<noteq> ReadFailed)" "host_read_closed s' = (r = ReadEof)" "to_socket s' = to_socket s"
    using assms(1) w False by (cases r; auto simp: read_step_def Let_def)+
  from read_loop_calls [OF w assms(2,3), of q] obtain xs where
    xs: "socket_calls K sid (q, to_guest s, connector b) xs (q, g, c)" "read_calls xs" "g = to_guest s @ given xs" "(r = ReadFailed) = (Broke \<in> set xs)"
      "(r = ReadEof) = (AtEof \<in> set xs)" "r = ReadMore \<longrightarrow> ReadBlocked \<in> set xs \<or> length g = WINDOW_BYTES" by blast
  show ?thesis using xs False by (intro exI [of _ xs]) (cases r; auto simp: s')
qed

text \<open>
  What the guest gets of a service that went through: \<open>new\<close> are the bytes the socket gave, \<open>eof\<close>
  whether it reached its end, \<open>ps\<close> the payloads of the data frames.
\<close>

definition sent_on ::
  "StreamId \<Rightarrow> Session \<Rightarrow> ('c, 'p) EgressBackend \<Rightarrow> bytes \<Rightarrow> bool \<Rightarrow> Session \<Rightarrow> ('c, 'p) EgressBackend \<Rightarrow> bytes list \<Rightarrow> bool" where
  "sent_on sid s b new eof s' b' ps \<longleftrightarrow>
     emits (tx_pending b) (map (Data sid) ps @ (if host_read_closed s' \<and> to_guest s' = [] \<and> \<not> host_close_sent s then [Close sid] else []))
       (tx_pending b')
     \<and> to_guest s @ new = concat ps @ to_guest s' \<and> to_guest_credit s = length (concat ps) + to_guest_credit s'
     \<and> (to_guest s' = [] \<or> to_guest_credit s' = 0) \<and> length (to_guest s') \<le> WINDOW_BYTES
     \<and> host_read_closed s' = (host_read_closed s \<or> eof)
     \<and> host_close_sent s' = (host_close_sent s \<or> host_read_closed s' \<and> to_guest s' = [])"

lemma put_on_wire_sent_on:
  assumes "put_on_wire sid s2 b2 s' b' ps" and "tx_pending b2 = tx_pending b" and "to_guest s2 = to_guest s @ new"
    and "to_guest_credit s2 = to_guest_credit s" and "host_read_closed s2 = (host_read_closed s \<or> eof)"
    and "host_close_sent s2 = host_close_sent s" and "length (to_guest s2) \<le> WINDOW_BYTES"
  shows "sent_on sid s b new eof s' b' ps"
proof -
  note f = assms(1) [unfolded put_on_wire_def assms(2-6)]
  have "length (to_guest s @ new) = length (concat ps @ to_guest s')" using f by simp
  then have "length (to_guest s') \<le> WINDOW_BYTES" using assms(3,7) by simp
  moreover have rc: "host_read_closed s' = (host_read_closed s \<or> eof)" using f by blast
  ultimately show ?thesis using f unfolding sent_on_def rc by (elim conjE, intro conjI) (assumption | rule refl)+
qed

lemma run_open_io_calls:
  assumes "run_open_io K sid (s, b) = (r, s', b')" and "length (to_guest s) \<le> WINDOW_BYTES" and "counts_reads K"
  shows "\<exists>xs c. socket_calls K sid (to_socket s, to_guest s, connector b) xs (to_socket s', to_guest s @ given xs, c)
    \<and> connector b' = (if r = Inr Remove then conn_close K c sid else c)
    \<and> to_socket s = taken xs @ to_socket s' \<and> (host_read_closed s \<longrightarrow> given xs = [])
    \<and> (if Broke \<in> set xs then r = Inr Remove \<and> emits (tx_pending b) [Rst sid] (tx_pending b')
       else \<exists>ps. sent_on sid s b (given xs) (AtEof \<in> set xs) s' b' ps
         \<and> (to_socket s' = [] \<or> WriteBlocked \<in> set xs)
         \<and> (host_read_closed s' \<or> ReadBlocked \<in> set xs \<or> length (to_guest s @ given xs) = WINDOW_BYTES)
         \<and> (r = Inr Keep \<and> \<not> is_drained s' \<or> r = Inr Remove \<and> is_drained s'
            \<or> r = Inl (EgIo ''updating egress epoll interest'') \<and> refuses K))"
proof -
  have abort: "connector b' = conn_close K (connector b0) sid" "to_socket s' = to_socket s0" "r = Inr Remove"
      "emits (tx_pending b0) [Rst sid] (tx_pending b')" if "abort_step K sid (s0, b0) = (r, s', b')" for s0 b0
    using abort_step_spec [OF that] that by (auto simp: abort_step_def abort_open_def push_frame_fits detach_socket_def Let_def)
  from assms(1) show ?thesis
  proof (cases rule: run_open_io_cases)
    case (failed ok1 s1 b1 ok2 s2 b2)
    have s1: "length (to_guest s1) \<le> WINDOW_BYTES" "tx_pending b1 = tx_pending b" "to_guest s1 = to_guest s"
        "host_read_closed s1 = host_read_closed s" using flush_step_frame [OF failed(1)] assms(2) by auto
    have tx2: "tx_pending b2 = tx_pending b" using read_step_frame [OF failed(2) s1(1)] s1(2) by auto
    from flush_step_calls [OF failed(1)] obtain xs where
      xs: "socket_calls K sid (to_socket s, to_guest s, connector b) xs (to_socket s1, to_guest s, connector b1)" "given xs = []" "to_socket s = taken xs @ to_socket s1" "ok1 = (Broke \<notin> set xs)"
      unfolding write_calls_def by blast
    from read_step_calls [OF failed(2) assms(3) s1(1), of "to_socket s1"] obtain ys where
      ys: "socket_calls K sid (to_socket s1, to_guest s, connector b1) ys (to_socket s1, to_guest s @ given ys, connector b2)"
        "read_calls ys" "ok2 = (Broke \<notin> set ys)" "to_socket s2 = to_socket s1" "host_read_closed s \<longrightarrow> ys = []"
      unfolding s1(3,4) by metis
    show ?thesis
    proof (cases ok1)
      case False
      then show ?thesis using failed(3) abort [of s1 b1] xs s1(2)
        by (intro exI [of _ xs] exI [of _ "connector b1"]) auto
    next
      case True
      then show ?thesis using failed(3) abort [of s2 b2] xs ys tx2 socket_calls_append [OF xs(1) ys(1)]
        by (intro exI [of _ "xs @ ys"] exI [of _ "connector b2"]) (auto simp: read_calls_def)
    qed
  next
    case (went s1 b1 s2 b2 ps)
    have s1: "length (to_guest s1) \<le> WINDOW_BYTES" "tx_pending b1 = tx_pending b" "to_guest s1 = to_guest s"
        "to_guest_credit s1 = to_guest_credit s" "host_read_closed s1 = host_read_closed s" "host_close_sent s1 = host_close_sent s"
      using flush_step_frame [OF went(1)] assms(2) by auto
    have s2: "tx_pending b2 = tx_pending b" "to_guest_credit s2 = to_guest_credit s" "host_close_sent s2 = host_close_sent s"
      using read_step_frame [OF went(2) s1(1)] s1 by auto
    from flush_step_calls [OF went(1)] obtain xs where
      xs: "socket_calls K sid (to_socket s, to_guest s, connector b) xs (to_socket s1, to_guest s, connector b1)" "write_calls xs" "to_socket s = taken xs @ to_socket s1" "Broke \<notin> set xs"
        "to_socket s1 = [] \<or> WriteBlocked \<in> set xs" by blast
    from read_step_calls [OF went(2) assms(3) s1(1), of "to_socket s1"] obtain ys where
      ys: "socket_calls K sid (to_socket s1, to_guest s1, connector b1) ys (to_socket s1, to_guest s2, connector b2)" "read_calls ys"
        "to_guest s2 = to_guest s1 @ given ys" "host_read_closed s1 \<longrightarrow> ys = []" "Broke \<notin> set ys"
        "host_read_closed s2 = (host_read_closed s1 \<or> AtEof \<in> set ys)"
        "host_read_closed s2 \<or> ReadBlocked \<in> set ys \<or> length (to_guest s2) = WINDOW_BYTES" "to_socket s2 = to_socket s1" by blast
    have len: "length (to_guest s2) \<le> WINDOW_BYTES" using read_step_frame [OF went(2) s1(1)] by blast
    have wr: "given xs = []" "AtEof \<notin> set xs" "ReadBlocked \<notin> set xs" using xs(2) by (simp_all add: write_calls_def)
    have rd: "taken ys = []" "WriteBlocked \<notin> set ys" using ys(2) by (simp_all add: read_calls_def)
    have "sent_on sid s b (given (xs @ ys)) (AtEof \<in> set (xs @ ys)) s' b' ps"
      by (rule put_on_wire_sent_on [OF went(3) s2(1)]) (use len in \<open>simp_all add: s1 s2 ys wr\<close>)
    moreover have "to_socket s' = to_socket s1" "host_read_closed s' = host_read_closed s2"
      using went(3) ys(8) by (simp_all add: put_on_wire_def)
    moreover have "socket_calls K sid (to_socket s, to_guest s, connector b) (xs @ ys) (to_socket s1, to_guest s @ given (xs @ ys), connector b2)"
      using socket_calls_append [OF xs(1) ys(1) [unfolded s1(3) ys(3)]] wr by (simp add: s1)
    ultimately show ?thesis using went(4) xs(3-5) ys(3-7) s1(3,5) wr rd
      by (intro exI [of _ "xs @ ys"] exI [of _ "connector b2"]) auto
  qed
qed

end
