(* ===== verification/EgressPump.thy ===== *)
theory EgressPump
  imports EgressSessions
begin

text \<open>
  The pump of the egress backend as a whole: it keeps the session-table invariant, it only ever
  appends whole host-to-guest frames to the pending bytes, its errors are framing errors of the
  guest and epoll failures, and reassembly does not depend on how the guest's bytes are cut.
\<close>

section \<open>Connecting streams\<close>

lemma run_connecting_spec:
  assumes "run_connecting K sid (s, b) = (r, s', b')"
  shows "sessions b' = sessions b \<and> resolving b' = resolving b \<and> rx_parse b' = rx_parse b
    \<and> (r = Inr Keep \<and> s' = s \<and> tx_pending b' = tx_pending b
       \<or> (\<exists>reason. r = Inr Remove \<and> emits (tx_pending b) [OpenErr sid reason] (tx_pending b'))
       \<or> (\<exists>m. s' = s\<lparr>sess_state := (if guest_write_closed s then HalfClosed else Established), epoll_mask := m\<rparr>)
         \<and> emits (tx_pending b) [OpenOk sid] (tx_pending b')
         \<and> (r = Inr Keep \<or> r = Inl (EgIo ''updating egress epoll interest'') \<and> refuses K))"
proof -
  obtain p c where p: "poll_connect K (connector b) sid = (p, c)" by fastforce
  show ?thesis
  proof (cases p)
    case Pending
    then show ?thesis using assms p by (auto simp: run_connecting_def)
  next
    case (Failed reason)
    then show ?thesis using assms p by (auto simp: run_connecting_def push_frame_fits emits_def)
  next
    case Connected
    define b1 where "b1 = (let b = b\<lparr>connector := c, tx_pending := tx_pending b @ wire (OpenOk sid)\<rparr>
      in if guest_write_closed s then b\<lparr>connector := shutdown_write K (connector b) sid\<rparr> else b)"
    define s1 where "s1 = s\<lparr>sess_state := (if guest_write_closed s then HalfClosed else Established)\<rparr>"
    obtain r2 s2 b2 where u: "update_epoll K b1 sid s1 = (r2, s2, b2)" by (metis prod_cases3)
    from u obtain m ep where u': "s2 = s1\<lparr>epoll_mask := m\<rparr>" "b2 = b1\<lparr>epoll := ep\<rparr>"
      "r2 = Inr () \<or> r2 = Inl (EgIo ''updating egress epoll interest'') \<and> refuses K" by (rule update_epoll_frame)
    have "(r, s', b') = and_then (r2, s2, b2) (\<lambda>_ sb. (Inr Keep, sb))"
      using assms p Connected u by (simp add: run_connecting_def push_frame_fits b1_def s1_def Let_def split: if_splits)
    then have eq: "s' = s2" "b' = b2" "r = Inr Keep \<or> r = Inl (EgIo ''updating egress epoll interest'') \<and> refuses K"
      using u'(3) by auto
    have "emits (tx_pending b) [OpenOk sid] (tx_pending b')"
      by (simp add: eq u' b1_def emits_def Let_def)
    moreover have "sessions b' = sessions b \<and> resolving b' = resolving b \<and> rx_parse b' = rx_parse b"
      by (simp add: eq u' b1_def Let_def)
    moreover have "s' = s\<lparr>sess_state := (if guest_write_closed s then HalfClosed else Established), epoll_mask := m\<rparr>"
      by (simp add: eq u' s1_def)
    ultimately show ?thesis using eq(3) by blast
  qed
qed

section \<open>Steps of a pump\<close>

text \<open>
  What a step of the pump guarantees, whatever its result: whole frames for the guest are appended,
  the unparsed input stays, a failure is one of two, each because \<open>epoll_ctl\<close> refused a request, and
  the table is consistent after it. Only a refused registration leaves one session half-way: it still
  waits for its name, which is no longer counted as being looked up.
\<close>

definition io_failure :: "('c, 'a, 'p) EgressConnector \<Rightarrow> EgressError \<Rightarrow> bool" where
  "io_failure K e \<longleftrightarrow> refuses K \<and>
     (e = EgIo ''registering egress socket'' \<or> e = EgIo ''updating egress epoll interest'')"

definition half_registered :: "('c, 'p) EgressBackend \<Rightarrow> bool" where
  "half_registered b \<longleftrightarrow> (\<exists>sid. map_option sess_state (bt_get (sessions b) sid) = Some Resolving
     \<and> sid \<notin> resolving b \<and> backend_ok (b\<lparr>resolving := insert sid (resolving b)\<rparr>))"

definition consistent_after :: "EgressError + unit \<Rightarrow> ('c, 'p) EgressBackend \<Rightarrow> bool" where
  "consistent_after r b \<longleftrightarrow>
     (if r = Inl (EgIo ''registering egress socket'') then half_registered b else backend_ok b)"

lemma consistent_after_simps [simp]:
  "consistent_after (Inr u) b = backend_ok b"
  "consistent_after (Inl (EgFrame f)) b = backend_ok b"
  "consistent_after (Inl (EgIo ''updating egress epoll interest'')) b = backend_ok b"
  by (simp_all add: consistent_after_def)

definition stepped ::
  "('c, 'a, 'p) EgressConnector \<Rightarrow> ('c, 'p) EgressBackend \<Rightarrow> (EgressError + unit) \<times> ('c, 'p) EgressBackend \<Rightarrow> bool" where
  "stepped K b rb \<longleftrightarrow> (\<exists>fs. emits (tx_pending b) fs (tx_pending (snd rb))) \<and> rx_parse (snd rb) = rx_parse b
     \<and> (\<forall>e. fst rb = Inl e \<longrightarrow> io_failure K e)
     \<and> (backend_ok b \<longrightarrow> consistent_after (fst rb) (snd rb))"

lemma handled_stepped: "handled b rb \<Longrightarrow> stepped K b rb"
  by (auto simp: handled_def stepped_def)

lemma stepped_done: "stepped K b (Inr (), b)"
  by (auto simp: stepped_def intro!: exI [of _ "[]"])

lemma stepped_and_then:
  assumes m: "stepped K b m" and k: "\<And>b'. m = (Inr (), b') \<Longrightarrow> stepped K b' (k () b')"
  shows "stepped K b (and_then m k)"
proof (cases m)
  case (Pair r b1)
  show ?thesis
  proof (cases r)
    case (Inl e)
    then show ?thesis using m Pair by (simp add: stepped_def)
  next
    case (Inr u)
    from m obtain fs where fs: "emits (tx_pending b) fs (tx_pending b1)" using Pair by (auto simp: stepped_def)
    have k1: "stepped K b1 (k () b1)" using k Pair Inr by simp
    then obtain gs where gs: "emits (tx_pending b1) gs (tx_pending (snd (k () b1)))"
      by (auto simp: stepped_def)
    have "emits (tx_pending b) (fs @ gs) (tx_pending (snd (and_then m k)))"
      using emits_append [OF fs gs] Pair Inr by simp
    then show ?thesis using m k1 Pair Inr by (auto simp: stepped_def)
  qed
qed

lemma stepped_frames: "stepped K b (handle_frames K b fs)"
  by (induction fs arbitrary: b)
     (auto intro!: stepped_done stepped_and_then handled_stepped [OF handled_frame])

lemma handle_frames_Inr: "fst (handle_frames K b fs) = Inr ()"
proof (induction fs arbitrary: b)
  case (Cons f fs)
  obtain b1 where "handle_frame K b f = (Inr (), b1)"
    using handled_frame [of b K f] by (metis handled_def prod.collapse)
  then show ?case using Cons by simp
qed simp

section \<open>Harvesting resolutions\<close>

lemma backend_ok_unresolve:
  assumes "backend_ok b" and "map_option sess_state (bt_get (sessions b) sid) \<noteq> Some Resolving"
    and "sessions b' = sessions b" and "resolving b' = resolving b - {sid}"
  shows "backend_ok b'"
  using assms by (auto simp: backend_ok_def session_ok_def)

lemma backend_ok_unresolve_remove:
  assumes "backend_ok b" and "sessions b' = bt_remove sid (sessions b)" and "resolving b' = resolving b - {sid}"
  shows "backend_ok b'"
proof -
  have t: "bt_ok (sessions b)" using assms(1) by (simp add: backend_ok_def)
  have "session_ok (resolving b - {sid}) k v" if "bt_get (bt_remove sid (sessions b)) k = Some v" for k v
    using assms(1) that t by (auto simp: bt.get_rm backend_ok_def session_ok_def split: if_splits)
  then show ?thesis
    using assms t bt.length_keys_rm [OF t, of sid] by (simp add: backend_ok_def bt.ok_rm length_sessions)
qed

lemma backend_ok_connecting:
  assumes "backend_ok b" and s: "bt_get (sessions b) sid = Some s" "sess_state s = Resolving"
    and "sessions b' = bt_insert sid (s\<lparr>sess_state := Connecting, epoll_mask := m\<rparr>) (sessions b)"
    and "resolving b' = resolving b - {sid}"
  shows "backend_ok b'"
proof -
  have t: "bt_ok (sessions b)" using assms(1) by (simp add: backend_ok_def)
  have "session_ok (resolving b) sid s" using assms(1) s by (simp add: backend_ok_def)
  then have "session_ok (resolving b - {sid}) k v" if "bt_get (sessions b') k = Some v" for k v
    using assms(1,4) s that t by (auto simp: bt.get_ins backend_ok_def session_ok_def split: if_splits)
  then show ?thesis
    using assms t bt.length_keys_ins_present [OF t, of sid] by (simp add: backend_ok_def bt.ok_ins length_sessions)
qed

lemma stepped_fail_open:
  assumes "tx_pending b1 = tx_pending b" and "rx_parse b1 = rx_parse b" and "sessions b1 = sessions b"
    and "resolving b1 = resolving b - {sid}"
  shows "stepped K b (fail_open K b1 sid reason)"
proof -
  obtain b' where b': "fail_open K b1 sid reason = (Inr (), b')" "sessions b' = bt_remove sid (sessions b1)"
    "resolving b' = resolving b1" "rx_parse b' = rx_parse b1" "tx_pending b' = tx_pending b1 @ wire (OpenErr sid reason)"
    using fail_open_spec [of K b1 sid reason] by blast
  have "backend_ok b \<Longrightarrow> backend_ok b'"
    by (rule backend_ok_unresolve_remove [of b b' sid]) (simp_all add: b' assms)
  moreover have "emits (tx_pending b) [OpenErr sid reason] (tx_pending b')" by (simp add: b' assms emits_def)
  ultimately show ?thesis using b' assms by (auto simp: stepped_def)
qed

lemma half_registeredI:
  assumes "backend_ok b" and "bt_get (sessions b) sid = Some s" and "sess_state s = Resolving"
    and "sessions b' = sessions b" and "resolving b' = resolving b - {sid}"
  shows "half_registered b'"
  using assms session_ok_mono [OF subset_insertI, of "resolving b"]
  unfolding half_registered_def backend_ok_def by (intro exI [of _ sid]) auto

lemma stepped_harvest_one: "stepped K b (harvest_one K b r)"
proof -
  define sid where "sid = res_stream r"
  define b1 where "b1 = b\<lparr>resolving := resolving b - {sid}\<rparr>"
  have b1: "tx_pending b1 = tx_pending b" "rx_parse b1 = rx_parse b" "sessions b1 = sessions b"
    "resolving b1 = resolving b - {sid}" "connector b1 = connector b" "epoll b1 = epoll b"
    by (simp_all add: b1_def)
  show ?thesis
  proof (cases "map_option sess_state (bt_get (sessions b) sid) = Some Resolving")
    case False
    have "harvest_one K b r = (Inr (), b1)"
      using False by (simp add: harvest_one_def sid_def [symmetric] b1_def [symmetric] Let_def b1(3))
    moreover have "backend_ok b \<Longrightarrow> backend_ok b1"
      by (rule backend_ok_unresolve [OF _ False]) (simp_all add: b1)
    ultimately show ?thesis by (auto simp: stepped_def b1 intro!: exI [of _ "[]"])
  next
    case True
    then obtain s where s: "bt_get (sessions b) sid = Some s" "sess_state s = Resolving" by auto
    show ?thesis
    proof (cases "res_addr r")
      case None
      then have "harvest_one K b r = fail_open K b1 sid ResolveFailed"
        using s by (simp add: harvest_one_def sid_def [symmetric] b1_def [symmetric] Let_def b1(3))
      then show ?thesis using stepped_fail_open [OF b1(1-4)] by simp
    next
      case (Some addr)
      obtain ok c where c: "start_connect K (connector b) sid addr = (ok, c)" by fastforce
      show ?thesis
      proof (cases ok)
        case False
        then have "harvest_one K b r = fail_open K (b1\<lparr>connector := c\<rparr>) sid Unreachable"
          using s Some c by (simp add: harvest_one_def sid_def [symmetric] b1_def [symmetric] Let_def b1(3,5))
        then show ?thesis using stepped_fail_open [of "b1\<lparr>connector := c\<rparr>" b sid] b1 by simp
      next
        case ok: True
        obtain ok2 ep where e: "(case stream_fd K c sid of Some fd \<Rightarrow> epoll_add K (epoll b) fd (EPOLLIN OR EPOLLOUT)
            | None \<Rightarrow> (True, epoll b)) = (ok2, ep)" by fastforce
        let ?b = "put_session (b1\<lparr>connector := c, epoll := ep\<rparr>) sid
          (s\<lparr>sess_state := Connecting, epoll_mask := EPOLLIN OR EPOLLOUT\<rparr>)"
        have h: "harvest_one K b r = (if ok2 then (Inr (), ?b)
            else (Inl (EgIo ''registering egress socket''), b1\<lparr>connector := c, epoll := ep\<rparr>))"
          using s Some c ok e
          by (cases "stream_fd K c sid")
             (simp_all add: harvest_one_def sid_def [symmetric] b1_def [symmetric] Let_def b1(3,5,6))
        have "backend_ok b \<Longrightarrow> backend_ok ?b"
          by (rule backend_ok_connecting [OF _ s, where m = "EPOLLIN OR EPOLLOUT"]) (simp_all add: b1)
        moreover have "half_registered (b1\<lparr>connector := c, epoll := ep\<rparr>)" if "backend_ok b"
          using s that half_registeredI [of b sid s "b1\<lparr>connector := c, epoll := ep\<rparr>"] by (simp add: b1)
        moreover have "refuses K" if "\<not> ok2"
          using that e by (auto simp: epoll_add_def split: option.splits intro: refusesI)
        ultimately show ?thesis
          by (auto simp: h stepped_def b1 io_failure_def consistent_after_def intro!: exI [of _ "[]"])
      qed
    qed
  qed
qed

lemma stepped_harvest_all: "stepped K b (harvest_all K b rs)"
  by (induction rs arbitrary: b) (auto intro!: stepped_done stepped_and_then stepped_harvest_one)

lemma stepped_harvest: "stepped K b (harvest_resolves K b)"
proof -
  obtain rs c where rs: "take_resolved K (connector b) = (rs, c)" by fastforce
  have "stepped K (b\<lparr>connector := c\<rparr>) (harvest_all K (b\<lparr>connector := c\<rparr>) rs)" by (rule stepped_harvest_all)
  moreover have "backend_ok (b\<lparr>connector := c\<rparr>) = backend_ok b" by (rule backend_ok_same) simp_all
  ultimately show ?thesis by (simp add: harvest_resolves_def rs stepped_def)
qed

section \<open>Servicing the sessions\<close>

lemma served_session_ok:
  assumes "served sid s b s' b' ps new up" and "session_ok R sid s"
    and "sess_state s = Established \<or> sess_state s = HalfClosed"
  shows "session_ok R sid s'"
proof -
  note s = assms(1) [unfolded served_def]
  have st: "sess_state s' = (if sess_state s = Established \<and> host_read_closed s' \<and> \<not> host_read_closed s
      then HalfClosed else sess_state s)" using s by blast
  have rc: "host_read_closed s \<longrightarrow> new = [] \<and> host_read_closed s'" using s by blast
  have closed: "host_close_sent s' \<longrightarrow> host_read_closed s' \<and> to_guest s' = []"
  proof
    assume c: "host_close_sent s'"
    show "host_read_closed s' \<and> to_guest s' = []"
    proof (cases "host_close_sent s")
      case True
      then have "host_read_closed s" "to_guest s = []" using assms(2) by (auto simp: session_ok_def)
      then show ?thesis using s by auto
    next
      case False
      then show ?thesis using c s by (auto split: if_splits)
    qed
  qed
  have "length (to_socket s') \<le> TO_SOCKET_CAP" using s assms(2) by (auto simp: session_ok_def)
  moreover have "length (to_guest s') \<le> WINDOW_BYTES" "guest_write_closed s' = guest_write_closed s" using s by blast+
  ultimately show ?thesis
    using assms(2,3) closed st rc by (auto simp: session_ok_def split: if_splits)
qed

lemma connected_session_ok:
  assumes "session_ok R sid s" and "sess_state s = Connecting"
  shows "session_ok R sid (s\<lparr>sess_state := (if guest_write_closed s then HalfClosed else Established), epoll_mask := m\<rparr>)"
  using assms by (auto simp: session_ok_def)

text \<open>Taking a session out of the table and putting its new value back keeps the invariant.\<close>

lemma backend_ok_replace:
  assumes ok: "backend_ok b" and s: "bt_get (sessions b) sid = Some s"
    and "session_ok (resolving b) sid s'"
    and b': "sessions b' = bt_insert sid s' (bt_remove sid (sessions b))" "resolving b' = resolving b"
  shows "backend_ok b'"
proof -
  have t: "bt_ok (sessions b)" using ok by (simp add: backend_ok_def)
  have "session_ok (resolving b) k v" if "bt_get (sessions b') k = Some v" for k v
    using ok that t assms(3) by (auto simp: b' bt.get_ins bt.ok_rm bt.get_rm backend_ok_def split: if_splits)
  moreover have "length (sessions b') \<le> length (sessions b)"
    using bt.length_keys_ins [OF bt.ok_rm [OF t], of sid s' sid] bt.length_keys_rm_present [OF t, of sid] s
    by (simp add: b' length_sessions)
  ultimately show ?thesis
    using ok t by (simp add: backend_ok_def b' bt.ok_ins bt.ok_rm)
qed

text \<open>What one visit of a session does, by the state it is in.\<close>

definition visit ::
  "('c, 'a, 'p) EgressConnector \<Rightarrow> StreamId \<Rightarrow> Session \<Rightarrow> ('c, 'p) EgressBackend
     \<Rightarrow> (EgressError + Disposition) \<times> Session \<times> ('c, 'p) EgressBackend" where
  "visit K sid s b = (case sess_state s of
       Resolving \<Rightarrow> (Inr Keep, s, b)
     | Connecting \<Rightarrow> run_connecting K sid (s, b)
     | _ \<Rightarrow> run_open_io K sid (s, b))"

lemma served_emits: "served sid s b s' b' ps new up \<Longrightarrow> \<exists>fs. emits (tx_pending b) fs (tx_pending b')"
  unfolding served_def by blast

lemma open_io_visit:
  assumes io: "run_open_io K sid (s, b) = (r, s', b')" and win: "length (to_guest s) \<le> WINDOW_BYTES"
  shows "sessions b' = sessions b \<and> resolving b' = resolving b \<and> rx_parse b' = rx_parse b
      \<and> (\<exists>fs. emits (tx_pending b) fs (tx_pending b')) \<and> (\<forall>e. r = Inl e \<longrightarrow> io_failure K e \<and> e = EgIo ''updating egress epoll interest'')
      \<and> (sess_state s = Established \<or> sess_state s = HalfClosed
         \<longrightarrow> r \<noteq> Inr Remove \<longrightarrow> session_ok R sid s \<longrightarrow> session_ok R sid s')"
proof -
  from run_open_io_spec [OF io win] consider
      (removed) "r = Inr Remove" "emits (tx_pending b) [Rst sid] (tx_pending b')"
    | (open') ps new up where "served sid s b s' b' ps new up"
        "r = Inr Keep \<or> r = Inr Remove \<and> is_drained s' \<or> r = Inl (EgIo ''updating egress epoll interest'') \<and> refuses K"
    by blast
  then show ?thesis
  proof cases
    case removed
    then show ?thesis using run_open_io_spec [OF io win] by auto
  next
    case open'
    then show ?thesis
      using run_open_io_spec [OF io win] served_emits [OF open'(1)] served_session_ok [OF open'(1)]
      by (auto simp: io_failure_def)
  qed
qed

lemma visit_spec:
  assumes v: "visit K sid s b = (r, s', b')" and win: "length (to_guest s) \<le> WINDOW_BYTES"
  shows "sessions b' = sessions b" "resolving b' = resolving b" "rx_parse b' = rx_parse b"
    "\<exists>fs. emits (tx_pending b) fs (tx_pending b')"
    "r = Inl e \<Longrightarrow> io_failure K e \<and> e = EgIo ''updating egress epoll interest''"
    "r \<noteq> Inr Remove \<Longrightarrow> session_ok R sid s \<Longrightarrow> session_ok R sid s'"
proof -
  have "sessions b' = sessions b \<and> resolving b' = resolving b \<and> rx_parse b' = rx_parse b
      \<and> (\<exists>fs. emits (tx_pending b) fs (tx_pending b')) \<and> (\<forall>e. r = Inl e \<longrightarrow> io_failure K e \<and> e = EgIo ''updating egress epoll interest'')
      \<and> (r \<noteq> Inr Remove \<longrightarrow> session_ok R sid s \<longrightarrow> session_ok R sid s')"
  proof (cases "sess_state s")
    case Resolving
    then show ?thesis using v by (auto simp: visit_def intro: exI [of _ "[]"])
  next
    case Connecting
    then have "run_connecting K sid (s, b) = (r, s', b')" using v by (simp add: visit_def)
    from run_connecting_spec [OF this] show ?thesis
      using connected_session_ok [OF _ Connecting] by (auto simp: io_failure_def intro: exI [of _ "[]"])
  next
    case Established
    then have "run_open_io K sid (s, b) = (r, s', b')" using v by (simp add: visit_def)
    from open_io_visit [OF this win] Established show ?thesis by blast
  next
    case HalfClosed
    then have "run_open_io K sid (s, b) = (r, s', b')" using v by (simp add: visit_def)
    from open_io_visit [OF this win] HalfClosed show ?thesis by blast
  qed
  then show "sessions b' = sessions b" "resolving b' = resolving b" "rx_parse b' = rx_parse b"
    "\<exists>fs. emits (tx_pending b) fs (tx_pending b')"
    "r = Inl e \<Longrightarrow> io_failure K e \<and> e = EgIo ''updating egress epoll interest''"
    "r \<noteq> Inr Remove \<Longrightarrow> session_ok R sid s \<Longrightarrow> session_ok R sid s'" by blast+
qed

lemma stepped_service_one:
  assumes "\<And>s. bt_get (sessions b) sid = Some s \<Longrightarrow> length (to_guest s) \<le> WINDOW_BYTES"
  shows "stepped K b (service_one K b sid)"
proof (cases "bt_get (sessions b) sid")
  case None
  then show ?thesis by (simp add: service_one_def stepped_done)
next
  case (Some s)
  obtain r s' b' where v: "visit K sid s (remove_session b sid) = (r, s', b')" by (metis prod_cases3)
  note sp = visit_spec [OF v assms [OF Some]]
  have svc: "service_one K b sid = (case r of Inr Keep \<Rightarrow> (Inr (), put_session b' sid s')
      | Inr Remove \<Rightarrow> (Inr (), b') | Inl e \<Rightarrow> (Inl e, put_session b' sid s'))"
    using Some v by (simp add: service_one_def visit_def Let_def)
  have em: "\<exists>fs. emits (tx_pending b) fs (tx_pending b')" using sp(4) by simp
  have kept: "backend_ok (put_session b' sid s')" if "backend_ok b" "r \<noteq> Inr Remove"
    using sp(6) [OF that(2), of "resolving b"] backend_ok_session [OF that(1) Some]
    by (intro backend_ok_replace [OF that(1) Some, of s']) (simp_all add: sp(1,2))
  show ?thesis
  proof (cases r)
    case (Inl e)
    then show ?thesis using svc em sp(3) sp(5) [OF Inl] kept by (auto simp: stepped_def)
  next
    case (Inr d)
    show ?thesis
    proof (cases d)
      case Remove
      have "backend_ok b \<Longrightarrow> backend_ok b'" by (rule backend_ok_remove [of b b' sid]) (simp_all add: sp(1,2))
      then show ?thesis using svc em sp(3) Inr Remove by (auto simp: stepped_def)
    next
      case Keep
      then show ?thesis using svc em sp(3) Inr kept by (auto simp: stepped_def)
    qed
  qed
qed

lemma stepped_service: "backend_ok b \<Longrightarrow> stepped K b (service_ids K b is)"
proof (induction "is" arbitrary: b)
  case Nil
  show ?case by (simp add: stepped_done)
next
  case (Cons i "is")
  have one: "stepped K b (service_one K b i)"
    using Cons.prems by (intro stepped_service_one) (auto simp: backend_ok_def session_ok_def)
  have "stepped K b1 (service_ids K b1 is)" if "service_one K b i = (Inr (), b1)" for b1
    using one that Cons.prems by (intro Cons.IH) (simp add: stepped_def)
  then show ?case using stepped_and_then [OF one, of "\<lambda>_ b. service_ids K b is"] by simp
qed

section \<open>The pump\<close>

lemma stepped_after_ingest:
  assumes "backend_ok b"
  shows "stepped K b (and_then (harvest_resolves K b) (\<lambda>_ b. service_sessions K b))"
proof (rule stepped_and_then)
  show h: "stepped K b (harvest_resolves K b)" by (rule stepped_harvest)
  show "stepped K b' (service_sessions K b')" if "harvest_resolves K b = (Inr (), b')" for b'
    unfolding service_sessions_def using h that assms by (intro stepped_service) (simp add: stepped_def)
qed

lemma pump_spec:
  assumes ok: "backend_ok b" and p: "backend_pump K b input = (r, b')"
  shows "(\<exists>fs. emits (tx_pending b) fs (tx_pending b')) \<and> consistent_after r b'
    \<and> (case parse_frames (rx_parse b @ input) 0 [] of
         Inl f \<Rightarrow> r = Inl (EgFrame f) \<and> b' = b\<lparr>rx_parse := []\<rparr>
       | Inr (fs, n) \<Rightarrow> rx_parse b' = drop n (rx_parse b @ input) \<and> (r = Inr () \<or> (\<exists>e. r = Inl e \<and> io_failure K e)))"
proof (cases "parse_frames (rx_parse b @ input) 0 []")
  case (Inl f)
  then have "r = Inl (EgFrame f)" "b' = b\<lparr>rx_parse := []\<rparr>"
    using p by (simp_all add: backend_pump_def ingest_and_parse_def Let_def)
  then show ?thesis using Inl ok backend_ok_same [of b' b] by (auto intro!: exI [of _ "[]"])
next
  case (Inr x)
  obtain owned n where x: "x = (owned, n)" by fastforce
  define b1 where "b1 = b\<lparr>rx_parse := drop n (rx_parse b @ input)\<rparr>"
  have ok1: "backend_ok b1" using ok backend_ok_same [of b1 b] by (simp add: b1_def)
  let ?rest = "\<lambda>b. and_then (harvest_resolves K b) (\<lambda>_ b. service_sessions K b)"
  have "stepped K b1 (and_then (handle_frames K b1 owned) (\<lambda>_ b. ?rest b))"
  proof (rule stepped_and_then)
    show s: "stepped K b1 (handle_frames K b1 owned)" by (rule stepped_frames)
    show "stepped K b2 (?rest b2)" if "handle_frames K b1 owned = (Inr (), b2)" for b2
      using s that ok1 by (intro stepped_after_ingest) (simp add: stepped_def)
  qed
  moreover have "and_then (handle_frames K b1 owned) (\<lambda>_ b. ?rest b) = (r, b')"
    using p Inr x by (simp add: backend_pump_def ingest_and_parse_def Let_def b1_def)
  ultimately have st: "stepped K b1 (r, b')" by simp
  then show ?thesis using ok1 Inr x by (cases r) (auto simp: stepped_def b1_def)
qed

section \<open>Reassembly\<close>

text \<open>What a byte stream means: its frames up to the first incomplete one, and the rest.\<close>

function frames_of :: "bytes \<Rightarrow> EgressCodecError + OwnedFrame list \<times> bytes" where
  "frames_of x =
     (case decode x of
        Ok (Some d) \<Rightarrow> (case frames_of (drop (consumed d) x) of
                         Inl e \<Rightarrow> Inl e
                       | Inr (fs, rest) \<Rightarrow> Inr (to_owned (frame d) # fs, rest))
      | Err e \<Rightarrow> Inl e
      | _ \<Rightarrow> Inr ([], x))"
  by pat_completeness auto
termination
proof (relation "measure length", simp, goal_cases)
  case (1 x d d')
  then have "length (wire (frame d')) \<le> length x" "6 \<le> length (wire (frame d'))"
      "consumed d' = length (wire (frame d'))"
    using decode_Some_wire [of x d'] by (auto simp: wire_def intro: order_trans dest: arg_cong [where f = length])
  then show ?case by simp
qed

declare frames_of.simps [simp del]

lemma parse_frames_eq:
  "offset \<le> length rx \<Longrightarrow> parse_frames rx offset owned = (case frames_of (drop offset rx) of
       Inl e \<Rightarrow> Inl e | Inr (fs, rest) \<Rightarrow> Inr (owned @ fs, length rx - length rest))"
proof (induction rx offset owned rule: parse_frames.induct)
  case (1 rx offset owned)
  show ?case
  proof (cases "decode (drop offset rx)")
    case (Ok m)
    show ?thesis
    proof (cases m)
      case (Some d)
      have "drop offset rx = wire (frame d) @ drop (consumed d) (drop offset rx)" "consumed d = length (wire (frame d))"
        using decode_Some_wire [of "drop offset rx" d] Ok Some by auto
      then have "consumed d \<le> length (drop offset rx)" by (metis length_append le_add1)
      then have "offset + consumed d \<le> length rx" using "1.prems" by simp
      from "1.IH" [OF Ok Some this] show ?thesis
        using Ok Some by (subst parse_frames.simps, subst frames_of.simps)
          (auto simp: add.commute split: sum.splits)
    next
      case None
      then show ?thesis using Ok "1.prems" by (subst parse_frames.simps, subst frames_of.simps) simp
    qed
  next
    case (Err e)
    then show ?thesis by (subst parse_frames.simps, subst frames_of.simps) simp
  next
    case Panic
    then show ?thesis using decode_no_panic [of "drop offset rx"] by simp
  qed
qed

lemma decode_Some_append:
  assumes "decode x = Ok (Some d)"
  shows "decode (x @ y) = Ok (Some d)" and "consumed d \<le> length x"
proof -
  from decode_Some_wire [OF assms] have w: "encodable (frame d)" "consumed d = length (wire (frame d))"
    "x = wire (frame d) @ drop (consumed d) x" by blast+
  have "decode (wire (frame d) @ (drop (consumed d) x @ y)) = Ok (Some d)"
    using decode_wire_append [OF w(1), of "drop (consumed d) x @ y"] w(2) by (cases d) simp
  then show "decode (x @ y) = Ok (Some d)" using w(3) by (metis append.assoc)
  show "consumed d \<le> length x" using w(2,3) by (metis le_add1 length_append)
qed

lemma frames_of_append:
  "frames_of x = Inr (fs, rest) \<Longrightarrow> frames_of (x @ y) = (case frames_of (rest @ y) of
       Inl e \<Rightarrow> Inl e | Inr (gs, r) \<Rightarrow> Inr (fs @ gs, r))"
proof (induction x arbitrary: fs rest rule: frames_of.induct)
  case (1 x)
  show ?case
  proof (cases "\<exists>d. decode x = Ok (Some d)")
    case True
    then obtain d where d: "decode x = Ok (Some d)" by blast
    from "1.prems" d obtain gs where gs: "frames_of (drop (consumed d) x) = Inr (gs, rest)"
      "fs = to_owned (frame d) # gs"
      by (subst (asm) frames_of.simps) (auto split: sum.splits)
    have "frames_of (drop (consumed d) (x @ y)) = (case frames_of (rest @ y) of
       Inl e \<Rightarrow> Inl e | Inr (hs, r) \<Rightarrow> Inr (gs @ hs, r))"
      using "1.IH" [OF d refl gs(1)] decode_Some_append(2) [OF d] by simp
    then show ?thesis
      using decode_Some_append(1) [OF d, of y] gs(2)
      by (subst frames_of.simps) (auto split: sum.splits)
  next
    case False
    then have "fs = []" "rest = x"
      using "1.prems" decode_no_panic [of x] by (subst (asm) frames_of.simps;
        auto split: outcome.splits option.splits)+
    then show ?thesis by (simp split: sum.splits)
  qed
qed

text \<open>No handler reads the unparsed input.\<close>

definition with_rx :: "bytes \<Rightarrow> 'r \<times> ('c, 'p) EgressBackend \<Rightarrow> 'r \<times> ('c, 'p) EgressBackend" where
  "with_rx x rb = (fst rb, (snd rb)\<lparr>rx_parse := x\<rparr>)"

lemma detach_socket_rx: "detach_socket K (b\<lparr>rx_parse := x\<rparr>) sid = (detach_socket K b sid)\<lparr>rx_parse := x\<rparr>"
  by (cases "stream_fd K (connector b) sid") (simp_all add: detach_socket_def Let_def)

lemma session_ops_rx:
  "remove_session (b\<lparr>rx_parse := x\<rparr>) sid = (remove_session b sid)\<lparr>rx_parse := x\<rparr>"
  "put_session (b\<lparr>rx_parse := x\<rparr>) sid s = (put_session b sid s)\<lparr>rx_parse := x\<rparr>"
  "count_open_failed (b\<lparr>rx_parse := x\<rparr>) = (count_open_failed b)\<lparr>rx_parse := x\<rparr>"
  by (simp_all add: remove_session_def put_session_def count_open_failed_def)

lemma reset_stream_rx: "reset_stream K (b\<lparr>rx_parse := x\<rparr>) sid = with_rx x (reset_stream K b sid)"
  by (simp add: with_rx_def reset_stream_def push_frame_fits detach_socket_rx session_ops_rx)

lemma fail_open_rx: "fail_open K (b\<lparr>rx_parse := x\<rparr>) sid r = with_rx x (fail_open K b sid r)"
  by (simp add: with_rx_def fail_open_def push_frame_fits detach_socket_rx session_ops_rx)

lemma handle_frame_rx: "handle_frame K (b\<lparr>rx_parse := x\<rparr>) f = with_rx x (handle_frame K b f)"
proof (cases f)
  case (OOpen sid port host)
  then show ?thesis
    by (simp add: handle_open_def reset_stream_rx fail_open_rx) (simp add: with_rx_def put_session_def)
next
  case (OData sid pl)
  then show ?thesis
    by (cases "bt_get (sessions b) sid")
       (simp_all add: handle_data_def reset_stream_rx session_ops_rx Let_def, simp add: with_rx_def)
next
  case (OClose sid)
  then show ?thesis
    by (cases "bt_get (sessions b) sid") (simp_all add: with_rx_def handle_close_def put_session_def Let_def)
next
  case (OWindow sid credit)
  then show ?thesis
    by (cases "bt_get (sessions b) sid") (simp_all add: with_rx_def put_session_def)
qed (simp_all add: reset_stream_rx, simp add: with_rx_def drop_stream_def detach_socket_rx session_ops_rx)

lemma handle_frames_rx: "handle_frames K (b\<lparr>rx_parse := x\<rparr>) fs = with_rx x (handle_frames K b fs)"
proof (induction fs arbitrary: b)
  case (Cons f fs)
  obtain b1 where b1: "handle_frame K b f = (Inr (), b1)"
    using handled_frame [of b K f] by (metis handled_def prod.collapse)
  show ?case by (simp add: handle_frame_rx b1 with_rx_def Cons.IH)
qed (simp add: with_rx_def)

lemma handle_frames_append:
  "handle_frames K b (fs @ gs) = and_then (handle_frames K b fs) (\<lambda>_ b. handle_frames K b gs)"
proof (induction fs arbitrary: b)
  case (Cons f fs)
  obtain b1 where "handle_frame K b f = (Inr (), b1)"
    using handled_frame [of b K f] by (metis handled_def prod.collapse)
  then show ?case by (simp add: Cons.IH)
qed simp

lemma frames_of_suffix:
  assumes "frames_of x = Inr (fs, rest)" shows "drop (length x - length rest) x = rest"
  using assms
proof (induction x arbitrary: fs rule: frames_of.induct)
  case (1 x)
  show ?case
  proof (cases "\<exists>d. decode x = Ok (Some d)")
    case True
    then obtain d where d: "decode x = Ok (Some d)" by blast
    from "1.prems" d obtain gs where gs: "frames_of (drop (consumed d) x) = Inr (gs, rest)"
      by (subst (asm) frames_of.simps) (auto split: sum.splits)
    from "1.IH" [OF d refl gs] have *: "drop (length x - consumed d - length rest + consumed d) x = rest" by simp
    then have "length rest \<le> length x - consumed d \<or> rest = []" by (metis diff_le_self drop_eq_Nil2 length_drop add.commute diff_diff_left nat_le_linear)
    then show ?thesis
      using * decode_Some_append(2) [OF d] by (auto simp: add.commute)
  next
    case False
    then have "rest = x"
      using "1.prems" decode_no_panic [of x] by (subst (asm) frames_of.simps;
        auto split: outcome.splits option.splits)+
    then show ?thesis by simp
  qed
qed

lemma ingest_eq:
  "ingest_and_parse K b input = (case frames_of (rx_parse b @ input) of
       Inl e \<Rightarrow> (Inl (EgFrame e), b\<lparr>rx_parse := []\<rparr>)
     | Inr (fs, rest) \<Rightarrow> with_rx rest (handle_frames K b fs))"
proof -
  define x where "x = rx_parse b @ input"
  show ?thesis
    unfolding ingest_and_parse_def Let_def x_def [symmetric]
    by (auto simp: parse_frames_eq handle_frames_rx frames_of_suffix split: sum.splits)
qed

section \<open>Reachable backends\<close>

text \<open>
  The states a backend can be in: built, then any interleaving of its public operations, failed pumps
  included; the one pump that is left out is the one that fails to register a socket with epoll.
\<close>

inductive egress_reach :: "('c, 'a, 'p) EgressConnector \<Rightarrow> ('c, 'p) EgressBackend \<Rightarrow> bool" for K where
  start: "with_connector K ep c = Inr b \<Longrightarrow> egress_reach K b"
| pump: "egress_reach K b \<Longrightarrow> backend_pump K b input = (r, b') \<Longrightarrow> r \<noteq> Inl (EgIo ''registering egress socket'')
    \<Longrightarrow> egress_reach K b'"
| drain: "egress_reach K b \<Longrightarrow> egress_reach K (snd (drain_to_guest b n))"
| unshift: "egress_reach K b \<Longrightarrow> egress_reach K (unshift_to_guest b bs)"
| gated: "egress_reach K b \<Longrightarrow> egress_reach K (backend_note_gated_interval b ns)"

lemma with_connector_start:
  "with_connector K ep c = Inr b \<Longrightarrow> sessions b = [] \<and> resolving b = {} \<and> rx_parse b = []"
  by (auto simp: with_connector_def split: option.splits prod.splits bool.splits)

text \<open>What stays unparsed is less than one frame of the largest length its header can announce.\<close>

lemma decode_None_short:
  assumes "decode x = Ok None" shows "length x < EGRESS_HEADER_LEN + 65535"
proof (cases "6 \<le> length x")
  case False
  then show ?thesis by (simp add: const_defs)
next
  case True
  then obtain v ty s0 s1 l0 l1 r where p: "x = v # ty # s0 # s1 # l0 # l1 # r" by (rule length6E)
  let ?len = "from_le_bytes [l0, l1] :: u16"
  have "length r < unat ?len"
    using assms unfolding p decode_cons Let_def
    by (cases "decode_body ty (from_le_bytes [s0, s1]) ?len (take (unat ?len) r)") (auto split: if_splits)
  moreover have "unat ?len < 2 ^ 16" by (rule order.strict_trans2 [OF unsigned_less]) simp
  ultimately show ?thesis by (simp add: p const_defs)
qed

lemma frames_of_rest: "frames_of x = Inr (fs, rest) \<Longrightarrow> decode rest = Ok None"
proof (induction x arbitrary: fs rule: frames_of.induct)
  case (1 x)
  show ?case
  proof (cases "\<exists>d. decode x = Ok (Some d)")
    case True
    then obtain d where d: "decode x = Ok (Some d)" by blast
    from "1.prems" d obtain gs where "frames_of (drop (consumed d) x) = Inr (gs, rest)"
      by (subst (asm) frames_of.simps) (auto split: sum.splits)
    then show ?thesis by (rule "1.IH" [OF d refl])
  next
    case False
    then show ?thesis using "1.prems" decode_no_panic [of x]
      by (subst (asm) frames_of.simps) (auto split: outcome.splits option.splits)
  qed
qed

lemma pump_rx_short:
  assumes "backend_ok b" and "backend_pump K b input = (r, b')"
  shows "length (rx_parse b') < EGRESS_HEADER_LEN + 65535"
proof (cases "frames_of (rx_parse b @ input)")
  case (Inl f)
  then show ?thesis using pump_spec [OF assms] by (simp add: parse_frames_eq const_defs)
next
  case (Inr x)
  obtain fs rest where x: "x = (fs, rest)" by fastforce
  have "rx_parse b' = rest"
    using pump_spec [OF assms] Inr x frames_of_suffix [of "rx_parse b @ input" fs rest] by (simp add: parse_frames_eq)
  then show ?thesis using frames_of_rest [OF Inr [unfolded x]] decode_None_short by blast
qed

lemma egress_reach_inv: "egress_reach K b \<Longrightarrow> backend_ok b \<and> length (rx_parse b) < EGRESS_HEADER_LEN + 65535"
proof (induction rule: egress_reach.induct)
  case (start ep c b)
  then show ?case using with_connector_start [OF start]
    by (simp add: backend_ok_def bt.ok_empty bt.get_empty const_defs)
next
  case (pump b input r b')
  then show ?case using pump_spec [of b K input r b'] pump_rx_short [of b K input r b'] by (simp add: consistent_after_def)
next
  case (drain b n)
  then show ?case using backend_ok_same [of "snd (drain_to_guest b n)" b] by (simp add: drain_to_guest_def Let_def)
next
  case (unshift b bs)
  then show ?case using backend_ok_same [of "unshift_to_guest b bs" b] by (simp add: unshift_to_guest_def)
next
  case (gated b ns)
  then show ?case
    using backend_ok_same [of "backend_note_gated_interval b ns" b] by (simp add: backend_note_gated_interval_def)
qed

lemma egress_reach_ok: "egress_reach K b \<Longrightarrow> backend_ok b"
  using egress_reach_inv by blast

text \<open>The bytes in the two buffers of every session; the queue \<open>tx_pending\<close> and \<open>rx_parse\<close> are not among them.\<close>

definition session_bytes :: "('c, 'p) EgressBackend \<Rightarrow> nat" where
  "session_bytes b = (\<Sum>(sid, s) \<leftarrow> sessions b. length (to_socket s) + length (to_guest s))"

lemma bt_get_mem: "bt_ok t \<Longrightarrow> (k, v) \<in> set t \<Longrightarrow> bt_get t k = Some v"
  unfolding bt_get_def by (rule map_of_is_SomeI) (auto simp: bt_ok_def strict_sorted_iff)

lemma backend_ok_session_bytes:
  assumes ok: "backend_ok b" shows "session_bytes b \<le> MAX_SESSIONS * (TO_SOCKET_CAP + WINDOW_BYTES)"
proof -
  have "\<forall>x \<in> set (sessions b). (case x of (sid, s) \<Rightarrow> length (to_socket s) + length (to_guest s)) \<le> TO_SOCKET_CAP + WINDOW_BYTES"
  proof
    fix x assume x: "x \<in> set (sessions b)"
    obtain sid s where e: "x = (sid, s)" by fastforce
    have "session_ok (resolving b) sid s"
      using ok bt_get_mem [of "sessions b" sid s] x e by (auto simp: backend_ok_def)
    then show "(case x of (sid, s) \<Rightarrow> length (to_socket s) + length (to_guest s)) \<le> TO_SOCKET_CAP + WINDOW_BYTES"
      by (simp add: e session_ok_def)
  qed
  from sum_list_bound [OF this] have "session_bytes b \<le> length (sessions b) * (TO_SOCKET_CAP + WINDOW_BYTES)"
    by (simp add: session_bytes_def)
  also have "\<dots> \<le> MAX_SESSIONS * (TO_SOCKET_CAP + WINDOW_BYTES)" using ok by (simp add: backend_ok_def)
  finally show ?thesis .
qed

section \<open>Properties\<close>

text \<open>A connector whose socket takes three bytes at a time and sends \<open>hi\<close> and then the end of file.\<close>

definition sample_connector :: "(nat, unit, unit) EgressConnector" where
  "sample_connector =
     \<lparr>start_resolve = (\<lambda>c sid host port. c), take_resolved = (\<lambda>c. ([], c)),
      start_connect = (\<lambda>c sid a. (True, c)), poll_connect = (\<lambda>c sid. (Connected, c)),
      conn_read = (\<lambda>c sid n. case c of 0 \<Rightarrow> (IoOk (Some 0), [], 0) | Suc k \<Rightarrow> (IoOk (Some (min n 2)), take n [104, 105], k)),
      conn_write = (\<lambda>c sid data. (IoOk (Some 3), c)),
      shutdown_write = (\<lambda>c sid. c), conn_close = (\<lambda>c sid. c), stream_fd = (\<lambda>c sid. None),
      resolver_fd = (\<lambda>c. None), os_epoll_ctl = (\<lambda>ep op fd ev. (True, ep))\<rparr>"

definition sample_backend :: "(nat, unit) EgressBackend" where
  "sample_backend = \<lparr>connector = 1, epoll = (), sessions = [], resolving = {}, rx_parse = [],
     tx_pending = [], stats = stats_default\<rparr>"

definition sample_session :: Session where
  "sample_session = new_resolving\<lparr>sess_state := Established, to_socket := [1, 2, 3, 4], to_guest_credit := 10\<rparr>"

lemma sample_backend_built: "with_connector sample_connector (Some ()) 1 = Inr sample_backend"
  by (simp add: with_connector_def sample_connector_def sample_backend_def)

lemma sample_connector_laws: "counts_reads sample_connector" "\<not> refuses sample_connector"
  by (auto simp: counts_reads_def refuses_def sample_connector_def split: nat.splits)

text \<open>
  A guest opens stream 7, sends three bytes on it and the first two bytes of another frame: the stream
  waits for its name with the three bytes queued.
\<close>

definition opening_bytes :: bytes where
  "opening_bytes = wire (Open 7 80 [97]) @ wire (Data 7 [1, 2, 3]) @ [1, 5]"

definition opened_backend :: "(nat, unit) EgressBackend" where
  "opened_backend = sample_backend\<lparr>sessions := [(7, new_resolving\<lparr>to_socket := [1, 2, 3]\<rparr>)], resolving := {7},
     rx_parse := [1, 5], stats := stats_default\<lparr>sessions_total := 1\<rparr>\<rparr>"

lemma opening_frames: "frames_of opening_bytes = Inr ([OOpen 7 80 [97], OData 7 [1, 2, 3]], [1, 5])"
proof -
  have d: "decode [1, 5] = Ok None" by (simp add: decode_def const_defs)
  have w: "decode (wire f @ y) = Ok (Some \<lparr>frame = f, consumed = length (wire f)\<rparr>)" if "encodable f" for f y
    using decode_wire_append [OF that] by simp
  show ?thesis unfolding opening_bytes_def
    by (subst frames_of.simps, subst w, simp add: const_defs,
        simp, subst frames_of.simps, subst w, simp add: const_defs, simp add: frames_of.simps [of "[1, 5]"] d)
qed

lemma sample_opened: "backend_pump sample_connector sample_backend opening_bytes = (Inr (), opened_backend)"
proof -
  have "handle_frames sample_connector sample_backend [OOpen 7 80 [97], OData 7 [1, 2, 3]] = (Inr (), opened_backend\<lparr>rx_parse := []\<rparr>)"
    by (simp add: handle_open_def handle_data_def sample_backend_def opened_backend_def put_session_def sample_connector_def
          const_defs bt_get_def bt_insert.simps new_resolving_def Let_def stats_default_def)
  then have "ingest_and_parse sample_connector sample_backend opening_bytes = (Inr (), opened_backend)"
    by (simp add: ingest_eq sample_backend_def opening_frames with_rx_def opened_backend_def)
  then show ?thesis
    by (simp add: backend_pump_def harvest_resolves_def sample_connector_def service_sessions_def service_one_def
          opened_backend_def bt_keys_def bt_get_def bt_remove_def bt_insert.simps remove_session_def put_session_def
          new_resolving_def sample_backend_def Let_def)
qed

lemma opened_reach: "egress_reach sample_connector opened_backend"
  by (rule egress_reach.pump [OF egress_reach.start [OF sample_backend_built] sample_opened]) simp

text \<open>
  C21. In every state an egress backend can reach, whatever the guest sends and the network
  answers, there are at most 256 sessions in ascending order of stream id, every session keeps
  its two buffers within their caps and its flags consistent (a session that waits for its name
  is counted as resolving, the close is announced only after the end of file and an empty
  buffer), the bytes in the buffers of all sessions are at most 72 MiB, and the guest's bytes
  that wait unparsed are less than one frame of the largest length. The queue of frames for the
  guest has no cap in the code and is not part of the bound.
\<close>

theorem egress_state_bounded:
  assumes "egress_reach K b"
  shows "backend_ok b \<and> open_session_count b \<le> 256 \<and> session_bytes b \<le> 72 * 1024 * 1024
    \<and> length (rx_parse b) < EGRESS_HEADER_LEN + 65535"
  using egress_reach_inv [OF assms] backend_ok_session_bytes [OF egress_reach_ok [OF assms]]
  by (simp add: open_session_count_def backend_ok_def const_defs)

theorem egress_state_bounded_witness:
  "egress_reach sample_connector opened_backend \<and> backend_ok opened_backend
     \<and> open_session_count opened_backend = 1 \<and> session_bytes opened_backend = 3 \<and> length (rx_parse opened_backend) = 2"
  using egress_state_bounded [OF opened_reach] opened_reach
  by (simp add: open_session_count_def session_bytes_def opened_backend_def new_resolving_def)

text \<open>
  C22. From a consistent state, in every case, a pump adds only whole frames of the host-to-guest
  kinds to the bytes waiting for the guest. When the guest's bytes are malformed it fails with the
  codec's error and changes nothing but the unparsed input, which it drops. Otherwise exactly the
  incomplete rest of the input stays, and the pump succeeds or fails because epoll refused a
  request; the state is then consistent again, but for a refused registration, which leaves one
  session waiting for a name that is no longer counted as being looked up.
\<close>

theorem pump_outcome:
  assumes "backend_ok b" and "backend_pump K b input = (r, b')"
  shows "(\<exists>fs. tx_pending b' = tx_pending b @ concat (map wire fs) \<and> (\<forall>f \<in> set fs. fits f \<and> to_guest_frame f))
    \<and> (case parse_frames (rx_parse b @ input) 0 [] of
         Inl f \<Rightarrow> r = Inl (EgFrame f) \<and> b' = b\<lparr>rx_parse := []\<rparr>
       | Inr (fs, n) \<Rightarrow> rx_parse b' = drop n (rx_parse b @ input)
           \<and> (r = Inr () \<and> backend_ok b'
              \<or> refuses K \<and> (r = Inl (EgIo ''updating egress epoll interest'') \<and> backend_ok b'
                              \<or> r = Inl (EgIo ''registering egress socket'') \<and> half_registered b')))"
  using pump_spec [OF assms] by (auto simp: emits_def consistent_after_def io_failure_def split: sum.splits if_splits)

theorem pump_outcome_witness:
  "backend_ok opened_backend
     \<and> backend_pump sample_connector opened_backend [7, 0, 1, 0, 0]
       = (Inl (EgFrame (BadLength 5 1)), opened_backend\<lparr>rx_parse := []\<rparr>)
     \<and> (\<exists>b'. backend_pump sample_connector opened_backend [7] = (Inr (), b') \<and> backend_ok b' \<and> rx_parse b' = [1, 5, 7])"
proof -
  have ok: "backend_ok opened_backend" by (rule egress_reach_ok [OF opened_reach])
  have d: "decode [1, 5, 7, 0, 1, 0, 0] = Err (BadLength 5 1)" "decode [1, 5, 7] = Ok None" by code_simp+
  have f: "parse_frames (rx_parse opened_backend @ [7, 0, 1, 0, 0]) 0 [] = Inl (BadLength 5 1)"
    "parse_frames (rx_parse opened_backend @ [7]) 0 [] = Inr ([], 0)"
    using d by (simp_all add: parse_frames_eq frames_of.simps opened_backend_def)
  obtain r b' where p: "backend_pump sample_connector opened_backend [7, 0, 1, 0, 0] = (r, b')" by fastforce
  obtain r2 b2 where p2: "backend_pump sample_connector opened_backend [7] = (r2, b2)" by fastforce
  show ?thesis
    using pump_outcome [OF ok p] pump_outcome [OF ok p2] ok p p2 f sample_connector_laws(2) by (simp add: opened_backend_def)
qed

text \<open>
  C23. One service of an open stream, told by the calls it makes on the stream's socket: it offers
  the queued bytes until they are gone or the socket would block and, unless the end of file was seen
  before, reads until the end of file, until the socket would block or until the window is full. The bytes the socket took are exactly
  what left the queue. If and only if a call failed, the stream is removed with a single reset
  frame. Otherwise the bytes the socket gave follow the buffered ones and are framed for the guest
  in order, none lost or invented, until nothing is left or the guest's credit is used up, followed
  by one close frame exactly when the socket is at its end of file, everything is framed and no
  close was sent before; the stream is removed, and its socket closed, exactly when it is closed on
  both sides with both buffers empty, and the only failure is that epoll refused a request.
\<close>

theorem open_stream_service:
  assumes "run_open_io K sid (s, b) = (r, s', b')" and "length (to_guest s) \<le> WINDOW_BYTES" and "counts_reads K"
  shows "\<exists>xs c. socket_calls K sid (to_socket s, to_guest s, connector b) xs (to_socket s', to_guest s @ given xs, c)
    \<and> connector b' = (if r = Inr Remove then conn_close K c sid else c)
    \<and> to_socket s = taken xs @ to_socket s'
    \<and> (host_read_closed s \<longrightarrow> given xs = [])
    \<and> (if Broke \<in> set xs then r = Inr Remove \<and> tx_pending b' = tx_pending b @ wire (Rst sid)
       else \<exists>ps close.
         tx_pending b' = tx_pending b @ concat (map (wire \<circ> Data sid) ps) @ (if close then wire (Close sid) else [])
       \<and> to_guest s @ given xs = concat ps @ to_guest s'
       \<and> to_guest_credit s = length (concat ps) + to_guest_credit s'
       \<and> (\<forall>p \<in> set ps. length p \<le> EGRESS_MAX_PAYLOAD)
       \<and> (to_guest s' = [] \<or> to_guest_credit s' = 0)
       \<and> close = (host_read_closed s' \<and> to_guest s' = [] \<and> \<not> host_close_sent s)
       \<and> host_read_closed s' = (host_read_closed s \<or> AtEof \<in> set xs)
       \<and> host_close_sent s' = (host_close_sent s \<or> close)
       \<and> length (to_guest s') \<le> WINDOW_BYTES
       \<and> (to_socket s' = [] \<or> WriteBlocked \<in> set xs)
       \<and> (host_read_closed s' \<or> ReadBlocked \<in> set xs \<or> length (to_guest s @ given xs) = WINDOW_BYTES)
       \<and> (r = Inr Keep \<and> \<not> is_drained s' \<or> r = Inr Remove \<and> is_drained s'
          \<or> r = Inl (EgIo ''updating egress epoll interest'') \<and> refuses K))"
proof -
  from run_open_io_calls [OF assms] obtain xs c where
    xs: "socket_calls K sid (to_socket s, to_guest s, connector b) xs (to_socket s', to_guest s @ given xs, c)"
      "connector b' = (if r = Inr Remove then conn_close K c sid else c)" "to_socket s = taken xs @ to_socket s'"
      "host_read_closed s \<longrightarrow> given xs = []"
    and out: "if Broke \<in> set xs then r = Inr Remove \<and> emits (tx_pending b) [Rst sid] (tx_pending b')
       else \<exists>ps. sent_on sid s b (given xs) (AtEof \<in> set xs) s' b' ps
         \<and> (to_socket s' = [] \<or> WriteBlocked \<in> set xs)
         \<and> (host_read_closed s' \<or> ReadBlocked \<in> set xs \<or> length (to_guest s @ given xs) = WINDOW_BYTES)
         \<and> (r = Inr Keep \<and> \<not> is_drained s' \<or> r = Inr Remove \<and> is_drained s'
            \<or> r = Inl (EgIo ''updating egress epoll interest'') \<and> refuses K)" by blast
  show ?thesis
  proof (cases "Broke \<in> set xs")
    case True
    then show ?thesis using xs out by (intro exI [of _ xs] exI [of _ c]) (simp add: emits_def)
  next
    case False
    with out obtain ps where ps: "sent_on sid s b (given xs) (AtEof \<in> set xs) s' b' ps"
      and rest: "to_socket s' = [] \<or> WriteBlocked \<in> set xs"
        "host_read_closed s' \<or> ReadBlocked \<in> set xs \<or> length (to_guest s @ given xs) = WINDOW_BYTES"
        "r = Inr Keep \<and> \<not> is_drained s' \<or> r = Inr Remove \<and> is_drained s'
          \<or> r = Inl (EgIo ''updating egress epoll interest'') \<and> refuses K" by auto
    define close where "close = (host_read_closed s' \<and> to_guest s' = [] \<and> \<not> host_close_sent s)"
    note p = ps [unfolded sent_on_def, folded close_def]
    have em: "emits (tx_pending b) (map (Data sid) ps @ (if close then [Close sid] else [])) (tx_pending b')" using p by blast
    then have "\<forall>f \<in> Data sid ` set ps. fits f" unfolding emits_def by auto
    then have pl: "\<forall>p \<in> set ps. length p \<le> EGRESS_MAX_PAYLOAD" by simp
    have tx: "tx_pending b' = tx_pending b @ concat (map (wire \<circ> Data sid) ps) @ (if close then wire (Close sid) else [])"
      using em by (cases close) (simp_all add: emits_def)
    have "host_close_sent s' = (host_close_sent s \<or> close)" using p close_def by blast
    then show ?thesis using False xs rest p pl tx close_def
      by (intro exI [of _ xs] exI [of _ c]) (simp only: if_False simp_thms, intro conjI exI [of _ ps] exI [of _ close], blast+)
  qed
qed

lemma sample_run:
  "run_open_io sample_connector 7 (sample_session, sample_backend) =
    (Inr Keep, sample_session\<lparr>to_socket := [], to_guest_credit := 8, host_read_closed := True, host_close_sent := True,
       sess_state := HalfClosed\<rparr>,
     sample_backend\<lparr>connector := 0, tx_pending := wire (Data 7 [104, 105]) @ wire (Close 7),
       stats := stats_default\<lparr>bytes_up := 4, bytes_down := 2\<rparr>\<rparr>)"
  by (simp add: run_open_io_def flush_step_def read_step_def frame_step_def close_step_def sample_session_def sample_backend_def
      sample_connector_def new_resolving_def write_loop.simps read_loop.simps frame_loop.simps const_defs Let_def update_epoll_def
      store_front_def push_frame_fits enqueue_fits is_drained_def stats_default_def upt_conv_Cons numeral_2_eq_2)

theorem open_stream_service_witness:
  "\<exists>xs s' b'. run_open_io sample_connector 7 (sample_session, sample_backend) = (Inr Keep, s', b')
     \<and> tx_pending b' = wire (Data 7 [104, 105]) @ wire (Close 7)
     \<and> taken xs = [1, 2, 3, 4] \<and> length (given xs) = 2 \<and> AtEof \<in> set xs \<and> Broke \<notin> set xs"
proof -
  have "length (to_guest sample_session) \<le> WINDOW_BYTES"
    by (simp add: sample_session_def new_resolving_def)
  from open_stream_service [OF sample_run this sample_connector_laws(1)] show ?thesis
    unfolding sample_run
    by (auto simp: sample_session_def new_resolving_def split: if_splits)
qed

text \<open>
  C24. How the guest's bytes are cut into reads does not matter. Pumping two chunks one after the
  other gives the same result as the concatenation in one piece, and when the bytes are
  well-formed the same state too; a frame cut in the middle waits unparsed for its rest.
\<close>

theorem ingest_chunking:
  assumes "ingest_and_parse K b x = (Inr (), b1)"
  shows "fst (ingest_and_parse K b (x @ y)) = fst (ingest_and_parse K b1 y)
    \<and> (fst (ingest_and_parse K b1 y) = Inr () \<longrightarrow> ingest_and_parse K b (x @ y) = ingest_and_parse K b1 y)"
proof -
  obtain fs rest where f: "frames_of (rx_parse b @ x) = Inr (fs, rest)"
    using assms by (auto simp: ingest_eq split: sum.splits)
  obtain b0 where b0: "handle_frames K b fs = (Inr (), b0)"
    using handle_frames_Inr [of K b fs] by (metis prod.collapse)
  have b1: "b1 = b0\<lparr>rx_parse := rest\<rparr>" using assms f b0 by (simp add: ingest_eq with_rx_def)
  have split: "frames_of (rx_parse b @ x @ y) = (case frames_of (rest @ y) of
      Inl e \<Rightarrow> Inl e | Inr (gs, r) \<Rightarrow> Inr (fs @ gs, r))"
    using frames_of_append [OF f, of y] by simp
  have "handle_frames K b (fs @ gs) = handle_frames K b0 gs" for gs
    using b0 by (simp add: handle_frames_append)
  then have eq: "frames_of (rest @ y) = Inr (gs, r) \<Longrightarrow> ingest_and_parse K b (x @ y) = ingest_and_parse K b1 y" for gs r
    by (simp add: ingest_eq split b1 handle_frames_rx) (simp add: with_rx_def)
  have "fst (ingest_and_parse K b (x @ y)) = fst (ingest_and_parse K b1 y)"
    using eq by (cases "frames_of (rest @ y)") (auto simp: ingest_eq split b1)
  moreover have "fst (ingest_and_parse K b1 y) = Inr () \<longrightarrow> ingest_and_parse K b (x @ y) = ingest_and_parse K b1 y"
    using eq by (cases "frames_of (rest @ y)") (auto simp: ingest_eq b1)
  ultimately show ?thesis by blast
qed

theorem ingest_chunking_witness:
  "\<exists>b1. ingest_and_parse sample_connector sample_backend [1, 5] = (Inr (), b1) \<and> rx_parse b1 = [1, 5]
     \<and> fst (ingest_and_parse sample_connector sample_backend ([1, 5] @ [7, 0, 0, 0]))
       = fst (ingest_and_parse sample_connector b1 [7, 0, 0, 0])"
proof -
  have d: "decode [1, 5] = Ok None" by (simp add: decode_def EGRESS_HEADER_LEN_def EGRESS_VERSION_def)
  have "ingest_and_parse sample_connector sample_backend [1, 5] = (Inr (), sample_backend\<lparr>rx_parse := [1, 5]\<rparr>)"
    by (simp add: ingest_eq frames_of.simps [of "[1, 5]"] sample_backend_def d with_rx_def)
  then show ?thesis using ingest_chunking by fastforce
qed

text \<open>
  C27. A stream id whose name lookup is still in flight cannot be reused: an open with that id is
  reset without starting a lookup, and when the stale answer arrives it is dropped: no session
  appears and no connection is started.
\<close>

theorem stale_answer_not_bound:
  assumes "backend_ok b" and "res_stream a \<in> resolving b"
  shows "\<exists>b1. handle_open K b (res_stream a) port host = (Inr (), b1)
    \<and> tx_pending b1 = tx_pending b @ wire (Rst (res_stream a))
    \<and> bt_get (sessions b1) (res_stream a) = None
    \<and> harvest_one K b1 a = (Inr (), b1\<lparr>resolving := resolving b - {res_stream a}\<rparr>)"
proof -
  let ?sid = "res_stream a"
  obtain b1 where b1: "reset_stream K b ?sid = (Inr (), b1)" "sessions b1 = bt_remove ?sid (sessions b)"
    "resolving b1 = resolving b" "tx_pending b1 = tx_pending b @ wire (Rst ?sid)"
    using reset_stream_spec by blast
  have "bt_get (sessions b1) ?sid = None"
    using assms(1) by (simp add: b1 bt.get_rm backend_ok_def)
  then show ?thesis using assms(2) b1 by (auto simp: handle_open_def harvest_one_def Let_def)
qed

theorem stale_answer_not_bound_witness:
  "\<exists>b1. handle_open sample_connector (sample_backend\<lparr>resolving := {7}\<rparr>) 7 80 [97] = (Inr (), b1)
     \<and> bt_get (sessions b1) 7 = None"
proof -
  have "backend_ok (sample_backend\<lparr>resolving := {7}\<rparr>)"
    by (simp add: sample_backend_def backend_ok_def bt.ok_empty bt.get_empty)
  from stale_answer_not_bound [OF this, of "\<lparr>res_stream = 7, res_addr = None\<rparr>" sample_connector 80 "[97]"]
  show ?thesis by auto
qed

end
