(* ===== verification/Tar.thy ===== *)
theory Tar
  imports Text
begin

text \<open>
  The deterministic USTAR codec of \<open>src/src/artifact/tar.rs\<close>. Writing goes through a hashing
  writer over a sink that may accept fewer bytes than offered or fail; reading goes through a
  file that may return fewer bytes than asked for or fail. The digest is a function of the bytes
  fed to the hasher. Sizes and offsets are natural numbers: a size field has at most twelve octal
  digits, so the sums of the code stay far below \<open>2\<^sup>64\<close>. The theorems are about the
  header as a table of fields and the archive as a concatenation of members.
\<close>

section \<open>Errors\<close>

text \<open>Of a message with arguments the arguments are kept, of an I/O error the operation.\<close>

datatype malformed =
    PastEnd bytes nat
  | TruncatedContent bytes
  | TruncatedHeader
  | BadMagic
  | ChecksumMismatch
  | BadOctal bytes
  | OverLimit bytes nat
  | BadFormatVersion nat
  | NoManifest
  | Missing bytes
  | NoRecord bytes
  | HashMismatch bytes bytes bytes

datatype ArtifactError =
    Io string
  | ManifestError string
  | Malformed malformed
  | NoSuchArtifact bytes

section \<open>Hashing\<close>

definition BLOCK :: nat where [const_defs]: "BLOCK = 512"
definition MAX_MEMBER_SIZE :: nat where [const_defs]: "MAX_MEMBER_SIZE = 8589934591"

definition hex :: "bytes \<Rightarrow> bytes" where
  "hex bs = concat (map (\<lambda>b. [hex_digit (unat b div 16), hex_digit (unat b mod 16)]) bs)"

text \<open>\<open>H\<close> is the digest.\<close>

definition sha256_hex :: "(bytes \<Rightarrow> bytes) \<Rightarrow> bytes \<Rightarrow> bytes" where
  "sha256_hex H bs = hex (H bs)"

text \<open>
  \<open>W out buf\<close> is how many bytes of \<open>buf\<close> a sink that holds \<open>out\<close> accepts, \<open>None\<close> when it fails.
\<close>

type_synonym sink = "bytes \<Rightarrow> bytes \<Rightarrow> nat option"

record HashingWriter =
  hw_inner :: bytes
  hw_hasher :: bytes
  hw_len :: u64

definition hw_new :: HashingWriter where
  "hw_new = \<lparr>hw_inner = [], hw_hasher = [], hw_len = 0\<rparr>"

definition hw_finish :: "(bytes \<Rightarrow> bytes) \<Rightarrow> HashingWriter \<Rightarrow> bytes \<times> u64" where
  "hw_finish H hw = (hex (H (hw_hasher hw)), hw_len hw)"

definition hw_write :: "sink \<Rightarrow> HashingWriter \<Rightarrow> bytes \<Rightarrow> nat option \<times> HashingWriter" where
  "hw_write W hw buf =
     (case W (hw_inner hw) buf of
        None \<Rightarrow> (None, hw)
      | Some n \<Rightarrow>
          (let n = min n (length buf)
           in (Some n, \<lparr>hw_inner = hw_inner hw @ take n buf, hw_hasher = hw_hasher hw @ take n buf,
                        hw_len = hw_len hw + of_nat n\<rparr>)))"

text \<open>\<open>Write::write_all\<close>: a write of nothing is an error.\<close>

function write_all :: "sink \<Rightarrow> string \<Rightarrow> HashingWriter \<Rightarrow> bytes \<Rightarrow> (ArtifactError + unit) \<times> HashingWriter" where
  "write_all W what hw buf =
     (if buf = [] then (Inr (), hw)
      else case hw_write W hw buf of
             (None, hw) \<Rightarrow> (Inl (Io what), hw)
           | (Some n, hw) \<Rightarrow>
               if n = 0 then (Inl (Io what), hw) else write_all W what hw (drop n buf))"
  by pat_completeness auto
termination by (relation "measure (\<lambda>(W, what, hw, buf). length buf)") auto

declare write_all.simps [simp del]

section \<open>Writing\<close>

text \<open>Storing a slice at an offset (\<open>copy_from_slice\<close>).\<close>

definition put_slice :: "bytes \<Rightarrow> nat \<Rightarrow> bytes \<Rightarrow> bytes" where
  "put_slice h off xs = take off h @ xs @ drop (off + length xs) h"

definition write_octal :: "bytes \<Rightarrow> nat \<Rightarrow> nat \<Rightarrow> nat \<Rightarrow> bytes" where
  "write_octal h off val n = put_slice h off (take n (octal n val) @ [0])"

definition byte_sum :: "bytes \<Rightarrow> nat" where
  "byte_sum bs = sum_list (map unat bs)"

text \<open>The fields before the checksum is stored, and the whole header.\<close>

definition ustar_fields :: "bytes \<Rightarrow> nat \<Rightarrow> bytes" where
  "ustar_fields name sz =
     (let h = replicate BLOCK 0;
          h = put_slice h 0 name;
          h = write_octal h 100 420 7;
          h = write_octal h 108 0 7;
          h = write_octal h 116 0 7;
          h = write_octal h 124 sz 11;
          h = write_octal h 136 0 11;
          h = put_slice h 148 (replicate 8 32);
          h = put_slice h 156 [48];
          h = put_slice h 257 (ascii ''ustar'' @ [0])
      in put_slice h 263 (ascii ''00''))"

definition ustar_header :: "bytes \<Rightarrow> nat \<Rightarrow> bytes" where
  "ustar_header name sz =
     (let h = ustar_fields name sz;
          h = write_octal h 148 (byte_sum h) 6
      in put_slice h 155 [32])"

definition write_member ::
  "sink \<Rightarrow> HashingWriter \<Rightarrow> bytes \<Rightarrow> bytes \<Rightarrow> (ArtifactError + unit) \<times> HashingWriter" where
  "write_member W hw name data =
     and_then (write_all W ''writing tar header'' hw (ustar_header name (length data))) (\<lambda>_ hw.
     and_then (write_all W ''writing tar data'' hw data) (\<lambda>_ hw.
       (let rem = length data mod BLOCK
        in if rem \<noteq> 0 then write_all W ''writing tar padding'' hw (replicate (BLOCK - rem) 0)
           else (Inr (), hw))))"

definition write_trailer :: "sink \<Rightarrow> HashingWriter \<Rightarrow> (ArtifactError + unit) \<times> HashingWriter" where
  "write_trailer W hw = write_all W ''writing tar trailer'' hw (replicate (BLOCK * 2) 0)"

section \<open>Reading\<close>

text \<open>
  \<open>os pos want\<close> is how many bytes a read at \<open>pos\<close> gives at most, \<open>None\<close> when it fails. As a
  reader promises, at least one byte comes when there is one.
\<close>

type_synonym os_read = "nat \<Rightarrow> nat \<Rightarrow> nat option"

definition file_read :: "os_read \<Rightarrow> bytes \<Rightarrow> nat \<Rightarrow> nat \<Rightarrow> bytes option" where
  "file_read os f pos want =
     (case os pos want of None \<Rightarrow> None | Some n \<Rightarrow> Some (take (min want (max 1 n)) (drop pos f)))"

function read_full_loop :: "os_read \<Rightarrow> bytes \<Rightarrow> nat \<Rightarrow> nat \<Rightarrow> bytes \<Rightarrow> ArtifactError + bytes" where
  "read_full_loop os f pos want filled =
     (if length filled < want then
        (case file_read os f (pos + length filled) (want - length filled) of
           None \<Rightarrow> Inl (Io ''tar read'')
         | Some d \<Rightarrow> if d = [] then Inr filled else read_full_loop os f pos want (filled @ d))
      else Inr filled)"
  by pat_completeness auto
termination
  by (relation "measure (\<lambda>(os, f, pos, want, filled). want - length filled)")
     (auto simp: file_read_def split: option.splits)

declare read_full_loop.simps [simp del]

definition read_full :: "os_read \<Rightarrow> bytes \<Rightarrow> nat \<Rightarrow> nat \<Rightarrow> ArtifactError + bytes" where
  "read_full os f pos want = read_full_loop os f pos want []"

record Entry =
  ent_name :: bytes
  ent_size :: nat
  data_offset :: nat

definition parse_str :: "bytes \<Rightarrow> bytes" where
  "parse_str field = from_utf8_lossy (takeWhile (\<lambda>b. b \<noteq> 0) field)"

definition parse_octal :: "bytes \<Rightarrow> ArtifactError + nat" where
  "parse_octal field =
     (let s = trim_matches (\<lambda>c. c = 32 \<or> c = 0) (parse_str field)
      in if s = [] then Inr 0
         else case from_str_radix_u64 8 s of
                Some v \<Rightarrow> Inr v
              | None \<Rightarrow> Inl (Malformed (BadOctal s)))"

text \<open>\<open>&h[a..b]\<close>\<close>

definition field :: "bytes \<Rightarrow> nat \<Rightarrow> nat \<Rightarrow> bytes" where
  "field h a b = take (b - a) (drop a h)"

definition read_header :: "os_read \<Rightarrow> bytes \<Rightarrow> nat \<Rightarrow> ArtifactError + Entry option" where
  "read_header os f pos =
     (case read_full os f pos BLOCK of
        Inl e \<Rightarrow> Inl e
      | Inr hdr \<Rightarrow>
          if length hdr = 0 then Inr None
          else if length hdr < BLOCK then Inl (Malformed TruncatedHeader)
          else if \<forall>b \<in> set hdr. b = 0 then Inr None
          else if field hdr 257 262 \<noteq> ascii ''ustar'' then Inl (Malformed BadMagic)
          else case parse_octal (field hdr 148 156) of
                 Inl e \<Rightarrow> Inl e
               | Inr stored \<Rightarrow>
                   if byte_sum (put_slice hdr 148 (replicate 8 32)) \<noteq> stored
                   then Inl (Malformed ChecksumMismatch)
                   else case parse_octal (field hdr 124 136) of
                          Inl e \<Rightarrow> Inl e
                        | Inr sz \<Rightarrow>
                            Inr (Some \<lparr>ent_name = parse_str (field hdr 0 100), ent_size = sz,
                                      data_offset = pos + length hdr\<rparr>))"

record Entries =
  file_len :: nat
  next_header :: "nat option"

definition entries_new :: "bytes \<Rightarrow> Entries" where
  "entries_new f = \<lparr>file_len = length f, next_header = Some 0\<rparr>"

definition entries_next ::
  "os_read \<Rightarrow> bytes \<Rightarrow> Entries \<Rightarrow> (ArtifactError + Entry) option \<times> Entries" where
  "entries_next os f es =
     (case next_header es of
        None \<Rightarrow> (None, es)
      | Some off \<Rightarrow>
          (let es = es\<lparr>next_header := None\<rparr>
           in case read_header os f off of
                Inr None \<Rightarrow> (None, es)
              | Inr (Some e) \<Rightarrow>
                  (let padded = (ent_size e + (BLOCK - 1)) div BLOCK * BLOCK
                   in (Some (Inr e), es\<lparr>next_header := Some (data_offset e + padded)\<rparr>))
              | Inl err \<Rightarrow> (Some (Inl err), es)))"

definition seek_to_content :: "Entries \<Rightarrow> Entry \<Rightarrow> ArtifactError + nat" where
  "seek_to_content es e =
     (if 2 ^ 64 \<le> data_offset e + ent_size e \<or> file_len es < data_offset e + ent_size e
      then Inl (Malformed (PastEnd (ent_name e) (ent_size e)))
      else Inr (data_offset e))"

definition read_exact_or_truncated ::
  "os_read \<Rightarrow> bytes \<Rightarrow> nat \<Rightarrow> nat \<Rightarrow> bytes \<Rightarrow> ArtifactError + bytes" where
  "read_exact_or_truncated os f pos want name =
     (case read_full os f pos want of
        Inl e \<Rightarrow> Inl e
      | Inr d \<Rightarrow> if length d < want then Inl (Malformed (TruncatedContent name)) else Inr d)"

definition entries_read :: "os_read \<Rightarrow> bytes \<Rightarrow> Entries \<Rightarrow> Entry \<Rightarrow> ArtifactError + bytes" where
  "entries_read os f es e =
     (case seek_to_content es e of
        Inl err \<Rightarrow> Inl err
      | Inr pos \<Rightarrow> read_exact_or_truncated os f pos (ent_size e) (ent_name e))"

text \<open>The chunked hash: the bytes fed to the hasher, in pieces of 64 KiB.\<close>

function hash_loop :: "os_read \<Rightarrow> bytes \<Rightarrow> nat \<Rightarrow> nat \<Rightarrow> bytes \<Rightarrow> bytes \<Rightarrow> ArtifactError + bytes" where
  "hash_loop os f pos remaining name fed =
     (if remaining > 0 then
        (let want = min remaining 65536
         in case read_exact_or_truncated os f pos want name of
              Inl e \<Rightarrow> Inl e
            | Inr d \<Rightarrow> hash_loop os f (pos + want) (remaining - want) name (fed @ d))
      else Inr fed)"
  by pat_completeness auto
termination by (relation "measure (\<lambda>(os, f, pos, remaining, name, fed). remaining)") auto

declare hash_loop.simps [simp del]

definition entries_sha256 ::
  "(bytes \<Rightarrow> bytes) \<Rightarrow> os_read \<Rightarrow> bytes \<Rightarrow> Entries \<Rightarrow> Entry \<Rightarrow> ArtifactError + bytes" where
  "entries_sha256 H os f es e =
     (case seek_to_content es e of
        Inl err \<Rightarrow> Inl err
      | Inr pos \<Rightarrow>
          (case hash_loop os f pos (ent_size e) (ent_name e) [] of
             Inl err \<Rightarrow> Inl err
           | Inr fed \<Rightarrow> Inr (hex (H fed))))"

section \<open>Writing delivers every byte and its digest\<close>

definition wrote :: "HashingWriter \<Rightarrow> bytes \<Rightarrow> (ArtifactError + unit) \<times> HashingWriter \<Rightarrow> bool" where
  "wrote hw bs rh \<longleftrightarrow> fst rh = Inr () \<longrightarrow>
     snd rh = \<lparr>hw_inner = hw_inner hw @ bs, hw_hasher = hw_hasher hw @ bs, hw_len = hw_len hw + of_nat (length bs)\<rparr>"

lemma write_all_wrote: "wrote hw buf (write_all W what hw buf)"
proof (induction W what hw buf rule: write_all.induct)
  case (1 W what hw buf)
  show ?case
  proof (cases "buf = [] \<or> W (hw_inner hw) buf = None \<or> W (hw_inner hw) buf = Some 0")
    case True
    then show ?thesis by (subst write_all.simps) (auto simp: wrote_def hw_write_def Let_def)
  next
    case False
    then obtain m where m: "W (hw_inner hw) buf = Some m" "buf \<noteq> []" "m \<noteq> 0" by (auto simp: not_None_eq)
    define n where "n = min m (length buf)"
    define hw1 where "hw1 = \<lparr>hw_inner = hw_inner hw @ take n buf, hw_hasher = hw_hasher hw @ take n buf,
      hw_len = hw_len hw + of_nat n\<rparr>"
    have w: "hw_write W hw buf = (Some n, hw1)" by (simp add: hw_write_def m n_def hw1_def Let_def)
    have n: "n \<noteq> 0" "n \<le> length buf" using m by (auto simp: n_def)
    have "wrote hw1 (drop n buf) (write_all W what hw1 (drop n buf))"
      by (rule "1.IH" [OF m(2) w [symmetric] refl]) (use n in simp)
    then show ?thesis
      using m(2) w n by (subst write_all.simps) (auto simp: wrote_def hw1_def of_nat_diff)
  qed
qed

lemma wrote_and_then:
  assumes "wrote hw a m" and "\<And>hw'. wrote hw' b (k () hw')"
  shows "wrote hw (a @ b) (and_then m k)"
proof (cases m)
  case (Pair r h)
  then show ?thesis using assms(1) assms(2) [of h] by (cases r) (auto simp: wrote_def ac_simps)
qed

definition padding :: "bytes \<Rightarrow> bytes" where
  "padding data = replicate ((BLOCK - length data mod BLOCK) mod BLOCK) 0"

definition member_bytes :: "bytes \<times> bytes \<Rightarrow> bytes" where
  "member_bytes m = ustar_header (fst m) (length (snd m)) @ snd m @ padding (snd m)"

lemma padding_eq: "padding data = (if length data mod BLOCK = 0 then [] else replicate (BLOCK - length data mod BLOCK) 0)"
  by (simp add: padding_def BLOCK_def)

lemma wrote_done: "wrote hw [] (Inr (), hw)"
  by (simp add: wrote_def)

lemma write_member_wrote: "wrote hw (member_bytes (name, data)) (write_member W hw name data)"
  unfolding member_bytes_def write_member_def fst_conv snd_conv
  by (intro wrote_and_then write_all_wrote) (simp add: padding_eq Let_def write_all_wrote wrote_done)

lemma write_trailer_wrote: "wrote hw (replicate 1024 0) (write_trailer W hw)"
  using write_all_wrote [of hw "replicate 1024 0" W "''writing tar trailer''"]
  by (simp add: write_trailer_def BLOCK_def)

section \<open>Fields of a header\<close>

lemma length_put_slice: "off + length xs \<le> length h \<Longrightarrow> length (put_slice h off xs) = length h"
  by (simp add: put_slice_def)

lemma nth_put_slice:
  assumes "off + length xs \<le> length h" and "i < length h"
  shows "put_slice h off xs ! i = (if off \<le> i \<and> i < off + length xs then xs ! (i - off) else h ! i)"
  using assms by (auto simp: put_slice_def nth_append min_def)

lemma length_field: "a \<le> b \<Longrightarrow> b \<le> length h \<Longrightarrow> length (field h a b) = b - a"
  by (simp add: field_def)

lemma nth_field: "b \<le> length h \<Longrightarrow> i < b - a \<Longrightarrow> field h a b ! i = h ! (a + i)"
  by (simp add: field_def)

lemma field_put_slice_other:
  assumes "off + length xs \<le> length h" and "a \<le> b" and "b \<le> length h" and "b \<le> off \<or> off + length xs \<le> a"
  shows "field (put_slice h off xs) a b = field h a b"
proof (rule nth_equalityI)
  show "length (field (put_slice h off xs) a b) = length (field h a b)"
    using assms by (simp add: length_field length_put_slice)
  fix i
  assume "i < length (field (put_slice h off xs) a b)"
  then have "i < b - a" using assms by (simp add: length_field length_put_slice)
  then show "field (put_slice h off xs) a b ! i = field h a b ! i"
    using assms by (auto simp: nth_field length_put_slice nth_put_slice)
qed

lemma field_put_slice_same:
  "off + length xs \<le> length h \<Longrightarrow> b = off + length xs \<Longrightarrow> field (put_slice h off xs) off b = xs"
  by (simp add: field_def put_slice_def)

lemma put_slice_undo:
  assumes "off + length xs \<le> length h" and "field h off (off + length xs) = ys"
  shows "put_slice (put_slice h off xs) off ys = h"
proof (rule nth_equalityI)
  have l: "length ys = length xs" using assms by (auto simp: length_field)
  show len: "length (put_slice (put_slice h off xs) off ys) = length h" using assms(1) l by (simp add: length_put_slice)
  fix i
  assume "i < length (put_slice (put_slice h off xs) off ys)"
  then have i: "i < length h" by (simp add: len)
  show "put_slice (put_slice h off xs) off ys ! i = h ! i"
  proof (cases "off \<le> i \<and> i < off + length xs")
    case True
    then have "ys ! (i - off) = h ! i"
      using nth_field [of "off + length xs" h "i - off" off] assms by auto
    then show ?thesis using True assms(1) i l by (simp add: nth_put_slice length_put_slice)
  next
    case False
    then show ?thesis using assms(1) i l by (auto simp: nth_put_slice length_put_slice)
  qed
qed

lemma length_write_octal:
  "v < 8 ^ n \<Longrightarrow> 0 < n \<Longrightarrow> off + Suc n \<le> length h \<Longrightarrow> length (write_octal h off v n) = length h"
  by (simp add: write_octal_def length_put_slice octal_chars)

text \<open>The number a reader finds in an octal field.\<close>

lemma parse_octal_text:
  assumes "v < 8 ^ n" and "0 < n" and "v < 2 ^ 64"
  shows "parse_octal (octal n v @ 0 # rest) = Inr v"
proof -
  have nz: "\<forall>b \<in> set (octal n v). b \<noteq> 0 \<and> b \<noteq> 32"
  proof
    fix b assume "b \<in> set (octal n v)"
    then have "48 \<le> unat b" using octal_chars(2) [OF assms(1,2)] by blast
    then show "b \<noteq> 0 \<and> b \<noteq> 32" by auto
  qed
  have ne: "octal n v \<noteq> []" using octal_chars(1) [OF assms(1,2)] assms(2) by auto
  have "takeWhile (\<lambda>b. b \<noteq> 0) (octal n v @ 0 # rest) = octal n v" using nz by (simp add: takeWhile_append2)
  then have "parse_str (octal n v @ 0 # rest) = octal n v" using octal_ascii [OF assms(1,2)] by (simp add: parse_str_def)
  moreover have "trim_matches (\<lambda>c. c = 32 \<or> c = 0) (octal n v) = octal n v"
    using nz ne by (intro trim_matches_id) (meson hd_in_set last_in_set)
  ultimately show ?thesis using ne from_str_radix_octal [OF assms] by (simp add: parse_octal_def)
qed

lemma length_octal: "length (octal n v) = max n (octal_len v)"
  by (simp add: octal_def)

lemma length_octal_field [simp]: "length (take n (octal n v) @ [0 :: u8]) = Suc n"
  by (simp add: length_octal)

lemma field_put_slice_front:
  "off + length xs \<le> length h \<Longrightarrow> b \<le> off + length xs \<Longrightarrow> field (put_slice h off xs) off b = take (b - off) xs"
  by (simp add: field_def put_slice_def)

lemmas field_rules = field_put_slice_other field_put_slice_same field_put_slice_front length_put_slice

definition plain_name :: "bytes \<Rightarrow> bool" where
  "plain_name name \<longleftrightarrow> length name \<le> 100 \<and> is_ascii name \<and> 0 \<notin> set name"

lemma ustar_fields_fields:
  fixes sz :: nat
  assumes "length name \<le> 100"
  defines "h \<equiv> ustar_fields name sz"
  shows "length h = 512" and "field h 148 156 = replicate 8 32" and "field h 257 262 = ascii ''ustar''"
    and "field h 124 136 = take 11 (octal 11 sz) @ [0]"
    and "field h 0 100 = name @ replicate (100 - length name) 0"
proof -
  have a: "length (ascii ''ustar'' @ [0]) = 6" "length (ascii ''00'') = 2" by (simp_all add: ascii_def)
  define h1 where "h1 = put_slice (replicate BLOCK 0) 0 name"
  define h2 where "h2 = write_octal (write_octal (write_octal h1 100 420 7) 108 0 7) 116 0 7"
  define h3 where "h3 = write_octal h2 124 sz 11"
  define h4 where "h4 = put_slice (write_octal h3 136 0 11) 148 (replicate 8 32)"
  define h5 where "h5 = put_slice h4 156 [48]"
  define h6 where "h6 = put_slice h5 257 (ascii ''ustar'' @ [0])"
  have h: "h = put_slice h6 263 (ascii ''00'')"
    by (simp add: h_def ustar_fields_def Let_def h6_def h5_def h4_def h3_def h2_def h1_def)
  have l1: "length h1 = 512" using assms(1) by (simp add: h1_def length_put_slice BLOCK_def)
  have l2: "length h2 = 512" using l1 by (simp add: h2_def write_octal_def length_put_slice length_octal)
  have l3: "length h3 = 512" using l2 by (simp add: h3_def write_octal_def length_put_slice length_octal)
  have l4: "length h4 = 512" using l3 by (simp add: h4_def write_octal_def length_put_slice length_octal)
  have l5: "length h5 = 512" using l4 by (simp add: h5_def length_put_slice)
  have l6: "length h6 = 512" using l5 a by (simp add: h6_def length_put_slice)
  note l = l1 l2 l3 l4 l5 l6
  show "length h = 512" using l6 a by (simp add: h length_put_slice)
  have up: "field h a b = field h4 a b" if "a \<le> b" "b \<le> 156" for a b
    using that l a(1,2) by (simp add: h h6_def h5_def field_put_slice_other length_put_slice)
  show "field h 148 156 = replicate 8 32"
    using l3 by (simp add: up h4_def field_put_slice_same write_octal_def length_put_slice length_octal)
  show "field h 257 262 = ascii ''ustar''"
    using l a by (simp add: h h6_def field_put_slice_other field_put_slice_front length_put_slice)
  have up3: "field h a b = field h3 a b" if "a \<le> b" "b \<le> 136" for a b
    using that l3 by (simp add: up h4_def write_octal_def field_put_slice_other length_put_slice length_octal)
  show "field h 124 136 = take 11 (octal 11 sz) @ [0]"
    using l2 by (simp add: up3 h3_def write_octal_def field_put_slice_same length_octal)
  have "field h 0 100 = field h1 0 100"
    using l1 l2 by (simp add: up3 h3_def h2_def write_octal_def field_put_slice_other length_put_slice length_octal)
  also have "\<dots> = name @ replicate (100 - length name) 0"
    using assms(1) by (simp add: h1_def put_slice_def field_def BLOCK_def)
  finally show "field h 0 100 = name @ replicate (100 - length name) 0" .
qed

lemma byte_sum_bound: "byte_sum h \<le> length h * 255"
proof (induction h)
  case (Cons b h)
  have "unat b < 2 ^ 8" by (rule order_less_le_trans [OF unsigned_less]) simp
  then show ?case using Cons by (simp add: byte_sum_def)
qed (simp add: byte_sum_def)

lemma ustar_header_fields:
  fixes sz :: nat
  assumes "length name \<le> 100"
  defines "h \<equiv> ustar_header name sz" and "h0 \<equiv> ustar_fields name sz"
  shows "length h = 512" and "field h 148 156 = octal 6 (byte_sum h0) @ [0, 32]"
    and "put_slice h 148 (replicate 8 32) = h0"
    and "a \<le> b \<Longrightarrow> b \<le> 148 \<Longrightarrow> field h a b = field h0 a b"
    and "field h 257 262 = ascii ''ustar''"
proof -
  note f = ustar_fields_fields [OF assms(1), of sz, folded h0_def]
  have s: "byte_sum h0 < 8 ^ 6" using byte_sum_bound [of h0] f(1) by simp
  have lo: "length (octal 6 (byte_sum h0)) = 6" by (rule octal_chars [OF s]) simp
  define x where "x = octal 6 (byte_sum h0) @ [0, 32]"
  have lx: "length x = 8" by (simp add: x_def lo)
  have h: "h = put_slice h0 148 x"
    using lo f(1) by (simp add: h_def ustar_header_def h0_def [symmetric] Let_def write_octal_def put_slice_def x_def
        min_def numeral_eq_Suc)
  show "length h = 512" using f(1) lx by (simp add: h length_put_slice)
  show "field h 148 156 = octal 6 (byte_sum h0) @ [0, 32]"
    using f(1) lx by (simp add: h field_put_slice_same) (simp add: x_def)
  show "put_slice h 148 (replicate 8 32) = h0"
    unfolding h by (rule put_slice_undo) (use f(1,2) lx in simp_all)
  show "field h a b = field h0 a b" if "a \<le> b" "b \<le> 148"
    using that f(1) lx by (simp add: h field_put_slice_other)
  show "field h 257 262 = ascii ''ustar''" using f(1,3) lx by (simp add: h field_put_slice_other)
qed

section \<open>Reading back\<close>

definition reliable :: "os_read \<Rightarrow> bool" where
  "reliable os \<longleftrightarrow> (\<forall>pos want. os pos want \<noteq> None)"

lemma read_full_loop_spec:
  "length filled \<le> want \<Longrightarrow> read_full_loop os f pos want filled = Inr x \<Longrightarrow>
   x = filled @ take (want - length filled) (drop (pos + length filled) f)"
proof (induction os f pos want filled rule: read_full_loop.induct)
  case (1 os f pos want filled)
  show ?case
  proof (cases "length filled < want")
    case False
    then show ?thesis using "1.prems" by (subst (asm) read_full_loop.simps) simp
  next
    case True
    let ?p = "pos + length filled" and ?w = "want - length filled"
    have "file_read os f ?p ?w \<noteq> None" using True "1.prems"(2) by (subst (asm) read_full_loop.simps) (auto split: option.splits)
    then obtain n where n: "os ?p ?w = Some n" by (auto simp: file_read_def split: option.splits)
    define k where "k = min ?w (max 1 n)"
    have k: "0 < k" "k \<le> ?w" using True by (auto simp: k_def)
    have fr: "file_read os f ?p ?w = Some (take k (drop ?p f))" by (simp add: file_read_def n k_def)
    show ?thesis
    proof (cases "drop ?p f = []")
      case True
      then show ?thesis using fr "1.prems"(2) \<open>length filled < want\<close> by (subst (asm) read_full_loop.simps) simp
    next
      case False
      define d where "d = take k (drop ?p f)"
      have d: "d \<noteq> []" "length d \<le> ?w" using False k by (auto simp: d_def)
      have "read_full_loop os f pos want (filled @ d) = Inr x"
        using True fr [folded d_def] d(1) "1.prems"(2) by (subst (asm) read_full_loop.simps) simp
      then have "x = (filled @ d) @ take (want - length (filled @ d)) (drop (pos + length (filled @ d)) f)"
        using True d(2) by (intro "1.IH" [OF True fr [folded d_def] d(1)]) simp_all
      moreover have "d @ take (?w - length d) (drop (?p + length d) f) = take ?w (drop ?p f)"
      proof -
        have "take ?w (drop ?p f) = take (length d) (drop ?p f) @ take (?w - length d) (drop (length d) (drop ?p f))"
          using d(2) by (metis le_add_diff_inverse take_add)
        moreover have "take (length d) (drop ?p f) = d" by (auto simp: d_def min_def)
        ultimately show ?thesis by (simp add: add.commute)
      qed
      ultimately show ?thesis by (simp add: add.assoc)
    qed
  qed
qed

lemma read_full_loop_returns: "reliable os \<Longrightarrow> \<exists>x. read_full_loop os f pos want filled = Inr x"
proof (induction os f pos want filled rule: read_full_loop.induct)
  case (1 os f pos want filled)
  have "file_read os f (pos + length filled) (want - length filled) \<noteq> None"
    using "1.prems" by (auto simp: reliable_def file_read_def split: option.splits)
  then obtain d where d: "file_read os f (pos + length filled) (want - length filled) = Some d" by blast
  show ?case
  proof (cases "length filled < want \<and> d \<noteq> []")
    case True
    then show ?thesis using d "1.IH" [OF _ d] "1.prems" by (subst read_full_loop.simps) simp
  next
    case False
    then show ?thesis using d by (subst read_full_loop.simps) auto
  qed
qed

lemma read_full_Inr: "read_full os f pos want = Inr x \<Longrightarrow> x = take want (drop pos f)"
  unfolding read_full_def by (drule read_full_loop_spec [rotated]) simp_all

lemma read_full_spec: "reliable os \<Longrightarrow> read_full os f pos want = Inr (take want (drop pos f))"
  using read_full_loop_returns [of os f pos want "[]"] read_full_Inr [of os f pos want]
  by (auto simp: read_full_def)

lemma takeWhile_nonzero: "0 \<notin> set xs \<Longrightarrow> takeWhile (\<lambda>b. b \<noteq> 0) (xs @ replicate n (0 :: u8)) = xs"
  by (induction xs) (auto simp: takeWhile_replicate)

lemma read_header_spec:
  assumes "reliable os" and name: "plain_name name" and sz: "sz \<le> MAX_MEMBER_SIZE"
    and f: "drop pos f = ustar_header name sz @ rest"
  shows "read_header os f pos = Inr (Some \<lparr>ent_name = name, ent_size = sz, data_offset = pos + 512\<rparr>)"
proof -
  define h where "h = ustar_header name sz"
  define h0 where "h0 = ustar_fields name sz"
  have n: "length name \<le> 100" using name by (simp add: plain_name_def)
  note H = ustar_header_fields [OF n, where sz = sz, folded h_def h0_def]
  note F = ustar_fields_fields [OF n, of sz, folded h0_def]
  have rd: "read_full os f pos BLOCK = Inr h"
    using H(1) by (simp add: read_full_spec [OF assms(1)] f h_def [symmetric] BLOCK_def)
  have s: "byte_sum h0 < 8 ^ 6" using byte_sum_bound [of h0] F(1) by simp
  have size8: "sz < 8 ^ 11" using sz by (simp add: MAX_MEMBER_SIZE_def)
  have "\<not> (\<forall>b \<in> set h. b = 0)"
  proof
    assume z: "\<forall>b \<in> set h. b = 0"
    have "field h 257 262 ! 0 = h ! 257" using H(1) by (simp add: nth_field)
    also have "\<dots> = 0" using z H(1) by simp
    finally show False using H(5) by (simp add: ascii_def)
  qed
  moreover have "parse_octal (field h 148 156) = Inr (byte_sum h0)"
    unfolding H(2) using parse_octal_text [OF s, of "[32]"] s by simp
  moreover have "parse_octal (field h 124 136) = Inr sz"
    using parse_octal_text [OF size8, of "[]"] size8 octal_chars(1) [OF size8] by (simp add: H(4) F(4))
  moreover have "parse_str (field h 0 100) = name"
    using name by (simp add: H(4) F(5) parse_str_def plain_name_def takeWhile_nonzero)
  ultimately show ?thesis using H(1,3,5) by (simp add: read_header_def rd) (simp add: BLOCK_def)
qed

text \<open>An entry is found only where a whole header is, and the next one lies behind it.\<close>

lemma read_header_Some:
  assumes "read_header os f pos = Inr (Some e)"
  shows "pos + 512 \<le> length f \<and> data_offset e = pos + 512"
proof -
  obtain h where h: "read_full os f pos BLOCK = Inr h"
    using assms by (cases "read_full os f pos BLOCK") (simp_all add: read_header_def)
  have l: "length h = 512"
    using assms h read_full_Inr [OF h] by (auto simp: read_header_def BLOCK_def split: if_splits)
  have "h = take 512 (drop pos f)" using read_full_Inr [OF h] by (simp add: BLOCK_def)
  then have "pos + 512 \<le> length f" using l by simp
  then show ?thesis
    using assms h l by (auto simp: read_header_def BLOCK_def Let_def split: if_splits sum.splits)
qed

lemma entries_next_advance:
  assumes "entries_next os f es = (Some (Inr e), es')"
  obtains off off' where "next_header es = Some off" and "next_header es' = Some off'"
    and "off + 512 \<le> length f" and "off + 512 \<le> off'" and "file_len es' = file_len es"
proof -
  from assms obtain off where off: "next_header es = Some off" "read_header os f off = Inr (Some e)"
    "es' = es\<lparr>next_header := Some (data_offset e + (ent_size e + (BLOCK - 1)) div BLOCK * BLOCK)\<rparr>"
    by (auto simp: entries_next_def Let_def split: option.splits sum.splits)
  show thesis
    by (rule that [OF off(1), of "data_offset e + (ent_size e + (BLOCK - 1)) div BLOCK * BLOCK"])
       (use read_header_Some [OF off(2)] off(3) in simp_all)
qed

section \<open>Walking an archive\<close>

text \<open>The loop \<open>while let Some(e) = entries.next().transpose()?\<close> of the readers.\<close>

function fold_entries ::
  "os_read \<Rightarrow> bytes \<Rightarrow> (Entries \<Rightarrow> Entry \<Rightarrow> 's \<Rightarrow> ArtifactError + 's) \<Rightarrow> Entries \<Rightarrow> 's \<Rightarrow> ArtifactError + 's" where
  "fold_entries os f body es st =
     (case entries_next os f es of
        (None, es) \<Rightarrow> Inr st
      | (Some (Inl err), es) \<Rightarrow> Inl err
      | (Some (Inr e), es) \<Rightarrow>
          (case body es e st of Inl err \<Rightarrow> Inl err | Inr st \<Rightarrow> fold_entries os f body es st))"
  by pat_completeness auto
termination
proof (relation "measure (\<lambda>(os, f, body, es, st). case next_header es of None \<Rightarrow> 0 | Some off \<Rightarrow> Suc (length f - off))",
    simp, goal_cases)
  case (1 os f body es st x es' y e st')
  then obtain off off' where "next_header es = Some off" "next_header es' = Some off'"
    "off + 512 \<le> length f" "off + 512 \<le> off'"
    by (metis entries_next_advance)
  then show ?case by simp
qed

declare fold_entries.simps [simp del]

fun fold_members :: "(bytes \<Rightarrow> bytes \<Rightarrow> 's \<Rightarrow> ArtifactError + 's) \<Rightarrow> (bytes \<times> bytes) list \<Rightarrow> 's \<Rightarrow> ArtifactError + 's" where
  "fold_members g [] st = Inr st"
| "fold_members g ((name, data) # ms) st =
     (case g name data st of Inl err \<Rightarrow> Inl err | Inr st \<Rightarrow> fold_members g ms st)"

definition holds_member :: "bytes \<Rightarrow> Entry \<Rightarrow> bytes \<Rightarrow> bytes \<Rightarrow> bool" where
  "holds_member f e name data \<longleftrightarrow> ent_name e = name \<and> ent_size e = length data
     \<and> data_offset e + length data \<le> length f \<and> take (length data) (drop (data_offset e) f) = data"

lemma entries_read_member:
  assumes "reliable os" and "holds_member f e name data" and "file_len es = length f" and "length f < 2 ^ 64"
  shows "entries_read os f es e = Inr data"
  using assms
  by (simp add: entries_read_def seek_to_content_def read_exact_or_truncated_def read_full_spec holds_member_def)

lemma hash_loop_spec:
  assumes "reliable os"
  shows "pos + remaining \<le> length f \<Longrightarrow>
    hash_loop os f pos remaining name fed = Inr (fed @ take remaining (drop pos f))"
  using assms
proof (induction os f pos remaining name fed rule: hash_loop.induct)
  case (1 os f pos remaining name fed)
  show ?case
  proof (cases "remaining = 0")
    case True
    then show ?thesis by (subst hash_loop.simps) simp
  next
    case False
    define want where "want = min remaining 65536"
    define d where "d = take want (drop pos f)"
    have w: "want \<le> remaining" "0 < want" using False by (auto simp: want_def)
    have rd: "read_exact_or_truncated os f pos want name = Inr d"
      using 1 w by (simp add: read_exact_or_truncated_def read_full_spec d_def)
    have "hash_loop os f (pos + want) (remaining - want) name (fed @ d) =
        Inr ((fed @ d) @ take (remaining - want) (drop (pos + want) f))"
      using 1(2,3) w by (intro "1.IH" [OF _ want_def rd]) (use False in simp_all)
    moreover have "take remaining (drop pos f) = d @ take (remaining - want) (drop (pos + want) f)"
      unfolding d_def using w(1) by (metis add.commute drop_drop le_add_diff_inverse take_add)
    ultimately show ?thesis
      using False rd by (subst hash_loop.simps) (simp add: want_def [symmetric] Let_def)
  qed
qed

lemma entries_sha256_member:
  assumes "reliable os" and "holds_member f e name data" and "file_len es = length f" and "length f < 2 ^ 64"
  shows "entries_sha256 H os f es e = Inr (sha256_hex H data)"
  using assms hash_loop_spec [OF assms(1), of "data_offset e" "ent_size e" f "ent_name e" "[]"]
  by (simp add: entries_sha256_def seek_to_content_def holds_member_def sha256_hex_def)

definition archive :: "(bytes \<times> bytes) list \<Rightarrow> bytes" where
  "archive ms = concat (map member_bytes ms) @ replicate 1024 0"

definition storable :: "bytes \<times> bytes \<Rightarrow> bool" where
  "storable m \<longleftrightarrow> plain_name (fst m) \<and> length (snd m) \<le> MAX_MEMBER_SIZE"

lemma padded_length: "length data + length (padding data) = (length data + (BLOCK - 1)) div BLOCK * BLOCK"
proof -
  obtain q r where n: "length data = q * 512 + r" "r < 512" by (metis div_mult_mod_eq mod_less_divisor zero_less_numeral)
  show ?thesis
  proof (cases "r = 0")
    case True
    then show ?thesis using n by (simp add: padding_eq BLOCK_def)
  next
    case False
    have "(length data + 511) div 512 = Suc q" using n False by (simp add: div_nat_eqI)
    then show ?thesis using n False by (simp add: padding_eq BLOCK_def)
  qed
qed

lemma read_header_trailer:
  assumes "reliable os" and "drop pos f = replicate 1024 0"
  shows "read_header os f pos = Inr None"
  using assms by (simp add: read_header_def read_full_spec BLOCK_def)

lemma fold_entries_archive:
  assumes os: "reliable os"
    and body: "\<And>es e name data st. file_len es = length f \<Longrightarrow> holds_member f e name data \<Longrightarrow>
      body es e st = g name data st"
  shows "f = pre @ archive ms \<Longrightarrow> next_header es = Some (length pre) \<Longrightarrow> file_len es = length f \<Longrightarrow>
    \<forall>m \<in> set ms. storable m \<Longrightarrow> fold_entries os f body es st = fold_members g ms st"
proof (induction ms arbitrary: pre es st)
  case Nil
  have "read_header os f (length pre) = Inr None"
    by (rule read_header_trailer [OF os]) (simp add: Nil archive_def)
  then show ?case using Nil by (subst fold_entries.simps) (simp add: entries_next_def)
next
  case (Cons m ms)
  obtain name data where m: "m = (name, data)" by fastforce
  have st: "plain_name name" "length data \<le> MAX_MEMBER_SIZE" using Cons.prems(4) by (auto simp: m storable_def)
  let ?h = "ustar_header name (length data)"
  have lh: "length ?h = 512" using st(1) by (intro ustar_header_fields) (simp add: plain_name_def)
  have dr: "drop (length pre) f = ?h @ data @ padding data @ archive ms"
    using Cons.prems(1) by (simp add: m archive_def member_bytes_def)
  define e where "e = \<lparr>ent_name = name, ent_size = length data, data_offset = length pre + 512\<rparr>"
  have rh: "read_header os f (length pre) = Inr (Some e)"
    unfolding e_def by (rule read_header_spec [OF os st dr])
  define es' where "es' = es\<lparr>next_header := Some (length pre + 512 + length data + length (padding data))\<rparr>"
  have nx: "entries_next os f es = (Some (Inr e), es')"
    using Cons.prems(2) rh padded_length [of data] by (simp add: entries_next_def es'_def e_def Let_def)
  have "drop 512 (drop (length pre) f) = data @ padding data @ archive ms" using lh by (simp add: dr)
  then have dd: "drop (length pre + 512) f = data @ padding data @ archive ms" by (simp add: add.commute)
  have "length f = length pre + 512 + length (data @ padding data @ archive ms)"
    using Cons.prems(1) lh by (simp add: m archive_def member_bytes_def)
  then have hm: "holds_member f e name data" using dd by (simp add: holds_member_def e_def)
  have bd: "body es' e st = g name data st" by (rule body [OF _ hm]) (simp add: es'_def Cons.prems(3))
  have "fold_entries os f body es' s = fold_members g ms s" for s
  proof (rule Cons.IH)
    show "f = (pre @ member_bytes m) @ archive ms" using Cons.prems(1) by (simp add: archive_def)
    show "next_header es' = Some (length (pre @ member_bytes m))" using lh by (simp add: es'_def m member_bytes_def)
    show "file_len es' = length f" by (simp add: es'_def Cons.prems(3))
  qed (use Cons.prems(4) in simp)
  then show ?case using nx bd by (subst fold_entries.simps) (simp add: m split: sum.split)
qed

section \<open>Corrupted headers\<close>

lemma byte_sum_update:
  assumes "i < length h" and "h ! i \<noteq> v"
  shows "byte_sum (h[i := v]) \<noteq> byte_sum h"
proof -
  have "h = take i h @ h ! i # drop (Suc i) h" using assms(1) by (rule id_take_nth_drop)
  then have "byte_sum h = byte_sum (take i h) + unat (h ! i) + byte_sum (drop (Suc i) h)"
    by (metis (no_types, lifting) byte_sum_def map_append list.map(2) sum_list.append sum_list.Cons add.assoc)
  moreover have "byte_sum (h[i := v]) = byte_sum (take i h) + unat v + byte_sum (drop (Suc i) h)"
    using assms(1) by (simp add: upd_conv_take_nth_drop byte_sum_def)
  ultimately show ?thesis using assms(2) by (metis add_left_cancel add_right_cancel unsigned_word_eqI)
qed

lemma field_update_other:
  "i < a \<or> b \<le> i \<Longrightarrow> b \<le> length h \<Longrightarrow> field (h[i := v]) a b = field h a b"
  by (rule nth_equalityI) (auto simp: field_def)

lemma put_slice_update:
  assumes "i < off \<or> off + length xs \<le> i" and "off + length xs \<le> length h"
  shows "put_slice (h[i := v]) off xs = (put_slice h off xs)[i := v]"
proof (rule nth_equalityI)
  show "length (put_slice (h[i := v]) off xs) = length ((put_slice h off xs)[i := v])"
    using assms by (simp add: length_put_slice)
  fix j
  assume "j < length (put_slice (h[i := v]) off xs)"
  then show "put_slice (h[i := v]) off xs ! j = (put_slice h off xs)[i := v] ! j"
    using assms by (cases "j = i") (auto simp: nth_put_slice length_put_slice)
qed

text \<open>
  A header in which any single byte outside the checksum field has been changed is refused
  as malformed: either its magic or its checksum does not match.
\<close>

theorem header_corruption_detected:
  assumes "reliable os" and "length name \<le> 100" and "i < 148 \<or> 156 \<le> i" and "i < 512"
    and "v \<noteq> ustar_header name sz ! i"
  shows "read_header os ((ustar_header name sz)[i := v] @ rest) 0
    \<in> {Inl (Malformed BadMagic), Inl (Malformed ChecksumMismatch)}"
proof -
  define h where "h = ustar_header name sz"
  define h0 where "h0 = ustar_fields name sz"
  note H = ustar_header_fields [OF assms(2), where sz = sz, folded h_def h0_def]
  have l0: "length h0 = 512" using ustar_fields_fields [OF assms(2), of sz] by (simp add: h0_def)
  let ?f = "h[i := v]"
  have rd: "read_full os (?f @ rest) 0 BLOCK = Inr ?f"
    using H(1) by (simp add: read_full_spec [OF assms(1)] BLOCK_def)
  have probe: "put_slice ?f 148 (replicate 8 32) = h0[i := v]"
    using put_slice_update [of i 148 "replicate 8 32" h v] H(1,3) assms(3) by simp
  have "h ! i = h0 ! i"
    using nth_put_slice [of 148 "replicate 8 32" h i] H(1,3) assms(3,4) by auto
  then have sum: "byte_sum (h0[i := v]) \<noteq> byte_sum h0"
    using assms(4,5) l0 by (intro byte_sum_update) (simp_all add: h_def)
  have s6: "byte_sum h0 < 8 ^ 6" using byte_sum_bound [of h0] l0 by simp
  have ck: "parse_octal (field ?f 148 156) = Inr (byte_sum h0)"
    using parse_octal_text [OF s6, of "[32]"] s6 assms(3) H(1,2) by (simp add: field_update_other)
  have nz: "\<not> (\<forall>b \<in> set ?f. b = 0)"
  proof
    assume z: "\<forall>b \<in> set ?f. b = 0"
    have z': "?f ! j = 0" if "j < 512" for j using z that H(1) by simp
    have u: "h ! 257 \<noteq> 0" "h ! 258 \<noteq> 0"
      using H(5) nth_field [of 262 h 0 257] nth_field [of 262 h 1 257] H(1) by (auto simp: ascii_def)
    show False using z' [of 257] z' [of 258] u H(1) by (cases "i = 257") simp_all
  qed
  show ?thesis
    unfolding h_def [symmetric]
    using rd probe sum ck nz H(1) by (auto simp: read_header_def) (auto simp: BLOCK_def)
qed

theorem header_corruption_detected_witness:
  "read_header (\<lambda>pos want. Some 7) ((ustar_header (ascii ''kernel'') 5)[0 := 0] @ ascii ''hello'') 0
    \<in> {Inl (Malformed BadMagic), Inl (Malformed ChecksumMismatch)}"
proof (rule header_corruption_detected)
  define h0 where "h0 = ustar_fields (ascii ''kernel'') 5"
  have n: "length (ascii ''kernel'') \<le> 100" by (simp add: ascii_def)
  have "field (ustar_header (ascii ''kernel'') 5) 0 100 ! 0 = 107"
    using ustar_header_fields(4) [OF n, of 0 100 5] ustar_fields_fields(5) [OF n, of 5] by (simp add: ascii_def)
  then show "(0 :: u8) \<noteq> ustar_header (ascii ''kernel'') 5 ! 0"
    using nth_field [of 100 "ustar_header (ascii ''kernel'') 5" 0 0] ustar_header_fields(1) [OF n, of 5] by simp
qed (simp_all add: reliable_def ascii_def)

end
