(* ===== verification/Artifact.thy ===== *)
theory Artifact
  imports Tar
begin

text \<open>
  The \<open>.tdvmm\<close> artifact of \<open>src/src/artifact\<close>: the manifest, the type-state builder that seals
  the payloads with their hashes, the readers of \<open>run\<close>, \<open>inspect\<close> and \<open>verify\<close>, and the
  store that maps names to files. The JSON library is a pair of functions \<open>J\<close>, the digest a
  function \<open>H\<close>. The main theorem is that a sealed artifact, written through any sink and read
  back through any reader, gives the payloads that were sealed and passes verification.
\<close>

section \<open>Manifest\<close>

record Member =
  m_name :: bytes
  m_size :: nat
  m_sha256 :: bytes

record ComposeEngine =
  ce_version :: bytes
  ce_sha256 :: bytes

record ImagePin =
  upstream :: bytes
  pinned :: bytes
  policy :: bytes
  content_id :: bytes
  size_mib :: u64

record Toolchain =
  builders :: "bytes list"
  alpine :: bytes
  compose :: bytes

record Anchors =
  cpuid_sha256 :: bytes
  cpuid_profile :: bytes
  compose_engine :: ComposeEngine
  images :: "ImagePin list"
  toolchain :: Toolchain
  ram_estimate_mib :: u64
  agent_sha256 :: bytes
  agent_build_hash :: bytes

record RunDefaults =
  mem_mib :: u64
  cmdline :: bytes
  fast_forward :: bool
  max_virtual_time :: "bytes option"

record Manifest =
  format_version :: nat
  stack :: bytes
  project :: bytes
  members :: "Member list"
  anchors :: Anchors
  run_defaults :: RunDefaults

record json =
  to_vec_pretty :: "Manifest \<Rightarrow> bytes option"
  from_slice :: "bytes \<Rightarrow> Manifest option"

definition MEMBER_MANIFEST :: bytes where [const_defs]: "MEMBER_MANIFEST = ascii ''manifest.json''"
definition MEMBER_COMPOSE_LOCK :: bytes where [const_defs]: "MEMBER_COMPOSE_LOCK = ascii ''compose.lock.yml''"
definition MEMBER_KERNEL :: bytes where [const_defs]: "MEMBER_KERNEL = ascii ''kernel''"
definition MEMBER_INITRAMFS :: bytes where [const_defs]: "MEMBER_INITRAMFS = ascii ''initramfs''"
definition FORMAT_VERSION :: nat where [const_defs]: "FORMAT_VERSION = 1"

definition manifest_from_bytes :: "json \<Rightarrow> bytes \<Rightarrow> ArtifactError + Manifest" where
  "manifest_from_bytes J bs =
     (case from_slice J bs of
        None \<Rightarrow> Inl (ManifestError ''parsing manifest.json'')
      | Some m \<Rightarrow> if format_version m \<noteq> FORMAT_VERSION
                  then Inl (Malformed (BadFormatVersion (format_version m))) else Inr m)"

definition to_canonical_json :: "json \<Rightarrow> Manifest \<Rightarrow> ArtifactError + bytes" where
  "to_canonical_json J m =
     (case to_vec_pretty J m of
        None \<Rightarrow> Inl (ManifestError ''serializing manifest.json'')
      | Some v \<Rightarrow> Inr (v @ [10]))"

definition manifest_member :: "Manifest \<Rightarrow> bytes \<Rightarrow> Member option" where
  "manifest_member m name = find (\<lambda>r. m_name r = name) (members m)"

section \<open>Builder\<close>

record ArtifactBuilder =
  ab_stack :: bytes
  ab_project :: bytes
  ab_anchors :: Anchors
  ab_run_defaults :: RunDefaults

record NeedsKernel = ArtifactBuilder +
  nk_compose_lock :: bytes

record NeedsInitramfs = NeedsKernel +
  ni_kernel :: bytes

record SealedArtifact =
  manifest_json :: bytes
  sa_compose_lock :: bytes
  sa_kernel :: bytes
  sa_initramfs :: bytes

record Written =
  w_sha256_hex :: bytes
  w_len :: u64

definition builder_new :: "bytes \<Rightarrow> bytes \<Rightarrow> Anchors \<Rightarrow> RunDefaults \<Rightarrow> ArtifactBuilder" where
  "builder_new s p a r = \<lparr>ab_stack = s, ab_project = p, ab_anchors = a, ab_run_defaults = r\<rparr>"

definition builder_compose_lock :: "ArtifactBuilder \<Rightarrow> bytes \<Rightarrow> NeedsKernel" where
  "builder_compose_lock b bs =
     \<lparr>ab_stack = ab_stack b, ab_project = ab_project b, ab_anchors = ab_anchors b,
      ab_run_defaults = ab_run_defaults b, nk_compose_lock = bs\<rparr>"

definition builder_kernel :: "NeedsKernel \<Rightarrow> bytes \<Rightarrow> NeedsInitramfs" where
  "builder_kernel b bs =
     \<lparr>ab_stack = ab_stack b, ab_project = ab_project b, ab_anchors = ab_anchors b,
      ab_run_defaults = ab_run_defaults b, nk_compose_lock = nk_compose_lock b, ni_kernel = bs\<rparr>"

definition cap_member :: "bytes \<Rightarrow> nat \<Rightarrow> ArtifactError + nat" where
  "cap_member name len = (if MAX_MEMBER_SIZE < len then Inl (Malformed (OverLimit name len)) else Inr len)"

fun seal_records :: "(bytes \<Rightarrow> bytes) \<Rightarrow> (bytes \<times> bytes) list \<Rightarrow> ArtifactError + Member list" where
  "seal_records H [] = Inr []"
| "seal_records H ((name, data) # ms) =
     (case cap_member name (length data) of
        Inl e \<Rightarrow> Inl e
      | Inr n \<Rightarrow>
          (case seal_records H ms of
             Inl e \<Rightarrow> Inl e
           | Inr rs \<Rightarrow> Inr (\<lparr>m_name = name, m_size = n, m_sha256 = sha256_hex H data\<rparr> # rs)))"

definition builder_initramfs ::
  "(bytes \<Rightarrow> bytes) \<Rightarrow> json \<Rightarrow> NeedsInitramfs \<Rightarrow> bytes \<Rightarrow> ArtifactError + SealedArtifact" where
  "builder_initramfs H J b bs =
     (let ms = [(MEMBER_COMPOSE_LOCK, nk_compose_lock b), (MEMBER_KERNEL, ni_kernel b), (MEMBER_INITRAMFS, bs)]
      in case seal_records H ms of
           Inl e \<Rightarrow> Inl e
         | Inr records \<Rightarrow>
             (case to_canonical_json J
                     \<lparr>format_version = FORMAT_VERSION, stack = ab_stack b, project = ab_project b,
                      members = records, anchors = ab_anchors b, run_defaults = ab_run_defaults b\<rparr> of
                Inl e \<Rightarrow> Inl e
              | Inr js \<Rightarrow>
                  (case cap_member MEMBER_MANIFEST (length js) of
                     Inl e \<Rightarrow> Inl e
                   | Inr _ \<Rightarrow> Inr \<lparr>manifest_json = js, sa_compose_lock = nk_compose_lock b,
                                   sa_kernel = ni_kernel b, sa_initramfs = bs\<rparr>)))"

definition write_to ::
  "(bytes \<Rightarrow> bytes) \<Rightarrow> sink \<Rightarrow> bool \<Rightarrow> SealedArtifact \<Rightarrow> (ArtifactError + Written) \<times> HashingWriter" where
  "write_to H W flush_ok a =
     and_then (write_member W hw_new MEMBER_MANIFEST (manifest_json a)) (\<lambda>_ hw.
     and_then (write_member W hw MEMBER_COMPOSE_LOCK (sa_compose_lock a)) (\<lambda>_ hw.
     and_then (write_member W hw MEMBER_KERNEL (sa_kernel a)) (\<lambda>_ hw.
     and_then (write_member W hw MEMBER_INITRAMFS (sa_initramfs a)) (\<lambda>_ hw.
     and_then (write_trailer W hw) (\<lambda>_ hw.
       if flush_ok
       then (let (sha, len) = hw_finish H hw in (Inr \<lparr>w_sha256_hex = sha, w_len = len\<rparr>, hw))
       else (Inl (Io ''flushing artifact''), hw))))))"

section \<open>Readers\<close>

text \<open>\<open>fs\<close> is the content of a file that can be opened.\<close>

type_synonym file_system = "bytes \<Rightarrow> bytes option"

definition open_file :: "file_system \<Rightarrow> bytes \<Rightarrow> ArtifactError + bytes" where
  "open_file fs path = (case fs path of None \<Rightarrow> Inl (Io ''opening'') | Some f \<Rightarrow> Inr f)"

text \<open>The early return of \<open>read_manifest\<close> is the first hit; later members are not looked at.\<close>

function read_manifest_loop :: "json \<Rightarrow> os_read \<Rightarrow> bytes \<Rightarrow> Entries \<Rightarrow> ArtifactError + Manifest" where
  "read_manifest_loop J os f es =
     (case entries_next os f es of
        (None, es) \<Rightarrow> Inl (Malformed NoManifest)
      | (Some (Inl err), es) \<Rightarrow> Inl err
      | (Some (Inr e), es) \<Rightarrow>
          (if ent_name e = MEMBER_MANIFEST then
             (case entries_read os f es e of Inl err \<Rightarrow> Inl err | Inr d \<Rightarrow> manifest_from_bytes J d)
           else read_manifest_loop J os f es))"
  by pat_completeness auto
termination
proof (relation "measure (\<lambda>(J, os, f, es). case next_header es of None \<Rightarrow> 0 | Some off \<Rightarrow> Suc (length f - off))",
    simp, goal_cases)
  case (1 J os f es x es' y e)
  then obtain off off' where "next_header es = Some off" "next_header es' = Some off'"
    "off + 512 \<le> length f" "off + 512 \<le> off'"
    by (metis entries_next_advance)
  then show ?case by simp
qed

declare read_manifest_loop.simps [simp del]

definition read_manifest :: "json \<Rightarrow> os_read \<Rightarrow> file_system \<Rightarrow> bytes \<Rightarrow> ArtifactError + Manifest" where
  "read_manifest J os fs path =
     (case open_file fs path of
        Inl e \<Rightarrow> Inl e
      | Inr f \<Rightarrow> read_manifest_loop J os f (entries_new f))"

record RunPayload =
  rp_manifest :: Manifest
  rp_kernel :: bytes
  rp_initramfs :: bytes
  rp_compose_lock :: bytes

fun verify_list :: "(bytes \<Rightarrow> bytes) \<Rightarrow> Manifest \<Rightarrow> (bytes \<times> bytes) list \<Rightarrow> ArtifactError + unit" where
  "verify_list H m [] = Inr ()"
| "verify_list H m ((name, data) # ms) =
     (case manifest_member m name of
        None \<Rightarrow> Inl (Malformed (NoRecord name))
      | Some want \<Rightarrow>
          (let got = sha256_hex H data
           in if got \<noteq> m_sha256 want then Inl (Malformed (HashMismatch name (m_sha256 want) got))
              else verify_list H m ms))"

definition verify_members :: "(bytes \<Rightarrow> bytes) \<Rightarrow> RunPayload \<Rightarrow> ArtifactError + unit" where
  "verify_members H p =
     verify_list H (rp_manifest p)
       [(MEMBER_KERNEL, rp_kernel p), (MEMBER_INITRAMFS, rp_initramfs p),
        (MEMBER_COMPOSE_LOCK, rp_compose_lock p)]"

text \<open>The four local variables of \<open>read_for_run\<close>.\<close>

record run_parts =
  p_manifest :: "Manifest option"
  p_kernel :: "bytes option"
  p_initramfs :: "bytes option"
  p_compose_lock :: "bytes option"

definition run_member :: "json \<Rightarrow> bytes \<Rightarrow> (unit \<Rightarrow> ArtifactError + bytes) \<Rightarrow> run_parts \<Rightarrow> ArtifactError + run_parts" where
  "run_member J name rd p =
     (if name = MEMBER_MANIFEST then
        (case rd () of
           Inl e \<Rightarrow> Inl e
         | Inr d \<Rightarrow> (case manifest_from_bytes J d of
                       Inl e \<Rightarrow> Inl e | Inr m \<Rightarrow> Inr (p\<lparr>p_manifest := Some m\<rparr>)))
      else if name = MEMBER_KERNEL then
        (case rd () of Inl e \<Rightarrow> Inl e | Inr d \<Rightarrow> Inr (p\<lparr>p_kernel := Some d\<rparr>))
      else if name = MEMBER_INITRAMFS then
        (case rd () of Inl e \<Rightarrow> Inl e | Inr d \<Rightarrow> Inr (p\<lparr>p_initramfs := Some d\<rparr>))
      else if name = MEMBER_COMPOSE_LOCK then
        (case rd () of Inl e \<Rightarrow> Inl e | Inr d \<Rightarrow> Inr (p\<lparr>p_compose_lock := Some d\<rparr>))
      else Inr p)"

definition required :: "bytes \<Rightarrow> 'a option \<Rightarrow> ArtifactError + 'a" where
  "required name v = (case v of None \<Rightarrow> Inl (Malformed (Missing name)) | Some x \<Rightarrow> Inr x)"

definition read_for_run :: "json \<Rightarrow> os_read \<Rightarrow> file_system \<Rightarrow> bytes \<Rightarrow> ArtifactError + RunPayload" where
  "read_for_run J os fs path =
     bind_result (open_file fs path) (\<lambda>f.
     bind_result (fold_entries os f (\<lambda>es e. run_member J (ent_name e) (\<lambda>_. entries_read os f es e))
                    (entries_new f)
                    \<lparr>p_manifest = None, p_kernel = None, p_initramfs = None, p_compose_lock = None\<rparr>) (\<lambda>p.
     bind_result (required MEMBER_MANIFEST (p_manifest p)) (\<lambda>m.
     bind_result (required MEMBER_KERNEL (p_kernel p)) (\<lambda>k.
     bind_result (required MEMBER_INITRAMFS (p_initramfs p)) (\<lambda>i.
     bind_result (required MEMBER_COMPOSE_LOCK (p_compose_lock p)) (\<lambda>c.
       Inr \<lparr>rp_manifest = m, rp_kernel = k, rp_initramfs = i, rp_compose_lock = c\<rparr>))))))"

record MemberCheck =
  mc_name :: bytes
  mc_expected :: bytes
  mc_actual :: bytes
  mc_ok :: bool

record VerifyReport =
  vr_file_sha256 :: bytes
  vr_checks :: "MemberCheck list"
  vr_missing :: "bytes list"

definition all_ok :: "VerifyReport \<Rightarrow> bool" where
  "all_ok r \<longleftrightarrow> vr_missing r = [] \<and> list_all mc_ok (vr_checks r)"

text \<open>The whole file, hashed in pieces of at most 1 MiB.\<close>

function file_hash_loop :: "os_read \<Rightarrow> bytes \<Rightarrow> bytes \<Rightarrow> ArtifactError + bytes" where
  "file_hash_loop os f fed =
     (case file_read os f (length fed) (2 ^ 20) of
        None \<Rightarrow> Inl (Io ''reading'')
      | Some d \<Rightarrow> if d = [] then Inr fed else file_hash_loop os f (fed @ d))"
  by pat_completeness auto
termination
  by (relation "measure (\<lambda>(os, f, fed). length f - length fed)")
     (auto simp: file_read_def split: option.splits)

declare file_hash_loop.simps [simp del]

definition file_sha256_hex :: "(bytes \<Rightarrow> bytes) \<Rightarrow> os_read \<Rightarrow> file_system \<Rightarrow> bytes \<Rightarrow> ArtifactError + bytes" where
  "file_sha256_hex H os fs path =
     bind_result (open_file fs path) (\<lambda>f.
     bind_result (file_hash_loop os f []) (\<lambda>fed. Inr (hex (H fed))))"

fun check_members ::
  "(bytes \<times> bytes) list \<Rightarrow> Member list \<Rightarrow> MemberCheck list \<times> bytes list \<Rightarrow> MemberCheck list \<times> bytes list" where
  "check_members actual [] acc = acc"
| "check_members actual (m # ms) (checks, missing) =
     check_members actual ms
       (case find (\<lambda>a. fst a = m_name m) actual of
          Some (_, act) \<Rightarrow> (checks @ [\<lparr>mc_name = m_name m, mc_expected = m_sha256 m, mc_actual = act,
                                     mc_ok = (act = m_sha256 m)\<rparr>], missing)
        | None \<Rightarrow> (checks, missing @ [m_name m]))"

definition verify_member ::
  "json \<Rightarrow> bytes \<Rightarrow> (unit \<Rightarrow> ArtifactError + bytes) \<Rightarrow> (unit \<Rightarrow> ArtifactError + bytes)
     \<Rightarrow> Manifest option \<times> (bytes \<times> bytes) list \<Rightarrow> ArtifactError + Manifest option \<times> (bytes \<times> bytes) list" where
  "verify_member J name rd sha st =
     (if name = MEMBER_MANIFEST then
        bind_result (rd ()) (\<lambda>d. bind_result (manifest_from_bytes J d) (\<lambda>m. Inr (Some m, snd st)))
      else bind_result (sha ()) (\<lambda>h. Inr (fst st, snd st @ [(name, h)])))"

definition verify ::
  "(bytes \<Rightarrow> bytes) \<Rightarrow> json \<Rightarrow> os_read \<Rightarrow> file_system \<Rightarrow> bytes \<Rightarrow> ArtifactError + VerifyReport" where
  "verify H J os fs path =
     bind_result (file_sha256_hex H os fs path) (\<lambda>sha.
     bind_result (open_file fs path) (\<lambda>f.
     bind_result (fold_entries os f (\<lambda>es e. verify_member J (ent_name e) (\<lambda>_. entries_read os f es e)
                                              (\<lambda>_. entries_sha256 H os f es e))
                    (entries_new f) (None, [])) (\<lambda>(manifest, actual).
     bind_result (required MEMBER_MANIFEST manifest) (\<lambda>m.
       let (checks, missing) = check_members actual (members m) ([], [])
       in Inr \<lparr>vr_file_sha256 = sha, vr_checks = checks, vr_missing = missing\<rparr>))))"

section \<open>A sealed artifact reads back and verifies\<close>

definition sealed_members :: "SealedArtifact \<Rightarrow> (bytes \<times> bytes) list" where
  "sealed_members a =
     [(MEMBER_MANIFEST, manifest_json a), (MEMBER_COMPOSE_LOCK, sa_compose_lock a),
      (MEMBER_KERNEL, sa_kernel a), (MEMBER_INITRAMFS, sa_initramfs a)]"

text \<open>What the documentation of the JSON library promises for a derived type.\<close>

definition json_roundtrips :: "json \<Rightarrow> bool" where
  "json_roundtrips J \<longleftrightarrow> (\<forall>m v. to_vec_pretty J m = Some v \<longrightarrow> from_slice J (v @ [10]) = Some m)"

lemma member_names:
  "MEMBER_MANIFEST \<noteq> MEMBER_COMPOSE_LOCK" "MEMBER_MANIFEST \<noteq> MEMBER_KERNEL" "MEMBER_MANIFEST \<noteq> MEMBER_INITRAMFS"
  "MEMBER_COMPOSE_LOCK \<noteq> MEMBER_KERNEL" "MEMBER_COMPOSE_LOCK \<noteq> MEMBER_INITRAMFS" "MEMBER_KERNEL \<noteq> MEMBER_INITRAMFS"
  by (simp_all add: const_defs ascii_def)

lemma plain_names [simp]:
  "plain_name MEMBER_MANIFEST" "plain_name MEMBER_COMPOSE_LOCK" "plain_name MEMBER_KERNEL" "plain_name MEMBER_INITRAMFS"
  by (simp_all add: const_defs ascii_def plain_name_def is_ascii_def)

lemma cap_member_Inr [simp]: "cap_member name n = Inr k \<longleftrightarrow> k = n \<and> n \<le> MAX_MEMBER_SIZE"
  by (auto simp: cap_member_def)

definition record_of :: "(bytes \<Rightarrow> bytes) \<Rightarrow> bytes \<times> bytes \<Rightarrow> Member" where
  "record_of H nd = \<lparr>m_name = fst nd, m_size = length (snd nd), m_sha256 = sha256_hex H (snd nd)\<rparr>"

lemma seal_records_Inr:
  "seal_records H ms = Inr rs \<Longrightarrow> rs = map (record_of H) ms \<and> (\<forall>m \<in> set ms. length (snd m) \<le> MAX_MEMBER_SIZE)"
  by (induction H ms arbitrary: rs rule: seal_records.induct) (auto simp: record_of_def split: sum.splits)

lemma sealed:
  assumes "builder_initramfs H J b bs = Inr a" and "json_roundtrips J"
  shows "sa_compose_lock a = nk_compose_lock b" "sa_kernel a = ni_kernel b" "sa_initramfs a = bs"
    "\<forall>m \<in> set (sealed_members a). storable m"
    "\<exists>m. manifest_from_bytes J (manifest_json a) = Inr m \<and> members m = map (record_of H) (tl (sealed_members a))
        \<and> stack m = ab_stack b \<and> project m = ab_project b \<and> anchors m = ab_anchors b \<and> run_defaults m = ab_run_defaults b"
proof -
  let ?ms = "[(MEMBER_COMPOSE_LOCK, nk_compose_lock b), (MEMBER_KERNEL, ni_kernel b), (MEMBER_INITRAMFS, bs)]"
  from assms(1) obtain rs where rs: "seal_records H ?ms = Inr rs"
    by (cases "seal_records H ?ms") (simp_all add: builder_initramfs_def Let_def del: seal_records.simps)
  define m where "m = \<lparr>format_version = FORMAT_VERSION, stack = ab_stack b, project = ab_project b,
    members = rs, anchors = ab_anchors b, run_defaults = ab_run_defaults b\<rparr>"
  from assms(1) rs obtain js where js: "to_canonical_json J m = Inr js"
    by (cases "to_canonical_json J m") (simp_all add: builder_initramfs_def Let_def m_def del: seal_records.simps)
  from assms(1) rs js have cap: "length js \<le> MAX_MEMBER_SIZE" and
    a: "a = \<lparr>manifest_json = js, sa_compose_lock = nk_compose_lock b, sa_kernel = ni_kernel b, sa_initramfs = bs\<rparr>"
    by (auto simp: builder_initramfs_def Let_def m_def cap_member_def simp del: seal_records.simps split: if_splits)
  obtain v where v: "to_vec_pretty J m = Some v" "js = v @ [10]"
    using js by (cases "to_vec_pretty J m") (auto simp: to_canonical_json_def)
  show "sa_compose_lock a = nk_compose_lock b" "sa_kernel a = ni_kernel b" "sa_initramfs a = bs" by (simp_all add: a)
  show "\<forall>m \<in> set (sealed_members a). storable m"
    using seal_records_Inr [OF rs] cap by (auto simp: sealed_members_def storable_def a)
  have "manifest_from_bytes J js = Inr m"
    using assms(2) v by (simp add: json_roundtrips_def manifest_from_bytes_def m_def)
  then show "\<exists>m. manifest_from_bytes J (manifest_json a) = Inr m \<and> members m = map (record_of H) (tl (sealed_members a))
      \<and> stack m = ab_stack b \<and> project m = ab_project b \<and> anchors m = ab_anchors b \<and> run_defaults m = ab_run_defaults b"
    using seal_records_Inr [OF rs] by (auto simp: a m_def sealed_members_def)
qed

lemma wrote_Inr: "wrote hw bs (Inr (), hw') \<Longrightarrow> hw' = \<lparr>hw_inner = hw_inner hw @ bs,
    hw_hasher = hw_hasher hw @ bs, hw_len = hw_len hw + of_nat (length bs)\<rparr>"
  by (simp add: wrote_def)

lemma write_to_Inr:
  assumes "write_to H W fl a = (Inr w, hw)"
  shows "hw_inner hw = archive (sealed_members a)"
    and "w = \<lparr>w_sha256_hex = sha256_hex H (archive (sealed_members a)), w_len = of_nat (length (archive (sealed_members a)))\<rparr>"
proof -
  from assms obtain hw1 hw2 hw3 hw4 where
    h1: "write_member W hw_new MEMBER_MANIFEST (manifest_json a) = (Inr (), hw1)" and
    h2: "write_member W hw1 MEMBER_COMPOSE_LOCK (sa_compose_lock a) = (Inr (), hw2)" and
    h3: "write_member W hw2 MEMBER_KERNEL (sa_kernel a) = (Inr (), hw3)" and
    h4: "write_member W hw3 MEMBER_INITRAMFS (sa_initramfs a) = (Inr (), hw4)" and
    h5: "write_trailer W hw4 = (Inr (), hw)" and
    fin: "w = \<lparr>w_sha256_hex = fst (hw_finish H hw), w_len = snd (hw_finish H hw)\<rparr>"
    by (auto simp: write_to_def and_then_Inr Let_def split: if_splits prod.splits)
  have e: "hw = \<lparr>hw_inner = archive (sealed_members a), hw_hasher = archive (sealed_members a),
      hw_len = of_nat (length (archive (sealed_members a)))\<rparr>"
    using write_member_wrote [of hw_new MEMBER_MANIFEST "manifest_json a" W]
      write_member_wrote [of hw1 MEMBER_COMPOSE_LOCK "sa_compose_lock a" W]
      write_member_wrote [of hw2 MEMBER_KERNEL "sa_kernel a" W]
      write_member_wrote [of hw3 MEMBER_INITRAMFS "sa_initramfs a" W] write_trailer_wrote [of hw4 W]
    unfolding h1 h2 h3 h4 h5 by (simp add: wrote_def hw_new_def archive_def sealed_members_def)
  show "hw_inner hw = archive (sealed_members a)" by (simp add: e)
  show "w = \<lparr>w_sha256_hex = sha256_hex H (archive (sealed_members a)), w_len = of_nat (length (archive (sealed_members a)))\<rparr>"
    by (simp add: fin e hw_finish_def sha256_hex_def)
qed

lemma length_archive_bound:
  assumes "\<forall>m \<in> set ms. storable m" shows "length (archive ms) \<le> length ms * 8589935616 + 1024"
  using assms
proof (induction ms)
  case (Cons m ms)
  have "length (fst m) \<le> 100" "length (snd m) \<le> 8589934591"
    using Cons.prems by (auto simp: storable_def plain_name_def MAX_MEMBER_SIZE_def)
  moreover have "length (padding (snd m)) \<le> 512" by (simp add: padding_def BLOCK_def)
  ultimately have "length (member_bytes m) \<le> 8589935616"
    using ustar_header_fields(1) [of "fst m" "length (snd m)"] by (simp add: member_bytes_def)
  then show ?case using Cons by (simp add: archive_def)
qed (simp add: archive_def)

lemma file_hash_loop_spec:
  "reliable os \<Longrightarrow> fed = take (length fed) f \<Longrightarrow> file_hash_loop os f fed = Inr f"
proof (induction os f fed rule: file_hash_loop.induct)
  case (1 os f fed)
  obtain n where n: "os (length fed) (2 ^ 20) = Some n" using "1.prems"(1) by (auto simp: reliable_def)
  define d where "d = take (min (2 ^ 20) (max 1 n)) (drop (length fed) f)"
  have rd: "file_read os f (length fed) (2 ^ 20) = Some d" using n by (simp add: file_read_def d_def)
  have app: "fed @ d = take (length fed + min (2 ^ 20) (max 1 n)) f"
    using "1.prems"(2) by (simp add: d_def take_add)
  show ?case
  proof (cases "d = []")
    case True
    then have "length f \<le> length fed" by (auto simp: d_def)
    then have "fed = f" using "1.prems"(2) by simp
    then show ?thesis using True rd by (subst file_hash_loop.simps) simp
  next
    case False
    have "take k f = take (length (take k f)) f" for k by (cases "k \<le> length f") simp_all
    then have "fed @ d = take (length (fed @ d)) f" unfolding app .
    from "1.IH" [OF rd False "1.prems"(1) this] show ?thesis
      using False rd by (subst file_hash_loop.simps) simp
  qed
qed

lemma fold_archive:
  assumes "reliable os" and "\<forall>m \<in> set ms. storable m"
    and "\<And>es e name data st. file_len es = length (archive ms) \<Longrightarrow> holds_member (archive ms) e name data \<Longrightarrow>
      body es e st = g name data st"
  shows "fold_entries os (archive ms) body (entries_new (archive ms)) st = fold_members g ms st"
  by (rule fold_entries_archive [OF assms(1), of "archive ms" body g "[]"])
     (use assms(2,3) in \<open>simp_all add: entries_new_def\<close>)

lemma run_member_pass:
  "run_member J MEMBER_MANIFEST (\<lambda>_. Inr d) p = (case manifest_from_bytes J d of
     Inl e \<Rightarrow> Inl e | Inr m \<Rightarrow> Inr (p\<lparr>p_manifest := Some m\<rparr>))"
  "run_member J MEMBER_KERNEL (\<lambda>_. Inr d) p = Inr (p\<lparr>p_kernel := Some d\<rparr>)"
  "run_member J MEMBER_INITRAMFS (\<lambda>_. Inr d) p = Inr (p\<lparr>p_initramfs := Some d\<rparr>)"
  "run_member J MEMBER_COMPOSE_LOCK (\<lambda>_. Inr d) p = Inr (p\<lparr>p_compose_lock := Some d\<rparr>)"
  using member_names by (simp_all add: run_member_def)

lemma verify_member_pass:
  "verify_member J MEMBER_MANIFEST (\<lambda>_. Inr d) sha st = bind_result (manifest_from_bytes J d) (\<lambda>m. Inr (Some m, snd st))"
  "name \<noteq> MEMBER_MANIFEST \<Longrightarrow> verify_member J name rd (\<lambda>_. Inr h) st = Inr (fst st, snd st @ [(name, h)])"
  by (simp_all add: verify_member_def)

text \<open>A file that holds the archive of a sealed artifact, and the manifest sealed in it.\<close>

definition sealed_file ::
  "(bytes \<Rightarrow> bytes) \<Rightarrow> json \<Rightarrow> file_system \<Rightarrow> bytes \<Rightarrow> SealedArtifact \<Rightarrow> Manifest \<Rightarrow> bool" where
  "sealed_file H J fs path a m \<longleftrightarrow>
     fs path = Some (archive (sealed_members a)) \<and> (\<forall>x \<in> set (sealed_members a). storable x)
     \<and> manifest_from_bytes J (manifest_json a) = Inr m
     \<and> members m = map (record_of H) (tl (sealed_members a))"

lemma sealed_file_short: "sealed_file H J fs path a m \<Longrightarrow> length (archive (sealed_members a)) < 2 ^ 64"
  using length_archive_bound [of "sealed_members a"] by (simp add: sealed_file_def sealed_members_def)

lemma sealed_read_for_run:
  assumes os: "reliable os" and f: "sealed_file H J fs path a m"
  shows "read_for_run J os fs path = Inr \<lparr>rp_manifest = m, rp_kernel = sa_kernel a, rp_initramfs = sa_initramfs a,
     rp_compose_lock = sa_compose_lock a\<rparr>"
proof -
  let ?f = "archive (sealed_members a)"
  have "fold_entries os ?f (\<lambda>es e. run_member J (ent_name e) (\<lambda>_. entries_read os ?f es e)) (entries_new ?f) p
      = fold_members (\<lambda>name data. run_member J name (\<lambda>_. Inr data)) (sealed_members a) p" for p
  proof (rule fold_archive [OF os])
    show "run_member J (ent_name e) (\<lambda>_. entries_read os ?f es e) st = run_member J name (\<lambda>_. Inr data) st"
      if "file_len es = length ?f" "holds_member ?f e name data" for es e name data st
      using entries_read_member [OF os that(2,1) sealed_file_short [OF f]] that(2) by (simp add: holds_member_def)
  qed (use f in \<open>simp add: sealed_file_def\<close>)
  then show ?thesis
    using f by (simp add: read_for_run_def open_file_def sealed_file_def sealed_members_def run_member_pass required_def)
qed

lemma sealed_verify_members:
  assumes "sealed_file H J fs path a m"
  shows "verify_members H \<lparr>rp_manifest = m, rp_kernel = sa_kernel a, rp_initramfs = sa_initramfs a,
     rp_compose_lock = sa_compose_lock a\<rparr> = Inr ()"
  using assms member_names
  by (simp add: verify_members_def manifest_member_def sealed_file_def sealed_members_def record_of_def Let_def)

lemma sealed_verify:
  assumes os: "reliable os" and f: "sealed_file H J fs path a m"
  shows "\<exists>r. verify H J os fs path = Inr r \<and> all_ok r \<and> vr_file_sha256 r = sha256_hex H (archive (sealed_members a))
     \<and> map mc_name (vr_checks r) = [MEMBER_COMPOSE_LOCK, MEMBER_KERNEL, MEMBER_INITRAMFS]"
proof -
  let ?f = "archive (sealed_members a)"
  have sha: "file_sha256_hex H os fs path = Inr (sha256_hex H ?f)"
    using f by (simp add: file_sha256_hex_def open_file_def sealed_file_def file_hash_loop_spec [OF os] sha256_hex_def)
  have "fold_entries os ?f (\<lambda>es e. verify_member J (ent_name e) (\<lambda>_. entries_read os ?f es e)
        (\<lambda>_. entries_sha256 H os ?f es e)) (entries_new ?f) p
      = fold_members (\<lambda>name data. verify_member J name (\<lambda>_. Inr data) (\<lambda>_. Inr (sha256_hex H data))) (sealed_members a) p" for p
  proof (rule fold_archive [OF os])
    show "verify_member J (ent_name e) (\<lambda>_. entries_read os ?f es e) (\<lambda>_. entries_sha256 H os ?f es e) st
        = verify_member J name (\<lambda>_. Inr data) (\<lambda>_. Inr (sha256_hex H data)) st"
      if "file_len es = length ?f" "holds_member ?f e name data" for es e name data st
      using entries_read_member [OF os that(2,1) sealed_file_short [OF f]]
        entries_sha256_member [OF os that(2,1) sealed_file_short [OF f], of H] that(2)
      by (simp add: holds_member_def)
  qed (use f in \<open>simp add: sealed_file_def\<close>)
  then show ?thesis
    using member_names f
    by (simp add: verify_def sha open_file_def sealed_file_def sealed_members_def verify_member_pass required_def
        record_of_def all_ok_def Let_def)
qed

section \<open>Properties\<close>

definition sample_builder :: ArtifactBuilder where
  "sample_builder = builder_new (ascii ''s'') (ascii ''p'')
     \<lparr>cpuid_sha256 = [], cpuid_profile = [], compose_engine = \<lparr>ce_version = [], ce_sha256 = []\<rparr>, images = [],
      toolchain = \<lparr>builders = [], alpine = [], compose = []\<rparr>, ram_estimate_mib = 1, agent_sha256 = [], agent_build_hash = []\<rparr>
     \<lparr>mem_mib = 64, cmdline = [], fast_forward = True, max_virtual_time = None\<rparr>"

definition sample_json :: "Manifest \<Rightarrow> json" where
  "sample_json m = \<lparr>to_vec_pretty = (\<lambda>x. if x = m then Some [123, 125] else None),
                    from_slice = (\<lambda>v. if v = [123, 125, 10] then Some m else None)\<rparr>"

lemma sample_json_roundtrips: "json_roundtrips (sample_json m)"
  by (simp add: json_roundtrips_def sample_json_def)

definition sample_sealed :: SealedArtifact where
  "sample_sealed = \<lparr>manifest_json = [123, 125, 10], sa_compose_lock = [], sa_kernel = [127], sa_initramfs = [31, 139]\<rparr>"

definition sample_manifest :: Manifest where
  "sample_manifest = \<lparr>format_version = 1, stack = ab_stack sample_builder, project = ab_project sample_builder,
     members = map (record_of (\<lambda>x. [])) (tl (sealed_members sample_sealed)),
     anchors = ab_anchors sample_builder, run_defaults = ab_run_defaults sample_builder\<rparr>"

text \<open>
  C20. An artifact cannot fail its own verification. Whatever payloads are sealed, if the sealed
  artifact was written completely (through a sink that may accept any part of a write), then
  reading the file (with reads of any length) gives back the three payloads and the sealed
  identity, anchors and defaults, their hashes check out against the manifest, and \<open>verify\<close>
  reports every member sound and the same file identity and length the writer returned.
\<close>

theorem artifact_roundtrip:
  assumes "builder_initramfs H J (builder_kernel (builder_compose_lock b lock) vmlinux) initramfs = Inr a"
    and "write_to H W flush_ok a = (Inr w, hw)" and "json_roundtrips J" and "reliable os"
    and "fs path = Some (hw_inner hw)"
  shows "\<exists>p r. read_for_run J os fs path = Inr p
    \<and> rp_kernel p = vmlinux \<and> rp_initramfs p = initramfs \<and> rp_compose_lock p = lock
    \<and> stack (rp_manifest p) = ab_stack b \<and> project (rp_manifest p) = ab_project b
    \<and> anchors (rp_manifest p) = ab_anchors b \<and> run_defaults (rp_manifest p) = ab_run_defaults b
    \<and> verify_members H p = Inr ()
    \<and> verify H J os fs path = Inr r \<and> all_ok r \<and> vr_file_sha256 r = w_sha256_hex w
    \<and> length (vr_checks r) = 3 \<and> unat (w_len w) = length (hw_inner hw)"
proof -
  note s = sealed [OF assms(1,3)]
  from s(5) obtain m where m: "manifest_from_bytes J (manifest_json a) = Inr m"
    "members m = map (record_of H) (tl (sealed_members a))" "stack m = ab_stack b" "project m = ab_project b"
    "anchors m = ab_anchors b" "run_defaults m = ab_run_defaults b"
    by (auto simp: builder_kernel_def builder_compose_lock_def)
  note w = write_to_Inr [OF assms(2)]
  have f: "sealed_file H J fs path a m" using s(4) m(1,2) assms(5) w(1) by (simp add: sealed_file_def)
  obtain r where r: "verify H J os fs path = Inr r" "all_ok r" "vr_file_sha256 r = w_sha256_hex w"
    "map mc_name (vr_checks r) = [MEMBER_COMPOSE_LOCK, MEMBER_KERNEL, MEMBER_INITRAMFS]"
    using sealed_verify [OF assms(4) f] w(2) by auto
  have "length (vr_checks r) = 3" using arg_cong [OF r(4), of length] by simp
  moreover have "unat (w_len w) = length (hw_inner hw)"
    using sealed_file_short [OF f] by (simp add: w unat_of_nat_eq)
  ultimately show ?thesis
    using sealed_read_for_run [OF assms(4) f] sealed_verify_members [OF f] r(1-3) s(1-3) m(3-6)
    by (auto simp: builder_kernel_def builder_compose_lock_def)
qed

theorem artifact_roundtrip_witness:
  "\<exists>hw w. write_to (\<lambda>x. []) (\<lambda>out buf. Some 1000) True sample_sealed = (Inr w, hw)
     \<and> (\<exists>p. read_for_run (sample_json sample_manifest) (\<lambda>pos want. Some 7) (\<lambda>path. Some (hw_inner hw)) [] = Inr p
          \<and> rp_kernel p = [127])"
proof -
  have a: "builder_initramfs (\<lambda>x. []) (sample_json sample_manifest)
      (builder_kernel (builder_compose_lock sample_builder []) [127]) [31, 139] = Inr sample_sealed"
    by (simp add: builder_initramfs_def sample_json_def sample_manifest_def to_canonical_json_def Let_def
        builder_kernel_def builder_compose_lock_def cap_member_def sample_sealed_def sealed_members_def record_of_def
        const_defs)
  have all: "fst (write_all (\<lambda>out buf. Some 1000) what hw buf) = Inr ()" for what hw buf
    by (induction "\<lambda>(out :: bytes) (buf :: bytes). Some (1000 :: nat)" what hw buf rule: write_all.induct)
       (subst write_all.simps, auto simp: hw_write_def Let_def min_def split: if_splits)
  have step: "\<exists>hw'. write_all (\<lambda>out buf. Some 1000) what hw buf = (Inr (), hw')" for what hw buf
    using all [of what hw buf] by (metis prod.collapse)
  have mem: "\<exists>hw'. write_member (\<lambda>out buf. Some 1000) hw n d = (Inr (), hw')" for hw n d
  proof -
    obtain h1 where h1: "write_all (\<lambda>out buf. Some 1000) ''writing tar header'' hw (ustar_header n (length d)) = (Inr (), h1)"
      using step by blast
    obtain h2 where h2: "write_all (\<lambda>out buf. Some 1000) ''writing tar data'' h1 d = (Inr (), h2)" using step by blast
    obtain h3 where h3: "write_all (\<lambda>out buf. Some 1000) ''writing tar padding'' h2 (replicate (BLOCK - length d mod BLOCK) 0)
      = (Inr (), h3)" using step by blast
    show ?thesis by (simp add: write_member_def h1 h2 h3 Let_def)
  qed
  obtain h1 where h1: "write_member (\<lambda>out buf. Some 1000) hw_new MEMBER_MANIFEST (manifest_json sample_sealed) = (Inr (), h1)"
    using mem by blast
  obtain h2 where h2: "write_member (\<lambda>out buf. Some 1000) h1 MEMBER_COMPOSE_LOCK (sa_compose_lock sample_sealed) = (Inr (), h2)"
    using mem by blast
  obtain h3 where h3: "write_member (\<lambda>out buf. Some 1000) h2 MEMBER_KERNEL (sa_kernel sample_sealed) = (Inr (), h3)"
    using mem by blast
  obtain h4 where h4: "write_member (\<lambda>out buf. Some 1000) h3 MEMBER_INITRAMFS (sa_initramfs sample_sealed) = (Inr (), h4)"
    using mem by blast
  obtain hw where h5: "write_trailer (\<lambda>out buf. Some 1000) h4 = (Inr (), hw)"
    using step unfolding write_trailer_def by blast
  obtain w where w: "write_to (\<lambda>x. []) (\<lambda>out buf. Some 1000) True sample_sealed = (Inr w, hw)"
    by (simp add: write_to_def h1 h2 h3 h4 h5 hw_finish_def)
  show ?thesis
    using artifact_roundtrip [OF a w sample_json_roundtrips, of "\<lambda>pos want. Some 7" "\<lambda>path. Some (hw_inner hw)" "[]"] w
    by (auto simp: reliable_def)
qed

end
