(* ===== verification/Cpio.thy ===== *)
theory Cpio
  imports Text "HOL-Library.List_Lexorder"
begin

text \<open>
  The deterministic newc emitter of \<open>src/src/cpio.rs\<close>: headers and padding, the device-node
  segment, the walk over a directory tree, and the emission of a tree with renumbered inodes and
  deferred hard links. A directory tree is a value whose directories may fail to list and whose
  entries may fail to be read or stat'ed; file contents are a function of the path. Compression
  is a library call and is not modelled.
\<close>

section \<open>Constants and errors\<close>

definition BUILD_EPOCH :: u32 where [const_defs]: "BUILD_EPOCH = 1785542400"
definition S_IFMT :: u32 where [const_defs]: "S_IFMT = 0xf000"
definition S_IFDIR :: u32 where [const_defs]: "S_IFDIR = 0x4000"
definition S_IFREG :: u32 where [const_defs]: "S_IFREG = 0x8000"
definition S_IFLNK :: u32 where [const_defs]: "S_IFLNK = 0xa000"
definition S_IFCHR :: u32 where [const_defs]: "S_IFCHR = 0x2000"
definition S_IFBLK :: u32 where [const_defs]: "S_IFBLK = 0x6000"

datatype CpioError = CpIo string | TooLarge bytes nat

section \<open>Framing\<close>

record NewcHeader =
  h_ino :: u32
  h_mode :: u32
  h_nlink :: u32
  h_mtime :: u32
  h_filesize :: u32
  h_devmajor :: u32
  h_devminor :: u32
  h_rdevmajor :: u32
  h_rdevminor :: u32
  h_name :: bytes

record Cpio =
  out :: bytes

definition cpio_new :: Cpio where
  "cpio_new = \<lparr>out = []\<rparr>"

definition pad_zeros :: "Cpio \<Rightarrow> nat \<Rightarrow> Cpio" where
  "pad_zeros c n = c\<lparr>out := out c @ replicate n 0\<rparr>"

definition hex8 :: "u32 \<Rightarrow> bytes" where
  "hex8 v = map (\<lambda>d. of_nat (if d < 10 then 48 + d else 55 + d)) (digits 16 8 (unat v))"

definition cpio_header :: "Cpio \<Rightarrow> NewcHeader \<Rightarrow> Cpio" where
  "cpio_header c h =
     (let namesize = of_nat (length (h_name h)) + 1 :: u32;
          fields = [h_ino h, h_mode h, 0, 0, h_nlink h, h_mtime h, h_filesize h, h_devmajor h,
                    h_devminor h, h_rdevmajor h, h_rdevminor h, namesize, 0];
          c = c\<lparr>out := out c @ ascii ''070701'' @ concat (map hex8 fields) @ h_name h @ [0]\<rparr>;
          hdrlen = 110 + unat namesize
      in pad_zeros c ((4 - hdrlen mod 4) mod 4))"

definition cpio_data :: "Cpio \<Rightarrow> bytes \<Rightarrow> Cpio" where
  "cpio_data c d = pad_zeros (c\<lparr>out := out c @ d\<rparr>) ((4 - length d mod 4) mod 4)"

definition cpio_trailer :: "Cpio \<Rightarrow> Cpio" where
  "cpio_trailer c =
     cpio_header c \<lparr>h_ino = 0, h_mode = 0, h_nlink = 1, h_mtime = 0, h_filesize = 0, h_devmajor = 0,
                    h_devminor = 0, h_rdevmajor = 0, h_rdevminor = 0, h_name = ascii ''TRAILER!!!''\<rparr>"

definition pad_to_512 :: "Cpio \<Rightarrow> Cpio" where
  "pad_to_512 c = pad_zeros c ((512 - length (out c) mod 512) mod 512)"

section \<open>Device nodes\<close>

definition nodes :: "(bytes \<times> u32 \<times> u32 \<times> u32 \<times> u32) list" where
  "nodes =
     [(ascii ''dev'', S_IFDIR OR 0x1ed, 2, 0, 0),
      (ascii ''dev/console'', S_IFCHR OR 0x180, 1, 5, 1),
      (ascii ''dev/null'', S_IFCHR OR 0x1b6, 1, 1, 3),
      (ascii ''dev/ttyS0'', S_IFCHR OR 0x1b0, 1, 4, 64),
      (ascii ''dev/ttyS1'', S_IFCHR OR 0x1b0, 1, 4, 65)]"

definition write_nodes_segment :: "Cpio \<Rightarrow> Cpio" where
  "write_nodes_segment c =
     pad_to_512 (cpio_trailer (foldl (\<lambda>c (name, mode, nlink, rmaj, rmin).
       cpio_header c \<lparr>h_ino = 0, h_mode = mode, h_nlink = nlink, h_mtime = BUILD_EPOCH, h_filesize = 0,
                      h_devmajor = 3, h_devminor = 1, h_rdevmajor = rmaj, h_rdevminor = rmin,
                      h_name = name\<rparr>) c nodes))"

definition nodes_segment :: bytes where
  "nodes_segment = out (write_nodes_segment cpio_new)"

section \<open>Walking a tree\<close>

record metadata =
  md_mode :: u32
  md_dev :: u64
  md_ino :: u64
  md_rdev :: u64
  md_nlink :: u64

text \<open>
  A node has its metadata (\<open>None\<close> when \<open>lstat\<close> fails) and, if it can be listed, its entries,
  each a name and a node or an error.
\<close>

datatype fs_node = FsNode (fs_meta: "metadata option") (fs_children: "(bytes \<times> fs_node) option list option")

record Entry =
  e_name :: bytes
  e_dev :: u64
  e_ino :: u64
  e_rdev :: u64
  e_nlink :: u32
  e_mode :: u32
  e_is_dir :: bool

definition rel_join :: "bytes \<Rightarrow> bytes \<Rightarrow> bytes" where
  "rel_join dir name = (if dir = [] then name else dir @ 47 # name)"

definition excluded :: "bytes \<Rightarrow> bool" where
  "excluded rel \<longleftrightarrow> rel = ascii ''dev'' \<or> take 4 rel = ascii ''dev/''"

definition entry_of :: "bytes \<Rightarrow> metadata \<Rightarrow> Entry" where
  "entry_of rel m =
     \<lparr>e_name = rel, e_dev = md_dev m, e_ino = md_ino m, e_rdev = md_rdev m, e_nlink = ucast (md_nlink m),
      e_mode = md_mode m, e_is_dir = (md_mode m AND S_IFMT = S_IFDIR)\<rparr>"

text \<open>One directory: the entries found and the subdirectories pushed on the stack, in order.\<close>

fun scan_dir ::
  "bytes \<Rightarrow> (bytes \<times> fs_node) option list \<Rightarrow> Entry list \<Rightarrow> (bytes \<times> fs_node) list
     \<Rightarrow> CpioError + Entry list \<times> (bytes \<times> fs_node) list" where
  "scan_dir dir [] entries stack = Inr (entries, stack)"
| "scan_dir dir (None # ds) entries stack = Inl (CpIo ''reading directory'')"
| "scan_dir dir (Some (name, node) # ds) entries stack =
     (let rel = rel_join dir name
      in if excluded rel then scan_dir dir ds entries stack
         else case fs_meta node of
                None \<Rightarrow> Inl (CpIo ''stat'')
              | Some m \<Rightarrow>
                  (let e = entry_of rel m
                   in scan_dir dir ds (entries @ [e])
                        (if e_is_dir e then (rel, node) # stack else stack)))"

text \<open>Sizes, for the termination of the walk.\<close>

definition stack_size :: "(bytes \<times> fs_node) list \<Rightarrow> nat" where
  "stack_size stack = (\<Sum>(rel, node) \<leftarrow> stack. size node)"

definition children_size :: "(bytes \<times> fs_node) option list \<Rightarrow> nat" where
  "children_size ds = (\<Sum>d \<leftarrow> ds. case d of None \<Rightarrow> 0 | Some (name, node) \<Rightarrow> size node)"

lemma children_size_less: "fs_children node = Some ds \<Longrightarrow> children_size ds < size node"
proof (cases node)
  case (FsNode m cs)
  assume "fs_children node = Some ds"
  then have cs: "cs = Some ds" using FsNode by simp
  have "children_size ds \<le> size_list (size_option (size_prod (\<lambda>_. 0) size)) ds"
    by (induction ds) (auto simp: children_size_def split: option.split)
  then show ?thesis using FsNode cs by simp
qed

lemma scan_dir_size:
  "scan_dir dir ds entries stack = Inr (entries', stack') \<Longrightarrow>
     stack_size stack' \<le> stack_size stack + children_size ds"
proof (induction dir ds entries stack rule: scan_dir.induct)
  case (3 dir name node ds entries stack)
  show ?case
  proof (cases "excluded (rel_join dir name)")
    case True
    then show ?thesis using 3 by (simp add: children_size_def Let_def)
  next
    case False
    then show ?thesis
      using 3 by (fastforce simp: children_size_def stack_size_def Let_def split: option.splits if_splits)
  qed
qed (simp_all add: children_size_def)

function collect_loop :: "(bytes \<times> fs_node) list \<Rightarrow> Entry list \<Rightarrow> CpioError + Entry list" where
  "collect_loop [] entries = Inr entries"
| "collect_loop ((dir, node) # stack) entries =
     (case fs_children node of
        None \<Rightarrow> Inl (CpIo ''reading directory'')
      | Some ds \<Rightarrow>
          (case scan_dir dir ds entries stack of
             Inl e \<Rightarrow> Inl e
           | Inr (entries, stack) \<Rightarrow> collect_loop stack entries))"
  by pat_completeness auto
termination
proof (relation "measure (\<lambda>(stack, entries). stack_size stack)", simp, goal_cases)
  case (1 dir node stack entries ds p entries' stack')
  then show ?case
    using scan_dir_size [of dir ds entries stack entries' stack'] children_size_less [of node ds]
    by (auto simp: stack_size_def)
qed

definition collect :: "fs_node \<Rightarrow> CpioError + Entry list" where
  "collect root =
     (case collect_loop [([], root)] [] of
        Inl e \<Rightarrow> Inl e
      | Inr entries \<Rightarrow> Inr (sort_key e_name entries))"

section \<open>Emitting a tree\<close>

definition rdev_of :: "u64 \<Rightarrow> u32 \<Rightarrow> u32 \<times> u32" where
  "rdev_of meta_rdev mode =
     (let t = mode AND S_IFMT
      in if t = S_IFCHR \<or> t = S_IFBLK then
           (ucast (drop_bit 8 meta_rdev AND 0xfff),
            ucast (meta_rdev AND 0xff) OR ucast (drop_bit 12 meta_rdev AND NOT 0xff))
         else (0, 0))"

text \<open>\<open>content rel\<close> is what reading the file or the link at that path gives.\<close>

definition read_payload :: "(bytes \<Rightarrow> bytes option) \<Rightarrow> Entry \<Rightarrow> CpioError + bytes" where
  "read_payload content e =
     (let t = e_mode e AND S_IFMT
      in if t = S_IFREG then (case content (e_name e) of None \<Rightarrow> Inl (CpIo ''reading'') | Some d \<Rightarrow> Inr d)
         else if t = S_IFLNK then (case content (e_name e) of None \<Rightarrow> Inl (CpIo ''reading symlink'') | Some d \<Rightarrow> Inr d)
         else Inr [])"

definition write_entry :: "Cpio \<Rightarrow> Entry \<Rightarrow> u32 \<Rightarrow> bytes \<Rightarrow> CpioError + Cpio" where
  "write_entry c e new_ino payload =
     (let (rmaj, rmin) = rdev_of (e_rdev e) (e_mode e);
          nlink = (if e_is_dir e then 2 else e_nlink e)
      in if 2 ^ 32 \<le> length payload then Inl (TooLarge (from_utf8_lossy (e_name e)) (length payload))
         else (let c = cpio_header c \<lparr>h_ino = new_ino, h_mode = e_mode e, h_nlink = nlink,
                         h_mtime = BUILD_EPOCH, h_filesize = of_nat (length payload), h_devmajor = 0,
                         h_devminor = 0, h_rdevmajor = rmaj, h_rdevminor = rmin, h_name = e_name e\<rparr>
               in Inr (if payload \<noteq> [] then cpio_data c payload else c)))"

type_synonym key = "u64 \<times> u64"

definition entry_key :: "Entry \<Rightarrow> key" where
  "entry_key e = (e_dev e, e_ino e)"

definition grouped :: "Entry \<Rightarrow> bool" where
  "grouped e \<longleftrightarrow> \<not> e_is_dir e \<and> 1 < e_nlink e"

text \<open>Pass 1: number the inodes by first appearance.\<close>

definition number_inode :: "(key \<rightharpoonup> u32) \<times> u32 \<Rightarrow> Entry \<Rightarrow> (key \<rightharpoonup> u32) \<times> u32" where
  "number_inode mc e =
     (let (m, counter) = mc; k = entry_key e
      in case m k of Some _ \<Rightarrow> (m, counter) | None \<Rightarrow> (m(k \<mapsto> counter), counter + 1))"

definition ino_map :: "Entry list \<Rightarrow> key \<rightharpoonup> u32" where
  "ino_map entries = fst (foldl number_inode (Map.empty, 0) entries)"

text \<open>Pass 1b: count the members of each hard-link group.\<close>

definition count_group :: "(key \<rightharpoonup> nat) \<Rightarrow> Entry \<Rightarrow> (key \<rightharpoonup> nat)" where
  "count_group m e =
     (if grouped e then m(entry_key e \<mapsto> (case m (entry_key e) of None \<Rightarrow> 0 | Some n \<Rightarrow> n) + 1) else m)"

definition group_total :: "Entry list \<Rightarrow> key \<rightharpoonup> nat" where
  "group_total entries = foldl count_group Map.empty entries"

text \<open>Pass 2. An index into a map without the key would panic; the theorems show it is there.\<close>

fun write_links :: "Cpio \<Rightarrow> Entry list \<Rightarrow> u32 \<Rightarrow> nat list \<Rightarrow> CpioError + Cpio" where
  "write_links c entries ino [] = Inr c"
| "write_links c entries ino (i # is) =
     bind_result (write_entry c (entries ! i) ino []) (\<lambda>c. write_links c entries ino is)"

record emit_state =
  em_cpio :: Cpio
  em_deferred :: "key \<rightharpoonup> nat list"
  em_seen :: "key \<rightharpoonup> nat"

definition emit_one ::
  "Entry list \<Rightarrow> bytes list \<Rightarrow> emit_state \<Rightarrow> nat \<Rightarrow> CpioError + emit_state" where
  "emit_one entries payloads st idx =
     (let e = entries ! idx; k = entry_key e; ino = the (ino_map entries k)
      in if grouped e then
           (let total = the (group_total entries k);
                s = (case em_seen st k of None \<Rightarrow> 0 | Some n \<Rightarrow> n) + 1;
                st = st\<lparr>em_seen := (em_seen st)(k \<mapsto> s)\<rparr>
            in if s < total then
                 Inr (st\<lparr>em_deferred := (em_deferred st)(k \<mapsto>
                        (case em_deferred st k of None \<Rightarrow> [] | Some l \<Rightarrow> l) @ [idx])\<rparr>)
               else
                 bind_result (case em_deferred st k of
                                Some l \<Rightarrow> write_links (em_cpio st) entries ino (rev l)
                              | None \<Rightarrow> Inr (em_cpio st)) (\<lambda>c.
                 bind_result (write_entry c e ino (payloads ! idx)) (\<lambda>c.
                   Inr (st\<lparr>em_cpio := c, em_deferred := (em_deferred st)(k := None)\<rparr>))))
         else bind_result (write_entry (em_cpio st) e ino (payloads ! idx)) (\<lambda>c.
                Inr (st\<lparr>em_cpio := c\<rparr>)))"

fun emit_loop ::
  "Entry list \<Rightarrow> bytes list \<Rightarrow> emit_state \<Rightarrow> nat list \<Rightarrow> CpioError + emit_state" where
  "emit_loop entries payloads st [] = Inr st"
| "emit_loop entries payloads st (i # is) =
     bind_result (emit_one entries payloads st i) (\<lambda>st. emit_loop entries payloads st is)"

text \<open>
  The payloads are read by a parallel iterator and collected into one result. Of several failures the
  collection keeps any one; here it is the first in the order of the entries.
\<close>

fun sequence_results :: "('e + 'a) list \<Rightarrow> 'e + 'a list" where
  "sequence_results [] = Inr []"
| "sequence_results (r # rs) = bind_result r (\<lambda>x. bind_result (sequence_results rs) (\<lambda>xs. Inr (x # xs)))"

definition write_rootfs_segment :: "(bytes \<Rightarrow> bytes option) \<Rightarrow> Cpio \<Rightarrow> fs_node \<Rightarrow> CpioError + Cpio" where
  "write_rootfs_segment content c root =
     bind_result (collect root) (\<lambda>entries.
     bind_result (sequence_results (map (read_payload content) entries)) (\<lambda>payloads.
     bind_result (emit_loop entries payloads \<lparr>em_cpio = c, em_deferred = Map.empty, em_seen = Map.empty\<rparr>
                    [0..<length entries]) (\<lambda>st.
       Inr (pad_to_512 (cpio_trailer (em_cpio st))))))"

definition rootfs_segment :: "(bytes \<Rightarrow> bytes option) \<Rightarrow> fs_node \<Rightarrow> CpioError + bytes" where
  "rootfs_segment content root =
     bind_result (write_rootfs_segment content cpio_new root) (\<lambda>c. Inr (out c))"

section \<open>Layout\<close>

definition entry_bytes :: "Entry \<Rightarrow> u32 \<Rightarrow> bytes \<Rightarrow> bytes" where
  "entry_bytes e ino payload =
     out (case write_entry cpio_new e ino payload of Inl _ \<Rightarrow> cpio_new | Inr c \<Rightarrow> c)"

lemma out_pad_zeros [simp]: "out (pad_zeros c n) = out c @ replicate n 0"
  by (simp add: pad_zeros_def)

lemma out_cpio_data [simp]: "out (cpio_data c d) = out c @ d @ replicate ((4 - length d mod 4) mod 4) 0"
  by (simp add: cpio_data_def)

lemma out_cpio_header: "out (cpio_header c h) = out c @ out (cpio_header cpio_new h)"
  by (simp add: cpio_header_def cpio_new_def Let_def)

lemma out_write_entry: "write_entry c e ino payload = Inr c' \<Longrightarrow> out c' = out c @ entry_bytes e ino payload"
  by (auto simp: write_entry_def entry_bytes_def Let_def out_cpio_header [of c] split: prod.splits if_splits)

lemma length_hex8 [simp]: "length (hex8 v) = 8"
  by (simp add: hex8_def)

lemma unat_namesize_mod4: "unat (of_nat n + 1 :: u32) mod 4 = Suc n mod 4"
proof -
  have "(of_nat n + 1 :: u32) = of_nat (Suc n)" by simp
  then have "unat (of_nat n + 1 :: u32) = Suc n mod 2 ^ LENGTH(32)" by (simp only: unat_of_nat)
  moreover have "(4 :: nat) dvd 2 ^ LENGTH(32)" by simp
  ultimately show ?thesis by (simp only: mod_mod_cancel)
qed

lemma pad_mod:
  assumes "0 < b" shows "(n + (b - n mod b) mod b) mod b = (0 :: nat)"
proof (cases "n mod b = 0")
  case False
  define r where "r = n mod b"
  have r: "r < b" "n = n div b * b + r" using assms by (simp_all add: r_def)
  have "(b - r) mod b = b - r" using False by (simp add: r_def [symmetric] assms)
  moreover have "n + (b - r) = (n div b + 1) * b" using r by simp
  ultimately show ?thesis unfolding r_def by simp
qed simp

lemmas pad4 = pad_mod [of 4, simplified] and pad512 = pad_mod [of 512, simplified]

lemma header_aligned: "length (out (cpio_header cpio_new h)) mod 4 = 0"
proof -
  define ns :: u32 where "ns = of_nat (length (h_name h)) + 1"
  have "length (out (cpio_header cpio_new h)) = 110 + Suc (length (h_name h)) + (4 - (110 + unat ns) mod 4) mod 4"
    by (simp add: cpio_header_def cpio_new_def Let_def ascii_def ns_def)
  moreover have "(110 + unat ns) mod 4 = (110 + Suc (length (h_name h))) mod 4"
    using unat_namesize_mod4 [of "length (h_name h)"] unfolding ns_def [symmetric] by presburger
  ultimately show ?thesis using pad4 [of "110 + Suc (length (h_name h))"] by (simp only:)
qed

lemma entry_aligned: "length (entry_bytes e ino payload) mod 4 = 0"
proof -
  have "length (out (cpio_header cpio_new h) @ d @ replicate ((4 - length d mod 4) mod 4) 0) mod 4 = 0" for h and d :: bytes
    using header_aligned [of h] pad4 [of "length d"] by (auto simp: mod_eq_0_iff_dvd add.assoc)
  then show ?thesis
    using header_aligned by (auto simp: entry_bytes_def write_entry_def Let_def cpio_new_def split: prod.split)
qed

lemma pad_to_512_block: "length (out (pad_to_512 c)) mod 512 = 0"
  by (simp add: pad_to_512_def pad512)

section \<open>The order of emission\<close>

text \<open>
  The members of a hard-link group among the first entries, whether a later entry belongs to the
  group of one, and which indices are written when an index is reached, with or without data.
\<close>

definition in_group :: "Entry list \<Rightarrow> key \<Rightarrow> nat \<Rightarrow> bool" where
  "in_group es k j \<longleftrightarrow> grouped (es ! j) \<and> entry_key (es ! j) = k"

definition group_upto :: "Entry list \<Rightarrow> key \<Rightarrow> nat \<Rightarrow> nat list" where
  "group_upto es k i = filter (in_group es k) [0..<i]"

definition later_link :: "Entry list \<Rightarrow> nat \<Rightarrow> bool" where
  "later_link es i \<longleftrightarrow> (\<exists>j < length es. i < j \<and> in_group es (entry_key (es ! i)) j)"

definition emit_at :: "Entry list \<Rightarrow> nat \<Rightarrow> (nat \<times> bool) list" where
  "emit_at es i =
     (if \<not> grouped (es ! i) then [(i, True)]
      else if later_link es i then []
      else map (\<lambda>j. (j, False)) (rev (group_upto es (entry_key (es ! i)) i)) @ [(i, True)])"

definition emit_order :: "Entry list \<Rightarrow> (nat \<times> bool) list" where
  "emit_order es = concat (map (emit_at es) [0..<length es])"

definition emitted :: "Entry list \<Rightarrow> bytes list \<Rightarrow> (nat \<times> bool) list \<Rightarrow> bytes" where
  "emitted es ps order =
     concat (map (\<lambda>(i, d). entry_bytes (es ! i) (the (ino_map es (entry_key (es ! i)))) (if d then ps ! i else [])) order)"

lemma emitted_append [simp]: "emitted es ps (a @ b) = emitted es ps a @ emitted es ps b"
  by (simp add: emitted_def)

lemma group_upto_Suc:
  "group_upto es k (Suc i) = group_upto es k i @ (if in_group es k i then [i] else [])"
  by (simp add: group_upto_def)

lemma group_total_eq:
  "group_total es k = (if group_upto es k (length es) = [] then None else Some (length (group_upto es k (length es))))"
proof (induction es rule: rev_induct)
  case Nil
  then show ?case by (simp add: group_total_def group_upto_def)
next
  case (snoc e es)
  have "group_upto (es @ [e]) k (length es) = group_upto es k (length es)"
    unfolding group_upto_def by (rule filter_cong) (auto simp: in_group_def nth_append)
  then have "group_upto (es @ [e]) k (length (es @ [e])) =
      group_upto es k (length es) @ (if grouped e \<and> entry_key e = k then [length es] else [])"
    by (simp add: group_upto_Suc in_group_def)
  then show ?case using snoc by (auto simp: group_total_def count_group_def)
qed

lemma later_link_iff:
  assumes "i < length es" and "grouped (es ! i)"
  shows "later_link es i \<longleftrightarrow>
    Suc (length (group_upto es (entry_key (es ! i)) i)) < length (group_upto es (entry_key (es ! i)) (length es))"
proof -
  let ?k = "entry_key (es ! i)"
  have "[0..<length es] = [0..<i] @ [i..<length es]"
    using assms(1) upt_add_eq_append [of 0 i "length es - i"] by simp
  then have "[0..<length es] = [0..<i] @ i # [Suc i..<length es]" using assms(1) by (simp add: upt_conv_Cons)
  then have g: "group_upto es ?k (length es) = group_upto es ?k i @ i # filter (in_group es ?k) [Suc i..<length es]"
    using assms(2) by (simp add: group_upto_def in_group_def)
  have "later_link es i \<longleftrightarrow> filter (in_group es ?k) [Suc i..<length es] \<noteq> []"
    by (auto simp: later_link_def filter_empty_conv Suc_le_eq)
  then show ?thesis by (simp add: g)
qed

text \<open>What the loop state holds before index \<open>i\<close>.\<close>

definition seen_at :: "Entry list \<Rightarrow> nat \<Rightarrow> key \<rightharpoonup> nat" where
  "seen_at es i k = (if group_upto es k i = [] then None else Some (length (group_upto es k i)))"

definition deferred_at :: "Entry list \<Rightarrow> nat \<Rightarrow> key \<rightharpoonup> nat list" where
  "deferred_at es i k =
     (if group_upto es k i = [] \<or> length (group_upto es k i) = length (group_upto es k (length es))
      then None else Some (group_upto es k i))"

definition emit_inv :: "Entry list \<Rightarrow> bytes list \<Rightarrow> bytes \<Rightarrow> nat \<Rightarrow> emit_state \<Rightarrow> bool" where
  "emit_inv es ps pre i st \<longleftrightarrow>
     out (em_cpio st) = pre @ emitted es ps (concat (map (emit_at es) [0..<i]))
     \<and> em_seen st = seen_at es i \<and> em_deferred st = deferred_at es i"

lemma out_write_links:
  "write_links c es ino is = Inr c' \<Longrightarrow> out c' = out c @ concat (map (\<lambda>i. entry_bytes (es ! i) ino []) is)"
  by (induction c es ino "is" rule: write_links.induct) (auto simp: bind_result_Inr dest!: out_write_entry)

lemma group_upto_le: "i \<le> n \<Longrightarrow> length (group_upto es k i) \<le> length (group_upto es k n)"
proof (induction n)
  case (Suc n)
  then show ?case by (cases "i = Suc n") (simp_all add: group_upto_Suc le_SucI)
qed simp

lemma group_member:
  "i < length es \<Longrightarrow> in_group es k i \<Longrightarrow> length (group_upto es k i) < length (group_upto es k (length es))"
  using group_upto_le [of "Suc i" "length es" es k] by (simp add: group_upto_Suc)

lemma at_Suc_single:
  assumes "\<not> grouped (es ! i)"
  shows "seen_at es (Suc i) = seen_at es i" and "deferred_at es (Suc i) = deferred_at es i"
  using assms by (auto simp: fun_eq_iff seen_at_def deferred_at_def group_upto_Suc in_group_def)

lemma at_Suc_grouped:
  fixes i :: nat
  assumes "grouped (es ! i)"
  defines "k \<equiv> entry_key (es ! i)"
  defines "g \<equiv> group_upto es k i"
  shows "seen_at es (Suc i) = (seen_at es i)(k \<mapsto> Suc (length g))"
    and "deferred_at es (Suc i) = (deferred_at es i)(k :=
      (if Suc (length g) = length (group_upto es k (length es)) then None else Some (g @ [i])))"
proof -
  have ig: "in_group es k' i \<longleftrightarrow> k' = k" for k' using assms(1) by (auto simp: in_group_def k_def)
  show "seen_at es (Suc i) = (seen_at es i)(k \<mapsto> Suc (length g))"
    by (rule ext) (simp add: seen_at_def group_upto_Suc ig g_def)
  show "deferred_at es (Suc i) = (deferred_at es i)(k :=
      (if Suc (length g) = length (group_upto es k (length es)) then None else Some (g @ [i])))"
    by (rule ext) (simp add: deferred_at_def group_upto_Suc ig g_def)
qed

lemma emit_inv_step:
  assumes inv: "emit_inv es ps pre i st" and i: "i < length es" and step: "emit_one es ps st i = Inr st'"
  shows "emit_inv es ps pre (Suc i) st'"
proof -
  define e where "e = es ! i"
  define k where "k = entry_key e"
  define g where "g = group_upto es k i"
  define tot where "tot = length (group_upto es k (length es))"
  define ino where "ino = the (ino_map es k)"
  note defs = e_def k_def g_def tot_def ino_def
  have o: "out (em_cpio st) = pre @ emitted es ps (concat (map (emit_at es) [0..<i]))"
    and sn: "em_seen st = seen_at es i" and df: "em_deferred st = deferred_at es i"
    using inv unfolding emit_inv_def by blast+
  show ?thesis
  proof (cases "grouped e")
    case False
    from step False obtain c where c: "write_entry (em_cpio st) e ino (ps ! i) = Inr c" "st' = st\<lparr>em_cpio := c\<rparr>"
      by (auto simp: emit_one_def Let_def bind_result_Inr defs)
    have at: "emit_at es i = [(i, True)]" using False by (simp add: emit_at_def e_def)
    show ?thesis
      using o sn df out_write_entry [OF c(1)] at_Suc_single [of es i] False c(2) at
      by (simp add: emit_inv_def e_def [symmetric]) (simp add: emitted_def defs)
  next
    case True
    have ig: "in_group es k i" using True by (simp add: in_group_def defs)
    have t: "the (group_total es k) = tot" "length g < tot"
      using group_member [OF i ig] by (auto simp: group_total_eq tot_def g_def)
    have s: "(case em_seen st k of None \<Rightarrow> 0 | Some n \<Rightarrow> n) + 1 = Suc (length g)" by (simp add: sn seen_at_def g_def)
    have d: "em_deferred st k = (if g = [] then None else Some g)"
      using t(2) by (simp add: df deferred_at_def g_def tot_def)
    note next_at = at_Suc_grouped [of es i, folded e_def, OF True, folded k_def, folded g_def tot_def]
    have ll: "later_link es i \<longleftrightarrow> Suc (length g) < tot" using later_link_iff [OF i] True by (simp add: defs)
    show ?thesis
    proof (cases "Suc (length g) < tot")
      case later: True
      have st': "st' = st\<lparr>em_seen := (em_seen st)(k \<mapsto> Suc (length g)), em_deferred := (em_deferred st)(k \<mapsto> g @ [i])\<rparr>"
        using step True s t(1) later d
        by (auto simp: emit_one_def Let_def e_def [symmetric] k_def [symmetric])
      have at: "emit_at es i = []" using True ll later by (simp add: emit_at_def e_def)
      show ?thesis
        unfolding emit_inv_def next_at st' using o sn df later at by simp
    next
      case False
      then have eq: "Suc (length g) = tot" using t(2) by simp
      from step True s t(1) eq obtain c1 c2 where
        c1: "(case em_deferred st k of Some l \<Rightarrow> write_links (em_cpio st) es ino (rev l) | None \<Rightarrow> Inr (em_cpio st)) = Inr c1" and
        c2: "write_entry c1 e ino (ps ! i) = Inr c2" and
        st': "st' = st\<lparr>em_seen := (em_seen st)(k \<mapsto> Suc (length g)), em_cpio := c2, em_deferred := (em_deferred st)(k := None)\<rparr>"
        by (cases "em_deferred st k")
           (auto simp: emit_one_def Let_def e_def [symmetric] k_def [symmetric] ino_def [symmetric] bind_result_Inr)
      have "out c1 = out (em_cpio st) @ concat (map (\<lambda>j. entry_bytes (es ! j) ino []) (rev g))"
        using c1 d out_write_links by (auto split: if_splits)
      moreover have "map (\<lambda>j. entry_bytes (es ! j) ino []) (rev g) =
          map (\<lambda>j. entry_bytes (es ! j) (the (ino_map es (entry_key (es ! j)))) []) (rev g)"
        by (rule map_cong) (auto simp: g_def ino_def group_upto_def in_group_def)
      moreover have "emit_at es i = map (\<lambda>j. (j, False)) (rev g) @ [(i, True)]"
        using True ll False by (simp add: emit_at_def defs)
      ultimately have "out c2 = out (em_cpio st) @ emitted es ps (emit_at es i)"
        using out_write_entry [OF c2] by (simp add: emitted_def comp_def) (simp add: defs)
      then show ?thesis
        unfolding emit_inv_def next_at st' using o sn df eq by simp
    qed
  qed
qed

lemma emit_loop_inv:
  "emit_inv es ps pre i st \<Longrightarrow> i \<le> length es \<Longrightarrow> emit_loop es ps st [i..<length es] = Inr st' \<Longrightarrow>
     emit_inv es ps pre (length es) st'"
proof (induction "length es - i" arbitrary: i st)
  case 0
  then show ?case by simp
next
  case (Suc n)
  then have i: "i < length es" by simp
  then have "[i..<length es] = i # [Suc i..<length es]" by (rule upt_conv_Cons)
  with Suc.prems(3) obtain st1 where st1: "emit_one es ps st i = Inr st1" "emit_loop es ps st1 [Suc i..<length es] = Inr st'"
    by (auto simp: bind_result_Inr)
  from Suc.hyps(1) [OF _ emit_inv_step [OF Suc.prems(1) i st1(1)] _ st1(2)] Suc.hyps(2) i show ?case by simp
qed

lemma emit_loop_order:
  assumes "emit_loop es ps \<lparr>em_cpio = c, em_deferred = Map.empty, em_seen = Map.empty\<rparr> [0..<length es] = Inr st"
  shows "out (em_cpio st) = out c @ emitted es ps (emit_order es)" and "em_deferred st = Map.empty"
proof -
  have "emit_inv es ps (out c) 0 \<lparr>em_cpio = c, em_deferred = Map.empty, em_seen = Map.empty\<rparr>"
    by (simp add: emit_inv_def group_upto_def emitted_def seen_at_def deferred_at_def fun_eq_iff)
  from emit_loop_inv [OF this _ assms] have f: "emit_inv es ps (out c) (length es) st" by simp
  then show "out (em_cpio st) = out c @ emitted es ps (emit_order es)" by (simp add: emit_inv_def emit_order_def)
  show "em_deferred st = Map.empty" using f by (simp add: emit_inv_def deferred_at_def fun_eq_iff)
qed

section \<open>Every entry once, data with the last link\<close>

lemma emit_at_mem:
  assumes "i < length es"
  shows "(j, d) \<in> set (emit_at es i) \<longleftrightarrow>
    (if d then j = i \<and> \<not> (grouped (es ! i) \<and> later_link es i)
     else j < i \<and> grouped (es ! i) \<and> \<not> later_link es i \<and> in_group es (entry_key (es ! i)) j)"
  by (auto simp: emit_at_def group_upto_def)

lemma emit_at_home:
  assumes "(j, d) \<in> set (emit_at es i)" and "i < length es"
  shows "d \<longrightarrow> i = j" and "j \<le> i" and "\<not> (grouped (es ! i) \<and> later_link es i)"
    and "\<not> d \<longrightarrow> j < i \<and> grouped (es ! i) \<and> grouped (es ! j) \<and> entry_key (es ! j) = entry_key (es ! i)"
  using assms(1) unfolding emit_at_mem [OF assms(2)] by (cases d; simp add: in_group_def)+

text \<open>The index at which an entry is written is unique: its own, or the last link of its group.\<close>

lemma emit_at_order:
  assumes "(j, d) \<in> set (emit_at es i)" "(j, d') \<in> set (emit_at es i')" "i < length es" "i' < length es"
  shows "\<not> i < i'"
proof
  assume less: "i < i'"
  note a = emit_at_home [OF assms(1,3)] and b = emit_at_home [OF assms(2,4)]
  have "\<not> d'" using a(2) b(1) less leD by blast
  then have g: "grouped (es ! i')" "grouped (es ! j)" "entry_key (es ! j) = entry_key (es ! i')" using b(4) by blast+
  have k: "grouped (es ! i) \<and> entry_key (es ! i) = entry_key (es ! j)"
  proof (cases d)
    case True
    then have "i = j" using a(1) by blast
    then show ?thesis using g(2) by simp
  next
    case False
    then show ?thesis using a(4) by simp
  qed
  then have "in_group es (entry_key (es ! i)) i'" using g by (simp add: in_group_def)
  then have "later_link es i" unfolding later_link_def using less assms(4) by blast
  then show False using a(3) k by blast
qed

lemma emit_at_unique:
  assumes "(j, d) \<in> set (emit_at es i)" "(j, d') \<in> set (emit_at es i')" "i < length es" "i' < length es"
  shows "i = i'"
  using emit_at_order [OF assms] emit_at_order [OF assms(2,1,4,3)] by simp

lemma last_of_group:
  assumes "i < length es" and "grouped (es ! i)"
  shows "\<exists>l < length es. i \<le> l \<and> in_group es (entry_key (es ! i)) l \<and> \<not> later_link es l"
proof -
  let ?S = "{j. j < length es \<and> in_group es (entry_key (es ! i)) j}"
  have "i \<in> ?S" using assms by (simp add: in_group_def)
  then have m: "Max ?S \<in> ?S" "i \<le> Max ?S" by (intro Max_in Max_ge; auto)+
  have "\<not> later_link es (Max ?S)"
  proof
    assume "later_link es (Max ?S)"
    then obtain j where "j < length es" "Max ?S < j" "in_group es (entry_key (es ! Max ?S)) j"
      by (auto simp: later_link_def)
    then have "j \<in> ?S" using m(1) by (auto simp: in_group_def)
    then have "j \<le> Max ?S" by (intro Max_ge) auto
    then show False using \<open>Max ?S < j\<close> by simp
  qed
  then show ?thesis using m by blast
qed

lemma emit_at_distinct: "distinct (map fst (emit_at es i))"
  by (auto simp: emit_at_def group_upto_def comp_def)

lemma distinct_concat_map:
  "(\<And>i. i < n \<Longrightarrow> distinct (f i)) \<Longrightarrow>
   (\<And>i j x. i < n \<Longrightarrow> j < n \<Longrightarrow> x \<in> set (f i) \<Longrightarrow> x \<in> set (f j) \<Longrightarrow> i = j) \<Longrightarrow>
   distinct (concat (map f [0..<n]))"
proof (induction n)
  case (Suc n)
  have "distinct (concat (map f [0..<n]))"
  proof (rule Suc.IH)
    show "distinct (f i)" if "i < n" for i using Suc.prems(1) [of i] that by simp
    show "i = j" if "i < n" "j < n" "x \<in> set (f i)" "x \<in> set (f j)" for i j x
      using Suc.prems(2) [of i j x] that by simp
  qed
  moreover have "set (concat (map f [0..<n])) \<inter> set (f n) = {}"
  proof -
    have False if "i < n" "x \<in> set (f i)" "x \<in> set (f n)" for i x
      using Suc.prems(2) [of i n x] that by simp
    then show ?thesis by auto
  qed
  ultimately show ?case using Suc.prems(1) [of n] by simp
qed simp

lemma emit_order_permutation:
  shows "distinct (map fst (emit_order es))" and "set (map fst (emit_order es)) = {..<length es}"
    and "(i, True) \<in> set (emit_order es) \<longleftrightarrow> i < length es \<and> \<not> (grouped (es ! i) \<and> later_link es i)"
proof -
  have m: "map fst (emit_order es) = concat (map (\<lambda>i. map fst (emit_at es i)) [0..<length es])"
    by (simp add: emit_order_def map_concat comp_def)
  show "distinct (map fst (emit_order es))"
    unfolding m
  proof (rule distinct_concat_map)
    fix i j x
    assume "i < length es" "j < length es" "x \<in> set (map fst (emit_at es i))" "x \<in> set (map fst (emit_at es j))"
    then obtain d d' where "(x, d) \<in> set (emit_at es i)" "(x, d') \<in> set (emit_at es j)" by auto
    then show "i = j" using emit_at_unique \<open>i < length es\<close> \<open>j < length es\<close> by blast
  qed (rule emit_at_distinct)
  show "(i, True) \<in> set (emit_order es) \<longleftrightarrow> i < length es \<and> \<not> (grouped (es ! i) \<and> later_link es i)"
    by (auto simp: emit_order_def emit_at_mem)
  show "set (map fst (emit_order es)) = {..<length es}"
  proof
    show "set (map fst (emit_order es)) \<subseteq> {..<length es}"
      by (auto simp: emit_order_def emit_at_mem split: if_splits)
    show "{..<length es} \<subseteq> set (map fst (emit_order es))"
    proof
      fix j assume "j \<in> {..<length es}"
      then have j: "j < length es" by simp
      show "j \<in> set (map fst (emit_order es))"
      proof (cases "grouped (es ! j) \<and> later_link es j")
        case False
        then have "(j, True) \<in> set (emit_at es j)" using j by (simp add: emit_at_mem)
        then show ?thesis using j by (force simp: emit_order_def)
      next
        case True
        then obtain l where l: "l < length es" "j \<le> l" "in_group es (entry_key (es ! j)) l" "\<not> later_link es l"
          using last_of_group [OF j] by blast
        then have "j \<noteq> l" using True by auto
        then have "(j, False) \<in> set (emit_at es l)" using l j True by (auto simp: emit_at_mem in_group_def)
        then show ?thesis using l(1) by (force simp: emit_order_def)
      qed
    qed
  qed
qed

end
