(* ===== verification/CpioProps.thy ===== *)
theory CpioProps
  imports Cpio
begin

text \<open>
  What a cpio segment of a directory tree contains: every entry of the tree outside \<open>/dev\<close>
  exactly once, in the order and with the data placement of the emitter, block-aligned; and that
  the bytes do not depend on the device and inode numbers of the host.
\<close>

section \<open>The entries of a tree\<close>

inductive in_tree :: "bytes \<Rightarrow> fs_node \<Rightarrow> bytes \<Rightarrow> fs_node \<Rightarrow> bool" where
  child: "fs_children d = Some ds \<Longrightarrow> Some (name, n) \<in> set ds \<Longrightarrow> \<not> excluded (rel_join dir name)
    \<Longrightarrow> in_tree dir d (rel_join dir name) n"
| below: "fs_children d = Some ds \<Longrightarrow> Some (name, n) \<in> set ds \<Longrightarrow> \<not> excluded (rel_join dir name)
    \<Longrightarrow> fs_meta n = Some m \<Longrightarrow> e_is_dir (entry_of (rel_join dir name) m)
    \<Longrightarrow> in_tree (rel_join dir name) n rel n' \<Longrightarrow> in_tree dir d rel n'"

definition entries_of :: "bytes \<Rightarrow> fs_node \<Rightarrow> Entry set" where
  "entries_of dir d = {entry_of rel m | rel n m. in_tree dir d rel n \<and> fs_meta n = Some m}"

text \<open>The entries one listed node contributes.\<close>

definition listed :: "bytes \<Rightarrow> bytes \<times> fs_node \<Rightarrow> Entry set" where
  "listed dir x =
     (if excluded (rel_join dir (fst x)) then {}
      else case fs_meta (snd x) of
             None \<Rightarrow> {}
           | Some m \<Rightarrow> insert (entry_of (rel_join dir (fst x)) m)
               (if e_is_dir (entry_of (rel_join dir (fst x)) m) then entries_of (rel_join dir (fst x)) (snd x) else {}))"

lemma entries_of_children:
  assumes "fs_children d = Some ds"
  shows "entries_of dir d = (\<Union>x \<in> {x. Some x \<in> set ds}. listed dir x)"
proof (intro equalityI subsetI)
  fix e assume "e \<in> entries_of dir d"
  then obtain rel n m where e: "e = entry_of rel m" "in_tree dir d rel n" "fs_meta n = Some m"
    by (auto simp: entries_of_def)
  from e(2) show "e \<in> (\<Union>x \<in> {x. Some x \<in> set ds}. listed dir x)"
  proof (cases rule: in_tree.cases)
    case (child ds' name)
    then have "e \<in> listed dir (name, n)" using e by (simp add: listed_def)
    then show ?thesis using child assms by auto
  next
    case (below ds' name n1 m1)
    then have "e \<in> listed dir (name, n1)" using e by (auto simp: listed_def entries_of_def)
    then show ?thesis using below assms by auto
  qed
next
  fix e assume "e \<in> (\<Union>x \<in> {x. Some x \<in> set ds}. listed dir x)"
  then obtain name n where x: "Some (name, n) \<in> set ds" "e \<in> listed dir (name, n)" by auto
  then obtain m where m: "\<not> excluded (rel_join dir name)" "fs_meta n = Some m"
    by (auto simp: listed_def split: if_splits option.splits)
  show "e \<in> entries_of dir d"
  proof (cases "e = entry_of (rel_join dir name) m")
    case True
    then show ?thesis using in_tree.child [OF assms x(1) m(1)] m(2) by (auto simp: entries_of_def)
  next
    case False
    then have dir: "e_is_dir (entry_of (rel_join dir name) m)" "e \<in> entries_of (rel_join dir name) n"
      using x(2) m by (auto simp: listed_def split: if_splits)
    then show ?thesis
      using in_tree.below [OF assms x(1) m(1,2) dir(1)] unfolding entries_of_def mem_Collect_eq by blast
  qed
qed

definition stack_entries :: "(bytes \<times> fs_node) list \<Rightarrow> Entry set" where
  "stack_entries stack = (\<Union>(dir, d) \<in> set stack. entries_of dir d)"

lemma stack_entries_Cons [simp]: "stack_entries ((dir, d) # stack) = entries_of dir d \<union> stack_entries stack"
  by (simp add: stack_entries_def)

lemma scan_dir_entries:
  "scan_dir dir ds es stack = Inr (es', stack') \<Longrightarrow>
     set es' \<union> stack_entries stack' = set es \<union> stack_entries stack \<union> (\<Union>x \<in> {x. Some x \<in> set ds}. listed dir x)"
proof (induction dir ds es stack rule: scan_dir.induct)
  case (3 dir name node ds es stack)
  have un: "(\<Union>x \<in> {x. Some x \<in> set (Some (name, node) # ds)}. listed dir x) =
      listed dir (name, node) \<union> (\<Union>x \<in> {x. Some x \<in> set ds}. listed dir x)" by auto
  show ?case
  proof (cases "excluded (rel_join dir name)")
    case True
    then show ?thesis using 3 un by (simp add: listed_def Let_def)
  next
    case False
    with 3 obtain m where m: "fs_meta node = Some m" by (auto simp: Let_def split: option.splits)
    let ?e = "entry_of (rel_join dir name) m"
    have "set es' \<union> stack_entries stack' = set (es @ [?e]) \<union>
        stack_entries (if e_is_dir ?e then (rel_join dir name, node) # stack else stack)
        \<union> (\<Union>x \<in> {x. Some x \<in> set ds}. listed dir x)"
      using 3 False m by (simp add: Let_def)
    then show ?thesis using False m unfolding un by (auto simp: listed_def)
  qed
qed simp_all

lemma collect_loop_entries:
  "collect_loop stack es = Inr es' \<Longrightarrow> set es' = set es \<union> stack_entries stack"
proof (induction stack es rule: collect_loop.induct)
  case (1 es)
  then show ?case by (simp add: stack_entries_def)
next
  case (2 dir node stack es)
  then obtain ds es1 stack1 where ds: "fs_children node = Some ds" "scan_dir dir ds es stack = Inr (es1, stack1)"
    "collect_loop stack1 es1 = Inr es'"
    by (auto split: option.splits sum.splits)
  then have "set es' = set es1 \<union> stack_entries stack1" using "2.IH" by blast
  then show ?case using scan_dir_entries [OF ds(2)] entries_of_children [OF ds(1), of dir] by auto
qed

lemma collect_spec:
  assumes "collect root = Inr es"
  shows "sorted (map e_name es)" and "set es = entries_of [] root"
proof -
  obtain es0 where c: "collect_loop [([], root)] [] = Inr es0" "es = sort_key e_name es0"
    using assms by (cases "collect_loop [([], root)] []") (simp_all add: collect_def del: collect_loop.simps)
  show "sorted (map e_name es)" by (simp add: c(2))
  show "set es = entries_of [] root" using collect_loop_entries [OF c(1)] by (simp add: c(2) stack_entries_def)
qed

section \<open>Host numbers do not matter\<close>

definition rename_meta :: "(key \<Rightarrow> key) \<Rightarrow> metadata \<Rightarrow> metadata" where
  "rename_meta f m = m\<lparr>md_dev := fst (f (md_dev m, md_ino m)), md_ino := snd (f (md_dev m, md_ino m))\<rparr>"

primrec rename_tree :: "(key \<Rightarrow> key) \<Rightarrow> fs_node \<Rightarrow> fs_node" where
  "rename_tree f (FsNode m cs) =
     FsNode (map_option (rename_meta f) m) (map_option (map (map_option (map_prod id (rename_tree f)))) cs)"

definition rename_entry :: "(key \<Rightarrow> key) \<Rightarrow> Entry \<Rightarrow> Entry" where
  "rename_entry f e = e\<lparr>e_dev := fst (f (entry_key e)), e_ino := snd (f (entry_key e))\<rparr>"

lemma rename_entry_fields [simp]:
  "e_name (rename_entry f e) = e_name e" "e_rdev (rename_entry f e) = e_rdev e" "e_nlink (rename_entry f e) = e_nlink e"
  "e_mode (rename_entry f e) = e_mode e" "e_is_dir (rename_entry f e) = e_is_dir e"
  "entry_key (rename_entry f e) = f (entry_key e)" "grouped (rename_entry f e) = grouped e"
  by (simp_all add: rename_entry_def entry_key_def grouped_def)

lemma entry_of_rename: "entry_of rel (rename_meta f m) = rename_entry f (entry_of rel m)"
  by (simp add: entry_of_def rename_meta_def rename_entry_def entry_key_def)

definition rename_node :: "(key \<Rightarrow> key) \<Rightarrow> bytes \<times> fs_node \<Rightarrow> bytes \<times> fs_node" where
  "rename_node f = map_prod id (rename_tree f)"

lemma rename_node_pair [simp]: "rename_node f (name, n) = (name, rename_tree f n)"
  by (simp add: rename_node_def)

lemma rename_tree_fields:
  "fs_meta (rename_tree f n) = map_option (rename_meta f) (fs_meta n)"
  "fs_children (rename_tree f n) = map_option (map (map_option (rename_node f))) (fs_children n)"
  unfolding rename_node_def
  by (cases n; simp)+


lemma scan_dir_rename:
  "scan_dir dir (map (map_option (rename_node f)) ds) (map (rename_entry f) es) (map (rename_node f) stack) =
     map_sum id (map_prod (map (rename_entry f)) (map (rename_node f))) (scan_dir dir ds es stack)"
proof (induction dir ds es stack rule: scan_dir.induct)
  case (3 dir name node ds es stack)
  show ?case
  proof (cases "fs_meta node")
    case None
    then show ?thesis using 3 by (simp add: rename_tree_fields Let_def)
  next
    case (Some m)
    show ?thesis
    proof (cases "excluded (rel_join dir name)")
      case True
      then show ?thesis using 3 by (simp add: Let_def)
    next
      case False
      from "3.IH"(2) [OF refl False Some refl] show ?thesis
        using Some False by (simp add: rename_tree_fields entry_of_rename Let_def split: if_splits)
    qed
  qed
qed simp_all

lemma collect_loop_rename:
  "collect_loop (map (rename_node f) stack) (map (rename_entry f) es) = map_sum id (map (rename_entry f)) (collect_loop stack es)"
proof (induction stack es rule: collect_loop.induct)
  case (2 dir node stack es)
  show ?case
  proof (cases "fs_children node")
    case None
    then show ?thesis by (simp add: rename_tree_fields)
  next
    case (Some ds)
    show ?thesis
    proof (cases "scan_dir dir ds es stack")
      case (Inl e)
      then show ?thesis using Some by (simp add: rename_tree_fields scan_dir_rename)
    next
      case (Inr x)
      then show ?thesis
        using Some "2.IH" [OF Some Inr] by (cases x) (simp add: rename_tree_fields scan_dir_rename)
    qed
  qed
qed simp

lemma insort_key_rename:
  "insort_key e_name (rename_entry f x) (map (rename_entry f) xs) = map (rename_entry f) (insort_key e_name x xs)"
  by (induction xs) auto

lemma sort_key_rename: "sort_key e_name (map (rename_entry f) xs) = map (rename_entry f) (sort_key e_name xs)"
  by (induction xs) (auto simp: insort_key_rename)

lemma collect_rename: "collect (rename_tree f root) = map_sum id (map (rename_entry f)) (collect root)"
  using collect_loop_rename [of f "[([], root)]" "[]"]
  by (simp add: collect_def sort_key_rename split: sum.split)

text \<open>A table under renamed keys.\<close>

definition renamed :: "(key \<Rightarrow> key) \<Rightarrow> (key \<rightharpoonup> 'v) \<Rightarrow> (key \<rightharpoonup> 'v) \<Rightarrow> bool" where
  "renamed f m m' \<longleftrightarrow> (\<forall>k. m' (f k) = m k)"

lemma renamed_get: "renamed f m m' \<Longrightarrow> m' (f k) = m k"
  unfolding renamed_def by blast

lemma renamed_upd: "inj f \<Longrightarrow> renamed f m m' \<Longrightarrow> renamed f (m(k := v)) (m'(f k := v))"
  unfolding renamed_def by (simp add: inj_eq)

lemma renamed_empty: "renamed f Map.empty Map.empty"
  by (simp add: renamed_def)

lemma ino_map_rename:
  assumes "inj f"
  shows "renamed f (ino_map es) (ino_map (map (rename_entry f) es))"
proof -
  have "renamed f (fst (foldl number_inode (Map.empty, 0) es)) (fst (foldl number_inode (Map.empty, 0) (map (rename_entry f) es)))
    \<and> snd (foldl number_inode (Map.empty, 0) (map (rename_entry f) es)) = snd (foldl number_inode (Map.empty, 0) es)"
  proof (induction es rule: rev_induct)
    case (snoc e es)
    obtain m n where a: "foldl number_inode (Map.empty, 0) es = (m, n)" by fastforce
    obtain m' n' where b: "foldl number_inode (Map.empty, 0) (map (rename_entry f) es) = (m', n')" by fastforce
    have r: "renamed f m m'" "n' = n" using snoc a b by simp_all
    have "foldl number_inode (Map.empty, 0) (es @ [e]) = number_inode (m, n) e"
      "foldl number_inode (Map.empty, 0) (map (rename_entry f) (es @ [e])) = number_inode (m', n) (rename_entry f e)"
      using a b r(2) by simp_all
    moreover have "renamed f (fst (number_inode (m, n) e)) (fst (number_inode (m', n) (rename_entry f e)))
      \<and> snd (number_inode (m', n) (rename_entry f e)) = snd (number_inode (m, n) e)"
      using renamed_get [OF r(1), of "entry_key e"] renamed_upd [OF assms r(1), of "entry_key e" "Some n"] r(1)
      by (cases "m (entry_key e)") (simp_all add: number_inode_def Let_def)
    ultimately show ?case by simp
  qed (simp add: renamed_empty)
  then show ?thesis by (simp add: ino_map_def)
qed

lemma group_total_rename:
  assumes "inj f"
  shows "renamed f (group_total es) (group_total (map (rename_entry f) es))"
proof (induction es rule: rev_induct)
  case (snoc e es)
  define m where "m = group_total es"
  define m' where "m' = group_total (map (rename_entry f) es)"
  have r: "renamed f m m'" using snoc by (simp add: m_def m'_def)
  have "group_total (es @ [e]) = count_group m e"
    "group_total (map (rename_entry f) (es @ [e])) = count_group m' (rename_entry f e)"
    by (simp_all add: group_total_def m_def m'_def)
  moreover have "renamed f (count_group m e) (count_group m' (rename_entry f e))"
    using r renamed_get [OF r, of "entry_key e"]
      renamed_upd [OF assms r, of "entry_key e" "Some ((case m (entry_key e) of None \<Rightarrow> 0 | Some n \<Rightarrow> n) + 1)"]
    unfolding count_group_def rename_entry_fields by (simp only: if_splits) simp
  ultimately show ?case by simp
qed (simp add: group_total_def renamed_empty)

lemma write_entry_rename [simp]: "write_entry c (rename_entry f e) ino p = write_entry c e ino p"
  by (cases "rdev_of (e_rdev e) (e_mode e)") (simp add: write_entry_def)

lemma read_payload_rename [simp]: "read_payload content (rename_entry f e) = read_payload content e"
  by (cases "content (e_name e)") (simp_all add: read_payload_def Let_def)

lemma write_links_rename:
  "\<forall>i \<in> set is. i < length es \<Longrightarrow> write_links c (map (rename_entry f) es) ino is = write_links c es ino is"
  by (induction c es ino "is" rule: write_links.induct) (auto simp: bind_result_def split: sum.split)

definition same_emit :: "(key \<Rightarrow> key) \<Rightarrow> nat \<Rightarrow> emit_state \<Rightarrow> emit_state \<Rightarrow> bool" where
  "same_emit f n st st' \<longleftrightarrow> em_cpio st' = em_cpio st \<and> renamed f (em_seen st) (em_seen st')
     \<and> renamed f (em_deferred st) (em_deferred st')
     \<and> (\<forall>k l. em_deferred st k = Some l \<longrightarrow> (\<forall>i \<in> set l. i < n))"

definition both :: "('a \<Rightarrow> 'b \<Rightarrow> bool) \<Rightarrow> 'e + 'a \<Rightarrow> 'e + 'b \<Rightarrow> bool" where
  "both R x y \<longleftrightarrow> (case (x, y) of (Inl e, Inl e') \<Rightarrow> e = e' | (Inr a, Inr b) \<Rightarrow> R a b | _ \<Rightarrow> False)"

lemma both_simps [simp]: "both R (Inl e) (Inl e') \<longleftrightarrow> e = e'" "both R (Inr a) (Inr b) \<longleftrightarrow> R a b"
  "\<not> both R (Inl e) (Inr b)" "\<not> both R (Inr a) (Inl e')"
  by (simp_all add: both_def)

lemma both_bind:
  "both R x y \<Longrightarrow> (\<And>a b. R a b \<Longrightarrow> both S (k a) (k' b)) \<Longrightarrow> both S (bind_result x k) (bind_result y k')"
  by (cases x; cases y) auto

lemma both_refl [simp]: "both (=) x x"
  by (cases x) simp_all

lemma both_same: "(\<And>a. x = Inr a \<Longrightarrow> R a a) \<Longrightarrow> both R x x"
  by (cases x) auto

lemma emit_one_rename:
  assumes f: "inj f" and st: "same_emit f n st st'" and i: "i < n" "n = length es"
  shows "both (same_emit f n) (emit_one es ps st i) (emit_one (map (rename_entry f) es) ps st' i)"
proof -
  define e where "e = es ! i"
  define k where "k = entry_key e"
  have e': "map (rename_entry f) es ! i = rename_entry f e" using i by (simp add: e_def)
  have c: "em_cpio st' = em_cpio st" and sn: "renamed f (em_seen st) (em_seen st')"
    and df: "renamed f (em_deferred st) (em_deferred st')"
    and bd: "\<And>k l. em_deferred st k = Some l \<Longrightarrow> \<forall>i \<in> set l. i < n"
    using st unfolding same_emit_def by blast+
  have ino: "ino_map (map (rename_entry f) es) (f k) = ino_map es k"
    using renamed_get [OF ino_map_rename [OF f]] .
  have tot: "group_total (map (rename_entry f) es) (f k) = group_total es k"
    using renamed_get [OF group_total_rename [OF f]] .
  have get: "em_seen st' (f k) = em_seen st k" "em_deferred st' (f k) = em_deferred st k"
    using renamed_get [OF sn] renamed_get [OF df] by blast+
  define s where "s = (case em_seen st k of None \<Rightarrow> 0 | Some n \<Rightarrow> n) + 1"
  define links where "links = (case em_deferred st k of None \<Rightarrow> [] | Some l \<Rightarrow> l)"
  have lb: "\<forall>i \<in> set links. i < n" using bd [of k] by (cases "em_deferred st k") (simp_all add: links_def)
  note one = emit_one_def Let_def e_def [symmetric] k_def [symmetric] e'
  show ?thesis
  proof (cases "grouped e")
    case False
    have "both (same_emit f n)
      (bind_result (write_entry (em_cpio st) e (the (ino_map es k)) (ps ! i)) (\<lambda>c. Inr (st\<lparr>em_cpio := c\<rparr>)))
      (bind_result (write_entry (em_cpio st) e (the (ino_map es k)) (ps ! i)) (\<lambda>c. Inr (st'\<lparr>em_cpio := c\<rparr>)))"
      by (rule both_bind [where R = "(=)"], rule both_same) (use st in \<open>simp_all add: same_emit_def\<close>)
    then show ?thesis using False by (simp add: one ino c)
  next
    case True
    show ?thesis
    proof (cases "s < the (group_total es k)")
      case later: True
      have "same_emit f n (st\<lparr>em_seen := (em_seen st)(k \<mapsto> s), em_deferred := (em_deferred st)(k \<mapsto> links @ [i])\<rparr>)
        (st'\<lparr>em_seen := (em_seen st')(f k \<mapsto> s), em_deferred := (em_deferred st')(f k \<mapsto> links @ [i])\<rparr>)"
        unfolding same_emit_def using c renamed_upd [OF f sn] renamed_upd [OF f df] bd lb i by auto
      then show ?thesis
        using True later by (simp add: one tot get s_def [symmetric, unfolded add_0_right] links_def s_def)
    next
      case last: False
      have wl: "(case em_deferred st k of Some l \<Rightarrow> write_links (em_cpio st) (map (rename_entry f) es) (the (ino_map es k)) (rev l)
            | None \<Rightarrow> Inr (em_cpio st))
          = (case em_deferred st k of Some l \<Rightarrow> write_links (em_cpio st) es (the (ino_map es k)) (rev l) | None \<Rightarrow> Inr (em_cpio st))"
        using write_links_rename [of "rev links" es] lb i by (cases "em_deferred st k") (simp_all add: links_def)
      have fin: "same_emit f n (st\<lparr>em_seen := (em_seen st)(k \<mapsto> s), em_cpio := c2, em_deferred := (em_deferred st)(k := None)\<rparr>)
        (st'\<lparr>em_seen := (em_seen st')(f k \<mapsto> s), em_cpio := c2, em_deferred := (em_deferred st')(f k := None)\<rparr>)" for c2
        unfolding same_emit_def using renamed_upd [OF f sn] renamed_upd [OF f df] bd by auto
      let ?L = "case em_deferred st k of Some l \<Rightarrow> write_links (em_cpio st) es (the (ino_map es k)) (rev l) | None \<Rightarrow> Inr (em_cpio st)"
      have "both (same_emit f n)
        (bind_result ?L (\<lambda>c. bind_result (write_entry c e (the (ino_map es k)) (ps ! i)) (\<lambda>c.
           Inr (st\<lparr>em_seen := (em_seen st)(k \<mapsto> s), em_cpio := c, em_deferred := (em_deferred st)(k := None)\<rparr>))))
        (bind_result ?L (\<lambda>c. bind_result (write_entry c e (the (ino_map es k)) (ps ! i)) (\<lambda>c.
           Inr (st'\<lparr>em_seen := (em_seen st')(f k \<mapsto> s), em_cpio := c, em_deferred := (em_deferred st')(f k := None)\<rparr>))))"
        by (intro both_bind [where R = "(=)"]) (use fin in simp_all)
      then show ?thesis
        using True last wl by (cases "em_deferred st k") (simp_all add: one tot get ino c s_def)
    qed
  qed
qed

lemma emit_loop_rename:
  "inj f \<Longrightarrow> same_emit f (length es) st st' \<Longrightarrow> \<forall>i \<in> set is. i < length es \<Longrightarrow>
   both (same_emit f (length es)) (emit_loop es ps st is) (emit_loop (map (rename_entry f) es) ps st' is)"
proof (induction "is" arbitrary: st st')
  case (Cons i "is")
  have "both (same_emit f (length es)) (emit_one es ps st i) (emit_one (map (rename_entry f) es) ps st' i)"
    using Cons.prems by (intro emit_one_rename) simp_all
  then have "both (same_emit f (length es)) (bind_result (emit_one es ps st i) (\<lambda>st. emit_loop es ps st is))
      (bind_result (emit_one (map (rename_entry f) es) ps st' i) (\<lambda>st. emit_loop (map (rename_entry f) es) ps st is))"
    by (rule both_bind) (use Cons in simp)
  then show ?case by simp
qed simp

section \<open>Properties\<close>

definition sample_meta :: "u32 \<Rightarrow> u64 \<Rightarrow> u64 \<Rightarrow> metadata" where
  "sample_meta mode ino links = \<lparr>md_mode = mode, md_dev = 9, md_ino = ino, md_rdev = 0, md_nlink = links\<rparr>"

text \<open>A directory with two links \<open>a\<close>, \<open>b\<close> of one file and a \<open>dev\<close> that is left out.\<close>

definition sample_tree :: fs_node where
  "sample_tree = FsNode (Some (sample_meta 0x41ed 1 3)) (Some
     [Some (ascii ''b'', FsNode (Some (sample_meta 0x81a4 7 2)) None),
      Some (ascii ''dev'', FsNode None None),
      Some (ascii ''a'', FsNode (Some (sample_meta 0x81a4 7 2)) None)])"

text \<open>
  C28. The archive bytes of a tree do not depend on the device and inode numbers the host gave
  its files: renaming them by any injective map (which keeps apart what was apart and together
  what was together) gives the same bytes, and the same error if the walk fails.
\<close>

theorem rootfs_host_independent:
  assumes "inj f"
  shows "rootfs_segment content (rename_tree f root) = rootfs_segment content root"
proof (cases "collect root")
  case (Inl e)
  then show ?thesis by (simp add: rootfs_segment_def write_rootfs_segment_def collect_rename)
next
  case (Inr es)
  let ?ps = "sequence_results (map (read_payload content) es)"
  have pay: "map (read_payload content) (map (rename_entry f) es) = map (read_payload content) es" by simp
  let ?st = "\<lparr>em_cpio = cpio_new, em_deferred = Map.empty, em_seen = Map.empty\<rparr>"
  have "same_emit f (length es) ?st ?st" by (simp add: same_emit_def renamed_empty)
  then have loop: "both (same_emit f (length es)) (emit_loop es ps ?st [0..<length es])
      (emit_loop (map (rename_entry f) es) ps ?st [0..<length es])" for ps
    using emit_loop_rename [OF assms] by simp
  have "bind_result (emit_loop (map (rename_entry f) es) ps ?st [0..<length es]) (\<lambda>st. Inr (pad_to_512 (cpio_trailer (em_cpio st))))
      = bind_result (emit_loop es ps ?st [0..<length es]) (\<lambda>st. Inr (pad_to_512 (cpio_trailer (em_cpio st))))" for ps
    using loop [of ps]
    by (cases "emit_loop es ps ?st [0..<length es]"; cases "emit_loop (map (rename_entry f) es) ps ?st [0..<length es]")
       (simp_all add: same_emit_def)
  then show ?thesis
    using Inr by (simp add: rootfs_segment_def write_rootfs_segment_def collect_rename pay del: map_map)
qed

theorem rootfs_host_independent_witness:
  "rootfs_segment (\<lambda>p. Some [104, 105]) (rename_tree (\<lambda>(d, i). (i, d)) sample_tree)
     = rootfs_segment (\<lambda>p. Some [104, 105]) sample_tree"
  by (rule rootfs_host_independent) (auto simp: inj_def)

text \<open>
  C29. A successful segment holds every entry of the tree outside \<open>/dev\<close> exactly once: the bytes
  are the entries in emission order, the trailer and padding to a 512-byte block; the emission
  order is a permutation of the name-sorted entries; an entry carries its payload unless it is a
  hard link with a later link in the tree; and no deferred link is left over.
\<close>

theorem rootfs_segment_contents:
  assumes "rootfs_segment content root = Inr bs"
  shows "\<exists>es ps pad. collect root = Inr es \<and> sorted (map e_name es) \<and> set es = entries_of [] root
    \<and> sequence_results (map (read_payload content) es) = Inr ps
    \<and> bs = emitted es ps (emit_order es) @ out (cpio_trailer cpio_new) @ replicate pad 0
    \<and> length bs mod 512 = 0
    \<and> distinct (map fst (emit_order es)) \<and> set (map fst (emit_order es)) = {..<length es}
    \<and> (\<forall>i < length es. (i, True) \<in> set (emit_order es) \<longleftrightarrow> \<not> (grouped (es ! i) \<and> later_link es i))"
proof -
  from assms obtain es ps st where c: "collect root = Inr es"
    and p: "sequence_results (map (read_payload content) es) = Inr ps"
    and l: "emit_loop es ps \<lparr>em_cpio = cpio_new, em_deferred = Map.empty, em_seen = Map.empty\<rparr> [0..<length es] = Inr st"
    and b: "bs = out (pad_to_512 (cpio_trailer (em_cpio st)))"
    by (auto simp: rootfs_segment_def write_rootfs_segment_def bind_result_Inr)
  have "out (em_cpio st) = emitted es ps (emit_order es)"
    using emit_loop_order(1) [OF l] by (simp add: cpio_new_def)
  then have t: "out (cpio_trailer (em_cpio st)) = emitted es ps (emit_order es) @ out (cpio_trailer cpio_new)"
    unfolding cpio_trailer_def by (subst out_cpio_header) simp
  obtain pad where bs: "bs = emitted es ps (emit_order es) @ out (cpio_trailer cpio_new) @ replicate pad 0"
    unfolding b pad_to_512_def by (simp add: t)
  have m: "length bs mod 512 = 0" unfolding b by (rule pad_to_512_block)
  have d: "\<forall>i < length es. (i, True) \<in> set (emit_order es) \<longleftrightarrow> \<not> (grouped (es ! i) \<and> later_link es i)"
    using emit_order_permutation(3) [where es = es] by blast
  show ?thesis
    by (rule exI [of _ es], rule exI [of _ ps], rule exI [of _ pad], intro conjI)
       (fact c collect_spec [OF c] p bs m emit_order_permutation(1,2) d)+
qed

lemma sample_collect:
  "collect sample_tree = Inr [entry_of (ascii ''a'') (sample_meta 0x81a4 7 2), entry_of (ascii ''b'') (sample_meta 0x81a4 7 2)]"
  by (simp add: collect_def sample_tree_def sample_meta_def entry_of_def rel_join_def excluded_def ascii_def Let_def
      const_defs)

lemma sample_segment: "\<exists>bs. rootfs_segment (\<lambda>p. Some [104, 105]) sample_tree = Inr bs"
proof -
  define a where "a = entry_of (ascii ''a'') (sample_meta 0x81a4 7 2)"
  define b where "b = entry_of (ascii ''b'') (sample_meta 0x81a4 7 2)"
  define es where "es = [a, b]"
  have f: "entry_key a = (9, 7)" "entry_key b = (9, 7)" "grouped a" "grouped b"
    by (simp_all add: a_def b_def entry_of_def sample_meta_def entry_key_def grouped_def const_defs)
  have col: "collect sample_tree = Inr es" by (simp add: sample_collect es_def a_def b_def)
  have pay: "sequence_results (map (read_payload (\<lambda>p. Some [104, 105])) es) = Inr [[104, 105], [104, 105]]"
    by (simp add: es_def a_def b_def read_payload_def entry_of_def sample_meta_def const_defs)
  have w: "\<exists>c'. write_entry c e ino p = Inr c'" if "length p < 10" for c e ino p
    using that by (simp add: write_entry_def Let_def split: prod.split)
  have t: "group_total es (9, 7) = Some 2" by (simp add: group_total_def count_group_def f es_def)
  define ino where "ino = the (ino_map es (9, 7))"
  have nth: "es ! 0 = a" "es ! Suc 0 = b" "length es = 2" by (simp_all add: es_def)
  have w0: "\<exists>c'. write_entry c e i [] = Inr c'" for c e i by (rule w) simp
  have w1: "\<exists>c'. write_entry c e i [104, 105] = Inr c'" for c e i by (rule w) simp
  obtain c1 where c1: "write_entry cpio_new a ino [] = Inr c1" using w0 by blast
  obtain c2 where c2: "write_entry c1 b ino [104, 105] = Inr c2" using w1 by blast
  let ?st = "\<lparr>em_cpio = cpio_new, em_deferred = Map.empty, em_seen = Map.empty\<rparr>"
  have "\<exists>st. emit_loop es [[104, 105], [104, 105]] ?st [0, Suc 0] = Inr st"
    by (simp add: emit_one_def Let_def nth f t ino_def [symmetric] c1 c2)
  moreover have "[0..<length es] = [0, Suc 0]" by (simp add: nth upt_rec)
  ultimately show ?thesis by (auto simp: rootfs_segment_def write_rootfs_segment_def col pay)
qed

theorem rootfs_segment_contents_witness:
  "\<exists>bs. rootfs_segment (\<lambda>p. Some [104, 105]) sample_tree = Inr bs \<and> length bs mod 512 = 0"
  using sample_segment rootfs_segment_contents by blast

end
