(* ===== verification/Serial.thy ===== *)
theory Serial
  imports Ioapic "HOL-Library.Sublist"
begin

text \<open>
  The serial ports of \<open>src/src/serial.rs\<close> and the port numbers of \<open>src/src/arch.rs\<close>.
  The 16550 itself is the \<open>vm-superio\<close> crate, so it is the parameter \<open>Uart\<close> of the
  definitions below: register writes (which may hand bytes to the port's writer), register
  reads, the free space of the receive FIFO, filling the FIFO, and reading the eventfd its
  trigger writes. What the crate documents about its FIFO is the predicate \<open>uart_fifo\<close>,
  stated over a function that gives the bytes the guest has yet to read.

  The theory also models the two writers the program attaches to its ports: the console
  writer with its bounded tee, and the sink that captures the guest's output.
\<close>

section \<open>Ports\<close>

definition SERIAL_PORT_BASE :: u16 where [const_defs]: "SERIAL_PORT_BASE = 0x3f8"
definition SERIAL_IRQ :: u32 where [const_defs]: "SERIAL_IRQ = 4"
definition SERIAL2_PORT_BASE :: u16 where [const_defs]: "SERIAL2_PORT_BASE = 0x2f8"
definition SERIAL2_IRQ :: u32 where [const_defs]: "SERIAL2_IRQ = 3"
definition SERIAL4_PORT_BASE :: u16 where [const_defs]: "SERIAL4_PORT_BASE = 0x2e8"
definition SERIAL4_IRQ :: u32 where [const_defs]: "SERIAL4_IRQ = 3"
definition POST_PORT :: u16 where [const_defs]: "POST_PORT = 0x80"
definition CONSOLE_TEE_CAP :: nat where [const_defs]: "CONSOLE_TEE_CAP = 2 ^ 20"

definition is_serial :: "u16 \<Rightarrow> bool" where
  "is_serial port \<longleftrightarrow> SERIAL_PORT_BASE \<le> port \<and> port < SERIAL_PORT_BASE + 8"

section \<open>The UART\<close>

record 'u Uart =
  uart_write :: "'u \<Rightarrow> u8 \<Rightarrow> u8 \<Rightarrow> bytes \<times> 'u"
  uart_read :: "'u \<Rightarrow> u8 \<Rightarrow> u8 \<times> 'u"
  fifo_capacity :: "'u \<Rightarrow> nat"
  enqueue_raw_bytes :: "'u \<Rightarrow> bytes \<Rightarrow> nat option \<times> 'u"
  uart_drain :: "'u \<Rightarrow> bool \<times> 'u"

text \<open>
  The FIFO law: filling appends the accepted prefix, a register read takes at most the oldest
  byte (and then returns it), and reading the eventfd leaves the FIFO alone.
\<close>

definition uart_fifo :: "'u Uart \<Rightarrow> ('u \<Rightarrow> bytes) \<Rightarrow> bool" where
  "uart_fifo U fifo \<longleftrightarrow>
     (\<forall>u bs n u'. enqueue_raw_bytes U u bs = (Some n, u') \<longrightarrow> n \<le> length bs \<and> fifo u' = fifo u @ take n bs)
   \<and> (\<forall>u bs u'. enqueue_raw_bytes U u bs = (None, u') \<longrightarrow> fifo u' = fifo u)
   \<and> (\<forall>u off v u'. uart_read U u off = (v, u') \<longrightarrow> fifo u' = fifo u \<or> fifo u = v # fifo u')
   \<and> (\<forall>u p u'. uart_drain U u = (p, u') \<longrightarrow> fifo u' = fifo u)"

lemma uart_fifoD:
  assumes "uart_fifo U fifo"
  shows "enqueue_raw_bytes U u bs = (Some n, u') \<Longrightarrow> n \<le> length bs \<and> fifo u' = fifo u @ take n bs"
    and "enqueue_raw_bytes U u bs = (None, u') \<Longrightarrow> fifo u' = fifo u"
    and "uart_read U u off = (v, u') \<Longrightarrow> fifo u' = fifo u \<or> fifo u = v # fifo u'"
    and "uart_drain U u = (p, u') \<Longrightarrow> fifo u' = fifo u"
  using assms by (simp_all add: uart_fifo_def)

text \<open>A concrete port: a 64-byte FIFO and a pending-interrupt flag.\<close>

definition sample_uart :: "(bytes \<times> bool) Uart" where
  "sample_uart = \<lparr>
     uart_write = (\<lambda>(q, p) off v. (if off = 0 then [v] else [], (q, p))),
     uart_read = (\<lambda>(q, p) off. if off = 0 \<and> q \<noteq> [] then (hd q, (tl q, p)) else (0, (q, p))),
     fifo_capacity = (\<lambda>(q, p). 64 - length q),
     enqueue_raw_bytes = (\<lambda>(q, p) bs. if length q \<ge> 64 \<and> bs \<noteq> [] then (None, (q, p))
        else (Some (min (64 - length q) (length bs)), (q @ take (64 - length q) bs, True))),
     uart_drain = (\<lambda>(q, p). (p, (q, False)))\<rparr>"

lemma sample_uart_fifo: "uart_fifo sample_uart fst"
  by (auto simp: uart_fifo_def sample_uart_def split: if_splits) (simp add: min_def)+

section \<open>Writers\<close>

text \<open>
  \<open>ConsoleOut\<close>: the result of \<open>libc::write\<close> on the standard output, a negative number on an
  error, is the argument \<open>n\<close>. The flag and the result say whether the overflow warning is due.
\<close>

record ConsoleOut =
  co_tee :: "bytes option"
  co_overflowed :: bool

definition console_out_new :: "bytes option \<Rightarrow> ConsoleOut" where
  "console_out_new tee = \<lparr>co_tee = tee, co_overflowed = False\<rparr>"

definition console_write :: "ConsoleOut \<Rightarrow> bytes \<Rightarrow> int \<Rightarrow> nat option \<times> bool \<times> ConsoleOut" where
  "console_write co buf res =
     (if res < 0 then (None, False, co)
      else let n = nat res in
        case co_tee co of
          None \<Rightarrow> (Some n, False, co)
        | Some b \<Rightarrow>
            let over = length b + n > CONSOLE_TEE_CAP;
                b = (if over then [] else b);
                warn = over \<and> \<not> co_overflowed co
            in (Some n, warn, co\<lparr>co_tee := Some (b @ take n buf), co_overflowed := co_overflowed co \<or> over\<rparr>))"

definition control_sink_write :: "bytes \<Rightarrow> bytes \<Rightarrow> nat \<times> bytes" where
  "control_sink_write buf data = (length data, buf @ data)"

section \<open>The console tee\<close>

text \<open>A sequence of console writes, each with the result of \<open>libc::write\<close>.\<close>

fun console_run :: "ConsoleOut \<Rightarrow> (bytes \<times> int) list \<Rightarrow> (nat option \<times> bool) list \<times> ConsoleOut" where
  "console_run co [] = ([], co)"
| "console_run co ((buf, res) # ws) =
     (let (r, warn, co1) = console_write co buf res; (rs, co2) = console_run co1 ws
      in ((r, warn) # rs, co2))"

fun accepted :: "(bytes \<times> int) list \<Rightarrow> bytes" where
  "accepted [] = []"
| "accepted ((buf, res) # ws) = (if res < 0 then [] else take (nat res) buf) @ accepted ws"

lemma console_write_fst: "fst (console_write co buf res) = (if res < 0 then None else Some (nat res))"
  by (simp add: console_write_def Let_def split: option.splits)

lemma console_run_results:
  "map fst (fst (console_run co ws)) = map (\<lambda>(buf, res). if res < 0 then None else Some (nat res)) ws"
proof (induction ws arbitrary: co)
  case (Cons w ws)
  obtain buf res where w: "w = (buf, res)" by fastforce
  obtain r x co1 where c: "console_write co buf res = (r, x, co1)" by (metis prod_cases3)
  then have "r = (if res < 0 then None else Some (nat res))" using console_write_fst [of co buf res] by simp
  then show ?case using Cons [of co1] by (simp add: w c split_beta)
qed simp

lemma console_write_warn:
  assumes "console_write co buf res = (r, warn, co')"
  shows "(warn \<longrightarrow> \<not> co_overflowed co \<and> co_overflowed co') \<and> (co_overflowed co \<longrightarrow> co_overflowed co')"
  using assms by (auto simp: console_write_def Let_def split: if_splits option.splits)

lemma console_run_warns:
  "length (filter snd (fst (console_run co ws))) \<le> (if co_overflowed co then 0 else 1)"
proof (induction ws arbitrary: co)
  case (Cons w ws)
  obtain buf res where w: "w = (buf, res)" by fastforce
  obtain r x co1 where c: "console_write co buf res = (r, x, co1)" by (metis prod_cases3)
  show ?case using Cons [of co1] console_write_warn [OF c] by (auto simp: w c split_beta split: if_splits)
qed simp

lemma console_run_tee:
  assumes "co_tee co = Some b" and "length b \<le> CONSOLE_TEE_CAP"
    and "\<forall>(buf, res) \<in> set ws. length buf \<le> CONSOLE_TEE_CAP \<and> res \<le> int (length buf)"
  shows "\<exists>b'. co_tee (snd (console_run co ws)) = Some b' \<and> length b' \<le> CONSOLE_TEE_CAP
    \<and> suffix b' (b @ accepted ws)
    \<and> (length (b @ accepted ws) \<le> CONSOLE_TEE_CAP \<longrightarrow> b' = b @ accepted ws)"
  using assms
proof (induction ws arbitrary: co b)
  case (Cons w ws)
  obtain buf res where w: "w = (buf, res)" by fastforce
  obtain r x co1 where c: "console_write co buf res = (r, x, co1)" by (metis prod_cases3)
  define acc where "acc = (if res < 0 then [] else take (nat res) buf)"
  define b1 where "b1 = (if 0 \<le> res \<and> length b + nat res > CONSOLE_TEE_CAP then acc else b @ acc)"
  have n: "res \<ge> 0 \<Longrightarrow> length acc = nat res" "length acc \<le> CONSOLE_TEE_CAP"
    using Cons.prems(3) by (auto simp: w acc_def)
  have "co_tee co1 = Some b1"
    using c Cons.prems(1) by (auto simp: console_write_def acc_def b1_def Let_def split: if_splits)
  moreover have "length b1 \<le> CONSOLE_TEE_CAP"
    using n Cons.prems(2) by (cases "res < 0") (auto simp: b1_def acc_def)
  ultimately obtain b' where b': "co_tee (snd (console_run co1 ws)) = Some b'" "length b' \<le> CONSOLE_TEE_CAP"
      "suffix b' (b1 @ accepted ws)" "length (b1 @ accepted ws) \<le> CONSOLE_TEE_CAP \<longrightarrow> b' = b1 @ accepted ws"
    using Cons.IH [of co1 b1] Cons.prems(3) by auto
  have acc: "b @ accepted (w # ws) = b @ acc @ accepted ws" by (simp add: w acc_def)
  have suf: "suffix (b1 @ accepted ws) (b @ acc @ accepted ws)"
    by (auto simp: b1_def intro: suffixI)
  have "length (b @ acc @ accepted ws) \<le> CONSOLE_TEE_CAP \<Longrightarrow> b1 = b @ acc"
    using n by (auto simp: b1_def)
  then show ?case
    using b' suf suffix_order.trans [OF b'(3) suf] by (auto simp: w c split_beta acc_def [symmetric])
qed simp

text \<open>
  The tee is a pure observer with bounded memory. Whatever is teed, the console writer
  returns to the port exactly what the host's write returned; the overflow warning is due at
  most once; the tee never exceeds its cap of 1 MiB, always holds the latest accepted bytes, and
  holds all of them as long as they fit.
\<close>

theorem console_tee_observer:
  assumes "co_tee co = Some b" and "length b \<le> CONSOLE_TEE_CAP"
    and "\<forall>(buf, res) \<in> set ws. length buf \<le> CONSOLE_TEE_CAP \<and> res \<le> int (length buf)"
  shows "map fst (fst (console_run co ws)) = map fst (fst (console_run (co\<lparr>co_tee := None\<rparr>) ws))
    \<and> map fst (fst (console_run co ws)) = map (\<lambda>(buf, res). if res < 0 then None else Some (nat res)) ws
    \<and> length (filter snd (fst (console_run co ws))) \<le> 1
    \<and> (\<exists>b'. co_tee (snd (console_run co ws)) = Some b' \<and> length b' \<le> CONSOLE_TEE_CAP
         \<and> suffix b' (b @ accepted ws)
         \<and> (length (b @ accepted ws) \<le> CONSOLE_TEE_CAP \<longrightarrow> b' = b @ accepted ws))"
proof -
  have "length (filter snd (fst (console_run co ws))) \<le> 1"
    using console_run_warns [of co ws] by (simp split: if_splits)
  then show ?thesis using console_run_results console_run_tee [OF assms] by simp
qed

theorem console_tee_observer_witness:
  "\<exists>b'. co_tee (snd (console_run (console_out_new (Some [])) [([104], 1), ([105], -1), ([33], 1)])) = Some b'
     \<and> b' = [104, 33]"
  using console_tee_observer [of "console_out_new (Some [])" "[]" "[([104], 1), ([105], -1), ([33], 1)]"]
  by (auto simp: console_out_new_def CONSOLE_TEE_CAP_def)

end
