(* ===== verification/Control.thy ===== *)
theory Control
  imports Serial
begin

text \<open>
  The control channel of \<open>src/src/control.rs\<close>: the second serial port, over which the program
  sends command lines to the guest agent and reads its reply lines. Commands wait in
  \<open>pending_rx\<close> until the receive FIFO has room; the guest's output is captured in \<open>cc_tx\<close> and
  taken line by line.

  The main facts: no command byte is lost, duplicated or reordered on its way to the guest
  whatever the FIFO accepts, and the lines taken are the lines the agent wrote.
\<close>

section \<open>The channel\<close>

definition TX_BUF_CAP :: nat where [const_defs]: "TX_BUF_CAP = 2 ^ 20"

record 'u ControlChannel =
  cc_serial :: 'u
  cc_tx :: bytes
  pending_rx :: bytes

definition control_new :: "'u \<Rightarrow> 'u ControlChannel" where
  "control_new u = \<lparr>cc_serial = u, cc_tx = [], pending_rx = []\<rparr>"

definition control_handles :: "u16 \<Rightarrow> bool" where
  "control_handles port \<longleftrightarrow> SERIAL2_PORT_BASE \<le> port \<and> port < SERIAL2_PORT_BASE + 8"

definition control_after_uart_io ::
  "'u Uart \<Rightarrow> 'u ControlChannel \<Rightarrow> Lapic \<Rightarrow> Ioapic \<Rightarrow> 'u ControlChannel \<times> Lapic" where
  "control_after_uart_io U c l io =
     (let (signalled, u) = uart_drain U (cc_serial c)
      in (c\<lparr>cc_serial := u\<rparr>, if signalled then raise_irq l io SERIAL2_IRQ else l))"

definition control_pio_write ::
  "'u Uart \<Rightarrow> 'u ControlChannel \<Rightarrow> u16 \<Rightarrow> u8 \<Rightarrow> Lapic \<Rightarrow> Ioapic \<Rightarrow> 'u ControlChannel \<times> Lapic" where
  "control_pio_write U c port byte l io =
     (let (out, u) = uart_write U (cc_serial c) (ucast (port - SERIAL2_PORT_BASE)) byte;
          (_, tx) = control_sink_write (cc_tx c) out
      in control_after_uart_io U (c\<lparr>cc_serial := u, cc_tx := tx\<rparr>) l io)"

definition control_pio_read ::
  "'u Uart \<Rightarrow> 'u ControlChannel \<Rightarrow> u16 \<Rightarrow> Lapic \<Rightarrow> Ioapic \<Rightarrow> u8 \<times> 'u ControlChannel \<times> Lapic" where
  "control_pio_read U c port l io =
     (let (v, u) = uart_read U (cc_serial c) (ucast (port - SERIAL2_PORT_BASE));
          (c, l) = control_after_uart_io U (c\<lparr>cc_serial := u\<rparr>) l io
      in (v, c, l))"

definition send_frame :: "'u ControlChannel \<Rightarrow> bytes \<Rightarrow> 'u ControlChannel" where
  "send_frame c framed = c\<lparr>pending_rx := pending_rx c @ framed\<rparr>"

text \<open>The loop of \<open>pump\<close>; the flag says whether any byte moved.\<close>

function feed_fifo :: "'u Uart \<Rightarrow> 'u \<Rightarrow> bytes \<Rightarrow> bool \<Rightarrow> 'u \<times> bytes \<times> bool" where
  "feed_fifo U u rest sent =
     (if rest = [] then (u, rest, sent)
      else let cap = fifo_capacity U u in
        if cap = 0 then (u, rest, sent)
        else let chunk = take (min cap (length rest)) rest in
          case enqueue_raw_bytes U u chunk of
            (Some n, u') \<Rightarrow> if n > 0 then feed_fifo U u' (drop n rest) True else (u', rest, sent)
          | (None, u') \<Rightarrow> (u', rest, sent))"
  by pat_completeness auto
termination by (relation "measure (\<lambda>(U, u, rest, sent). length rest)") auto

declare feed_fifo.simps [simp del]

definition control_pump ::
  "'u Uart \<Rightarrow> 'u ControlChannel \<Rightarrow> Lapic \<Rightarrow> Ioapic \<Rightarrow> 'u ControlChannel \<times> Lapic" where
  "control_pump U c l io =
     (if pending_rx c = [] then (c, l)
      else let (u, rest, sent) = feed_fifo U (cc_serial c) (pending_rx c) False;
               c = c\<lparr>cc_serial := u, pending_rx := rest\<rparr>
        in if sent then control_after_uart_io U c l io else (c, l))"

definition strip_cr :: "bytes \<Rightarrow> bytes" where
  "strip_cr line = (if line \<noteq> [] \<and> last line = 13 then butlast line else line)"

definition poll_line :: "'u ControlChannel \<Rightarrow> bytes option \<times> 'u ControlChannel" where
  "poll_line c =
     (let buf = cc_tx c; line = takeWhile (\<lambda>b. b \<noteq> 10) buf in
      if 10 \<in> set buf then (Some (strip_cr line), c\<lparr>cc_tx := drop (length line + 1) buf\<rparr>)
      else (None, if length buf > TX_BUF_CAP then c\<lparr>cc_tx := []\<rparr> else c))"

section \<open>Feeding the FIFO\<close>

definition next_chunk :: "'u Uart \<Rightarrow> 'u \<Rightarrow> bytes \<Rightarrow> bytes" where
  "next_chunk U u rest = take (min (fifo_capacity U u) (length rest)) rest"

lemma feed_fifo_cases:
  obtains (stop) "rest = [] \<or> fifo_capacity U u = 0" "\<And>sent. feed_fifo U u rest sent = (u, rest, sent)"
  | (refuse) r u' where "rest \<noteq> []" "enqueue_raw_bytes U u (next_chunk U u rest) = (r, u')" "r = None \<or> r = Some 0"
      "\<And>sent. feed_fifo U u rest sent = (u', rest, sent)"
  | (take) n u' where "rest \<noteq> []" "enqueue_raw_bytes U u (next_chunk U u rest) = (Some n, u')" "n > 0"
      "\<And>sent. feed_fifo U u rest sent = feed_fifo U u' (drop n rest) True"
proof -
  obtain r u' where e: "enqueue_raw_bytes U u (next_chunk U u rest) = (r, u')" by fastforce
  have step: "feed_fifo U u rest sent =
     (if rest = [] \<or> fifo_capacity U u = 0 then (u, rest, sent)
      else case r of Some n \<Rightarrow> if n > 0 then feed_fifo U u' (drop n rest) True else (u', rest, sent)
        | None \<Rightarrow> (u', rest, sent))" for sent
    using e by (simp add: feed_fifo.simps [of U u] next_chunk_def [symmetric] Let_def)
  consider "rest = [] \<or> fifo_capacity U u = 0" | "rest \<noteq> []" "fifo_capacity U u \<noteq> 0" "r = None \<or> r = Some 0"
    | n where "rest \<noteq> []" "fifo_capacity U u \<noteq> 0" "r = Some n" "n > 0" by (cases r) auto
  then show ?thesis
    using stop refuse [of r u'] take [of _ u'] e step by cases auto
qed

lemma feed_fifo_induct:
  assumes "\<And>u rest sent. (\<And>u' n sent'. rest \<noteq> [] \<Longrightarrow> n > 0 \<Longrightarrow> P u' (drop n rest) sent') \<Longrightarrow> P u rest sent"
  shows "P u (rest :: bytes) (sent :: bool)"
proof (induction "length rest" arbitrary: u rest sent rule: less_induct)
  case less
  show ?case by (rule assms, rule less) simp
qed

lemma feed_fifo_stream:
  assumes "uart_fifo U fifo" and "feed_fifo U u rest sent = (u', rest', sent')"
  shows "fifo u' @ rest' = fifo u @ rest \<and> (sent \<longrightarrow> sent') \<and> (sent' \<or> rest' = rest)"
  using assms(2)
proof (induction u rest sent rule: feed_fifo_induct)
  case (1 u rest sent)
  note laws = uart_fifoD [OF assms(1)]
  show ?case
  proof (cases rule: feed_fifo_cases [of rest U u])
    case stop
    then show ?thesis using "1.prems" by auto
  next
    case (refuse r w)
    then have "fifo w = fifo u" using laws(1,2) [of u "next_chunk U u rest"] by auto
    then show ?thesis using refuse "1.prems" by auto
  next
    case (take n w)
    then have "fifo u' @ rest' = fifo w @ drop n rest \<and> sent'"
      using "1.IH" [of n w True] "1.prems" by auto
    moreover have "n \<le> length (next_chunk U u rest) \<and> fifo w = fifo u @ take n (next_chunk U u rest)"
      using laws(1) take(2) by blast
    moreover have "take n (next_chunk U u rest) = take n rest" if "n \<le> length (next_chunk U u rest)"
      using that by (simp add: next_chunk_def)
    ultimately show ?thesis by simp
  qed
qed

text \<open>Why the loop stops: nothing is left, the FIFO is full, or the port took nothing.\<close>

lemma feed_fifo_stops:
  assumes "feed_fifo U u rest sent = (u', rest', sent')"
  shows "rest' = [] \<or> fifo_capacity U u' = 0
    \<or> (\<exists>v bs. enqueue_raw_bytes U v bs \<in> {(None, u'), (Some 0, u')})"
  using assms
proof (induction u rest sent rule: feed_fifo_induct)
  case (1 u rest sent)
  show ?case
  proof (cases rule: feed_fifo_cases [of rest U u])
    case (take n w)
    then show ?thesis using "1.IH" [of n w True] "1.prems" by simp
  qed (use "1.prems" in auto)
qed

lemma control_after_uart_io_frame:
  assumes "uart_fifo U fifo" and "control_after_uart_io U c l io = (c', l')"
  shows "fifo (cc_serial c') = fifo (cc_serial c) \<and> pending_rx c' = pending_rx c \<and> cc_tx c' = cc_tx c"
  using assms uart_fifoD(4) [OF assms(1), of "cc_serial c"]
  by (auto simp: control_after_uart_io_def split: prod.splits)

lemma control_pump_stream:
  assumes "uart_fifo U fifo" and "control_pump U c l io = (c', l')"
  shows "fifo (cc_serial c') @ pending_rx c' = fifo (cc_serial c) @ pending_rx c \<and> cc_tx c' = cc_tx c"
proof (cases "pending_rx c = []")
  case True
  then show ?thesis using assms(2) by (simp add: control_pump_def)
next
  case False
  obtain u rest sent where f: "feed_fifo U (cc_serial c) (pending_rx c) False = (u, rest, sent)"
    by (metis prod_cases3)
  then have "fifo u @ rest = fifo (cc_serial c) @ pending_rx c" using feed_fifo_stream [OF assms(1)] by blast
  then show ?thesis
    using False assms(2) f control_after_uart_io_frame [OF assms(1), of "c\<lparr>cc_serial := u, pending_rx := rest\<rparr>" l io c' l']
    by (auto simp: control_pump_def Let_def split: if_splits)
qed

section \<open>Taking lines\<close>

lemma takeWhile_delim:
  assumes "d \<notin> set xs"
  shows "takeWhile (\<lambda>b. b \<noteq> d) (xs @ d # ys) = xs"
  using assms by (metis (mono_tags, lifting) append.right_neutral takeWhile.simps(2) takeWhile_append2)

lemma poll_line_shorter:
  assumes "poll_line c = (Some line, c')"
  shows "length (cc_tx c') < length (cc_tx c)"
  using assms length_pos_if_in_set [of 10 "cc_tx c"] by (auto simp: poll_line_def Let_def split: if_splits)

text \<open>A line is ended by a newline, or by a carriage return and a newline.\<close>

definition plain_line :: "bytes \<Rightarrow> bool" where
  "plain_line line \<longleftrightarrow> 10 \<notin> set line \<and> (line \<noteq> [] \<longrightarrow> last line \<noteq> 13)"

lemma poll_line_next:
  assumes "plain_line line" and "e \<in> {[10], [13, 10]}" and "cc_tx c = line @ e @ rest"
  shows "poll_line c = (Some line, c\<lparr>cc_tx := rest\<rparr>)"
proof (cases "e = [10]")
  case True
  then show ?thesis
    using assms takeWhile_delim [of 10 line rest] by (auto simp: poll_line_def plain_line_def strip_cr_def Let_def)
next
  case False
  then have "cc_tx c = (line @ [13]) @ 10 # rest" using assms by simp
  then show ?thesis
    using assms(1) takeWhile_delim [of 10 "line @ [13]" rest]
    by (auto simp: poll_line_def plain_line_def strip_cr_def Let_def)
qed

lemma poll_line_partial:
  assumes "10 \<notin> set (cc_tx c)"
  shows "poll_line c = (None, if length (cc_tx c) > TX_BUF_CAP then c\<lparr>cc_tx := []\<rparr> else c)"
  using assms by (simp add: poll_line_def)

section \<open>The command stream\<close>

text \<open>
  The histories of a channel: \<open>sent\<close> are the bytes queued as commands, \<open>got\<close> the bytes the guest
  took from the FIFO. A guest write is any register write outside loop-back mode, where the
  port does not feed its own receiver.
\<close>

inductive control_run :: "'u Uart \<Rightarrow> ('u \<Rightarrow> bytes) \<Rightarrow> bytes \<Rightarrow> bytes \<Rightarrow> 'u ControlChannel \<Rightarrow> bool"
  for U fifo where
  start: "fifo u = [] \<Longrightarrow> control_run U fifo [] [] (control_new u)"
| send: "control_run U fifo sent got c \<Longrightarrow> control_run U fifo (sent @ framed) got (send_frame c framed)"
| pump: "control_run U fifo sent got c \<Longrightarrow> control_pump U c l io = (c', l') \<Longrightarrow> control_run U fifo sent got c'"
| guest_read: "control_run U fifo sent got c \<Longrightarrow> control_pio_read U c port l io = (v, c', l') \<Longrightarrow>
    control_run U fifo sent (if fifo (cc_serial c') = fifo (cc_serial c) then got else got @ [v]) c'"
| guest_write: "control_run U fifo sent got c \<Longrightarrow> control_pio_write U c port byte l io = (c', l') \<Longrightarrow>
    fifo (cc_serial c') = fifo (cc_serial c) \<Longrightarrow> control_run U fifo sent got c'"
| poll: "control_run U fifo sent got c \<Longrightarrow> poll_line c = (line, c') \<Longrightarrow> control_run U fifo sent got c'"

lemma poll_line_frame: "poll_line c = (line, c') \<Longrightarrow> cc_serial c' = cc_serial c \<and> pending_rx c' = pending_rx c"
  by (auto simp: poll_line_def Let_def split: if_splits)

lemma control_pio_read_fifo:
  assumes "uart_fifo U fifo" and "control_pio_read U c port l io = (v, c', l')"
  shows "pending_rx c' = pending_rx c
    \<and> (fifo (cc_serial c') = fifo (cc_serial c) \<or> fifo (cc_serial c) = v # fifo (cc_serial c'))"
proof -
  obtain u where r: "uart_read U (cc_serial c) (ucast (port - SERIAL2_PORT_BASE)) = (v, u)"
    and a: "control_after_uart_io U (c\<lparr>cc_serial := u\<rparr>) l io = (c', l')"
    using assms(2) by (auto simp: control_pio_read_def split: prod.splits)
  show ?thesis using control_after_uart_io_frame [OF assms(1) a] uart_fifoD(3) [OF assms(1) r] by simp
qed

lemma control_pio_write_pending:
  "control_pio_write U c port byte l io = (c', l') \<Longrightarrow> pending_rx c' = pending_rx c"
  by (auto simp: control_pio_write_def control_after_uart_io_def split: prod.splits)

text \<open>
  C31. No command byte is lost, duplicated or reordered. Whatever part of each chunk the port
  accepts, and however pumps, guest reads and writes and reply polling interleave, the bytes
  queued so far are the bytes the guest has taken, then those in its FIFO, then those pending.
\<close>

theorem control_stream_exact:
  assumes "uart_fifo U fifo" and "control_run U fifo sent got c"
  shows "sent = got @ fifo (cc_serial c) @ pending_rx c"
  using assms(2)
proof induction
  case (guest_read sent got c port l io v c' l')
  then show ?case using control_pio_read_fifo [OF assms(1) guest_read(2)] by auto
next
  case (pump sent got c l io c' l')
  then show ?case using control_pump_stream [OF assms(1) pump(2)] by simp
next
  case (guest_write sent got c port byte l io c' l')
  then show ?case using control_pio_write_pending [OF guest_write(2)] by simp
next
  case (poll sent got c line c')
  then show ?case using poll_line_frame [OF poll(2)] by simp
qed (auto simp: control_new_def send_frame_def)

theorem control_stream_exact_witness:
  "\<exists>c. control_run sample_uart fst (replicate 70 65) [] c \<and> length (pending_rx c) = 6
     \<and> replicate 70 65 = fst (cc_serial c) @ pending_rx c"
proof -
  define c0 :: "(bytes \<times> bool) ControlChannel" where "c0 = control_new ([], False)"
  define c1 where "c1 = send_frame c0 (replicate 70 65)"
  obtain c2 l2 where c2: "control_pump sample_uart c1 sample_lapic (ioapic_new 0) = (c2, l2)" by fastforce
  have r1: "control_run sample_uart fst (replicate 70 65) [] c1"
    using control_run.send [OF control_run.start, of fst "([], False)" sample_uart "replicate 70 65"]
    by (simp add: c1_def c0_def)
  have r2: "control_run sample_uart fst (replicate 70 65) [] c2" by (rule control_run.pump [OF r1 c2])
  have "feed_fifo sample_uart ([], False) (replicate 70 65) False = ((replicate 64 65, True), replicate 6 65, True)"
    by (simp add: feed_fifo.simps [of _ "([], False)"] feed_fifo.simps [of _ "(replicate 64 65, True)"]
          sample_uart_def Let_def)
  then have "length (pending_rx c2) = 6"
    using c2 by (auto simp: control_pump_def c1_def c0_def control_new_def send_frame_def control_after_uart_io_def
        split: prod.splits)
  then show ?thesis using r2 control_stream_exact [OF sample_uart_fifo r2] by auto
qed

end
