(* ===== verification/Proto.thy ===== *)
theory Proto
  imports Prelude Text
begin

text \<open>
  The line protocol of \<open>src/tdvmm-proto/src/lib.rs\<close> between the program and the guest agent:
  requests, replies and guest events, the agent's error kinds, and the framing of one message
  as a line of JSON.

  The JSON library is a parameter: \<open>to_vec\<close> and \<open>from_slice\<close> on the message type, and the
  type \<open>'j\<close> of free JSON values. What the framing relies on is the predicate \<open>json_text\<close>.
\<close>

section \<open>Messages\<close>

definition SCHEMA :: u32 where [const_defs]: "SCHEMA = 4"
definition MAX_LOGS_CHUNK_BYTES :: u64 where [const_defs]: "MAX_LOGS_CHUNK_BYTES = 128 * 1024"
definition OP_FINISH :: string where [const_defs]: "OP_FINISH = ''finish''"
definition RESERVED_EVENT_KINDS :: "string list" where
  [const_defs]: "RESERVED_EVENT_KINDS = [OP_FINISH, ''ctl'']"

definition is_reserved_event_kind :: "string \<Rightarrow> bool" where
  "is_reserved_event_kind kind \<longleftrightarrow> kind \<in> set RESERVED_EVENT_KINDS"

record Request =
  req_id :: u64
  req_op :: string
  req_container :: "string option"
  req_peer :: "string option"
  req_cmd :: "string list option"
  req_timeout_s :: "u64 option"
  req_cursor :: "u64 option"
  req_max_bytes :: "u64 option"
  req_exit :: "i64 option"
  req_message :: "string option"

definition request_default :: Request where
  "request_default = \<lparr>req_id = 0, req_op = '''', req_container = None, req_peer = None, req_cmd = None,
     req_timeout_s = None, req_cursor = None, req_max_bytes = None, req_exit = None, req_message = None\<rparr>"

record ContainerInfo =
  ci_name :: string
  ci_service :: string
  ci_state :: string
  ci_exit_code :: i64
  ci_health :: string

record 'j GuestEvent =
  ev_kind :: string
  ev_name :: string
  ev_ok :: "bool option"
  ev_exit :: "i64 option"
  ev_details :: "'j option"

record 'j Reply =
  rep_id :: "u64 option"
  rep_ok :: "bool option"
  rep_op :: "string option"
  rep_exit :: "i64 option"
  rep_stdout :: "string option"
  rep_stderr :: "string option"
  rep_error :: "string option"
  rep_dur_ms :: "u64 option"
  rep_containers :: "ContainerInfo list option"
  rep_agent :: "string option"
  rep_schema :: "u32 option"
  rep_build :: "string option"
  rep_data :: "string option"
  rep_next_cursor :: "u64 option"
  rep_eof :: "bool option"
  rep_event :: "'j GuestEvent option"
  rep_seq :: "u64 option"

definition reply_default :: "'j Reply" where
  "reply_default = \<lparr>rep_id = None, rep_ok = None, rep_op = None, rep_exit = None, rep_stdout = None,
     rep_stderr = None, rep_error = None, rep_dur_ms = None, rep_containers = None, rep_agent = None,
     rep_schema = None, rep_build = None, rep_data = None, rep_next_cursor = None, rep_eof = None,
     rep_event = None, rep_seq = None\<rparr>"

definition hello :: "string \<Rightarrow> string \<Rightarrow> 'j Reply" where
  "hello agent build = reply_default\<lparr>rep_agent := Some agent, rep_schema := Some SCHEMA, rep_build := Some build\<rparr>"

definition is_hello :: "'j Reply \<Rightarrow> bool" where
  "is_hello r \<longleftrightarrow> rep_id r = None \<and> rep_agent r \<noteq> None"

definition from_event :: "u64 \<Rightarrow> 'j GuestEvent \<Rightarrow> 'j Reply" where
  "from_event n event = reply_default\<lparr>rep_seq := Some n, rep_event := Some event\<rparr>"

definition is_event :: "'j Reply \<Rightarrow> bool" where
  "is_event r \<longleftrightarrow> rep_id r = None \<and> rep_event r \<noteq> None"

section \<open>Error kinds\<close>

datatype ErrorKind =
    BadRequest
  | UnknownOp
  | MissingArgs
  | NoContainer
  | PodmanPs
  | PodmanExec
  | PodmanOp
  | Ip
  | Nft

fun kind_code :: "ErrorKind \<Rightarrow> string" where
  "kind_code BadRequest = ''bad_request''"
| "kind_code UnknownOp = ''unknown_op''"
| "kind_code MissingArgs = ''missing_args''"
| "kind_code NoContainer = ''no_container''"
| "kind_code PodmanPs = ''podman_ps''"
| "kind_code PodmanExec = ''podman_exec''"
| "kind_code PodmanOp = ''podman_op''"
| "kind_code Ip = ''ip''"
| "kind_code Nft = ''nft''"

definition kind_msg :: "ErrorKind \<Rightarrow> string \<Rightarrow> string" where
  "kind_msg k detail = kind_code k @ '': '' @ detail"

section \<open>Framing\<close>

definition is_ascii_whitespace :: "u8 \<Rightarrow> bool" where
  "is_ascii_whitespace b \<longleftrightarrow> b \<in> {9, 10, 12, 13, 32}"

text \<open>The positions of the first byte and after the last byte that are not white space.\<close>

definition trim_frame :: "bytes \<Rightarrow> bytes" where
  "trim_frame line =
     (let start = length (takeWhile is_ascii_whitespace line);
          stop = (if list_all is_ascii_whitespace line then start
                  else length line - length (takeWhile is_ascii_whitespace (rev line)))
      in take (stop - start) (drop start line))"

definition encode_line :: "('m \<Rightarrow> bytes option) \<Rightarrow> 'm \<Rightarrow> bytes option" where
  "encode_line to_vec m = map_option (\<lambda>buf. buf @ [10]) (to_vec m)"

definition decode_line :: "(bytes \<Rightarrow> 'm option) \<Rightarrow> bytes \<Rightarrow> 'm option" where
  "decode_line from_slice line = from_slice (trim_frame line)"

section \<open>Lemmas\<close>

text \<open>
  What the framing relies on of the JSON library: the compact text of a message reads back as
  the message, has no line break inside and no white space at its ends.
\<close>

definition json_text :: "('m \<Rightarrow> bytes option) \<Rightarrow> (bytes \<Rightarrow> 'm option) \<Rightarrow> bool" where
  "json_text to_vec from_slice \<longleftrightarrow>
     (\<forall>m t. to_vec m = Some t \<longrightarrow> from_slice t = Some m \<and> 10 \<notin> set t \<and> t \<noteq> []
        \<and> \<not> is_ascii_whitespace (hd t) \<and> \<not> is_ascii_whitespace (last t))"

lemma trim_frame_padded:
  assumes "t \<noteq> []" and "\<not> is_ascii_whitespace (hd t)" and "\<not> is_ascii_whitespace (last t)"
    and "list_all is_ascii_whitespace a" and "list_all is_ascii_whitespace z"
  shows "trim_frame (a @ t @ z) = t"
proof -
  have s: "takeWhile is_ascii_whitespace (a @ t @ z) = a"
    using assms(1,2,4) by (cases t) (auto simp: takeWhile_append list_all_iff)
  have e: "takeWhile is_ascii_whitespace (rev (a @ t @ z)) = rev z"
    using assms(1,3,5) by (cases t rule: rev_cases) (auto simp: takeWhile_append list_all_iff)
  have "hd t \<in> set (a @ t @ z)" using assms(1) by simp
  then have "\<not> list_all is_ascii_whitespace (a @ t @ z)" using assms(2) by (auto simp: list_all_iff)
  then show ?thesis by (simp only: trim_frame_def s e Let_def) simp
qed

lemma decode_encode_line:
  assumes "json_text to_vec from_slice" and "to_vec m = Some t" and "list_all is_ascii_whitespace e"
  shows "decode_line from_slice (t @ e) = Some m"
  using assms trim_frame_padded [of t "[]" e] by (auto simp: json_text_def decode_line_def)

lemma kind_code_inj: "kind_code j = kind_code k \<longleftrightarrow> j = k"
  by (cases j; cases k) simp_all

end
