(* ===== verification/Driver.thy ===== *)
theory Driver
  imports Proto Control
begin

text \<open>
  Why a run stops and what it returns: the stop reasons of \<open>src/src/exit.rs\<close>, the state of a
  driven run of \<open>src/src/driver.rs\<close> and the loop that folds the agent's lines into it
  (\<open>src/src/main.rs\<close>). The log lines are left out; the JSON library is the parameter
  \<open>from_slice\<close>.
\<close>

section \<open>Stop reasons\<close>

definition EXIT_GUEST_STOP :: int where [const_defs]: "EXIT_GUEST_STOP = 0"
definition EXIT_PASS :: int where [const_defs]: "EXIT_PASS = EXIT_GUEST_STOP"
definition EXIT_FAIL :: int where [const_defs]: "EXIT_FAIL = 1"
definition EXIT_HORIZON :: int where [const_defs]: "EXIT_HORIZON = 3"
definition EXIT_INFRA :: int where [const_defs]: "EXIT_INFRA = 2"

datatype StopReason = GuestShutdown | GuestSystemEvent | GuestHalt | Horizon | DriverFinish

fun stop_exit_code :: "StopReason \<Rightarrow> int" where
  "stop_exit_code GuestShutdown = EXIT_GUEST_STOP"
| "stop_exit_code GuestSystemEvent = EXIT_GUEST_STOP"
| "stop_exit_code GuestHalt = EXIT_GUEST_STOP"
| "stop_exit_code Horizon = EXIT_HORIZON"
| "stop_exit_code DriverFinish = EXIT_PASS"

fun stop_as_str :: "StopReason \<Rightarrow> string" where
  "stop_as_str GuestShutdown = ''guest_shutdown''"
| "stop_as_str GuestSystemEvent = ''guest_system_event''"
| "stop_as_str GuestHalt = ''guest_halt''"
| "stop_as_str Horizon = ''horizon''"
| "stop_as_str DriverFinish = ''driver_finish''"

fun stop_human :: "StopReason \<Rightarrow> string" where
  "stop_human GuestShutdown = ''guest shut down (triple fault or reboot)''"
| "stop_human GuestSystemEvent = ''guest requested reset or shutdown''"
| "stop_human GuestHalt = ''guest halted (poweroff)''"
| "stop_human Horizon = ''--max-virtual-time horizon reached''"
| "stop_human DriverFinish = ''a container finished the run with a verdict''"

record RunOutcome =
  ro_stop :: StopReason
  ro_exit_code :: int

section \<open>Verdicts\<close>

record Verdict =
  v_code :: i64
  v_message :: "string option"

definition verdict_exit_code :: "Verdict \<Rightarrow> int" where
  "verdict_exit_code v = (if v_code v = 0 then EXIT_PASS else EXIT_FAIL)"

definition verdict_label :: "Verdict \<Rightarrow> string" where
  "verdict_label v = (if v_code v = 0 then ''PASS'' else ''FAIL'')"

record DriverRun =
  agent_ready :: bool
  dr_verdict :: "Verdict option"
  commands :: u64
  failed_commands :: u64

definition driver_default :: DriverRun where
  "driver_default = \<lparr>agent_ready = False, dr_verdict = None, commands = 0, failed_commands = 0\<rparr>"

definition finish_verdict :: "'j GuestEvent \<Rightarrow> Verdict" where
  "finish_verdict ev =
     \<lparr>v_code = (case ev_exit ev of Some c \<Rightarrow> c | None \<Rightarrow> word_of_int EXIT_INFRA),
      v_message = (if ev_name ev = '''' then None else Some (ev_name ev))\<rparr>"

definition on_event :: "DriverRun \<Rightarrow> 'j GuestEvent \<Rightarrow> bool \<times> DriverRun" where
  "on_event d ev =
     (if ev_kind ev = OP_FINISH then
        (case dr_verdict d of
           Some _ \<Rightarrow> (True, d)
         | None \<Rightarrow> (True, d\<lparr>dr_verdict := Some (finish_verdict ev)\<rparr>))
      else if ev_kind ev = ''ctl'' then
        (let ok = (ev_ok ev = Some True);
             d = d\<lparr>commands := commands d + 1\<rparr>
         in (False, if \<not> ok then d\<lparr>failed_commands := failed_commands d + 1\<rparr> else d))
      else (False, d))"

definition on_agent_line :: "(bytes \<Rightarrow> 'j Reply option) \<Rightarrow> DriverRun \<Rightarrow> bytes \<Rightarrow> bool \<times> DriverRun" where
  "on_agent_line from_slice d line =
     (case decode_line from_slice line of
        None \<Rightarrow> (False, d)
      | Some reply \<Rightarrow>
          if is_hello reply then (False, d\<lparr>agent_ready := True\<rparr>)
          else (case rep_event reply of
                  Some ev \<Rightarrow> on_event d ev
                | None \<Rightarrow> (False, d)))"

definition was_driven :: "DriverRun \<Rightarrow> bool" where
  "was_driven d \<longleftrightarrow> dr_verdict d \<noteq> None \<or> commands d > 0"

definition decimal_i64 :: "i64 \<Rightarrow> string" where
  "decimal_i64 c = (if sint c < 0 then ''-'' @ decimal (nat (- sint c)) else decimal (nat (sint c)))"

definition driver_summary :: "DriverRun \<Rightarrow> string option" where
  "driver_summary d =
     (if \<not> was_driven d then None
      else let verdict = (case dr_verdict d of
                 Some v \<Rightarrow> verdict_label v @ '' (finish '' @ decimal_i64 (v_code v) @ '')''
               | None \<Rightarrow> ''NO VERDICT (no container called finish)'')
        in Some (''==== tdvmm driver: '' @ verdict @ '' | '' @ decimal (unat (commands d))
             @ '' control command(s), '' @ decimal (unat (failed_commands d)) @ '' failed | agent ''
             @ (if agent_ready d then ''ready'' else ''NEVER READY'') @ '' ===='')) "

definition newline :: string where
  "newline = [CHR 0x0A]"

definition metrics_block :: "DriverRun \<Rightarrow> string" where
  "metrics_block d =
     (if \<not> was_driven d then ''''
      else ''driver yes'' @ newline
        @ (case dr_verdict d of
             Some v \<Rightarrow> ''driver_verdict '' @ (if v_code v = 0 then ''pass'' else ''fail'') @ newline
               @ ''driver_exit_raw '' @ decimal_i64 (v_code v) @ newline
               @ (case v_message v of Some m \<Rightarrow> ''driver_message '' @ m @ newline | None \<Rightarrow> '''')
           | None \<Rightarrow> ''driver_verdict none'' @ newline)
        @ ''driver_commands '' @ decimal (unat (commands d)) @ newline
        @ ''driver_commands_failed '' @ decimal (unat (failed_commands d)) @ newline)"

section \<open>The agent's lines\<close>

text \<open>
  The loop over the complete lines on the control channel; it stops at the verdict, leaving
  the lines behind it unread. The flag says whether the run must stop.
\<close>

function drain_agent ::
  "(bytes \<Rightarrow> 'j Reply option) \<Rightarrow> 'u ControlChannel \<Rightarrow> DriverRun \<Rightarrow> bool \<times> 'u ControlChannel \<times> DriverRun" where
  "drain_agent from_slice c d =
     (case poll_line c of
        (None, c') \<Rightarrow> (False, c', d)
      | (Some line, c') \<Rightarrow>
          (case on_agent_line from_slice d line of
             (True, d') \<Rightarrow> (True, c', d')
           | (False, d') \<Rightarrow> drain_agent from_slice c' d'))"
  by pat_completeness auto
termination
  by (relation "measure (\<lambda>(J, c, d). length (cc_tx c))") (auto dest: poll_line_shorter [OF sym])

declare drain_agent.simps [simp del]

definition run_outcome :: "DriverRun \<Rightarrow> StopReason \<Rightarrow> RunOutcome" where
  "run_outcome d stop =
     \<lparr>ro_stop = stop,
      ro_exit_code = (case dr_verdict d of Some v \<Rightarrow> verdict_exit_code v | None \<Rightarrow> stop_exit_code stop)\<rparr>"

section \<open>The verdict\<close>

definition is_finish :: "'j Reply \<Rightarrow> bool" where
  "is_finish r \<longleftrightarrow> \<not> is_hello r \<and> (\<exists>ev. rep_event r = Some ev \<and> ev_kind ev = OP_FINISH)"

definition fold_reply :: "'j Reply \<Rightarrow> DriverRun \<Rightarrow> DriverRun" where
  "fold_reply r d = (if is_hello r then d\<lparr>agent_ready := True\<rparr>
     else case rep_event r of Some ev \<Rightarrow> snd (on_event d ev) | None \<Rightarrow> d)"

lemma on_agent_line_reply:
  assumes "decode_line J line = Some r"
  shows "on_agent_line J d line = (is_finish r, fold_reply r d)"
proof -
  have "on_event d ev = (ev_kind ev = OP_FINISH, snd (on_event d ev))" for ev
    by (auto simp: on_event_def Let_def split: option.splits)
  then show ?thesis
    using assms by (auto simp: on_agent_line_def fold_reply_def is_finish_def split: option.splits)
qed

lemma fold_reply_verdict:
  "dr_verdict (fold_reply r d) = (case dr_verdict d of Some v \<Rightarrow> Some v
     | None \<Rightarrow> if is_finish r then Some (finish_verdict (the (rep_event r))) else None)"
  by (auto simp: fold_reply_def is_finish_def on_event_def Let_def split: option.splits)

definition sent_as :: "('j Reply \<Rightarrow> bytes option) \<Rightarrow> 'j Reply list \<Rightarrow> bytes \<Rightarrow> bool" where
  "sent_as to_vec rs bs \<longleftrightarrow> (\<exists>ts. list_all2 (\<lambda>r t. encode_line to_vec r = Some t) rs ts \<and> bs = concat ts)"

lemma sent_as_Nil: "sent_as to_vec [] bs \<longleftrightarrow> bs = []"
  by (auto simp: sent_as_def)

lemma sent_as_Cons:
  assumes "sent_as to_vec (r # rs) bs"
  obtains t bs' where "to_vec r = Some t" "bs = t @ [10] @ bs'" "sent_as to_vec rs bs'"
proof -
  obtain u ts where "encode_line to_vec r = Some u" "list_all2 (\<lambda>r t. encode_line to_vec r = Some t) rs ts"
      "bs = u @ concat ts"
    using assms by (auto simp: sent_as_def list_all2_Cons1)
  then show thesis using that [of _ "concat ts"] by (auto simp: encode_line_def sent_as_def)
qed

lemma drain_agent_replies:
  assumes json: "json_text to_vec J" and "sent_as to_vec rs bs" and "10 \<notin> set part"
    and "cc_tx c = bs @ part" and "drain_agent J c d = (stop, c', d')"
  shows "stop = (\<exists>r \<in> set rs. is_finish r)
    \<and> d' = fold fold_reply (takeWhile (\<lambda>r. \<not> is_finish r) rs @ take 1 (dropWhile (\<lambda>r. \<not> is_finish r) rs)) d"
  using assms(2,4,5)
proof (induction rs arbitrary: c d bs)
  case Nil
  then have "drain_agent J c d = (False, snd (poll_line c), d)"
    using poll_line_partial [of c] assms(3) by (simp add: sent_as_Nil drain_agent.simps [of J c])
  then show ?case using Nil by simp
next
  case (Cons r rs)
  obtain t bs' where t: "to_vec r = Some t" "bs = t @ [10] @ bs'" "sent_as to_vec rs bs'"
    using Cons.prems(1) by (rule sent_as_Cons)
  have plain: "plain_line t"
    using json t(1) by (auto simp: json_text_def plain_line_def is_ascii_whitespace_def)
  have poll: "poll_line c = (Some t, c\<lparr>cc_tx := bs' @ part\<rparr>)"
    by (rule poll_line_next [OF plain, of "[10]"]) (use Cons.prems(2) t(2) in auto)
  have dec: "decode_line J t = Some r" using decode_encode_line [OF json t(1), of "[]"] by simp
  have step: "drain_agent J c d = (if is_finish r then (True, c\<lparr>cc_tx := bs' @ part\<rparr>, fold_reply r d)
      else drain_agent J (c\<lparr>cc_tx := bs' @ part\<rparr>) (fold_reply r d))"
    using poll on_agent_line_reply [OF dec] by (simp add: drain_agent.simps [of J c])
  show ?case
  proof (cases "is_finish r")
    case True
    then show ?thesis using step Cons.prems(3) by simp
  next
    case False
    then show ?thesis using step Cons.prems(3) Cons.IH [OF t(3), of "c\<lparr>cc_tx := bs' @ part\<rparr>" "fold_reply r d"] by simp
  qed
qed

lemma fold_reply_no_finish:
  assumes "\<forall>r \<in> set rs. \<not> is_finish r"
  shows "dr_verdict (fold fold_reply rs d) = dr_verdict d"
  using assms by (induction rs arbitrary: d) (simp_all add: fold_reply_verdict split: option.splits)

lemma filter_dropWhile: "filter P xs = filter P (dropWhile (\<lambda>x. \<not> P x) xs)"
  by (induction xs) auto

lemma drained_verdict:
  assumes "json_text to_vec J" and "sent_as to_vec rs bs" and "10 \<notin> set part" and "cc_tx c = bs @ part"
    and d: "dr_verdict d = None" and "drain_agent J c d = (stop, c', d')"
  shows "stop \<longleftrightarrow> (\<exists>r \<in> set rs. is_finish r)"
    and "dr_verdict d' = (case filter is_finish rs of [] \<Rightarrow> None | r # _ \<Rightarrow> Some (finish_verdict (the (rep_event r))))"
proof -
  let ?front = "takeWhile (\<lambda>r. \<not> is_finish r) rs" and ?later = "dropWhile (\<lambda>r. \<not> is_finish r) rs"
  show "stop \<longleftrightarrow> (\<exists>r \<in> set rs. is_finish r)" using drain_agent_replies [OF assms(1-4,6)] by blast
  have d': "d' = fold fold_reply (?front @ take 1 ?later) d" using drain_agent_replies [OF assms(1-4,6)] by blast
  have front: "dr_verdict (fold fold_reply ?front d) = None"
    using fold_reply_no_finish [of ?front d] d by (auto dest: set_takeWhileD)
  have f: "filter is_finish rs = filter is_finish ?later" by (rule filter_dropWhile)
  show "dr_verdict d' = (case filter is_finish rs of [] \<Rightarrow> None | r # _ \<Rightarrow> Some (finish_verdict (the (rep_event r))))"
  proof (cases ?later)
    case Nil
    have "filter is_finish rs = []" unfolding f Nil by simp
    moreover have "d' = fold fold_reply ?front d" unfolding d' Nil by simp
    ultimately show ?thesis using front by (simp only: list.case)
  next
    case (Cons r rest)
    then have r: "is_finish r" using hd_dropWhile [of "\<lambda>r. \<not> is_finish r" rs] by auto
    then show ?thesis unfolding d' f Cons using front by (simp add: fold_reply_verdict)
  qed
qed

lemma finish_verdict_code: "verdict_exit_code (finish_verdict ev) = (if ev_exit ev = Some 0 then 0 else 1)"
proof -
  have "word_of_int EXIT_INFRA \<noteq> (0 :: i64)" by (simp add: const_defs)
  then show ?thesis by (auto simp: verdict_exit_code_def finish_verdict_def const_defs split: option.splits)
qed

text \<open>
  The first finish decides the run. When the agent's replies are on the channel, cut into
  lines and followed by any incomplete line, the loop over them stops exactly when a container
  finished the run, and the exit code is then 0 if the first finish carried the verdict 0 and 1
  otherwise (a finish without a verdict never passes), whatever follows it; a run nobody finished
  returns the code of its stop reason.
\<close>

theorem first_finish_decides:
  assumes "json_text to_vec J" and "sent_as to_vec rs bs" and "10 \<notin> set part"
    and "cc_tx c = bs @ part" and "dr_verdict d = None" and "drain_agent J c d = (stop, c', d')"
  shows "stop = (\<exists>r \<in> set rs. is_finish r)
    \<and> ro_exit_code (run_outcome d' reason) =
        (case filter is_finish rs of
           [] \<Rightarrow> stop_exit_code reason
         | r # _ \<Rightarrow> if ev_exit (the (rep_event r)) = Some 0 then 0 else 1)"
  using drained_verdict [OF assms] by (simp add: run_outcome_def finish_verdict_code split: list.split)

definition sample_finish :: "i64 option \<Rightarrow> unit Reply" where
  "sample_finish code = from_event 1 \<lparr>ev_kind = OP_FINISH, ev_name = ''done'', ev_ok = None, ev_exit = code, ev_details = None\<rparr>"

definition sample_to_vec :: "unit Reply \<Rightarrow> bytes option" where
  "sample_to_vec r = (if r = sample_finish (Some 7) then Some [65] else if r = sample_finish (Some 0) then Some [66] else None)"

definition sample_from_slice :: "bytes \<Rightarrow> unit Reply option" where
  "sample_from_slice t = (if t = [65] then Some (sample_finish (Some 7)) else if t = [66] then Some (sample_finish (Some 0)) else None)"

lemma sample_json: "json_text sample_to_vec sample_from_slice"
  by (auto simp: json_text_def sample_to_vec_def sample_from_slice_def is_ascii_whitespace_def split: if_splits)

theorem first_finish_decides_witness:
  "\<exists>stop c' d'. drain_agent sample_from_slice ((control_new ())\<lparr>cc_tx := [65, 10, 66, 10, 67]\<rparr>) driver_default = (stop, c', d')
     \<and> stop \<and> ro_exit_code (run_outcome d' DriverFinish) = 1"
proof -
  let ?c = "(control_new ())\<lparr>cc_tx := [65, 10, 66, 10, 67]\<rparr>"
  let ?rs = "[sample_finish (Some 7), sample_finish (Some 0)]"
  obtain stop c' d' where r: "drain_agent sample_from_slice ?c driver_default = (stop, c', d')" by (metis prod_cases3)
  have fin: "is_finish (sample_finish x)" for x
    by (simp add: is_finish_def sample_finish_def from_event_def reply_default_def is_hello_def)
  have "sample_finish (Some 0) \<noteq> sample_finish (Some 7)" by (simp add: sample_finish_def from_event_def reply_default_def)
  then have s: "sent_as sample_to_vec ?rs ([65, 10] @ [66, 10])"
    by (auto simp: sent_as_def encode_line_def sample_to_vec_def intro!: exI [of _ "[[65, 10], [66, 10]]"])
  have "cc_tx ?c = ([65, 10] @ [66, 10]) @ [67]" by simp
  then have "stop \<and> ro_exit_code (run_outcome d' DriverFinish) = 1"
    using first_finish_decides [OF sample_json s _ _ _ r, of "[67]" DriverFinish] fin
    by (simp add: driver_default_def) (simp add: sample_finish_def from_event_def)
  then show ?thesis using r by blast
qed

end
