(* ===== verification/Timers.thy ===== *)
theory Timers
  imports Vtsc
begin

text \<open>
  The host timers of the program: the helpers of \<open>src/src/util.rs\<close>, the tick doorbell of
  \<open>src/src/doorbell.rs\<close> and the idle park of \<open>src/src/park.rs\<close>.

  System calls are parameters. The doorbell shares three cells with its signal handler: the
  \<open>immediate_exit\<close> byte of the vCPU's run page (behind a pointer that may be null), the flag
  \<open>FIRED\<close> and the armed value of the host timer; a signal may arrive between any two of the
  doorbell's steps, so the interleavings are a step relation.
\<close>

section \<open>Helpers\<close>

record timespec =
  tv_sec :: i64
  tv_nsec :: i64

record itimerspec =
  it_interval :: timespec
  it_value :: timespec

definition timespec_zero :: timespec where
  "timespec_zero = \<lparr>tv_sec = 0, tv_nsec = 0\<rparr>"

definition itimerspec_zero :: itimerspec where
  "itimerspec_zero = \<lparr>it_interval = timespec_zero, it_value = timespec_zero\<rparr>"

definition one_shot_itimerspec :: "u64 \<Rightarrow> itimerspec" where
  "one_shot_itimerspec ns =
     \<lparr>it_interval = timespec_zero,
      it_value = \<lparr>tv_sec = ucast (ns div 1000000000), tv_nsec = ucast (ns mod 1000000000)\<rparr>\<rparr>"

definition read_u32_le :: "bytes \<Rightarrow> u32" where
  "read_u32_le bs = from_le_bytes (map (\<lambda>i. if i < length bs then bs ! i else 0) [0..<4])"

definition write_u32_le :: "bytes \<Rightarrow> u32 \<Rightarrow> bytes" where
  "write_u32_le bs val =
     (let b = to_le_bytes 4 val in map (\<lambda>i. if i < 4 then b ! i else bs ! i) [0..<length bs])"

section \<open>The doorbell\<close>

record Doorbell =
  db_enabled :: bool
  last_armed :: "u64 option"

record doorbell_cells =
  immediate_exit :: u8
  ie_pointer :: bool
  FIRED :: bool
  host_timer :: itimerspec

definition doorbell_off :: Doorbell where
  "doorbell_off = \<lparr>db_enabled = False, last_armed = None\<rparr>"

text \<open>\<open>disabled\<close> is the environment variable, \<open>created\<close> the outcome of \<open>timer_create\<close>.\<close>

definition doorbell_new :: "bool \<Rightarrow> bool \<Rightarrow> doorbell_cells \<Rightarrow> Doorbell \<times> doorbell_cells" where
  "doorbell_new disabled created e =
     (if disabled then (doorbell_off, e)
      else if \<not> created then (doorbell_off, e)
      else (\<lparr>db_enabled = True, last_armed = None\<rparr>, e\<lparr>ie_pointer := True, host_timer := itimerspec_zero\<rparr>))"

definition doorbell_clear :: "Doorbell \<Rightarrow> doorbell_cells \<Rightarrow> doorbell_cells" where
  "doorbell_clear d e = (if db_enabled d then e\<lparr>immediate_exit := 0\<rparr> else e)"

text \<open>The two halves of \<open>arm\<close>: taking the flag, and setting the timer unless it is still armed.\<close>

definition arm_swap :: "doorbell_cells \<Rightarrow> bool \<times> doorbell_cells" where
  "arm_swap e = (FIRED e, e\<lparr>FIRED := False\<rparr>)"

definition arm_spec :: "host \<Rightarrow> VirtualClock \<Rightarrow> u64 option \<Rightarrow> itimerspec" where
  "arm_spec env clock deadline =
     (case deadline of
        Some dl \<Rightarrow>
          let now = vtsc_now env clock;
              ns = (if dl > now then max (cycles_to_ns (vc_freq clock) (dl - now)) 1 else 1)
          in one_shot_itimerspec ns
      | None \<Rightarrow> itimerspec_zero)"

definition arm_set ::
  "host \<Rightarrow> VirtualClock \<Rightarrow> Doorbell \<Rightarrow> doorbell_cells \<Rightarrow> bool \<Rightarrow> u64 option \<Rightarrow> Doorbell \<times> doorbell_cells" where
  "arm_set env clock d e fired deadline =
     (if deadline = last_armed d \<and> \<not> fired then (d, e)
      else (d\<lparr>last_armed := deadline\<rparr>, e\<lparr>host_timer := arm_spec env clock deadline\<rparr>))"

definition doorbell_arm ::
  "host \<Rightarrow> VirtualClock \<Rightarrow> Doorbell \<Rightarrow> doorbell_cells \<Rightarrow> u64 option \<Rightarrow> Doorbell \<times> doorbell_cells" where
  "doorbell_arm env clock d e deadline =
     (if \<not> db_enabled d then (d, e)
      else let (fired, e) = arm_swap e in arm_set env clock d e fired deadline)"

definition on_doorbell :: "doorbell_cells \<Rightarrow> doorbell_cells" where
  "on_doorbell e = (if ie_pointer e then e\<lparr>immediate_exit := 1\<rparr> else e)\<lparr>FIRED := True\<rparr>"

definition doorbell_drop :: "Doorbell \<Rightarrow> doorbell_cells \<Rightarrow> doorbell_cells" where
  "doorbell_drop d e =
     (if \<not> db_enabled d then e else e\<lparr>ie_pointer := False, host_timer := itimerspec_zero\<rparr>)"

section \<open>The park\<close>

record pollfd =
  pf_fd :: int
  pf_events :: u16
  revents :: u16

definition POLLIN :: u16 where [const_defs]: "POLLIN = 1"
definition POLLERR :: u16 where [const_defs]: "POLLERR = 8"
definition POLLHUP :: u16 where [const_defs]: "POLLHUP = 16"

datatype poll_result = Ready "u16 list" | Interrupted | PollFailed

text \<open>The system calls of the park; \<open>Ready\<close> has the \<open>revents\<close> of the given descriptors.\<close>

record 'w park_os =
  os_poll :: "'w \<Rightarrow> pollfd list \<Rightarrow> poll_result \<times> 'w"
  os_ppoll :: "'w \<Rightarrow> pollfd list \<Rightarrow> poll_result \<times> 'w"
  os_timerfd_settime :: "'w \<Rightarrow> itimerspec \<Rightarrow> 'w"
  os_timerfd_read :: "'w \<Rightarrow> 'w"

record Wakes =
  wk_input :: bool
  wk_timer :: bool
  wk_egress :: bool

definition wakes_default :: Wakes where
  "wakes_default = \<lparr>wk_input = False, wk_timer = False, wk_egress = False\<rparr>"

record Parker =
  timer_fd :: int
  stdin_fd :: int
  stdin_open :: bool

definition parker_new :: "int option \<Rightarrow> Parker option" where
  "parker_new fd = map_option (\<lambda>fd. \<lparr>timer_fd = fd, stdin_fd = 0, stdin_open = True\<rparr>) fd"

definition close_stdin :: "Parker \<Rightarrow> Parker" where
  "close_stdin p = p\<lparr>stdin_open := False\<rparr>"

definition poll_in :: "int \<Rightarrow> pollfd" where
  "poll_in fd = \<lparr>pf_fd = fd, pf_events = POLLIN, revents = 0\<rparr>"

definition stdin_ready :: "'w park_os \<Rightarrow> Parker \<Rightarrow> 'w \<Rightarrow> (unit + bool) \<times> 'w" where
  "stdin_ready P p w =
     (if \<not> stdin_open p then (Inr False, w)
      else case os_poll P w [poll_in (stdin_fd p)] of
        (PollFailed, w) \<Rightarrow> (Inl (), w)
      | (Interrupted, w) \<Rightarrow> (Inr False, w)
      | (Ready rs, w) \<Rightarrow> (Inr (rs ! 0 AND (POLLIN OR POLLHUP) \<noteq> 0), w))"

definition park_arm :: "'w park_os \<Rightarrow> 'w \<Rightarrow> u64 \<Rightarrow> 'w" where
  "park_arm P w ns = os_timerfd_settime P w (one_shot_itimerspec ns)"

definition park_disarm :: "'w park_os \<Rightarrow> 'w \<Rightarrow> 'w" where
  "park_disarm P w = os_timerfd_settime P w itimerspec_zero"

text \<open>The packed descriptors, and the slots of the console and of the egress descriptor.\<close>

definition pack_fds :: "Parker \<Rightarrow> int option \<Rightarrow> pollfd list \<times> nat option \<times> nat option" where
  "pack_fds p egress_fd =
     (let fds = [poll_in (timer_fd p)];
          (fds, stdin_slot) = (if stdin_open p then (fds @ [poll_in (stdin_fd p)], Some (length fds)) else (fds, None));
          (fds, egress_slot) = (case egress_fd of
              Some fd \<Rightarrow> (fds @ [poll_in fd], Some (length fds))
            | None \<Rightarrow> (fds, None))
      in (fds, stdin_slot, egress_slot))"

definition park :: "'w park_os \<Rightarrow> Parker \<Rightarrow> 'w \<Rightarrow> u64 option \<Rightarrow> int option \<Rightarrow> (unit + Wakes) \<times> 'w" where
  "park P p w timeout_ns egress_fd =
     (if timeout_ns = Some 0 then (Inr \<lparr>wk_input = False, wk_timer = True, wk_egress = False\<rparr>, park_disarm P w)
      else
        let w = (case timeout_ns of Some ns \<Rightarrow> park_arm P w ns | None \<Rightarrow> park_disarm P w);
            (fds, stdin_slot, egress_slot) = pack_fds p egress_fd
        in case os_ppoll P w fds of
             (PollFailed, w) \<Rightarrow> (Inl (), w)
           | (Interrupted, w) \<Rightarrow> (Inr wakes_default, w)
           | (Ready rs, w) \<Rightarrow>
               let timer = (rs ! 0 AND POLLIN \<noteq> 0);
                   input = (case stdin_slot of None \<Rightarrow> False | Some i \<Rightarrow> rs ! i AND (POLLIN OR POLLHUP) \<noteq> 0);
                   egress = (case egress_slot of None \<Rightarrow> False
                      | Some i \<Rightarrow> rs ! i AND (POLLIN OR POLLHUP OR POLLERR) \<noteq> 0);
                   w = (if timer then os_timerfd_read P w else w)
               in (Inr \<lparr>wk_input = input, wk_timer = timer, wk_egress = egress\<rparr>, w))"

section \<open>Lemmas on the helpers\<close>

definition armed :: "itimerspec \<Rightarrow> bool" where
  "armed spec \<longleftrightarrow> it_value spec \<noteq> timespec_zero"

lemma ucast_i64_zero: "(ucast (x :: u64) :: i64) = 0 \<longleftrightarrow> x = 0"
  by (simp add: ucast_id)

lemma armed_one_shot: "armed (one_shot_itimerspec ns) \<longleftrightarrow> ns \<noteq> 0"
proof (cases "ns div 1000000000 = 0")
  case True
  then have "ns mod 1000000000 = ns" by (metis add_0 div_mult_mod_eq mult_zero_left)
  then show ?thesis by (simp add: armed_def one_shot_itimerspec_def timespec_zero_def True)
next
  case False
  then have "ns \<noteq> 0" by auto
  then show ?thesis using False by (simp add: armed_def one_shot_itimerspec_def timespec_zero_def)
qed

lemma armed_arm_spec: "armed (arm_spec env clock deadline) \<longleftrightarrow> deadline \<noteq> None"
proof -
  have "max x (1 :: u64) \<noteq> 0" for x by (simp add: max_def) (metis word_gt_0 word_not_simps(1) linorder_not_le)
  moreover have "\<not> armed itimerspec_zero" by (simp add: armed_def itimerspec_zero_def)
  ultimately show ?thesis by (auto simp: arm_spec_def armed_one_shot Let_def split: option.splits)
qed

section \<open>No lost wakeup\<close>

text \<open>
  Where the vCPU thread is in its loop: at the boundary, after the clear, between the two
  halves of \<open>arm\<close> (with the flag it took), and in \<open>KVM_RUN\<close> with the deadline it armed for. The
  signal can arrive at every point where the timer is armed, and then disarms the one-shot timer.
\<close>

datatype phase = Boundary | Cleared | Swapped bool | Running "u64 option"

inductive doorbell_step :: "VirtualClock \<Rightarrow> phase \<times> Doorbell \<times> doorbell_cells \<Rightarrow> phase \<times> Doorbell \<times> doorbell_cells \<Rightarrow> bool"
  for clock where
  fire: "armed (host_timer e) \<Longrightarrow> doorbell_step clock (ph, d, e) (ph, d, on_doorbell (e\<lparr>host_timer := itimerspec_zero\<rparr>))"
| clear: "doorbell_step clock (Boundary, d, e) (Cleared, d, doorbell_clear d e)"
| swap: "arm_swap e = (fired, e') \<Longrightarrow> doorbell_step clock (Cleared, d, e) (Swapped fired, d, e')"
| set: "arm_set env clock d e fired deadline = (d', e') \<Longrightarrow>
    doorbell_step clock (Swapped fired, d, e) (Running deadline, d', e')"
| exit: "doorbell_step clock (Running deadline, d, e) (Boundary, d, e)"

inductive_cases doorbell_stepE: "doorbell_step clock s t"

text \<open>Without a fire, the timer is armed exactly when a deadline is cached; a fire after the swap is still visible.\<close>

fun doorbell_ok :: "phase \<times> Doorbell \<times> doorbell_cells \<Rightarrow> bool" where
  "doorbell_ok (ph, d, e) \<longleftrightarrow> db_enabled d \<and> ie_pointer e \<and>
     (case ph of
        Boundary \<Rightarrow> FIRED e \<or> (armed (host_timer e) \<longleftrightarrow> last_armed d \<noteq> None)
      | Cleared \<Rightarrow> FIRED e \<or> (armed (host_timer e) \<longleftrightarrow> last_armed d \<noteq> None)
      | Swapped f \<Rightarrow> (FIRED e \<longrightarrow> immediate_exit e = 1) \<and>
          (f \<or> FIRED e \<or> (armed (host_timer e) \<longleftrightarrow> last_armed d \<noteq> None))
      | Running dl \<Rightarrow> last_armed d = dl \<and> (FIRED e \<longrightarrow> immediate_exit e = 1) \<and>
          (FIRED e \<or> (armed (host_timer e) \<longleftrightarrow> dl \<noteq> None)))"

lemma doorbell_step_ok:
  assumes "doorbell_step clock s t" and "doorbell_ok s"
  shows "doorbell_ok t"
  using assms(1)
proof cases
  case (fire e ph d)
  then show ?thesis using assms(2) by (cases ph) (auto simp: on_doorbell_def)
next
  case (clear d e)
  then show ?thesis using assms(2) by (auto simp: doorbell_clear_def)
next
  case (swap e fired e' d)
  then show ?thesis using assms(2) by (auto simp: arm_swap_def)
next
  case (set env d e fired deadline d' e')
  then show ?thesis using assms(2) armed_arm_spec [of env clock deadline]
    by (auto simp: arm_set_def split: if_splits)
next
  case (exit deadline d e)
  then show ?thesis using assms(2) by auto
qed

lemma doorbell_run_ok:
  "(doorbell_step clock)\<^sup>*\<^sup>* s t \<Longrightarrow> doorbell_ok s \<Longrightarrow> doorbell_ok t"
  by (induction rule: rtranclp_induct) (blast intro: doorbell_step_ok)+

text \<open>
  C35. No wakeup is lost. Wherever the timer signal arrives, even between the two halves of
  arming, whenever the vCPU runs with a pending deadline the host timer is armed, so the signal
  will break the run, or the byte that makes \<open>KVM_RUN\<close> return at once is set.
\<close>

theorem doorbell_no_lost_wakeup:
  assumes "doorbell_new False True e0 = (d0, e)" and "FIRED e0 = False"
    and "(doorbell_step clock)\<^sup>*\<^sup>* (Boundary, d0, e) (Running (Some dl), d, e')"
  shows "armed (host_timer e') \<or> immediate_exit e' = 1"
proof -
  have "doorbell_ok (Boundary, d0, e)"
    using assms(1,2) by (auto simp: doorbell_new_def armed_def itimerspec_zero_def)
  from doorbell_run_ok [OF assms(3) this] show ?thesis by auto
qed

theorem doorbell_no_lost_wakeup_witness:
  "\<exists>d e'. (doorbell_step \<lparr>vc_cell = 0, vc_freq = \<lparr>freq_hz = 1000000000\<rparr>\<rparr>)\<^sup>*\<^sup>*
       (Boundary, doorbell_new False True \<lparr>immediate_exit = 0, ie_pointer = False, FIRED = False, host_timer = itimerspec_zero\<rparr>)
       (Running (Some 5), d, e') \<and> (armed (host_timer e') \<or> immediate_exit e' = 1)"
proof -
  let ?clk = "\<lparr>vc_cell = 0, vc_freq = \<lparr>freq_hz = 1000000000\<rparr>\<rparr>"
  let ?e = "\<lparr>immediate_exit = 0, ie_pointer = False, FIRED = False, host_timer = itimerspec_zero\<rparr>"
  obtain d e where n: "doorbell_new False True ?e = (d, e)" by fastforce
  obtain f e1 where s: "arm_swap (doorbell_clear d e) = (f, e1)" by fastforce
  obtain d2 e2 where a: "arm_set \<lparr>host_cells = (\<lambda>_. 0), host_rdtsc = 0\<rparr> ?clk d e1 f (Some 5) = (d2, e2)" by fastforce
  have r: "(doorbell_step ?clk)\<^sup>*\<^sup>* (Boundary, d, e) (Running (Some 5), d2, e2)"
    using doorbell_step.clear [of ?clk d e] doorbell_step.swap [OF s, of ?clk d] doorbell_step.set [OF a]
    by (meson converse_rtranclp_into_rtranclp rtranclp.rtrancl_refl)
  from doorbell_no_lost_wakeup [OF n _ r] show ?thesis using n r by auto
qed

section \<open>Waking from the park\<close>

lemma poll_bits:
  fixes x :: u16
  shows "x AND POLLIN \<noteq> 0 \<longleftrightarrow> bit x 0"
    and "x AND (POLLIN OR POLLHUP) \<noteq> 0 \<longleftrightarrow> bit x 0 \<or> bit x 4"
    and "x AND (POLLIN OR POLLHUP OR POLLERR) \<noteq> 0 \<longleftrightarrow> bit x 0 \<or> bit x 3 \<or> bit x 4"
proof -
  have one: "x AND POLLIN = 0 \<longleftrightarrow> \<not> bit x 0" and hup: "x AND POLLHUP = 0 \<longleftrightarrow> \<not> bit x 4"
    and err: "x AND POLLERR = 0 \<longleftrightarrow> \<not> bit x 3"
    using and_exp_eq_0_iff_not_bit [of x 0] and_exp_eq_0_iff_not_bit [of x 4] and_exp_eq_0_iff_not_bit [of x 3]
    by (simp_all add: const_defs)
  show "x AND POLLIN \<noteq> 0 \<longleftrightarrow> bit x 0" "x AND (POLLIN OR POLLHUP) \<noteq> 0 \<longleftrightarrow> bit x 0 \<or> bit x 4"
    "x AND (POLLIN OR POLLHUP OR POLLERR) \<noteq> 0 \<longleftrightarrow> bit x 0 \<or> bit x 3 \<or> bit x 4"
    using one hup err by (auto simp: bit.conj_disj_distrib or_eq_0_iff)
qed

definition polled :: "Parker \<Rightarrow> int option \<Rightarrow> int list" where
  "polled p egress_fd = timer_fd p # (if stdin_open p then [stdin_fd p] else [])
     @ (case egress_fd of Some fd \<Rightarrow> [fd] | None \<Rightarrow> [])"

definition timer_programmed :: "'w park_os \<Rightarrow> 'w \<Rightarrow> u64 option \<Rightarrow> 'w" where
  "timer_programmed P w timeout_ns = (case timeout_ns of Some ns \<Rightarrow> park_arm P w ns | None \<Rightarrow> park_disarm P w)"

text \<open>
  A park reports exactly the sources that are ready. A deadline already due returns at once
  as a timer wake. Otherwise the timer is armed for the timeout (or disarmed), the timer, the
  console unless closed and the egress descriptor if given are polled, each once; a failed wait is
  an error, an interrupted one reports nothing, and else each flag is read from its own
  descriptor's result, whichever descriptors were polled.
\<close>

theorem park_reports_ready:
  "park P p w (Some 0) egress_fd = (Inr \<lparr>wk_input = False, wk_timer = True, wk_egress = False\<rparr>, park_disarm P w)
   \<and> (timeout_ns \<noteq> Some 0 \<longrightarrow>
       (case os_ppoll P (timer_programmed P w timeout_ns) (map poll_in (polled p egress_fd)) of
          (PollFailed, w2) \<Rightarrow> park P p w timeout_ns egress_fd = (Inl (), w2)
        | (Interrupted, w2) \<Rightarrow> park P p w timeout_ns egress_fd = (Inr wakes_default, w2)
        | (Ready rs, w2) \<Rightarrow> (\<forall>rev_of. rs = map rev_of (polled p egress_fd) \<longrightarrow>
            (\<exists>wk. fst (park P p w timeout_ns egress_fd) = Inr wk
              \<and> (wk_timer wk \<longleftrightarrow> bit (rev_of (timer_fd p)) 0)
              \<and> (wk_input wk \<longleftrightarrow> stdin_open p \<and> (bit (rev_of (stdin_fd p)) 0 \<or> bit (rev_of (stdin_fd p)) 4))
              \<and> (wk_egress wk \<longleftrightarrow> (\<exists>fd. egress_fd = Some fd
                    \<and> (bit (rev_of fd) 0 \<or> bit (rev_of fd) 3 \<or> bit (rev_of fd) 4)))))))"
  by (auto simp: park_def pack_fds_def polled_def timer_programmed_def poll_bits Let_def
      split: prod.splits poll_result.splits option.splits if_splits)

theorem park_reports_ready_witness:
  "\<exists>wk. fst (park \<lparr>os_poll = (\<lambda>w fds. (Interrupted, w)), os_ppoll = (\<lambda>w fds. (Ready (map (\<lambda>f. if pf_fd f = 0 then 16 else 0) fds), w)),
       os_timerfd_settime = (\<lambda>w spec. w), os_timerfd_read = (\<lambda>w. w)\<rparr>
       \<lparr>timer_fd = 3, stdin_fd = 0, stdin_open = True\<rparr> () (Some 5) (Some 9)) = Inr wk
     \<and> wk_input wk \<and> \<not> wk_timer wk \<and> \<not> wk_egress wk"
proof -
  let ?P = "\<lparr>os_poll = (\<lambda>w fds. (Interrupted, w)), os_ppoll = (\<lambda>w fds. (Ready (map (\<lambda>f. if pf_fd f = 0 then 16 else 0) fds), w)),
       os_timerfd_settime = (\<lambda>w spec. w), os_timerfd_read = (\<lambda>w. w)\<rparr>"
  have "bit (16 :: u16) 4" by (simp add: bit_iff_odd)
  then show ?thesis
    using park_reports_ready [of ?P "\<lparr>timer_fd = 3, stdin_fd = 0, stdin_open = True\<rparr>" "()" "Some 9" "Some 5"]
    by (auto simp: polled_def timer_programmed_def poll_in_def dest!: spec [of _ "\<lambda>fd. if fd = 0 then 16 else 0"])
qed

section \<open>Device accesses of up to four bytes\<close>

lemma read_write_u32_le: "length bs \<ge> 4 \<Longrightarrow> read_u32_le (write_u32_le bs val) = val"
proof -
  assume "length bs \<ge> 4"
  then have "map (\<lambda>i. if i < length (write_u32_le bs val) then write_u32_le bs val ! i else 0) [0..<4] = to_le_bytes 4 val"
    by (intro nth_equalityI) (auto simp: write_u32_le_def to_le_bytes_def)
  then show ?thesis by (simp add: read_u32_le_def from_to_le_bytes)
qed

end
