(* ===== verification/Telemetry.thy ===== *)
theory Telemetry
  imports Vtsc
begin

text \<open>
  The fast-forward accounting of \<open>src/src/telemetry.rs\<close>: the histogram of jumps by their
  virtual advance, the histogram of their real cost, the counters of \<open>FfState\<close> and the rate
  limiter of the jump-rate warning. Times are nanoseconds as in the other theories.

  Floating-point arithmetic is a parameter: \<open>high n win\<close> says whether \<open>n\<close> jumps in a window of
  \<open>win\<close> nanoseconds exceed the threshold of jumps per second. The quantile estimate and the two
  text reports, which only format floating-point values, are left out.
\<close>

section \<open>Histograms\<close>

definition HIST_EDGES_NS :: "u64 list" where
  [const_defs]: "HIST_EDGES_NS = [1000, 10000, 100000, 1000000, 10000000, 100000000, 1000000000, 10000000000]"

definition HIST_LABELS :: "string list" where
  [const_defs]: "HIST_LABELS = [''<1us'', ''<10us'', ''<100us'', ''<1ms'', ''<10ms'', ''<100ms'', ''<1s'', ''<10s'', ''>=10s'']"

definition COST_EDGES_NS :: "u64 list" where
  [const_defs]: "COST_EDGES_NS = [50, 100, 200, 500, 1000, 2000, 5000, 10000, 20000, 50000, 100000, 200000,
     500000, 1000000, 2000000, 5000000, 10000000]"

text \<open>A comma before every digit that has a multiple of three digits from it to the end.\<close>

definition group_digits :: "u64 \<Rightarrow> string" where
  "group_digits n =
     (let b = decimal (unat n)
      in concat (map (\<lambda>i. (if i > 0 \<and> (length b - i) mod 3 = 0 then '','' else '''') @ [b ! i]) [0..<length b]))"

record DeltaHistogram =
  dh_buckets :: "u64 list"

definition delta_hist_new :: DeltaHistogram where
  "delta_hist_new = \<lparr>dh_buckets = replicate 9 0\<rparr>"

text \<open>The index loop of both \<open>record_ns\<close>: skip the edges that the value has reached.\<close>

fun bucket_of :: "u64 list \<Rightarrow> u64 \<Rightarrow> nat" where
  "bucket_of [] ns = 0"
| "bucket_of (e # es) ns = (if ns \<ge> e then Suc (bucket_of es ns) else 0)"

definition delta_record_ns :: "DeltaHistogram \<Rightarrow> u64 \<Rightarrow> DeltaHistogram" where
  "delta_record_ns h ns =
     (let i = bucket_of HIST_EDGES_NS ns in h\<lparr>dh_buckets := (dh_buckets h)[i := dh_buckets h ! i + 1]\<rparr>)"

fun join :: "string \<Rightarrow> string list \<Rightarrow> string" where
  "join sep [] = []"
| "join sep [s] = s"
| "join sep (s # ss) = s @ sep @ join sep ss"

text \<open>\<open>summary\<close>, after its fixed heading.\<close>

definition hist_summary :: "DeltaHistogram \<Rightarrow> string" where
  "hist_summary h = join '' '' (map (\<lambda>i. HIST_LABELS ! i @ '':'' @ decimal (unat (dh_buckets h ! i))) [0..<length (dh_buckets h)])"

definition counts_csv :: "DeltaHistogram \<Rightarrow> string" where
  "counts_csv h = join '','' (map (\<lambda>c. decimal (unat c)) (dh_buckets h))"

record CostHistogram =
  ch_buckets :: "u64 list"
  ch_total :: u64

definition cost_hist_new :: CostHistogram where
  "cost_hist_new = \<lparr>ch_buckets = replicate 18 0, ch_total = 0\<rparr>"

definition cost_record_ns :: "CostHistogram \<Rightarrow> u64 \<Rightarrow> CostHistogram" where
  "cost_record_ns h ns =
     (let i = bucket_of COST_EDGES_NS ns
      in h\<lparr>ch_buckets := (ch_buckets h)[i := ch_buckets h ! i + 1], ch_total := ch_total h + 1\<rparr>)"

section \<open>The accounting state\<close>

definition JUMP_RATE_WARN_SUSTAIN :: nat where [const_defs]: "JUMP_RATE_WARN_SUSTAIN = 5 * 10 ^ 9"
definition JUMP_RATE_WARN_COOLDOWN :: nat where [const_defs]: "JUMP_RATE_WARN_COOLDOWN = 30 * 10 ^ 9"
definition JUMP_RATE_WIN :: nat where [const_defs]: "JUMP_RATE_WIN = 10 ^ 9"

record FfState =
  tsc_hz :: u64
  max_jump_cycles :: u64
  jumps :: u64
  max_delta_cycles :: u64
  sum_delta_cycles :: u128
  hop_ns_sum :: u128
  hop_ns_max :: u64
  ff_hist :: DeltaHistogram
  cost_hist :: CostHistogram
  rate_win_start :: nat
  rate_win_jumps :: u64
  high_since :: "nat option"
  ff_last_warn :: "nat option"

text \<open>The bound on one jump, a floating-point product cast to cycles, is an argument.\<close>

definition ff_new :: "u64 \<Rightarrow> u64 \<Rightarrow> nat \<Rightarrow> FfState" where
  "ff_new freq max_cycles now =
     \<lparr>tsc_hz = freq, max_jump_cycles = max_cycles, jumps = 0, max_delta_cycles = 0, sum_delta_cycles = 0,
      hop_ns_sum = 0, hop_ns_max = 0, ff_hist = delta_hist_new, cost_hist = cost_hist_new,
      rate_win_start = now, rate_win_jumps = 0, high_since = None, ff_last_warn = None\<rparr>"

definition delta_ns :: "u64 \<Rightarrow> u64 \<Rightarrow> u64" where
  "delta_ns freq delta = ucast ((ucast delta * 1000000000 :: u128) div ucast freq)"

definition hop_ns :: "nat \<Rightarrow> u64" where
  "hop_ns hop = of_nat (min hop (2 ^ 64 - 1))"

definition record_hop :: "FfState \<Rightarrow> u64 \<Rightarrow> nat \<Rightarrow> FfState" where
  "record_hop ff delta hop =
     (let ns = hop_ns hop in
      ff\<lparr>jumps := jumps ff + 1,
         sum_delta_cycles := sum_delta_cycles ff + ucast delta,
         max_delta_cycles := (if delta > max_delta_cycles ff then delta else max_delta_cycles ff),
         ff_hist := delta_record_ns (ff_hist ff) (delta_ns (tsc_hz ff) delta),
         hop_ns_sum := hop_ns_sum ff + ucast ns,
         hop_ns_max := (if ns > hop_ns_max ff then ns else hop_ns_max ff),
         cost_hist := cost_record_ns (cost_hist ff) ns\<rparr>)"

text \<open>The warning is the rate's numerator and window, the sustained time and the jump count.\<close>

definition jump_rate_warn_at ::
  "(u64 \<Rightarrow> nat \<Rightarrow> bool) \<Rightarrow> FfState \<Rightarrow> nat \<Rightarrow> (u64 \<times> nat \<times> nat \<times> u64) option \<times> FfState" where
  "jump_rate_warn_at high ff now =
     (let win = now - rate_win_start ff in
      if win < JUMP_RATE_WIN then (None, ff)
      else
        let n = jumps ff - rate_win_jumps ff;
            (msg, ff) =
              (if high n win then
                 let since = (case high_since ff of None \<Rightarrow> rate_win_start ff | Some t \<Rightarrow> t);
                     ff = ff\<lparr>high_since := Some since\<rparr>;
                     sustained = now - since;
                     cooled = (case ff_last_warn ff of None \<Rightarrow> True | Some t \<Rightarrow> now - t \<ge> JUMP_RATE_WARN_COOLDOWN)
                 in if sustained \<ge> JUMP_RATE_WARN_SUSTAIN \<and> cooled
                    then (Some (n, win, sustained, jumps ff), ff\<lparr>ff_last_warn := Some now, high_since := Some now\<rparr>)
                    else (None, ff)
               else (None, ff\<lparr>high_since := None\<rparr>))
        in (msg, ff\<lparr>rate_win_start := now, rate_win_jumps := jumps ff\<rparr>))"

definition mean_hop_ns :: "FfState \<Rightarrow> u64" where
  "mean_hop_ns ff = (if jumps ff = 0 then 0 else ucast (hop_ns_sum ff div ucast (jumps ff)))"

section \<open>What the accounts say\<close>

definition record_hops :: "FfState \<Rightarrow> (u64 \<times> nat) list \<Rightarrow> FfState" where
  "record_hops ff hops = fold (\<lambda>(delta, hop) ff. record_hop ff delta hop) hops ff"

definition count_in :: "u64 list \<Rightarrow> nat \<Rightarrow> u64 list \<Rightarrow> nat" where
  "count_in edges i xs = length (filter (\<lambda>x. bucket_of edges x = i) xs)"

lemma bucket_of_le: "bucket_of es ns \<le> length es"
  by (induction es) auto

text \<open>The bucket of a value is the one between the edges around it.\<close>

lemma bucket_of_edges:
  assumes "i \<le> length es"
  shows "bucket_of es ns = i \<longleftrightarrow> (\<forall>j < i. es ! j \<le> ns) \<and> (i < length es \<longrightarrow> ns < es ! i)"
  using assms
proof (induction es arbitrary: i)
  case (Cons e es)
  show ?case
  proof (cases i)
    case 0
    then show ?thesis by auto
  next
    case (Suc k)
    have "(\<forall>j < Suc k. (e # es) ! j \<le> ns) \<longleftrightarrow> e \<le> ns \<and> (\<forall>j < k. es ! j \<le> ns)"
      by (auto simp: less_Suc_eq_0_disj)
    then show ?thesis using Suc Cons.IH [of k] Cons.prems by simp
  qed
qed auto

definition counted :: "u64 list \<Rightarrow> u64 list \<Rightarrow> u64 list \<Rightarrow> bool" where
  "counted edges buckets xs \<longleftrightarrow> length buckets = Suc (length edges)
     \<and> (\<forall>i < length buckets. unat (buckets ! i) = count_in edges i xs)"

lemma unat_suc:
  fixes w :: "'a::len word"
  assumes "unat w = n" and "Suc n < 2 ^ LENGTH('a)"
  shows "unat (w + 1) = Suc n"
  using assms by (simp add: unat_plus_simple [THEN iffD1] unat_word_ariths)

lemma counted_record:
  assumes "counted edges b xs" and "length xs < 2 ^ 64 - 1"
  shows "counted edges (b[bucket_of edges x := b ! bucket_of edges x + 1]) (xs @ [x])"
proof -
  have "unat (b ! i + 1) = Suc (count_in edges i xs)" if "i < length b" for i
  proof (rule unat_suc)
    show "unat (b ! i) = count_in edges i xs" using assms(1) that by (simp add: counted_def)
    have "count_in edges i xs \<le> length xs" by (simp add: count_in_def)
    then show "Suc (count_in edges i xs) < 2 ^ LENGTH(64)" using assms(2) by simp
  qed
  then show ?thesis using assms(1) bucket_of_le [of edges x]
    by (auto simp: counted_def count_in_def nth_list_update)
qed

lemma counted_new: "counted edges (replicate (Suc (length edges)) 0) []"
  by (simp add: counted_def count_in_def del: replicate_Suc)

text \<open>The counters after a sequence of hops.\<close>

definition accounts :: "u64 \<Rightarrow> FfState \<Rightarrow> (u64 \<times> nat) list \<Rightarrow> bool" where
  "accounts freq ff hops \<longleftrightarrow> tsc_hz ff = freq \<and> unat (jumps ff) = length hops
     \<and> unat (sum_delta_cycles ff) = sum_list (map (\<lambda>h. unat (fst h)) hops)
     \<and> max_delta_cycles ff = fold max (map fst hops) 0
     \<and> unat (hop_ns_sum ff) = sum_list (map (\<lambda>h. unat (hop_ns (snd h))) hops)
     \<and> hop_ns_max ff = fold max (map (\<lambda>h. hop_ns (snd h)) hops) 0
     \<and> counted HIST_EDGES_NS (dh_buckets (ff_hist ff)) (map (\<lambda>h. delta_ns freq (fst h)) hops)
     \<and> counted COST_EDGES_NS (ch_buckets (cost_hist ff)) (map (\<lambda>h. hop_ns (snd h)) hops)
     \<and> ch_total (cost_hist ff) = jumps ff"

lemma accounts_new: "accounts freq (ff_new freq m now) []"
proof -
  have "Suc (length HIST_EDGES_NS) = 9" "Suc (length COST_EDGES_NS) = 18"
    by (simp_all add: HIST_EDGES_NS_def COST_EDGES_NS_def)
  then show ?thesis using counted_new [of HIST_EDGES_NS] counted_new [of COST_EDGES_NS]
    by (simp add: accounts_def ff_new_def delta_hist_new_def cost_hist_new_def)
qed

lemma sum_list_u64_bound: "sum_list (map (\<lambda>h. unat (f h :: u64)) hops) \<le> length hops * (2 ^ 64 - 1)"
proof (induction hops)
  case (Cons h hops)
  have "unat (f h) \<le> 2 ^ 64 - 1" using unat_u64_bound [of "f h"] by simp
  then show ?case using Cons by simp
qed simp

lemma unat_add_u128:
  assumes "unat (a :: u128) = sum_list (map (\<lambda>h. unat (f h :: u64)) hops)" and "length hops < 2 ^ 64 - 1"
  shows "unat (a + ucast (b :: u64)) = sum_list (map (\<lambda>h. unat (f h)) hops) + unat b"
proof -
  have "sum_list (map (\<lambda>h. unat (f h)) hops) \<le> (2 ^ 64 - 2) * (2 ^ 64 - 1)"
    using sum_list_u64_bound [of f hops] assms(2) mult_le_mono1 [of "length hops" "2 ^ 64 - 2" "2 ^ 64 - 1"] by linarith
  moreover have "unat b < 2 ^ 64" by (rule unat_u64_bound)
  ultimately have "unat a + unat b < 2 ^ 128" using assms(1) by simp
  then show ?thesis using assms(1) by (simp add: unat_word_ariths unat_u128_of_u64)
qed

lemma accounts_record:
  assumes "accounts freq ff hops" and "length hops < 2 ^ 64 - 1"
  shows "accounts freq (record_hop ff delta hop) (hops @ [(delta, hop)])"
proof -
  let ?R = "record_hop ff delta hop"
  have a: "tsc_hz ff = freq" "unat (jumps ff) = length hops" "ch_total (cost_hist ff) = jumps ff"
      "max_delta_cycles ff = fold max (map fst hops) 0"
      "hop_ns_max ff = fold max (map (\<lambda>h. hop_ns (snd h)) hops) 0"
    using assms(1) by (simp_all add: accounts_def)
  have j: "unat (jumps ?R) = Suc (length hops)"
    using unat_suc [OF a(2)] assms(2) by (simp add: record_hop_def Let_def)
  have s: "unat (sum_delta_cycles ?R) = sum_list (map (\<lambda>h. unat (fst h)) hops) + unat delta"
    using unat_add_u128 [of "sum_delta_cycles ff" fst hops delta] assms by (simp add: accounts_def record_hop_def Let_def)
  have n: "unat (hop_ns_sum ?R) = sum_list (map (\<lambda>h. unat (hop_ns (snd h))) hops) + unat (hop_ns hop)"
    using unat_add_u128 [of "hop_ns_sum ff" "\<lambda>h. hop_ns (snd h)" hops "hop_ns hop"] assms
    by (simp add: accounts_def record_hop_def Let_def)
  have d: "counted HIST_EDGES_NS (dh_buckets (ff_hist ?R)) (map (\<lambda>h. delta_ns freq (fst h)) (hops @ [(delta, hop)]))"
    using counted_record [of HIST_EDGES_NS "dh_buckets (ff_hist ff)" "map (\<lambda>h. delta_ns freq (fst h)) hops" "delta_ns freq delta"]
      assms a(1) by (simp add: accounts_def record_hop_def delta_record_ns_def Let_def)
  have c: "counted COST_EDGES_NS (ch_buckets (cost_hist ?R)) (map (\<lambda>h. hop_ns (snd h)) (hops @ [(delta, hop)]))"
    using counted_record [of COST_EDGES_NS "ch_buckets (cost_hist ff)" "map (\<lambda>h. hop_ns (snd h)) hops" "hop_ns hop"]
      assms by (simp add: accounts_def record_hop_def cost_record_ns_def Let_def)
  have m: "max_delta_cycles ?R = max (max_delta_cycles ff) delta" "hop_ns_max ?R = max (hop_ns_max ff) (hop_ns hop)"
      "tsc_hz ?R = tsc_hz ff" "ch_total (cost_hist ?R) = jumps ?R"
    using a(3) by (auto simp: record_hop_def cost_record_ns_def Let_def max_def)
  show ?thesis using j s n d c m a by (simp add: accounts_def max.commute)
qed

lemma accounts_hops:
  assumes "length hops < 2 ^ 64"
  shows "accounts freq (record_hops (ff_new freq m now) hops) hops"
  using assms
proof (induction hops rule: rev_induct)
  case (snoc h hops)
  then show ?case
    using accounts_record [of freq "record_hops (ff_new freq m now) hops" hops "fst h" "snd h"]
    by (simp add: record_hops_def split_beta)
qed (simp add: record_hops_def accounts_new)

lemma fold_max_init: "a \<le> fold max xs (a :: u64)"
  by (induction xs arbitrary: a) (auto intro: order_trans [OF max.cobounded2])

lemma fold_max_ge: "x \<in> set xs \<Longrightarrow> x \<le> fold max xs (a :: u64)"
  by (induction xs arbitrary: a) (auto intro: order_trans [OF max.cobounded1 fold_max_init])

lemma sum_list_count: "(\<Sum>i \<leftarrow> [0..<Suc (length es)]. count_in es i xs) = length xs"
proof (induction xs)
  case (Cons x xs)
  have "(\<Sum>i \<leftarrow> [0..<Suc (length es)]. if bucket_of es x = i then 1 else 0) = (1 :: nat)"
    using bucket_of_le [of es x] by (simp add: sum_list_distinct_conv_sum_set sum.delta' less_Suc_eq_le del: upt_Suc)
  moreover have "count_in es i (x # xs) = (if bucket_of es x = i then 1 else 0) + count_in es i xs" for i
    by (simp add: count_in_def)
  ultimately show ?case using Cons by (simp add: sum_list_addf del: upt_Suc)
qed (simp add: count_in_def)

lemma mean_le_max:
  assumes "accounts freq ff hops" and "length hops < 2 ^ 64"
  shows "mean_hop_ns ff \<le> hop_ns_max ff"
proof (cases "hops = []")
  case True
  then have "jumps ff = 0" using assms(1) by (simp add: accounts_def unat_eq_0)
  then show ?thesis by (simp add: mean_hop_ns_def)
next
  case False
  have a: "unat (jumps ff) = length hops" "unat (hop_ns_sum ff) = sum_list (map (\<lambda>h. unat (hop_ns (snd h))) hops)"
      "hop_ns_max ff = fold max (map (\<lambda>h. hop_ns (snd h)) hops) 0"
    using assms(1) by (simp_all add: accounts_def)
  have "unat (hop_ns (snd h)) \<le> unat (hop_ns_max ff)" if "h \<in> set hops" for h
    using fold_max_ge [of "hop_ns (snd h)" "map (\<lambda>h. hop_ns (snd h)) hops" 0] that a(3) by (auto simp: word_le_nat_alt)
  then have "unat (hop_ns_sum ff) \<le> length hops * unat (hop_ns_max ff)"
    unfolding a(2) by (intro sum_list_bound) blast
  then have q: "unat (hop_ns_sum ff) div length hops \<le> unat (hop_ns_max ff)"
    using False by (metis div_le_mono length_0_conv nonzero_mult_div_cancel_left)
  have "unat (hop_ns_sum ff div ucast (jumps ff)) = unat (hop_ns_sum ff) div length hops"
    by (simp add: unat_div_distrib a(1))
  then have "unat (mean_hop_ns ff) \<le> unat (hop_ns_max ff)"
    using q a(1) False by (simp add: mean_hop_ns_def unat_u64_of_u128 unat_eq_0 [symmetric])
  then show ?thesis by (simp add: word_le_nat_alt)
qed

text \<open>
  The accounts of a run are exact. After any sequence of fewer than \<open>2^64\<close> jumps the counter
  is their number, the sum of advances has not wrapped, the largest advance bounds them all, each
  bucket of the histogram holds the number of jumps whose advance lies between its edges so that
  the buckets add up to the jumps, the second histogram's total agrees, and the mean cost of a
  jump does not exceed the greatest.
\<close>

theorem jump_accounts_exact:
  assumes "length hops < 2 ^ 64" and "ff = record_hops (ff_new freq m now) hops"
  shows "unat (jumps ff) = length hops \<and> ch_total (cost_hist ff) = jumps ff
    \<and> unat (sum_delta_cycles ff) = (\<Sum>h \<leftarrow> hops. unat (fst h))
    \<and> (\<forall>h \<in> set hops. fst h \<le> max_delta_cycles ff)
    \<and> (\<forall>i < 9. unat (dh_buckets (ff_hist ff) ! i) = length (filter (\<lambda>h.
          (\<forall>j < i. HIST_EDGES_NS ! j \<le> delta_ns freq (fst h)) \<and> (i < 8 \<longrightarrow> delta_ns freq (fst h) < HIST_EDGES_NS ! i)) hops))
    \<and> (\<Sum>i \<leftarrow> [0..<9]. unat (dh_buckets (ff_hist ff) ! i)) = length hops
    \<and> mean_hop_ns ff \<le> hop_ns_max ff"
proof -
  have acc: "accounts freq ff hops" using accounts_hops [OF assms(1)] assms(2) by simp
  have len: "length HIST_EDGES_NS = 8" by (simp add: HIST_EDGES_NS_def)
  have c: "unat (dh_buckets (ff_hist ff) ! i) = count_in HIST_EDGES_NS i (map (\<lambda>h. delta_ns freq (fst h)) hops)" if "i < 9" for i
    using acc that len by (simp add: accounts_def counted_def)
  have "count_in HIST_EDGES_NS i (map (\<lambda>h. delta_ns freq (fst h)) hops) = length (filter (\<lambda>h.
          (\<forall>j < i. HIST_EDGES_NS ! j \<le> delta_ns freq (fst h)) \<and> (i < 8 \<longrightarrow> delta_ns freq (fst h) < HIST_EDGES_NS ! i)) hops)"
    if "i < 9" for i
    using that len by (simp add: count_in_def filter_map comp_def bucket_of_edges)
  moreover have "(\<Sum>i \<leftarrow> [0..<9]. unat (dh_buckets (ff_hist ff) ! i)) = length hops"
  proof -
    have "(\<Sum>i \<leftarrow> [0..<9]. unat (dh_buckets (ff_hist ff) ! i))
        = (\<Sum>i \<leftarrow> [0..<9]. count_in HIST_EDGES_NS i (map (\<lambda>h. delta_ns freq (fst h)) hops))"
      using c by (intro arg_cong [of _ _ sum_list] map_cong) auto
    also have "\<dots> = length hops" using sum_list_count [of HIST_EDGES_NS "map (\<lambda>h. delta_ns freq (fst h)) hops"] len
      by (simp del: upt_Suc)
    finally show ?thesis .
  qed
  moreover have "\<forall>h \<in> set hops. fst h \<le> max_delta_cycles ff"
    using acc fold_max_ge [of _ "map fst hops" 0] by (auto simp: accounts_def)
  ultimately show ?thesis
    using acc mean_le_max [OF acc assms(1)] c by (simp add: accounts_def)
qed

theorem jump_accounts_exact_witness:
  "unat (jumps (record_hops (ff_new 1000000000 0 0) [(500, 3), (2000000, 9)])) = 2
   \<and> unat (dh_buckets (ff_hist (record_hops (ff_new 1000000000 0 0) [(500, 3), (2000000, 9)])) ! 4) = 1"
proof -
  let ?ff = "record_hops (ff_new 1000000000 0 0) [(500, 3), (2000000, 9)]"
  have d: "delta_ns 1000000000 500 = 500" "delta_ns 1000000000 2000000 = 2000000" by (simp_all add: delta_ns_def)
  have four: "(\<forall>j < 4. P j) \<longleftrightarrow> P 0 \<and> P 1 \<and> P 2 \<and> P (3 :: nat)" for P
    by (auto simp: less_Suc_eq numeral_eq_Suc)
  have j: "unat (jumps ?ff) = length [(500 :: u64, 3 :: nat), (2000000, 9)]"
    and b: "\<forall>i < 9. unat (dh_buckets (ff_hist ?ff) ! i) = length (filter (\<lambda>h.
          (\<forall>j < i. HIST_EDGES_NS ! j \<le> delta_ns 1000000000 (fst h)) \<and> (i < 8 \<longrightarrow> delta_ns 1000000000 (fst h) < HIST_EDGES_NS ! i))
          [(500 :: u64, 3 :: nat), (2000000, 9)])"
    using jump_accounts_exact [OF _ refl, of "[(500, 3), (2000000, 9)]" 1000000000 0 0] by simp_all
  show ?thesis using j b [rule_format, of 4] by (simp add: four d HIST_EDGES_NS_def)
qed

end
