(* ===== verification/EgressGate.thy ===== *)
theory EgressGate
  imports EgressPump Control
begin

text \<open>
  The egress channel of \<open>src/src/egress.rs\<close>: the fourth serial port wrapped around the egress
  backend. At each boundary the bytes the guest wrote are handed to the backend, and the
  frames the backend made are fed into the receive FIFO, the part that does not fit going back
  to the front of the backend's queue. The theory also has the rate limiter of the warning
  about a long gated stretch.

  A time is a number of nanoseconds since some origin; \<open>Instant::duration_since\<close> saturates at
  zero, as subtraction of natural numbers does. The warning's text is left out: a warning is
  the values it reports.
\<close>

section \<open>The long-gate warning\<close>

definition GATE_WARN_AFTER :: nat where [const_defs]: "GATE_WARN_AFTER = 30 * 10 ^ 9"
definition GATE_WARN_COOLDOWN :: nat where [const_defs]: "GATE_WARN_COOLDOWN = 30 * 10 ^ 9"

record GateWarn =
  span_start :: "nat option"
  gw_last_warn :: "nat option"

definition gate_warn_default :: GateWarn where
  "gate_warn_default = \<lparr>span_start = None, gw_last_warn = None\<rparr>"

definition get_or_insert :: "'a option \<Rightarrow> 'a \<Rightarrow> 'a" where
  "get_or_insert opt v = (case opt of None \<Rightarrow> v | Some x \<Rightarrow> x)"

definition gate_note :: "GateWarn \<Rightarrow> nat \<Rightarrow> GateWarn" where
  "gate_note g now = g\<lparr>span_start := Some (get_or_insert (span_start g) now)\<rparr>"

definition gate_clear :: "GateWarn \<Rightarrow> GateWarn" where
  "gate_clear g = g\<lparr>span_start := None\<rparr>"

definition warn_at :: "GateWarn \<Rightarrow> nat \<Rightarrow> nat \<Rightarrow> u64 \<Rightarrow> (nat \<times> nat \<times> u64) option \<times> GateWarn" where
  "warn_at g now open_sessions gated_ns =
     (let start = get_or_insert (span_start g) now; g = g\<lparr>span_start := Some start\<rparr> in
      if now - start < GATE_WARN_AFTER then (None, g)
      else let cooled = (case gw_last_warn g of None \<Rightarrow> True | Some t \<Rightarrow> now - t \<ge> GATE_WARN_COOLDOWN) in
        if \<not> cooled then (None, g)
        else (Some (now - start, open_sessions, gated_ns), g\<lparr>gw_last_warn := Some now\<rparr>))"

section \<open>The channel\<close>

record ('c, 'p, 'u) EgressChannel =
  ec_backend :: "('c, 'p) EgressBackend"
  ec_serial :: 'u
  ec_tx :: bytes
  ec_unsafe_jumps :: bool
  ec_gate_warn :: GateWarn

text \<open>\<open>u\<close> is the new port, or \<open>None\<close> if it cannot be made; \<open>unsafe\<close> says whether the environment variable is set.\<close>

definition channel_wrap ::
  "('c, 'p) EgressBackend \<Rightarrow> 'u option \<Rightarrow> bool \<Rightarrow> EgressError + ('c, 'p, 'u) EgressChannel" where
  "channel_wrap b u unsafe =
     (case u of
        None \<Rightarrow> Inl (EgIo ''creating COM4 UART'')
      | Some u \<Rightarrow> Inr \<lparr>ec_backend = b, ec_serial = u, ec_tx = [], ec_unsafe_jumps = unsafe,
                       ec_gate_warn = gate_warn_default\<rparr>)"

definition channel_handles :: "u16 \<Rightarrow> bool" where
  "channel_handles port \<longleftrightarrow> SERIAL4_PORT_BASE \<le> port \<and> port < SERIAL4_PORT_BASE + 8"

definition channel_after_uart_io ::
  "'u Uart \<Rightarrow> ('c, 'p, 'u) EgressChannel \<Rightarrow> Lapic \<Rightarrow> Ioapic \<Rightarrow> ('c, 'p, 'u) EgressChannel \<times> Lapic" where
  "channel_after_uart_io U c l io =
     (let (signalled, u) = uart_drain U (ec_serial c)
      in (c\<lparr>ec_serial := u\<rparr>, if signalled then raise_irq l io SERIAL4_IRQ else l))"

definition channel_pio_write ::
  "'u Uart \<Rightarrow> ('c, 'p, 'u) EgressChannel \<Rightarrow> u16 \<Rightarrow> u8 \<Rightarrow> Lapic \<Rightarrow> Ioapic \<Rightarrow> ('c, 'p, 'u) EgressChannel \<times> Lapic" where
  "channel_pio_write U c port byte l io =
     (let (out, u) = uart_write U (ec_serial c) (ucast (port - SERIAL4_PORT_BASE)) byte;
          (_, tx) = control_sink_write (ec_tx c) out
      in channel_after_uart_io U (c\<lparr>ec_serial := u, ec_tx := tx\<rparr>) l io)"

definition channel_pio_read ::
  "'u Uart \<Rightarrow> ('c, 'p, 'u) EgressChannel \<Rightarrow> u16 \<Rightarrow> Lapic \<Rightarrow> Ioapic \<Rightarrow> u8 \<times> ('c, 'p, 'u) EgressChannel \<times> Lapic" where
  "channel_pio_read U c port l io =
     (let (v, u) = uart_read U (ec_serial c) (ucast (port - SERIAL4_PORT_BASE));
          (c, l) = channel_after_uart_io U (c\<lparr>ec_serial := u\<rparr>) l io
      in (v, c, l))"

text \<open>The loop of \<open>pump\<close>; the flag says whether any byte moved.\<close>

function feed_guest :: "'u Uart \<Rightarrow> 'u \<Rightarrow> ('c, 'p) EgressBackend \<Rightarrow> bool \<Rightarrow> 'u \<times> ('c, 'p) EgressBackend \<times> bool" where
  "feed_guest U u b sent =
     (let cap = fifo_capacity U u in
      if cap = 0 \<or> \<not> has_frames_for_guest b then (u, b, sent)
      else let (chunk, b') = drain_to_guest b cap in
        case enqueue_raw_bytes U u chunk of
          (Some n, u') \<Rightarrow>
            if n > 0 then
              if n < length chunk then (u', unshift_to_guest b' (drop n chunk), True)
              else feed_guest U u' b' True
            else (u', unshift_to_guest b' chunk, sent)
        | (None, u') \<Rightarrow> (u', unshift_to_guest b' chunk, sent))"
  by pat_completeness auto
termination
  by (relation "measure (\<lambda>(U, u, b, sent). length (tx_pending b))")
     (auto simp: drain_to_guest_def has_frames_for_guest_def Let_def)

declare feed_guest.simps [simp del]

definition channel_pump ::
  "('c, 'a, 'p) EgressConnector \<Rightarrow> 'u Uart \<Rightarrow> ('c, 'p, 'u) EgressChannel \<Rightarrow> Lapic \<Rightarrow> Ioapic
     \<Rightarrow> (EgressError + unit) \<times> ('c, 'p, 'u) EgressChannel \<times> Lapic" where
  "channel_pump K U c l io =
     (let from_guest = ec_tx c; c = c\<lparr>ec_tx := []\<rparr> in
      case backend_pump K (ec_backend c) from_guest of
        (Inl e, b) \<Rightarrow> (Inl e, c\<lparr>ec_backend := b\<rparr>, l)
      | (Inr _, b) \<Rightarrow>
          let (u, b, sent) = feed_guest U (ec_serial c) b False;
              c = c\<lparr>ec_backend := b, ec_serial := u\<rparr>;
              (c, l) = (if sent then channel_after_uart_io U c l io else (c, l));
              c = (if is_quiescent (ec_backend c) then c\<lparr>ec_gate_warn := gate_clear (ec_gate_warn c)\<rparr> else c)
          in (Inr (), c, l))"

definition channel_is_quiescent :: "('c, 'p, 'u) EgressChannel \<Rightarrow> bool" where
  "channel_is_quiescent c = is_quiescent (ec_backend c)"

definition channel_stats :: "('c, 'p, 'u) EgressChannel \<Rightarrow> EgressStats" where
  "channel_stats c = stats (ec_backend c)"

definition note_gated_interval :: "('c, 'p, 'u) EgressChannel \<Rightarrow> u64 \<Rightarrow> nat \<Rightarrow> ('c, 'p, 'u) EgressChannel" where
  "note_gated_interval c real_ns now =
     c\<lparr>ec_backend := backend_note_gated_interval (ec_backend c) real_ns,
       ec_gate_warn := gate_note (ec_gate_warn c) now\<rparr>"

definition maybe_warn_long_gate ::
  "('c, 'p, 'u) EgressChannel \<Rightarrow> nat \<Rightarrow> (nat \<times> nat \<times> u64) option \<times> ('c, 'p, 'u) EgressChannel" where
  "maybe_warn_long_gate c now =
     (let (msg, g) = warn_at (ec_gate_warn c) now (open_session_count (ec_backend c))
                       (gated_real_ns (channel_stats c))
      in (msg, c\<lparr>ec_gate_warn := g\<rparr>))"

section \<open>Feeding the FIFO\<close>

lemma unshift_to_guest_eq: "unshift_to_guest b bs = b\<lparr>tx_pending := bs @ tx_pending b\<rparr>"
proof -
  have "fold (\<lambda>x q. x # q) (rev bs) q = bs @ q" for q :: bytes by (induction bs arbitrary: q rule: rev_induct) auto
  then show ?thesis by (simp add: unshift_to_guest_def)
qed

text \<open>One round of the loop: it stops, or the FIFO takes a whole chunk and the loop goes on.\<close>

lemma feed_guest_stream:
  assumes "uart_fifo U fifo" and "feed_guest U u b sent = (u', b', sent')"
  shows "fifo u' @ tx_pending b' = fifo u @ tx_pending b \<and> b' = b\<lparr>tx_pending := tx_pending b'\<rparr>
    \<and> (sent \<longrightarrow> sent') \<and> (sent' \<or> tx_pending b' = tx_pending b)"
  using assms(2)
proof (induction "length (tx_pending b)" arbitrary: u b sent rule: less_induct)
  case less
  note laws = uart_fifoD [OF assms(1)]
  let ?n = "min (fifo_capacity U u) (length (tx_pending b))"
  let ?chunk = "take ?n (tx_pending b)" and ?b = "b\<lparr>tx_pending := drop ?n (tx_pending b)\<rparr>"
  show ?case
  proof (cases "fifo_capacity U u = 0 \<or> tx_pending b = []")
    case True
    then show ?thesis using less.prems by (auto simp: feed_guest.simps [of U u] has_frames_for_guest_def)
  next
    case go: False
    obtain r w where e: "enqueue_raw_bytes U u ?chunk = (r, w)" by fastforce
    have whole: "?chunk @ tx_pending ?b = tx_pending b" by simp
    have step: "feed_guest U u b sent =
       (case r of Some k \<Rightarrow> if k > 0 then
            if k < length ?chunk then (w, unshift_to_guest ?b (drop k ?chunk), True) else feed_guest U w ?b True
          else (w, unshift_to_guest ?b ?chunk, sent)
        | None \<Rightarrow> (w, unshift_to_guest ?b ?chunk, sent))"
      using go e by (simp add: feed_guest.simps [of U u] has_frames_for_guest_def drain_to_guest_def Let_def del: take_eq_Nil)
    consider "r = None \<or> r = Some 0" | k where "r = Some k" "k > 0" "k < length ?chunk"
      | k where "r = Some k" "k > 0" "\<not> k < length ?chunk" by (cases r) auto
    then show ?thesis
    proof cases
      case 1
      then have "fifo w = fifo u" using laws(1,2) [of u ?chunk] e by auto
      then show ?thesis using 1 less.prems whole step by (auto simp: unshift_to_guest_eq)
    next
      case (2 k)
      then have "fifo w = fifo u @ take k ?chunk" using laws(1) e by blast
      moreover have "u' = w \<and> b' = ?b\<lparr>tx_pending := drop k ?chunk @ tx_pending ?b\<rparr> \<and> sent'"
        using 2 less.prems step by (auto simp: unshift_to_guest_eq)
      ultimately show ?thesis using whole by (simp del: take_take drop_take)
         (metis append.assoc append_take_drop_id)
    next
      case (3 k)
      then have k: "k = length ?chunk" and w: "fifo w = fifo u @ ?chunk"
        using laws(1) [OF e [unfolded 3(1)]] by auto
      have "feed_guest U w ?b True = (u', b', sent')" using 3 less.prems step by (auto split: if_splits)
      then have "fifo u' @ tx_pending b' = fifo w @ tx_pending ?b \<and> b' = ?b\<lparr>tx_pending := tx_pending b'\<rparr> \<and> sent'"
        using less.hyps [of ?b w True] go by auto
      then show ?thesis using w whole by auto
    qed
  qed
qed

lemma channel_after_uart_io_frame:
  assumes "uart_fifo U fifo" and "channel_after_uart_io U c l io = (c', l')"
  shows "fifo (ec_serial c') = fifo (ec_serial c) \<and> ec_backend c' = ec_backend c \<and> ec_tx c' = ec_tx c
    \<and> ec_gate_warn c' = ec_gate_warn c \<and> ec_unsafe_jumps c' = ec_unsafe_jumps c"
  using assms uart_fifoD(4) [OF assms(1), of "ec_serial c"]
  by (auto simp: channel_after_uart_io_def split: prod.splits)

lemma is_quiescent_tx: "is_quiescent b \<Longrightarrow> tx_pending b = []"
  by (simp add: is_quiescent_def)

lemma channel_pump_spec:
  assumes "uart_fifo U fifo" and "channel_pump K U c l io = (r, c', l')"
  shows "\<exists>b. backend_pump K (ec_backend c) (ec_tx c) = (r, b) \<and> ec_tx c' = []
    \<and> fifo (ec_serial c') @ tx_pending (ec_backend c') = fifo (ec_serial c) @ tx_pending b
    \<and> ec_backend c' = b\<lparr>tx_pending := tx_pending (ec_backend c')\<rparr>
    \<and> (r = Inr () \<longrightarrow> channel_is_quiescent c' \<longrightarrow> span_start (ec_gate_warn c') = None)
    \<and> (\<forall>e. r = Inl e \<longrightarrow> ec_backend c' = b \<and> ec_serial c' = ec_serial c \<and> l' = l)"
proof -
  obtain p b where bp: "backend_pump K (ec_backend c) (ec_tx c) = (p, b)" by fastforce
  show ?thesis
  proof (cases p)
    case (Inl e)
    then show ?thesis using assms(2) bp by (auto simp: channel_pump_def)
  next
    case (Inr x)
    obtain u b1 sent where f: "feed_guest U (ec_serial c) b False = (u, b1, sent)" by (metis prod_cases3)
    note s = feed_guest_stream [OF assms(1) f]
    define c1 where "c1 = c\<lparr>ec_tx := [], ec_backend := b1, ec_serial := u\<rparr>"
    obtain c2 l2 where c2: "(if sent then channel_after_uart_io U c1 l io else (c1, l)) = (c2, l2)" by fastforce
    have fr: "fifo (ec_serial c2) = fifo u \<and> ec_backend c2 = b1 \<and> ec_tx c2 = []"
      using c2 channel_after_uart_io_frame [OF assms(1), of c1 l io c2 l2]
      by (auto simp: c1_def split: if_splits)
    have "channel_pump K U c l io = (Inr (),
        if is_quiescent (ec_backend c2) then c2\<lparr>ec_gate_warn := gate_clear (ec_gate_warn c2)\<rparr> else c2, l2)"
      using bp Inr f c2 by (cases sent) (auto simp: channel_pump_def Let_def c1_def)
    then show ?thesis
      using assms(2) bp Inr fr s by (auto simp: channel_is_quiescent_def gate_clear_def)
  qed
qed

section \<open>The guest's byte stream\<close>

text \<open>
  The histories of a channel; \<open>got\<close> are the bytes the guest took from the FIFO. Guest writes
  are register writes outside loop-back mode.
\<close>

inductive channel_run ::
  "('c, 'a, 'p) EgressConnector \<Rightarrow> 'u Uart \<Rightarrow> ('u \<Rightarrow> bytes) \<Rightarrow> bytes \<Rightarrow> ('c, 'p, 'u) EgressChannel \<Rightarrow> bool"
  for K U fifo where
  start: "with_connector K ep conn = Inr b \<Longrightarrow> channel_wrap b (Some u) unsafe = Inr c \<Longrightarrow> fifo u = [] \<Longrightarrow>
    channel_run K U fifo [] c"
| pump: "channel_run K U fifo got c \<Longrightarrow> channel_pump K U c l io = (Inr (), c', l') \<Longrightarrow> channel_run K U fifo got c'"
| guest_read: "channel_run K U fifo got c \<Longrightarrow> channel_pio_read U c port l io = (v, c', l') \<Longrightarrow>
    channel_run K U fifo (if fifo (ec_serial c') = fifo (ec_serial c) then got else got @ [v]) c'"
| guest_write: "channel_run K U fifo got c \<Longrightarrow> channel_pio_write U c port byte l io = (c', l') \<Longrightarrow>
    fifo (ec_serial c') = fifo (ec_serial c) \<Longrightarrow> channel_run K U fifo got c'"
| gated: "channel_run K U fifo got c \<Longrightarrow> channel_run K U fifo got (note_gated_interval c ns now)"
| warn: "channel_run K U fifo got c \<Longrightarrow> channel_run K U fifo got (snd (maybe_warn_long_gate c now))"

lemma channel_pio_read_fifo:
  assumes "uart_fifo U fifo" and "channel_pio_read U c port l io = (v, c', l')"
  shows "ec_backend c' = ec_backend c
    \<and> (fifo (ec_serial c') = fifo (ec_serial c) \<or> fifo (ec_serial c) = v # fifo (ec_serial c'))"
proof -
  obtain u where r: "uart_read U (ec_serial c) (ucast (port - SERIAL4_PORT_BASE)) = (v, u)"
    and a: "channel_after_uart_io U (c\<lparr>ec_serial := u\<rparr>) l io = (c', l')"
    using assms(2) by (auto simp: channel_pio_read_def split: prod.splits)
  show ?thesis using channel_after_uart_io_frame [OF assms(1) a] uart_fifoD(3) [OF assms(1) r] by simp
qed

lemma channel_pio_write_backend:
  "channel_pio_write U c port byte l io = (c', l') \<Longrightarrow> ec_backend c' = ec_backend c"
  by (auto simp: channel_pio_write_def channel_after_uart_io_def split: prod.splits)

definition whole_frames :: "bytes \<Rightarrow> bool" where
  "whole_frames bs \<longleftrightarrow> (\<exists>fs. bs = concat (map wire fs) \<and> (\<forall>f \<in> set fs. fits f \<and> to_guest_frame f))"

lemma whole_frames_append: "whole_frames bs \<Longrightarrow> whole_frames cs \<Longrightarrow> whole_frames (bs @ cs)"
  unfolding whole_frames_def by (metis Un_iff concat_append map_append set_append)

lemma channel_run_invar:
  assumes "uart_fifo U fifo" and "channel_run K U fifo got c"
  shows "whole_frames (got @ fifo (ec_serial c) @ tx_pending (ec_backend c)) \<and> backend_ok (ec_backend c)"
  using assms(2)
proof induction
  case (start ep conn b u unsafe c)
  have "tx_pending b = []" using start(1) by (auto simp: with_connector_def split: option.splits prod.splits bool.splits)
  then show ?case
    using start egress_reach_ok [OF egress_reach.start [OF start(1)]]
    by (auto simp: channel_wrap_def whole_frames_def intro!: exI [of _ "[]"])
next
  case (pump got c l io c' l')
  obtain b where b: "backend_pump K (ec_backend c) (ec_tx c) = (Inr (), b)"
      "fifo (ec_serial c') @ tx_pending (ec_backend c') = fifo (ec_serial c) @ tx_pending b"
      "ec_backend c' = b\<lparr>tx_pending := tx_pending (ec_backend c')\<rparr>"
    using channel_pump_spec [OF assms(1) pump(2)] by auto
  have ok: "backend_ok (ec_backend c)" using pump by blast
  obtain fs where fs: "tx_pending b = tx_pending (ec_backend c) @ concat (map wire fs)"
      "\<forall>f \<in> set fs. fits f \<and> to_guest_frame f" and ok': "backend_ok b"
    using pump_spec [OF ok b(1)] by (auto simp: emits_def)
  have "whole_frames ((got @ fifo (ec_serial c) @ tx_pending (ec_backend c)) @ concat (map wire fs))"
    by (rule whole_frames_append) (use pump fs in \<open>auto simp: whole_frames_def\<close>)
  moreover have "backend_ok (ec_backend c')" using ok' b(3) backend_ok_same [of "ec_backend c'" b]
    by (metis EgressBackend.select_convs(3,4) EgressBackend.surjective EgressBackend.update_convs(6))
  ultimately show ?case using b(2) fs(1) by simp
next
  case (guest_read got c port l io v c' l')
  then show ?case using channel_pio_read_fifo [OF assms(1) guest_read(2)] by auto
next
  case (guest_write got c port byte l io c' l')
  then show ?case using channel_pio_write_backend [OF guest_write(2)] by simp
next
  case (gated got c ns now)
  then show ?case
    using backend_ok_same [of "backend_note_gated_interval (ec_backend c) ns" "ec_backend c"]
    by (simp add: note_gated_interval_def backend_note_gated_interval_def)
next
  case (warn got c now)
  then show ?case by (simp add: maybe_warn_long_gate_def split: prod.splits)
qed

text \<open>The rate limit: a warning comes only after a long stretch and not soon after the one before it.\<close>

lemma warn_at_spec:
  assumes "warn_at g now k ns = (Some (len, k', ns'), g')"
  shows "k' = k \<and> ns' = ns \<and> gw_last_warn g' = Some now \<and> len \<ge> GATE_WARN_AFTER
    \<and> span_start g = Some (now - len) \<and> (\<forall>t. gw_last_warn g = Some t \<longrightarrow> t + GATE_WARN_COOLDOWN \<le> now)"
  using assms by (auto simp: warn_at_def get_or_insert_def const_defs Let_def split: if_splits option.splits)

section \<open>Properties\<close>

text \<open>
  C30. The bytes the guest receives on the egress port are a stream of whole frames. In every
  state a channel can reach, however little the FIFO accepts and however pumps, reads and writes
  interleave, what the guest took, then what is in its FIFO, then what waits in the backend is the
  concatenation of encoded host-to-guest frames; and when egress is quiescent, so that time may
  jump, what the guest has been given ends at a frame boundary.
\<close>

theorem egress_guest_stream:
  assumes "uart_fifo U fifo" and "channel_run K U fifo got c"
  shows "whole_frames (got @ fifo (ec_serial c) @ tx_pending (ec_backend c))
    \<and> (channel_is_quiescent c \<longrightarrow> whole_frames (got @ fifo (ec_serial c)))"
  using channel_run_invar [OF assms] by (auto simp: channel_is_quiescent_def is_quiescent_def)

theorem egress_guest_stream_witness:
  "\<exists>c. channel_run sample_connector sample_uart fst [] c \<and> ec_tx c = [7]
     \<and> whole_frames (fst (ec_serial c) @ tx_pending (ec_backend c))"
proof -
  define c0 where "c0 = \<lparr>ec_backend = sample_backend, ec_serial = ([] :: bytes, False), ec_tx = [],
    ec_unsafe_jumps = False, ec_gate_warn = gate_warn_default\<rparr>"
  have r0: "channel_run sample_connector sample_uart fst [] c0"
    by (rule channel_run.start [OF sample_backend_built, of "([], False)" False]) (auto simp: channel_wrap_def c0_def)
  have w: "channel_pio_write sample_uart c0 SERIAL4_PORT_BASE 7 sample_lapic (ioapic_new 0) = (c0\<lparr>ec_tx := [7]\<rparr>, sample_lapic)"
    by (simp add: channel_pio_write_def channel_after_uart_io_def control_sink_write_def sample_uart_def c0_def)
  have r1: "channel_run sample_connector sample_uart fst [] (c0\<lparr>ec_tx := [7]\<rparr>)"
    by (rule channel_run.guest_write [OF r0 w]) simp
  from egress_guest_stream [OF sample_uart_fifo r1] show ?thesis using r1 by auto
qed

end
