(* ===== verification/Idle.thy ===== *)
theory Idle
  imports EgressGate Driver Timers Telemetry Events
begin

text \<open>
  The idle park of \<open>src/src/main.rs\<close>: what the program does while the guest is halted. It services
  the due timers through the event queue, folds in the agent's lines, pumps the egress channel,
  and then either waits in real time (fast-forward off, or egress busy) or jumps virtual time to
  the next deadline.

  The host is the parameter \<open>env\<close>: the time-stamp counter, the monotonic clock, the system calls
  of the park, the console's standard input, the ioctl that writes the vCPU's TSC offset, the
  network connector, the UART and the JSON library. Each call takes and returns the host's state,
  so that successive readings of a clock may differ.

  A step ends normally, with an error, in a failed assertion, or not at all (\<open>Stuck\<close>), the last only
  if the loop that re-arms a periodic timer never ends. Log lines and the timestamps computed for
  them are left out.
\<close>

section \<open>Timers and the event queue\<close>

datatype TimerKind = LapicDeadline | StopRun

definition min_deadline :: "u64 option \<Rightarrow> u64 option \<Rightarrow> u64 option" where
  "min_deadline queue lapic =
     (case (queue, lapic) of
        (Some a, Some b) \<Rightarrow> Some (min a b)
      | (a, b) \<Rightarrow> (case a of Some x \<Rightarrow> Some x | None \<Rightarrow> b))"

datatype run_error =
    IoFailed
  | EgressFailed EgressError
  | JumpTooLarge u64
  | ClockFailed VtscError
  | KvmFailed string

datatype 'a flow = Next 'a | Fails run_error | Panics | Stuck

fun bind_flow :: "'a flow \<times> 's \<Rightarrow> ('a \<Rightarrow> 's \<Rightarrow> 'b flow \<times> 's) \<Rightarrow> 'b flow \<times> 's" where
  "bind_flow (Next a, s) k = k a s"
| "bind_flow (Fails e, s) k = (Fails e, s)"
| "bind_flow (Panics, s) k = (Panics, s)"
| "bind_flow (Stuck, s) k = (Stuck, s)"

lemma eq_pop_due_shorter:
  assumes "eq_pop_due q now = (Some ev, q')"
  shows "length (heap q') < length (heap q)"
proof -
  obtain m where m: "heap_peek (heap q) = Some m" "q' = q\<lparr>heap := remove1 m (heap q)\<rparr>"
    using assms by (auto simp: eq_pop_due_def heap_pop_def split: option.splits if_splits)
  have "m \<in> set (heap q)" using heap_peek_least [OF m(1)] by simp
  then show ?thesis using m(2) length_pos_if_in_set [of m "heap q"] by (simp add: length_remove1)
qed

text \<open>The drain loop; the flag is \<open>Fired.horizon\<close>.\<close>

function fire_events ::
  "Lapic \<Rightarrow> TimerKind EventQueue \<Rightarrow> bool \<Rightarrow> u64 \<Rightarrow> bool flow \<times> Lapic \<times> TimerKind EventQueue" where
  "fire_events l q fired now =
     (case eq_pop_due q now of
        (None, q') \<Rightarrow> (Next fired, l, q')
      | (Some ev, q') \<Rightarrow>
          if \<not> deadline ev \<le> now then (Panics, l, q')
          else (case payload ev of
                  LapicDeadline \<Rightarrow>
                    (case fire_timer_if_due l now of
                       None \<Rightarrow> (Stuck, l, q')
                     | Some (l', _) \<Rightarrow> fire_events l' q' fired now)
                | StopRun \<Rightarrow> fire_events l q' True now))"
  by pat_completeness auto

termination
proof (relation "measure (\<lambda>(l, q, fired, now). length (heap q))", goal_cases)
  case (2 l q fired now x q' a ev l')
  then show ?case by (auto dest!: sym [of "(Some _, _)"] intro: eq_pop_due_shorter)
next
  case 3
  then show ?case by (auto dest!: sym [of "(Some _, _)"] intro: eq_pop_due_shorter)
qed simp

declare fire_events.simps [simp del]

definition service_timers ::
  "Lapic \<Rightarrow> TimerKind EventQueue \<Rightarrow> u64 option \<Rightarrow> u64 \<Rightarrow> bool flow \<times> Lapic \<times> TimerKind EventQueue" where
  "service_timers l q horizon now =
     (let q = eq_clear q;
          q = (case timer_deadline l of Some dl \<Rightarrow> eq_push q dl LapicDeadline | None \<Rightarrow> q);
          q = (case horizon of Some h \<Rightarrow> eq_push q h StopRun | None \<Rightarrow> q)
      in fire_events l q False now)"

section \<open>The machine and the host\<close>

record ('c, 'p, 'u, 'w) machine =
  m_lapic :: Lapic
  m_ioapic :: Ioapic
  m_events :: "TimerKind EventQueue"
  m_serial :: 'u
  m_parker :: Parker
  m_clock :: VirtualClock
  m_cells :: cells
  m_com2 :: "'u ControlChannel"
  m_egress :: "('c, 'p, 'u) EgressChannel option"
  m_driver :: DriverRun
  m_ff :: FfState
  m_os :: 'w

record ('c, 'a, 'p, 'u, 'j, 'w) env =
  e_conn :: "('c, 'a, 'p) EgressConnector"
  e_uart :: "'u Uart"
  e_json :: "bytes \<Rightarrow> 'j Reply option"
  e_park :: "'w park_os"
  e_rdtsc :: "'w \<Rightarrow> u64 \<times> 'w"
  e_instant :: "'w \<Rightarrow> nat \<times> 'w"
  e_read_stdin :: "'w \<Rightarrow> (int \<times> bytes) \<times> 'w"
  e_set_offset :: "'w \<Rightarrow> i64 \<Rightarrow> 'w option"
  e_epoll_fd :: "'p \<Rightarrow> int"
  e_rate_high :: "u64 \<Rightarrow> nat \<Rightarrow> bool"

text \<open>\<open>clock.vtsc_now()\<close> and \<open>Instant::now()\<close>.\<close>

definition read_clock :: "('c, 'a, 'p, 'u, 'j, 'w) env \<Rightarrow> ('c, 'p, 'u, 'w) machine \<Rightarrow> u64 \<times> ('c, 'p, 'u, 'w) machine" where
  "read_clock E m =
     (let (h, w) = e_rdtsc E (m_os m) in (vtsc_from_host (m_cells m) (m_clock m) h, m\<lparr>m_os := w\<rparr>))"

definition read_instant :: "('c, 'a, 'p, 'u, 'j, 'w) env \<Rightarrow> ('c, 'p, 'u, 'w) machine \<Rightarrow> nat \<times> ('c, 'p, 'u, 'w) machine" where
  "read_instant E m = (let (t, w) = e_instant E (m_os m) in (t, m\<lparr>m_os := w\<rparr>))"

section \<open>Console input\<close>

text \<open>The result of \<open>read\<close> and the bytes it stored; what the UART does not take is dropped.\<close>

definition read_console_input ::
  "('c, 'a, 'p, 'u, 'j, 'w) env \<Rightarrow> ('c, 'p, 'u, 'w) machine \<Rightarrow> nat option \<times> ('c, 'p, 'u, 'w) machine" where
  "read_console_input E m =
     (let ((n, buf), w) = e_read_stdin E (m_os m); m = m\<lparr>m_os := w\<rparr> in
      if n > 0 then (Some (nat n), m\<lparr>m_serial := snd (enqueue_raw_bytes (e_uart E) (m_serial m) (take (nat n) buf))\<rparr>)
      else if n = 0 then (None, m)
      else (Some 0, m))"

definition serial_irq :: "('c, 'a, 'p, 'u, 'j, 'w) env \<Rightarrow> ('c, 'p, 'u, 'w) machine \<Rightarrow> ('c, 'p, 'u, 'w) machine" where
  "serial_irq E m =
     (let (signalled, u) = uart_drain (e_uart E) (m_serial m); m = m\<lparr>m_serial := u\<rparr> in
      if signalled then m\<lparr>m_lapic := raise_irq (m_lapic m) (m_ioapic m) SERIAL_IRQ\<rparr> else m)"

definition service_console_input ::
  "('c, 'a, 'p, 'u, 'j, 'w) env \<Rightarrow> ('c, 'p, 'u, 'w) machine \<Rightarrow> ('c, 'p, 'u, 'w) machine" where
  "service_console_input E m =
     (case read_console_input E m of
        (Some n, m) \<Rightarrow> if n > 0 then serial_irq E m else m
      | (None, m) \<Rightarrow> m\<lparr>m_parker := close_stdin (m_parker m)\<rparr>)"

definition poll_console ::
  "('c, 'a, 'p, 'u, 'j, 'w) env \<Rightarrow> ('c, 'p, 'u, 'w) machine \<Rightarrow> unit flow \<times> ('c, 'p, 'u, 'w) machine" where
  "poll_console E m =
     (if \<not> stdin_open (m_parker m) then (Next (), m)
      else case stdin_ready (e_park E) (m_parker m) (m_os m) of
        (Inl _, w) \<Rightarrow> (Fails IoFailed, m\<lparr>m_os := w\<rparr>)
      | (Inr ready, w) \<Rightarrow>
          (Next (), if ready then service_console_input E (m\<lparr>m_os := w\<rparr>) else m\<lparr>m_os := w\<rparr>))"

section \<open>One boundary\<close>

datatype ParkOutcome = Deliverable | ParkHorizon | ParkDriverFinish

text \<open>The part both park loops begin with; \<open>None\<close> means that the guest stays halted.\<close>

definition park_boundary ::
  "('c, 'a, 'p, 'u, 'j, 'w) env \<Rightarrow> u64 option \<Rightarrow> ('c, 'p, 'u, 'w) machine
     \<Rightarrow> ParkOutcome option flow \<times> ('c, 'p, 'u, 'w) machine" where
  "park_boundary E horizon m =
     (let (now, m) = read_clock E m;
          (fired, l, q) = service_timers (m_lapic m) (m_events m) horizon now
      in bind_flow (fired, m\<lparr>m_lapic := l, m_events := q\<rparr>) (\<lambda>fired m.
         if fired then (Next (Some ParkHorizon), m)
         else
           let (finished, c, d) = drain_agent (e_json E) (m_com2 m) (m_driver m);
               m = m\<lparr>m_com2 := c, m_driver := d\<rparr>
           in if finished then (Next (Some ParkDriverFinish), m)
              else
                let pumped = (case m_egress m of
                      None \<Rightarrow> (Next (), m)
                    | Some eg \<Rightarrow>
                        (case channel_pump (e_conn E) (e_uart E) eg (m_lapic m) (m_ioapic m) of
                           (Inl e, eg, l) \<Rightarrow> (Fails (EgressFailed e), m\<lparr>m_egress := Some eg, m_lapic := l\<rparr>)
                         | (Inr _, eg, l) \<Rightarrow> (Next (), m\<lparr>m_egress := Some eg, m_lapic := l\<rparr>)))
                in bind_flow pumped (\<lambda>_ m.
                     if deliverable_vector (m_lapic m) \<noteq> None then (Next (Some Deliverable), m)
                     else (Next None, m))))"

text \<open>The real wait: until the next deadline, console input or the egress descriptor.\<close>

definition timeout_to_deadline ::
  "('c, 'a, 'p, 'u, 'j, 'w) env \<Rightarrow> ('c, 'p, 'u, 'w) machine \<Rightarrow> u64 option \<times> ('c, 'p, 'u, 'w) machine" where
  "timeout_to_deadline E m =
     (case eq_peek_deadline (m_events m) of
        None \<Rightarrow> (None, m)
      | Some dl \<Rightarrow>
          let (now2, m) = read_clock E m
          in (Some (if dl \<le> now2 then 0 else cycles_to_ns (vc_freq (m_clock m)) (dl - now2)), m))"

definition park_wait ::
  "('c, 'a, 'p, 'u, 'j, 'w) env \<Rightarrow> u64 option \<Rightarrow> ('c, 'p, 'u, 'w) machine \<Rightarrow> unit flow \<times> ('c, 'p, 'u, 'w) machine" where
  "park_wait E timeout_ns m =
     (let fd = map_option (\<lambda>eg. e_epoll_fd E (epoll (ec_backend eg))) (m_egress m) in
      case park (e_park E) (m_parker m) (m_os m) timeout_ns fd of
        (Inl _, w) \<Rightarrow> (Fails IoFailed, m\<lparr>m_os := w\<rparr>)
      | (Inr wakes, w) \<Rightarrow>
          (Next (), if wk_input wakes then service_console_input E (m\<lparr>m_os := w\<rparr>) else m\<lparr>m_os := w\<rparr>))"

section \<open>Fast-forward off\<close>

definition real_wait_iter ::
  "('c, 'a, 'p, 'u, 'j, 'w) env \<Rightarrow> u64 option \<Rightarrow> ('c, 'p, 'u, 'w) machine
     \<Rightarrow> ParkOutcome option flow \<times> ('c, 'p, 'u, 'w) machine" where
  "real_wait_iter E horizon m =
     bind_flow (park_boundary E horizon m) (\<lambda>outcome m.
       case outcome of
         Some out \<Rightarrow> (Next (Some out), m)
       | None \<Rightarrow>
           let (timeout_ns, m) = timeout_to_deadline E m
           in bind_flow (park_wait E timeout_ns m) (\<lambda>_ m. (Next None, m)))"

section \<open>Fast-forward on\<close>

text \<open>The phase gate: wait in real time while egress is busy, and account for it.\<close>

definition gate_wait ::
  "('c, 'a, 'p, 'u, 'j, 'w) env \<Rightarrow> ('c, 'p, 'u, 'w) machine \<Rightarrow> unit flow \<times> ('c, 'p, 'u, 'w) machine" where
  "gate_wait E m =
     (let (timeout_ns, m) = timeout_to_deadline E m;
          (gate_start, m) = read_instant E m
      in bind_flow (park_wait E timeout_ns m) (\<lambda>_ m.
           let (t1, m) = read_instant E m;
               gated_ns = of_nat (min (t1 - gate_start) (2 ^ 64 - 1));
               (t2, m) = read_instant E m;
               (t3, m) = read_instant E m
           in (Next (), m\<lparr>m_egress := map_option (\<lambda>eg.
                 snd (maybe_warn_long_gate (note_gated_interval eg gated_ns t2) t3)) (m_egress m)\<rparr>)))"

definition record_jump ::
  "('c, 'a, 'p, 'u, 'j, 'w) env \<Rightarrow> nat \<Rightarrow> u64 \<Rightarrow> ('c, 'p, 'u, 'w) machine \<Rightarrow> ('c, 'p, 'u, 'w) machine" where
  "record_jump E hop_start delta m =
     (let (t1, m) = read_instant E m;
          m = m\<lparr>m_ff := record_hop (m_ff m) delta (t1 - hop_start)\<rparr>;
          (t2, m) = read_instant E m
      in m\<lparr>m_ff := snd (jump_rate_warn_at (e_rate_high E) (m_ff m) t2)\<rparr>)"

text \<open>
  The jump to the deadline \<open>next\<close>, from one sample of the host counter. Its exits: the deadline came
  due meanwhile, the bound is exceeded, the egress assertion fails, the offset cannot be written,
  the landing is not exact; or virtual time has moved.
\<close>

definition jump ::
  "('c, 'a, 'p, 'u, 'j, 'w) env \<Rightarrow> u64 option \<Rightarrow> u64 \<Rightarrow> ('c, 'p, 'u, 'w) machine \<Rightarrow> unit flow \<times> ('c, 'p, 'u, 'w) machine" where
  "jump E horizon next m =
     (let (hop_start, m) = read_instant E m;
          (h, w) = e_rdtsc E (m_os m);
          m = m\<lparr>m_os := w\<rparr>;
          now_h = vtsc_from_host (m_cells m) (m_clock m) h
      in if next \<le> now_h then (Next (), m)
         else
           let delta = next - now_h in
           if horizon \<noteq> Some next \<and> delta > max_jump_cycles (m_ff m) then (Fails (JumpTooLarge delta), m)
           else if assert_ff_jump_legal (map_option ec_backend (m_egress m)) \<noteq> Ok () then (Panics, m)
           else case bump_offset (e_set_offset E) (m_cells m) (m_clock m) (m_os m) (ucast delta) of
               Panic \<Rightarrow> (Panics, m)
             | Err e \<Rightarrow> (Fails (ClockFailed e), m)
             | Ok (cells, w) \<Rightarrow>
                 let m = m\<lparr>m_cells := cells, m_os := w\<rparr> in
                 if vtsc_from_host cells (m_clock m) h \<noteq> next then (Panics, m)
                 else (Next (), record_jump E hop_start delta m))"

definition must_gate :: "('c, 'p, 'u, 'w) machine \<Rightarrow> bool" where
  "must_gate m \<longleftrightarrow> (case m_egress m of None \<Rightarrow> False | Some eg \<Rightarrow> \<not> ec_unsafe_jumps eg \<and> \<not> channel_is_quiescent eg)"

definition fast_forward_iter ::
  "('c, 'a, 'p, 'u, 'j, 'w) env \<Rightarrow> u64 option \<Rightarrow> ('c, 'p, 'u, 'w) machine
     \<Rightarrow> ParkOutcome option flow \<times> ('c, 'p, 'u, 'w) machine" where
  "fast_forward_iter E horizon m =
     bind_flow (poll_console E m) (\<lambda>_ m.
     bind_flow (park_boundary E horizon m) (\<lambda>outcome m.
       case outcome of
         Some out \<Rightarrow> (Next (Some out), m)
       | None \<Rightarrow>
           bind_flow
             (if must_gate m then gate_wait E m
              else case eq_peek_deadline (m_events m) of
                None \<Rightarrow> park_wait E None m
              | Some next \<Rightarrow> jump E horizon next m)
             (\<lambda>_ m. (Next None, m))))"

text \<open>The loops: a run that never wakes is \<open>None\<close>.\<close>

partial_function (option) park_loop ::
  "('m \<Rightarrow> ParkOutcome option flow \<times> 'm) \<Rightarrow> 'm \<Rightarrow> (ParkOutcome flow \<times> 'm) option" where
  "park_loop iter m =
     (case iter m of
        (Next None, m') \<Rightarrow> park_loop iter m'
      | (Next (Some out), m') \<Rightarrow> Some (Next out, m')
      | (Fails e, m') \<Rightarrow> Some (Fails e, m')
      | (Panics, m') \<Rightarrow> Some (Panics, m')
      | (Stuck, m') \<Rightarrow> Some (Stuck, m'))"

definition real_wait_until_deliverable ::
  "('c, 'a, 'p, 'u, 'j, 'w) env \<Rightarrow> u64 option \<Rightarrow> ('c, 'p, 'u, 'w) machine
     \<Rightarrow> (ParkOutcome flow \<times> ('c, 'p, 'u, 'w) machine) option" where
  "real_wait_until_deliverable E horizon = park_loop (real_wait_iter E horizon)"

definition fast_forward_until_deliverable ::
  "('c, 'a, 'p, 'u, 'j, 'w) env \<Rightarrow> u64 option \<Rightarrow> ('c, 'p, 'u, 'w) machine
     \<Rightarrow> (ParkOutcome flow \<times> ('c, 'p, 'u, 'w) machine) option" where
  "fast_forward_until_deliverable E horizon = park_loop (fast_forward_iter E horizon)"

definition park_until_deliverable ::
  "('c, 'a, 'p, 'u, 'j, 'w) env \<Rightarrow> bool \<Rightarrow> u64 option \<Rightarrow> ('c, 'p, 'u, 'w) machine
     \<Rightarrow> (ParkOutcome flow \<times> ('c, 'p, 'u, 'w) machine) option" where
  "park_until_deliverable E ff horizon m =
     (if ff then fast_forward_until_deliverable E horizon m else real_wait_until_deliverable E horizon m)"

end
