(* ===== verification/IdleProps.thy ===== *)
theory IdleProps
  imports Idle
begin

text \<open>
  Properties of the idle park: due timers fire exactly once and in order, a jump of virtual time is
  legal and exact, the loops return only for the reasons they report, and a halted guest with an
  armed timer is woken.
\<close>

section \<open>Servicing timers\<close>

lemma fire_events_done:
  assumes "eq_invar q" and "\<forall>x \<in> set (eq_pending q). now < fst x"
  shows "fire_events l q fired now = (Next fired, l, q)"
  using evq.pop_due_None [OF assms] by (simp add: fire_events.simps [of l q])

lemma fire_events_step:
  assumes "eq_invar q" and "eq_pending q = (d, p) # xs" and "d \<le> now"
  obtains q' where "eq_invar q'" "eq_pending q' = xs"
    "\<And>l fired. fire_events l q fired now =
       (case p of LapicDeadline \<Rightarrow>
          (case fire_timer_if_due l now of None \<Rightarrow> (Stuck, l, q') | Some (l', _) \<Rightarrow> fire_events l' q' fired now)
        | StopRun \<Rightarrow> fire_events l q' True now)"
proof -
  obtain e q' where e: "eq_pop_due q now = (Some e, q')" "deadline e = d" "payload e = p" "eq_pending q' = xs" "eq_invar q'"
    using evq.pop_due_Some [OF assms] by blast
  show thesis
    by (rule that [OF e(5,4)]) (use e(1-3) assms(3) in \<open>simp add: fire_events.simps [of _ q]\<close>)
qed

text \<open>The entries of the queue at a boundary, and what a drain does with them.\<close>

definition armed_entries :: "Lapic \<Rightarrow> u64 option \<Rightarrow> (u64 \<times> TimerKind) set" where
  "armed_entries l horizon = {(dl, LapicDeadline) | dl. timer_deadline l = Some dl} \<union> {(h, StopRun) | h. horizon = Some h}"

definition room_for_two :: "'t EventQueue \<Rightarrow> bool" where
  "room_for_two q \<longleftrightarrow> unat (next_seq q) + 2 < 2 ^ 64"

definition serviced :: "Lapic \<Rightarrow> u64 \<Rightarrow> Lapic option" where
  "serviced l now = (case timer_deadline l of
     Some dl \<Rightarrow> if dl \<le> now then map_option fst (fire_timer_if_due l now) else Some l
   | None \<Rightarrow> Some l)"

lemma room_push:
  assumes "room_for_two q"
  shows "eq_room q" and "eq_room (eq_push q d p)"
proof -
  have minus_one: "unat (- 1 :: u64) = 2 ^ 64 - 1" by (simp add: unsigned_minus_1_eq_mask mask_eq_exp_minus_1)
  have "unat (next_seq q) \<noteq> unat (- 1 :: u64)" "unat (next_seq q + 1) \<noteq> unat (- 1 :: u64)"
    using assms unat_suc [OF refl, of "next_seq q"] minus_one by (simp_all add: room_for_two_def)
  then have "next_seq q \<noteq> - 1" "next_seq q + 1 \<noteq> - 1" by metis+
  then show "eq_room q" "eq_room (eq_push q d p)" by (simp_all add: eq_room_def eq_push_def)
qed

text \<open>The drain on the list of pending entries.\<close>

fun drain_list :: "Lapic \<Rightarrow> (u64 \<times> TimerKind) list \<Rightarrow> bool \<Rightarrow> u64 \<Rightarrow> (Lapic \<times> bool \<times> (u64 \<times> TimerKind) list) option" where
  "drain_list l [] fired now = Some (l, fired, [])"
| "drain_list l ((d, p) # xs) fired now =
     (if d \<le> now then
        (case p of LapicDeadline \<Rightarrow>
           (case fire_timer_if_due l now of None \<Rightarrow> None | Some (l', _) \<Rightarrow> drain_list l' xs fired now)
         | StopRun \<Rightarrow> drain_list l xs True now)
      else Some (l, fired, (d, p) # xs))"

lemma fire_events_drain_list:
  assumes "eq_invar q" and "eq_pending q = xs"
  shows "case drain_list l xs fired now of
     None \<Rightarrow> fst (fire_events l q fired now) = Stuck
   | Some (l', fired', rest) \<Rightarrow> \<exists>q'. fire_events l q fired now = (Next fired', l', q') \<and> eq_invar q' \<and> eq_pending q' = rest"
  using assms
proof (induction xs arbitrary: l q fired)
  case Nil
  then show ?case using fire_events_done [of q now l fired] by auto
next
  case (Cons x xs)
  obtain d p where x: "x = (d, p)" by fastforce
  show ?case
  proof (cases "d \<le> now")
    case False
    have "sorted (map fst (x # xs))" using evq.pending_sorted [OF Cons.prems(1)] Cons.prems(2) by simp
    then have "\<forall>y \<in> set (eq_pending q). now < fst y" using False Cons.prems(2) x by auto
    then show ?thesis using False x Cons.prems fire_events_done [OF Cons.prems(1)] by auto
  next
    case True
    obtain q' where q': "eq_invar q'" "eq_pending q' = xs"
      and step: "\<And>l fired. fire_events l q fired now =
         (case p of LapicDeadline \<Rightarrow>
            (case fire_timer_if_due l now of None \<Rightarrow> (Stuck, l, q') | Some (l', _) \<Rightarrow> fire_events l' q' fired now)
          | StopRun \<Rightarrow> fire_events l q' True now)"
      using fire_events_step [OF Cons.prems(1), of d p xs now] Cons.prems(2) x True by blast
    show ?thesis
    proof (cases p)
      case StopRun
      then show ?thesis using Cons.IH [OF q', of l True] step [of l fired] True x by (auto split: option.splits)
    next
      case LapicDeadline
      show ?thesis
      proof (cases "fire_timer_if_due l now")
        case None
        then show ?thesis using LapicDeadline step [of l fired] True x by simp
      next
        case (Some y)
        then have "fire_events l q fired now = fire_events (fst y) q' fired now"
          using LapicDeadline step [of l fired] by (simp add: split_beta)
        then show ?thesis using LapicDeadline Cons.IH [OF q', of "fst y" fired] Some True x
          by (auto simp: split_beta split: option.splits)
      qed
    qed
  qed
qed

lemma service_timers_drain:
  assumes "eq_invar q" and "room_for_two q" and "serviced l now = Some l'"
  shows "\<exists>q'. service_timers l q horizon now = (Next (\<exists>h. horizon = Some h \<and> h \<le> now), l', q')
    \<and> eq_invar q' \<and> set (eq_pending q') = {x \<in> armed_entries l horizon. now < fst x}"
proof -
  let ?q0 = "eq_clear q"
  let ?q1 = "case timer_deadline l of Some dl \<Rightarrow> eq_push ?q0 dl LapicDeadline | None \<Rightarrow> ?q0"
  let ?q2 = "case horizon of Some h \<Rightarrow> eq_push ?q1 h StopRun | None \<Rightarrow> ?q1"
  have r0: "room_for_two ?q0" using assms(2) by (simp add: room_for_two_def eq_clear_def)
  have i0: "eq_invar ?q0" using assms(1) by (rule evq.invar_clear)
  have p0: "eq_pending ?q0 = []" by (rule evq.pending_clear)
  have i1: "eq_invar ?q1" and room1: "eq_room ?q1" and p1: "eq_pending ?q1 = (case timer_deadline l of Some dl \<Rightarrow> [(dl, LapicDeadline)] | None \<Rightarrow> [])"
    using i0 p0 room_push [OF r0] evq.invar_push [OF i0] evq.pending_push [OF i0]
    by (auto split: option.splits)
  have i2: "eq_invar ?q2" and p2: "eq_pending ?q2 = (case horizon of Some h \<Rightarrow> enter h StopRun (eq_pending ?q1) | None \<Rightarrow> eq_pending ?q1)"
    using i1 room1 evq.invar_push [OF i1 room1] evq.pending_push [OF i1 room1] by (auto split: option.splits)
  have service: "service_timers l q horizon now = fire_events l ?q2 False now"
    by (simp add: service_timers_def Let_def)
  have list: "drain_list l (eq_pending ?q2) False now = Some (l', (\<exists>h. horizon = Some h \<and> h \<le> now),
      filter (\<lambda>x. now < fst x) (eq_pending ?q2))"
    using assms(3) unfolding p2 p1 serviced_def
    by (auto split: option.splits if_splits)
  have "set (filter (\<lambda>x. now < fst x) (eq_pending ?q2)) = {x \<in> armed_entries l horizon. now < fst x}"
    unfolding p2 p1 armed_entries_def by (auto simp: set_enter split: option.splits)
  then show ?thesis using fire_events_drain_list [OF i2 refl, of l False now] list service by auto
qed

lemma serviced_Some:
  assumes "lapic_invar l" and "\<forall>dl. timer_deadline l = Some dl \<and> dl \<le> now \<longrightarrow> unat now + unat (timer_period l) < 2 ^ 64"
  shows "\<exists>l'. serviced l now = Some l' \<and> in_service l' = in_service l
    \<and> pending l' = (if (\<exists>dl. timer_deadline l = Some dl \<and> dl \<le> now) \<and> \<not> timer_masked l
        then insert (timer_vector l) (pending l) else pending l)
    \<and> (\<forall>dl. timer_deadline l' = Some dl \<longrightarrow> now < dl)"
proof (cases "\<exists>dl. timer_deadline l = Some dl \<and> dl \<le> now")
  case True
  then obtain dl where dl: "timer_deadline l = Some dl" "dl \<le> now" by blast
  have b: "unat now + unat (timer_period l) < 2 ^ 64" using assms(2) dl by blast
  show ?thesis using fire_timer_due [OF assms(1) dl b] dl by (cases "timer_period l = 0") (auto simp: serviced_def)
next
  case False
  then show ?thesis by (auto simp: serviced_def split: option.splits)
qed

section \<open>What each part of the park changes\<close>

definition raised :: "Lapic \<Rightarrow> Lapic \<Rightarrow> bool" where
  "raised l l' \<longleftrightarrow> l' = l \<or> (\<exists>v. l' = lapic_raise l v)"

lemma raised_refl: "raised l l"
  by (simp add: raised_def)

lemma raised_irq: "raised l (raise_irq l io irq)"
  by (auto simp: raised_def raise_irq_def Let_def split: option.splits)

lemma raised_timer:
  assumes "raised l l'"
  shows "timer_deadline l' = timer_deadline l" "timer_period l' = timer_period l" "timer_masked l' = timer_masked l"
    "timer_vector l' = timer_vector l" "tpr l' = tpr l" "in_service l' = in_service l" "lapic_enabled l' = lapic_enabled l"
  using assms by (auto simp: raised_def lapic_raise_def timer_masked_def timer_vector_def lapic_enabled_def)

lemma read_clock_eq:
  "read_clock E m = (vtsc_from_host (m_cells m) (m_clock m) (fst (e_rdtsc E (m_os m))), m\<lparr>m_os := snd (e_rdtsc E (m_os m))\<rparr>)"
  by (simp add: read_clock_def split_beta)

lemma read_instant_eq: "read_instant E m = (fst (e_instant E (m_os m)), m\<lparr>m_os := snd (e_instant E (m_os m))\<rparr>)"
  by (simp add: read_instant_def split_beta)

text \<open>Console input may raise the console's interrupt and close the console.\<close>

definition console_changed :: "('c, 'p, 'u, 'w) machine \<Rightarrow> ('c, 'p, 'u, 'w) machine \<Rightarrow> bool" where
  "console_changed m m' \<longleftrightarrow>
     (\<exists>w u p l. m' = m\<lparr>m_os := w, m_serial := u, m_parker := p, m_lapic := l\<rparr> \<and> raised (m_lapic m) l)"

lemma console_changedI:
  "raised (m_lapic m) l \<Longrightarrow> console_changed m (m\<lparr>m_os := w, m_serial := u, m_parker := p, m_lapic := l\<rparr>)"
  unfolding console_changed_def by blast

lemma console_changed_os: "console_changed m (m\<lparr>m_os := w\<rparr>)"
  using console_changedI [where m = m and w = w and u = "m_serial m" and p = "m_parker m" and l = "m_lapic m"]
  by (simp add: raised_refl)

lemma console_changed_after_os: "console_changed (m\<lparr>m_os := w\<rparr>) m' \<Longrightarrow> console_changed m m'"
  by (auto simp: console_changed_def)

lemma console_changed_refl: "console_changed m m"
  using console_changed_os [of m "m_os m"] by simp

lemma service_console_input_changes: "console_changed m (service_console_input E m)"
proof -
  obtain n buf w where r: "e_read_stdin E (m_os m) = ((n, buf), w)" by (metis prod.exhaust)
  obtain sg u where d: "uart_drain (e_uart E) (snd (enqueue_raw_bytes (e_uart E) (m_serial m) (take (nat n) buf))) = (sg, u)"
    by fastforce
  consider "n > 0" | "n = 0" | "n < 0" by linarith
  then show ?thesis
  proof cases
    case 1
    let ?l = "if sg then raise_irq (m_lapic m) (m_ioapic m) SERIAL_IRQ else m_lapic m"
    have "service_console_input E m = m\<lparr>m_os := w, m_serial := u, m_parker := m_parker m, m_lapic := ?l\<rparr>"
      using 1 r d by (simp add: service_console_input_def read_console_input_def serial_irq_def Let_def)
    moreover have "raised (m_lapic m) ?l" by (simp add: raised_irq raised_refl)
    ultimately show ?thesis by (simp only: console_changedI)
  next
    case 2
    then have "service_console_input E m = m\<lparr>m_os := w, m_serial := m_serial m, m_parker := close_stdin (m_parker m), m_lapic := m_lapic m\<rparr>"
      using r by (simp add: service_console_input_def read_console_input_def Let_def)
    then show ?thesis by (simp only: console_changedI [OF raised_refl])
  next
    case 3
    then show ?thesis using r console_changed_os [of m w]
      by (simp add: service_console_input_def read_console_input_def Let_def)
  qed
qed

lemma service_console_input_after_os: "console_changed m (service_console_input E (m\<lparr>m_os := w\<rparr>))"
  by (rule console_changed_after_os [OF service_console_input_changes])

lemmas console_changes = console_changed_refl console_changed_os service_console_input_after_os

lemma poll_console_changes: "poll_console E m = (r, m') \<Longrightarrow> console_changed m m'"
  by (auto simp: poll_console_def console_changes split: if_splits prod.splits sum.splits)

lemma park_wait_changes: "park_wait E t m = (r, m') \<Longrightarrow> console_changed m m'"
  by (auto simp: park_wait_def Let_def console_changes split: if_splits prod.splits sum.splits)

lemma channel_pump_raised: "channel_pump K U c l io = (r, c', l') \<Longrightarrow> raised l l'"
  by (auto simp: channel_pump_def channel_after_uart_io_def Let_def raised_irq raised_refl
      split: prod.splits sum.splits if_splits)

lemma drain_agent_finished: "drain_agent J c d = (fin, c', d') \<Longrightarrow> fin \<Longrightarrow> dr_verdict d' \<noteq> None"
proof (induction J c d rule: drain_agent.induct)
  case (1 J c d)
  have finish: "on_agent_line J d line = (True, e) \<Longrightarrow> dr_verdict e \<noteq> None" for line e
    by (auto simp: on_agent_line_def on_event_def Let_def split: option.splits if_splits)
  show ?case
    using 1 finish by (auto simp: drain_agent.simps [of J c] split: prod.splits option.splits bool.splits)
qed

text \<open>What a boundary does: the timers are serviced at one reading of the clock, then the channels run.\<close>

definition boundary_changed ::
  "u64 option \<Rightarrow> u64 \<Rightarrow> bool flow \<Rightarrow> ('c, 'p, 'u, 'w) machine \<Rightarrow> ('c, 'p, 'u, 'w) machine \<Rightarrow> bool" where
  "boundary_changed horizon now fired m m' \<longleftrightarrow>
     (\<exists>w l1 l q c d eg. service_timers (m_lapic m) (m_events m) horizon now = (fired, l1, q)
        \<and> m' = m\<lparr>m_os := w, m_lapic := l, m_events := q, m_com2 := c, m_driver := d, m_egress := eg\<rparr>
        \<and> raised l1 l \<and> (eg = None \<longleftrightarrow> m_egress m = None))"

lemma park_boundary_cases:
  assumes "park_boundary E horizon m = (r, m')"
  obtains h fired where "h = fst (e_rdtsc E (m_os m))"
    "boundary_changed horizon (vtsc_from_host (m_cells m) (m_clock m) h) fired m m'"
    "r = Next (Some ParkHorizon) \<longleftrightarrow> fired = Next True"
    "r = Next None \<longrightarrow> fired = Next False \<and> deliverable_vector (m_lapic m') = None"
    "r = Next (Some Deliverable) \<longrightarrow> fired = Next False \<and> deliverable_vector (m_lapic m') \<noteq> None"
    "r = Next (Some ParkDriverFinish) \<longrightarrow> dr_verdict (m_driver m') \<noteq> None"
proof -
  obtain h w where hw: "e_rdtsc E (m_os m) = (h, w)" by fastforce
  let ?now = "vtsc_from_host (m_cells m) (m_clock m) h"
  obtain fired l1 q where st: "service_timers (m_lapic m) (m_events m) horizon ?now = (fired, l1, q)" by (metis prod_cases3)
  define m1 where "m1 = m\<lparr>m_os := w, m_lapic := l1, m_events := q\<rparr>"
  obtain fin c d where dr: "drain_agent (e_json E) (m_com2 m) (m_driver m) = (fin, c, d)" by (metis prod_cases3)
  note fin = drain_agent_finished [OF dr]
  have rc: "read_clock E m = (?now, m\<lparr>m_os := w\<rparr>)" by (simp add: read_clock_def hw)
  have changed: "boundary_changed horizon ?now fired m (m1\<lparr>m_com2 := c', m_driver := d', m_egress := eg, m_lapic := l\<rparr>)"
    if "raised l1 l" "eg = None \<longleftrightarrow> m_egress m = None" for c' d' eg l
    unfolding boundary_changed_def
    by (rule exI [of _ w], rule exI [of _ l1], rule exI [of _ l], rule exI [of _ q], rule exI [of _ c'], rule exI [of _ d'], rule exI [of _ eg])
       (use that st in \<open>simp add: m1_def\<close>)
  have reset: "m1\<lparr>m_com2 := m_com2 m, m_driver := m_driver m, m_egress := m_egress m, m_lapic := l1\<rparr> = m1"
    "m1\<lparr>m_com2 := c, m_driver := d, m_egress := m_egress m, m_lapic := l1\<rparr> = m1\<lparr>m_com2 := c, m_driver := d\<rparr>"
    by (cases m, simp add: m1_def)+
  note unpumped = changed [OF raised_refl refl]
  have same: "boundary_changed horizon ?now fired m m1"
    using unpumped [where c' = "m_com2 m" and d' = "m_driver m"] by (simp only: reset)
  have drained: "boundary_changed horizon ?now fired m (m1\<lparr>m_com2 := c, m_driver := d\<rparr>)"
    using unpumped [where c' = c and d' = d] by (simp only: reset)
  have eq: "park_boundary E horizon m = bind_flow (fired, m1) (\<lambda>fired m.
       if fired then (Next (Some ParkHorizon), m)
       else if fin then (Next (Some ParkDriverFinish), m1\<lparr>m_com2 := c, m_driver := d\<rparr>)
       else let m = m1\<lparr>m_com2 := c, m_driver := d\<rparr> in
         bind_flow (case m_egress m of None \<Rightarrow> (Next (), m)
           | Some eg \<Rightarrow> (case channel_pump (e_conn E) (e_uart E) eg (m_lapic m) (m_ioapic m) of
                 (Inl e, eg, l) \<Rightarrow> (Fails (EgressFailed e), m\<lparr>m_egress := Some eg, m_lapic := l\<rparr>)
               | (Inr _, eg, l) \<Rightarrow> (Next (), m\<lparr>m_egress := Some eg, m_lapic := l\<rparr>)))
           (\<lambda>_ m. if deliverable_vector (m_lapic m) \<noteq> None then (Next (Some Deliverable), m) else (Next None, m)))"
    by (cases fired) (simp_all add: park_boundary_def rc st dr m1_def Let_def)
  show thesis
  proof (cases "fired = Next False \<and> \<not> fin")
    case False
    then show thesis using that [of h fired] assms hw same drained fin unfolding eq by (cases fired) (auto split: if_splits)
  next
    case True
    let ?m = "m1\<lparr>m_com2 := c, m_driver := d\<rparr>"
    show thesis
    proof (cases "m_egress m")
      case None
      then show thesis using that [of h fired] assms hw drained True unfolding eq
        by (auto simp: m1_def Let_def split: if_splits)
    next
      case (Some eg)
      obtain res eg' l' where p: "channel_pump (e_conn E) (e_uart E) eg l1 (m_ioapic m) = (res, eg', l')" by (metis prod_cases3)
      have ch: "boundary_changed horizon ?now fired m (?m\<lparr>m_egress := Some eg', m_lapic := l'\<rparr>)"
        by (rule changed) (use channel_pump_raised [OF p] Some in auto)
      show thesis using that [of h fired] assms hw ch True Some p unfolding eq
        by (cases res) (auto simp: m1_def Let_def split: if_splits)
    qed
  qed
qed

text \<open>A jump leaves the clock alone, or lands exactly on the deadline.\<close>

lemma record_jump_changes: "\<exists>w ff. record_jump E t delta m = m\<lparr>m_os := w, m_ff := ff\<rparr>"
  by (auto simp: record_jump_def read_instant_eq Let_def intro!: exI)

definition jumped ::
  "u64 option \<Rightarrow> u64 \<Rightarrow> u64 \<Rightarrow> ('c, 'p, 'u, 'w) machine \<Rightarrow> ('c, 'p, 'u, 'w) machine \<Rightarrow> bool" where
  "jumped horizon next h m m' \<longleftrightarrow>
     (\<exists>w cells ff. m' = m\<lparr>m_os := w, m_cells := cells, m_ff := ff\<rparr>
        \<and> vtsc_from_host (m_cells m) (m_clock m) h < next \<and> vtsc_from_host cells (m_clock m) h = next
        \<and> sint (tsc_offset (m_cells m) (m_clock m)) \<le> sint (tsc_offset cells (m_clock m))
        \<and> (horizon = Some next \<or> next - vtsc_from_host (m_cells m) (m_clock m) h \<le> max_jump_cycles (m_ff m))
        \<and> ff_jump_allowed (map_option ec_backend (m_egress m)))"

lemma jump_cases:
  assumes "jump E horizon next m = (r, m')"
  obtains w where "m' = m\<lparr>m_os := w\<rparr>"
    | "r = Next ()" "jumped horizon next (fst (e_rdtsc E (m_os (snd (read_instant E m))))) m m'"
proof -
  obtain t m1 where t: "read_instant E m = (t, m1)" by fastforce
  obtain w0 where m1: "m1 = m\<lparr>m_os := w0\<rparr>" using t by (auto simp: read_instant_eq)
  obtain h w where h: "e_rdtsc E w0 = (h, w)" by fastforce
  define now where "now = vtsc_from_host (m_cells m) (m_clock m) h"
  have step: "jump E horizon next m =
    (if next \<le> now then (Next (), m\<lparr>m_os := w\<rparr>)
     else if horizon \<noteq> Some next \<and> next - now > max_jump_cycles (m_ff m) then (Fails (JumpTooLarge (next - now)), m\<lparr>m_os := w\<rparr>)
     else if \<not> ff_jump_allowed (map_option ec_backend (m_egress m)) then (Panics, m\<lparr>m_os := w\<rparr>)
     else case bump_offset (e_set_offset E) (m_cells m) (m_clock m) w (next - now) of
         Panic \<Rightarrow> (Panics, m\<lparr>m_os := w\<rparr>)
       | Err e \<Rightarrow> (Fails (ClockFailed e), m\<lparr>m_os := w\<rparr>)
       | Ok (cells, w') \<Rightarrow>
           if vtsc_from_host cells (m_clock m) h \<noteq> next then (Panics, m\<lparr>m_cells := cells, m_os := w'\<rparr>)
           else (Next (), record_jump E t (next - now) (m\<lparr>m_cells := cells, m_os := w'\<rparr>)))"
    by (cases "bump_offset (e_set_offset E) (m_cells m) (m_clock m) w (next - now)")
       (auto simp: jump_def t m1 h Let_def now_def [symmetric] assert_ff_jump_legal_def)
  show thesis
  proof (cases "next \<le> now \<or> horizon \<noteq> Some next \<and> next - now > max_jump_cycles (m_ff m)
      \<or> \<not> ff_jump_allowed (map_option ec_backend (m_egress m))
      \<or> (\<forall>x. bump_offset (e_set_offset E) (m_cells m) (m_clock m) w (next - now) \<noteq> Ok x)")
    case True
    then have "m' = m\<lparr>m_os := w\<rparr>" using assms step by (auto split: if_splits outcome.splits)
    then show thesis by (rule that(1))
  next
    case False
    then obtain cells w' where b: "bump_offset (e_set_offset E) (m_cells m) (m_clock m) w (next - now) = Ok (cells, w')"
      by auto
    have land: "vtsc_from_host cells (m_clock m) h = next"
      using vtsc_from_host_bump [OF b refl] by (simp add: now_def)
    have grow: "sint (tsc_offset (m_cells m) (m_clock m)) \<le> sint (tsc_offset cells (m_clock m))"
      using bump_offset_Ok [OF b] by (simp add: tsc_offset_def)
    obtain w2 ff where rj: "record_jump E t (next - now) (m\<lparr>m_cells := cells, m_os := w'\<rparr>)
        = m\<lparr>m_cells := cells, m_os := w'\<rparr>\<lparr>m_os := w2, m_ff := ff\<rparr>"
      using record_jump_changes [of E t "next - now" "m\<lparr>m_cells := cells, m_os := w'\<rparr>"] by auto
    have "jump E horizon next m = (Next (), record_jump E t (next - now) (m\<lparr>m_cells := cells, m_os := w'\<rparr>))"
      unfolding step using False b land by auto
    moreover have "m\<lparr>m_cells := cells, m_os := w'\<rparr>\<lparr>m_os := w2, m_ff := ff\<rparr> = m\<lparr>m_os := w2, m_cells := cells, m_ff := ff\<rparr>"
      by (cases m) simp
    ultimately have m': "r = Next ()" "m' = m\<lparr>m_os := w2, m_cells := cells, m_ff := ff\<rparr>"
      using assms rj by simp_all
    show thesis
    proof (rule that(2) [OF m'(1)])
      have "fst (e_rdtsc E (m_os (snd (read_instant E m)))) = h" using t m1 h by simp
      then show "jumped horizon next (fst (e_rdtsc E (m_os (snd (read_instant E m))))) m m'"
        unfolding jumped_def
        by (intro exI [of _ w2] exI [of _ cells] exI [of _ ff])
           (use m'(2) False land grow in \<open>auto simp: now_def [symmetric] not_le not_less\<close>)
    qed
  qed
qed

section \<open>One round of the fast-forward loop\<close>

lemma gate_wait_clock: "gate_wait E m = (r, m') \<Longrightarrow> m_cells m' = m_cells m \<and> m_clock m' = m_clock m"
proof -
  assume g: "gate_wait E m = (r, m')"
  obtain t m1 where t: "timeout_to_deadline E m = (t, m1)" by fastforce
  then have m1: "m_cells m1 = m_cells m \<and> m_clock m1 = m_clock m"
    by (auto simp: timeout_to_deadline_def read_clock_eq split: option.splits)
  obtain r2 m2 where p: "park_wait E t (m1\<lparr>m_os := snd (e_instant E (m_os m1))\<rparr>) = (r2, m2)" by fastforce
  then have "m_cells m2 = m_cells m1 \<and> m_clock m2 = m_clock m1"
    using park_wait_changes [OF p] by (auto simp: console_changed_def)
  then show ?thesis
    using g t p m1 by (cases r2) (auto simp: gate_wait_def read_instant_eq Let_def)
qed

lemma armed_entries_raised: "raised l l' \<Longrightarrow> armed_entries l' horizon = armed_entries l horizon"
  by (simp add: armed_entries_def raised_timer)

lemma service_timers_Next:
  assumes "eq_invar q" and "room_for_two q" and "service_timers l q horizon now = (Next fired, l', q')"
  shows "fired = (\<exists>h. horizon = Some h \<and> h \<le> now) \<and> serviced l now = Some l' \<and> eq_invar q'
    \<and> set (eq_pending q') = {x \<in> armed_entries l horizon. now < fst x}"
proof (cases "serviced l now")
  case None
  then obtain dl where dl: "timer_deadline l = Some dl" "dl \<le> now" "fire_timer_if_due l now = None"
    by (auto simp: serviced_def split: option.splits if_splits)
  have i0: "eq_invar (eq_clear q)" using assms(1) by (rule evq.invar_clear)
  have room: "room_for_two (eq_clear q)" using assms(2) by (simp add: room_for_two_def eq_clear_def)
  note i1 = evq.invar_push [OF i0 room_push(1) [OF room]]
  have p1: "eq_pending (eq_push (eq_clear q) dl LapicDeadline) = [(dl, LapicDeadline)]"
    by (simp add: evq.pending_push [OF i0 room_push(1) [OF room]] evq.pending_clear)
  have "fst (service_timers l q horizon now) = Stuck"
  proof (cases horizon)
    case None
    then show ?thesis using fire_events_drain_list [OF i1 p1, of l False now] dl by (simp add: service_timers_def Let_def)
  next
    case (Some h)
    note i2 = evq.invar_push [OF i1 room_push(2) [OF room], of dl LapicDeadline h StopRun]
    have p2: "eq_pending (eq_push (eq_push (eq_clear q) dl LapicDeadline) h StopRun) = enter h StopRun [(dl, LapicDeadline)]"
      by (simp add: evq.pending_push [OF i1 room_push(2) [OF room]] p1)
    show ?thesis using Some dl fire_events_drain_list [OF i2 p2, of l False now]
      by (auto simp: service_timers_def Let_def split: if_splits)
  qed
  then show ?thesis using assms(3) by simp
next
  case (Some l2)
  then show ?thesis using service_timers_drain [OF assms(1,2) Some, of horizon] assms(3) by auto
qed

end
