(* ===== verification/ParkProps.thy ===== *)
theory ParkProps
  imports IdleProps
begin

text \<open>
  What the park loops of \<open>src/src/main.rs\<close> guarantee: the timers a boundary fires, where a jump of
  virtual time lands, what a returned outcome means, and that a halted guest with an armed timer
  is woken.
\<close>

section \<open>Jumps\<close>

text \<open>The host sample of a round's jump, read after the console, the boundary and the time stamp.\<close>

definition jump_sample :: "('c, 'a, 'p, 'u, 'j, 'w) env \<Rightarrow> u64 option \<Rightarrow> ('c, 'p, 'u, 'w) machine \<Rightarrow> u64" where
  "jump_sample E horizon m =
     fst (e_rdtsc E (m_os (snd (read_instant E (snd (park_boundary E horizon (snd (poll_console E m))))))))"

text \<open>A round that moves the clock went through the boundary and jumped.\<close>

lemma fast_forward_iter_moved:
  assumes "fast_forward_iter E horizon m = (r, m')"
    and "tsc_offset (m_cells m') (m_clock m') \<noteq> tsc_offset (m_cells m) (m_clock m)"
  obtains m1 m2 nxt where "poll_console E m = (Next (), m1)" "console_changed m m1" "park_boundary E horizon m1 = (Next None, m2)"
    "eq_peek_deadline (m_events m2) = Some nxt" "jumped horizon nxt (jump_sample E horizon m) m2 m'" "r = Next None"
    "m_clock m' = m_clock m"
proof -
  obtain r1 m1 where p: "poll_console E m = (r1, m1)" by fastforce
  have c1: "console_changed m m1" by (rule poll_console_changes [OF p])
  obtain r2 m2 where b: "park_boundary E horizon m1 = (r2, m2)" by fastforce
  obtain h fired where ch: "boundary_changed horizon (vtsc_from_host (m_cells m1) (m_clock m1) h) fired m1 m2"
    using park_boundary_cases [OF b] by blast
  have same: "m_cells m2 = m_cells m" "m_clock m2 = m_clock m" "m_cells m1 = m_cells m" "m_clock m1 = m_clock m"
    using c1 ch by (auto simp: console_changed_def boundary_changed_def)
  let ?act = "if must_gate m2 then gate_wait E m2
              else case eq_peek_deadline (m_events m2) of
                None \<Rightarrow> park_wait E None m2
              | Some nxt \<Rightarrow> jump E horizon nxt m2"
  obtain r3 m3 where a: "?act = (r3, m3)" by fastforce
  have "r1 = Next () \<and> r2 = Next None"
  proof (rule ccontr)
    assume "\<not> ?thesis"
    then have "m' = m1 \<or> m' = m2" using assms(1) p b by (cases r1; cases r2) (auto simp: fast_forward_iter_def)
    then show False using assms(2) same by auto
  qed
  then have m': "m' = m3" and r: "r = (case r3 of Next _ \<Rightarrow> Next None | Fails e \<Rightarrow> Fails e | Panics \<Rightarrow> Panics | Stuck \<Rightarrow> Stuck)"
    using assms(1) p b a by (cases r3; simp add: fast_forward_iter_def)+
  have "\<not> must_gate m2" using a gate_wait_clock [of E m2 r3 m3] assms(2) same m' by auto
  then obtain nxt where nx: "eq_peek_deadline (m_events m2) = Some nxt"
    using a park_wait_changes [of E None m2 r3 m3] assms(2) same m'
    by (cases "eq_peek_deadline (m_events m2)") (auto simp: console_changed_def)
  have j: "jump E horizon nxt m2 = (r3, m3)" using a nx \<open>\<not> must_gate m2\<close> by simp
  show thesis
  proof (cases rule: jump_cases [OF j])
    case (1 w)
    then show thesis using assms(2) same m' by simp
  next
    case 2
    have "m_clock m' = m_clock m" using 2(2) m' same by (auto simp: jumped_def)
    moreover have "jump_sample E horizon m = fst (e_rdtsc E (m_os (snd (read_instant E m2))))"
      using p b by (simp add: jump_sample_def)
    ultimately show thesis using that [OF _ c1 _ nx] p b \<open>r1 = Next () \<and> r2 = Next None\<close> 2 m' r by auto
  qed
qed



section \<open>Outcomes\<close>

lemma fire_events_horizon:
  "fire_events l q fired now = (Next True, l', q') \<Longrightarrow> fired \<or> (\<exists>e \<in> set (heap q). payload e = StopRun \<and> deadline e \<le> now)"
proof (induction l q fired now rule: fire_events.induct)
  case (1 l q fired now)
  have pop: "eq_pop_due q now = (Some e, q2) \<Longrightarrow> e \<in> set (heap q) \<and> set (heap q2) \<subseteq> set (heap q)" for e q2
    using heap_peek_least [of "heap q"]
    by (auto simp: eq_pop_due_def heap_pop_def dest: set_remove1_subset [THEN subsetD] split: option.splits if_splits)
  consider (none) q2 where "eq_pop_due q now = (None, q2)" | (due) e q2 where "eq_pop_due q now = (Some e, q2)"
    by (metis not_None_eq prod.exhaust)
  then show ?case
  proof cases
    case none
    then show ?thesis using "1.prems" by (simp add: fire_events.simps [of l q])
  next
    case (due e q2)
    show ?thesis
    proof (cases "payload e")
      case StopRun
      then show ?thesis using due "1.prems" pop [OF due] by (auto simp: fire_events.simps [of l q] split: if_splits)
    next
      case LapicDeadline
      then obtain l2 b where l2: "fire_timer_if_due l now = Some (l2, b)" "fire_events l2 q2 fired now = (Next True, l', q')"
        "deadline e \<le> now"
        using due "1.prems" by (auto simp: fire_events.simps [of l q] split: if_splits option.splits prod.splits)
      then show ?thesis using "1.IH"(1) [OF due [symmetric] refl _ LapicDeadline l2(1) refl l2(2)] pop [OF due] by auto
    qed
  qed
qed

lemma service_timers_horizon:
  assumes "service_timers l q horizon now = (Next True, l', q')"
  shows "\<exists>h. horizon = Some h \<and> h \<le> now"
  using fire_events_horizon [OF assms [unfolded service_timers_def Let_def]]
  by (auto simp: eq_push_def eq_clear_def split: option.splits)

text \<open>What an outcome of the park says of the machine.\<close>

definition outcome_holds ::
  "('c, 'a, 'p, 'u, 'j, 'w) env \<Rightarrow> u64 option \<Rightarrow> ParkOutcome \<Rightarrow> ('c, 'p, 'u, 'w) machine \<Rightarrow> bool" where
  "outcome_holds E horizon out m \<longleftrightarrow>
     (case out of
        Deliverable \<Rightarrow> deliverable_vector (m_lapic m) \<noteq> None
      | ParkHorizon \<Rightarrow> (\<exists>h w. horizon = Some h \<and> h \<le> vtsc_from_host (m_cells m) (m_clock m) (fst (e_rdtsc E w)))
      | ParkDriverFinish \<Rightarrow> dr_verdict (m_driver m) \<noteq> None)"

lemma park_boundary_outcome:
  assumes "park_boundary E horizon m = (r, m')"
  shows "(\<forall>out. r = Next (Some out) \<longrightarrow> outcome_holds E horizon out m') \<and> m_cells m' = m_cells m \<and> m_clock m' = m_clock m"
proof -
  obtain h fired where h: "h = fst (e_rdtsc E (m_os m))"
    and ch: "boundary_changed horizon (vtsc_from_host (m_cells m) (m_clock m) h) fired m m'"
    and out: "r = Next (Some ParkHorizon) \<longleftrightarrow> fired = Next True"
      "r = Next (Some Deliverable) \<longrightarrow> fired = Next False \<and> deliverable_vector (m_lapic m') \<noteq> None"
      "r = Next (Some ParkDriverFinish) \<longrightarrow> dr_verdict (m_driver m') \<noteq> None"
    by (rule park_boundary_cases [OF assms])
  have same: "m_cells m' = m_cells m" "m_clock m' = m_clock m"
    using ch by (auto simp: boundary_changed_def)
  have "fired = Next True \<Longrightarrow> \<exists>hz. horizon = Some hz \<and> hz \<le> vtsc_from_host (m_cells m) (m_clock m) h"
    using ch service_timers_horizon unfolding boundary_changed_def by blast
  then have "outcome_holds E horizon out m'" if "r = Next (Some out)" for out
    using that out same h by (cases out) (auto simp: outcome_holds_def)
  then show ?thesis using same by blast
qed

lemma bind_flow_NextE:
  assumes "bind_flow x k = (Next b, s')"
  obtains a s where "x = (Next a, s)" "k a s = (Next b, s')"
  using assms by (cases x; cases "fst x") auto

lemma fast_forward_iter_outcome:
  assumes "fast_forward_iter E horizon m = (Next (Some out), m')"
  shows "outcome_holds E horizon out m'"
  using assms park_boundary_outcome
  by (fastforce simp: fast_forward_iter_def split: option.splits elim!: bind_flow_NextE)

lemma real_wait_iter_outcome:
  assumes "real_wait_iter E horizon m = (r, m')"
  shows "(\<forall>out. r = Next (Some out) \<longrightarrow> outcome_holds E horizon out m') \<and> m_cells m' = m_cells m \<and> m_clock m' = m_clock m"
proof -
  obtain rb mb where b: "park_boundary E horizon m = (rb, mb)" by fastforce
  note o = park_boundary_outcome [OF b]
  obtain t mt where t: "timeout_to_deadline E mb = (t, mt)" by fastforce
  then have mt: "m_cells mt = m_cells mb \<and> m_clock mt = m_clock mb"
    by (auto simp: timeout_to_deadline_def read_clock_eq split: option.splits)
  obtain rw mw where w: "park_wait E t mt = (rw, mw)" by fastforce
  have mw: "m_cells mw = m_cells mt \<and> m_clock mw = m_clock mt"
    using park_wait_changes [OF w] by (auto simp: console_changed_def)
  have "(r, m') = (case rb of Next (Some out) \<Rightarrow> (rb, mb)
      | Next None \<Rightarrow> ((case rw of Next _ \<Rightarrow> Next None | Fails e \<Rightarrow> Fails e | Panics \<Rightarrow> Panics | Stuck \<Rightarrow> Stuck), mw)
      | _ \<Rightarrow> (rb, mb))"
    using assms b t w by (cases rb; cases rw) (auto simp: real_wait_iter_def split: option.splits)
  then show ?thesis using o mt mw by (auto split: flow.splits option.splits)
qed

text \<open>An invariant of the rounds holds of the loop's result.\<close>

lemma park_loop_result:
  assumes "park_loop iter m = Some (r, m')" and "I m"
    and "\<And>m m' r. iter m = (r, m') \<Longrightarrow> I m \<Longrightarrow> I m' \<and> (\<forall>out. r = Next (Some out) \<longrightarrow> Q out m')"
  shows "I m' \<and> (\<forall>out. r = Next out \<longrightarrow> Q out m')"
proof -
  let ?P = "\<lambda>it m y. it = iter \<longrightarrow> I m \<longrightarrow> (case y of (r, m') \<Rightarrow> I m' \<and> (\<forall>out. r = Next out \<longrightarrow> Q out m'))"
  have "?P iter m (r, m')"
  proof (rule park_loop.raw_induct [where P = ?P, OF _ assms(1)], goal_cases)
    case (1 loop it m y)
    obtain r1 m1 where i: "iter m = (r1, m1)" by fastforce
    show ?case using 1 assms(3) [OF i] i by (cases r1) (auto split: option.splits)
  qed
  then show ?thesis using assms(2) by simp
qed

section \<open>Wake-ups\<close>

text \<open>
  What the host is relied on for: its counter never runs backwards across the calls the loop makes
  and stays between two values during the park, and the vCPU's offset can be written.
\<close>

definition steady_host :: "('c, 'a, 'p, 'u, 'j, 'w) env \<Rightarrow> u64 \<Rightarrow> u64 \<Rightarrow> bool" where
  "steady_host E lo hi \<longleftrightarrow>
     (\<forall>w. let h = fst (e_rdtsc E w) in
        lo \<le> h \<and> h \<le> hi \<and> h \<le> fst (e_rdtsc E (snd (e_rdtsc E w))) \<and> h \<le> fst (e_rdtsc E (snd (e_instant E w)))
        \<and> (\<forall>off. \<exists>w'. e_set_offset E w off = Some w' \<and> h \<le> fst (e_rdtsc E w')))"

text \<open>
  A halted guest waiting for its timer: the console is closed, egress is off, the agent has sent no
  complete line, and the timer is armed, unmasked and not blocked by a priority.
\<close>

definition asleep :: "('c, 'p, 'u, 'w) machine \<Rightarrow> u64 \<Rightarrow> bool" where
  "asleep m dl \<longleftrightarrow>
     \<not> stdin_open (m_parker m) \<and> m_egress m = None \<and> 10 \<notin> set (cc_tx (m_com2 m)) \<and> eq_invar (m_events m)
     \<and> timer_deadline (m_lapic m) = Some dl \<and> lapic_invar (m_lapic m) \<and> \<not> timer_masked (m_lapic m)
     \<and> lapic_enabled (m_lapic m) \<and> unat (tpr (m_lapic m)) div 16 < prio (timer_vector (m_lapic m))
     \<and> (\<forall>u \<in> in_service (m_lapic m). prio u < prio (timer_vector (m_lapic m)))"

lemma fired_deliverable:
  assumes "asleep m dl" and "dl \<le> now" and "unat now + unat (timer_period (m_lapic m)) < 2 ^ 64"
  obtains l where "serviced (m_lapic m) now = Some l" "deliverable_vector l \<noteq> None"
proof -
  let ?l = "m_lapic m" and ?v = "timer_vector (m_lapic m)"
  have a: "timer_deadline ?l = Some dl" "lapic_invar ?l" "\<not> timer_masked ?l" "lapic_enabled ?l"
    "unat (tpr ?l) div 16 < prio ?v" "\<forall>u \<in> in_service ?l. prio u < prio ?v"
    using assms(1) by (auto simp: asleep_def)
  obtain l where l: "fire_timer_if_due ?l now = Some (l, True)" "pending l = insert ?v (pending ?l)"
      "in_service l = in_service ?l"
    using fire_timer_due [OF a(2,1) assms(2,3)] a(3) by auto
  have i: "lapic_invar l" by (rule lapic_invar_fire [OF a(2) l(1)])
  have same: "tpr l = tpr ?l" "lapic_enabled l"
    using l(1) a(4) by (auto simp: fire_timer_if_due_def lapic_raise_def lapic_enabled_def split: option.splits if_splits)
  let ?top = "Max (pending l)"
  have fin: "finite (pending l)" by (rule finite_subset [OF subset_UNIV]) simp
  have v: "?v \<in> pending l" using l(2) by simp
  then have top: "?top \<in> pending l" by (intro Max_in [OF fin]) blast
  have bound: "\<forall>u \<in> pending l. u \<le> ?top" using Max_ge [OF fin] by blast
  then have "?v \<le> ?top" using v by blast
  then have p: "prio ?v \<le> prio ?top" unfolding prio_def word_le_nat_alt by (rule div_le_mono)
  then have "unat (tpr l) div 16 < prio ?top" using a(5) same(1) by simp
  moreover have "\<forall>u \<in> in_service l. prio u < prio ?top" using a(6) l(3) p by (metis order_less_le_trans)
  ultimately have "deliverable_vector l = Some ?top"
    unfolding deliverable_iff [OF i] using same(2) top bound by blast
  moreover have "serviced ?l now = Some l" using l(1) a(1) assms(2) by (simp add: serviced_def)
  ultimately show thesis using that by simp
qed

lemma quiet_boundary:
  assumes "m_egress m = None" and "10 \<notin> set (cc_tx (m_com2 m))"
    and "e_rdtsc E (m_os m) = (h, w)"
    and "service_timers (m_lapic m) (m_events m) horizon (vtsc_from_host (m_cells m) (m_clock m) h) = (Next False, l, q)"
  shows "park_boundary E horizon m =
    (Next (if deliverable_vector l \<noteq> None then Some Deliverable else None),
     m\<lparr>m_os := w, m_lapic := l, m_events := q, m_com2 := snd (poll_line (m_com2 m)), m_driver := m_driver m\<rparr>)"
proof -
  have "drain_agent (e_json E) (m_com2 m) (m_driver m) = (False, snd (poll_line (m_com2 m)), m_driver m)"
    using poll_line_partial [OF assms(2)] by (simp add: drain_agent.simps [of _ "m_com2 m"])
  then show ?thesis using assms by (simp add: park_boundary_def read_clock_def Let_def)
qed

lemma wake_round:
  assumes "asleep m dl" and "room_for_two (m_events m)"
    and "now = vtsc_from_host (m_cells m) (m_clock m) (fst (e_rdtsc E (m_os m)))"
    and "dl \<le> now" and "unat now + unat (timer_period (m_lapic m)) < 2 ^ 64" and "\<forall>hz. horizon = Some hz \<longrightarrow> now < hz"
  shows "\<exists>m'. fast_forward_iter E horizon m = (Next (Some Deliverable), m')"
proof -
  obtain h w where h: "e_rdtsc E (m_os m) = (h, w)" by fastforce
  have a: "\<not> stdin_open (m_parker m)" "m_egress m = None" "10 \<notin> set (cc_tx (m_com2 m))" "eq_invar (m_events m)"
    using assms(1) by (auto simp: asleep_def)
  obtain l where l: "serviced (m_lapic m) now = Some l" "deliverable_vector l \<noteq> None"
    by (rule fired_deliverable [OF assms(1,4,5)])
  have "\<not> (\<exists>hz. horizon = Some hz \<and> hz \<le> now)" using assms(6) by (auto simp: not_le)
  then obtain q where "service_timers (m_lapic m) (m_events m) horizon now = (Next False, l, q)"
    using service_timers_drain [OF a(4) assms(2) l(1), of horizon] by auto
  then have "service_timers (m_lapic m) (m_events m) horizon (vtsc_from_host (m_cells m) (m_clock m) h) = (Next False, l, q)"
    using assms(3) h by simp
  from quiet_boundary [OF a(2,3) h this] show ?thesis
    using a(1) l(2) by (simp add: fast_forward_iter_def poll_console_def)
qed

lemma unat_vtsc:
  assumes "lo \<le> h" and "h \<le> hi" and "unat (vtsc_from_host cs clk lo) + unat (hi - lo) < 2 ^ 64"
  shows "unat (vtsc_from_host cs clk h) = unat (vtsc_from_host cs clk lo) + (unat h - unat lo)"
proof -
  have d: "unat (h - lo) = unat h - unat lo" "unat (hi - lo) = unat hi - unat lo"
    using assms(1,2) by (auto intro!: unat_sub)
  have "vtsc_from_host cs clk h = vtsc_from_host cs clk lo + (h - lo)" by (simp add: vtsc_from_host_eq)
  moreover have "unat h \<le> unat hi" using assms(2) by (simp add: word_le_nat_alt)
  moreover from this have "unat (vtsc_from_host cs clk lo) + (unat h - unat lo) < 2 ^ 64" using assms(3) d(2) by linarith
  ultimately show ?thesis using d(1) by (simp add: unat_word_ariths)
qed

lemma bump_offset_succeeds:
  assumes "unat delta < 2 ^ 63" and "sint (tsc_offset cs clk) + int (unat delta) < 2 ^ 63"
    and "set_attr v (tsc_offset cs clk + delta) = Some v'"
  shows "bump_offset set_attr cs clk v delta = Ok (cs(vc_cell clk := tsc_offset cs clk + delta), v')"
proof -
  have s: "sint delta = int (unat delta)"
  proof -
    have "int (unat delta) < int (2 ^ 63)" using assms(1) by (simp only: of_nat_less_iff)
    moreover have "- (2 ^ 63) \<le> uint delta" by (rule order_trans [OF _ uint_ge_0]) simp
    ultimately show ?thesis using signed_take_bit_int_eq_self [of 63 "uint delta"] by (simp add: sint_uint)
  qed
  have "- (2 ^ 63) \<le> sint (tsc_offset cs clk)" using sint_greater_eq [of "tsc_offset cs clk"] by simp
  then have "checked_add_i64 (tsc_offset cs clk) delta \<noteq> None"
    unfolding checked_add_i64_None using assms(2) s by linarith
  then obtain new where new: "checked_add_i64 (tsc_offset cs clk) delta = Some new" by blast
  moreover from this have "new = tsc_offset cs clk + delta"
    by (auto simp: checked_add_i64_def Let_def split: if_splits)
  ultimately show ?thesis using assms(3) s by (simp add: bump_offset_def write_tsc_offset_def)
qed

lemma record_jump_os: "m_os (record_jump E t d m) = snd (e_instant E (snd (e_instant E (m_os m))))"
  by (simp add: record_jump_def read_instant_eq Let_def)

lemma jump_taken:
  assumes "m_egress m = None" and "e_rdtsc E (snd (e_instant E (m_os m))) = (h, w2)"
    and "d = dl - vtsc_from_host (m_cells m) (m_clock m) h" and "vtsc_from_host (m_cells m) (m_clock m) h < dl"
    and "d \<le> max_jump_cycles (m_ff m)" and "off = tsc_offset (m_cells m) (m_clock m)"
    and "unat d < 2 ^ 63" and "sint off + int (unat d) < 2 ^ 63" and "e_set_offset E w2 (off + d) = Some w3"
    and "cells = (m_cells m)(vc_cell (m_clock m) := off + d)"
  shows "\<exists>ff. jump E horizon dl m =
    (Next (), m\<lparr>m_os := snd (e_instant E (snd (e_instant E w3))), m_cells := cells, m_ff := ff\<rparr>)"
proof -
  have b: "bump_offset (e_set_offset E) (m_cells m) (m_clock m) w2 d = Ok (cells, w3)"
    using bump_offset_succeeds [where set_attr = "e_set_offset E" and cs = "m_cells m" and clk = "m_clock m" and v = w2 and delta = d]
      assms(6-10) by simp
  have exact: "vtsc_from_host cells (m_clock m) h = dl"
    using vtsc_from_host_bump [OF b refl] assms(3) by simp
  let ?m = "m\<lparr>m_os := w2, m_cells := cells, m_os := w3\<rparr>"
  have nd: "\<not> dl \<le> vtsc_from_host (m_cells m) (m_clock m) h" "\<not> max_jump_cycles (m_ff m) < d"
    using assms(4,5) by auto
  have "jump E horizon dl m = (Next (), record_jump E (fst (e_instant E (m_os m))) d ?m)"
    using assms(1,2) nd b exact
    by (simp add: jump_def read_instant_eq split_beta Let_def assms(3) [symmetric] assert_ff_jump_legal_def ff_jump_allowed_def)
  moreover obtain w ff where rj: "record_jump E (fst (e_instant E (m_os m))) d ?m = ?m\<lparr>m_os := w, m_ff := ff\<rparr>"
    using record_jump_changes [of E "fst (e_instant E (m_os m))" d ?m] by blast
  moreover have "?m\<lparr>m_os := w, m_ff := ff\<rparr> = m\<lparr>m_os := w, m_cells := cells, m_ff := ff\<rparr>"
    by (cases m) simp
  ultimately have "jump E horizon dl m = (Next (), m\<lparr>m_os := w, m_cells := cells, m_ff := ff\<rparr>)" by simp
  moreover have "w = snd (e_instant E (snd (e_instant E w3)))" using arg_cong [OF rj, of m_os] by (simp add: record_jump_os)
  ultimately show ?thesis by (simp only: exI [of _ ff])
qed

text \<open>A jump that is allowed and within its bounds leaves the deadline due.\<close>

lemma jump_wakes:
  assumes "steady_host E lo hi" and "m_egress m = None"
    and "unat (max dl (vtsc_from_host (m_cells m) (m_clock m) lo)) + unat (hi - lo) < 2 ^ 64"
    and "unat dl - unat (vtsc_from_host (m_cells m) (m_clock m) lo) \<le> unat (max_jump_cycles (m_ff m))"
    and "unat dl - unat (vtsc_from_host (m_cells m) (m_clock m) lo) < 2 ^ 63"
    and "sint (tsc_offset (m_cells m) (m_clock m)) + int (unat dl - unat (vtsc_from_host (m_cells m) (m_clock m) lo)) < 2 ^ 63"
  obtains w cells ff now where "jump E horizon dl m = (Next (), m\<lparr>m_os := w, m_cells := cells, m_ff := ff\<rparr>)"
    "now = vtsc_from_host cells (m_clock m) (fst (e_rdtsc E w))" "dl \<le> now"
    "unat now \<le> unat (max dl (vtsc_from_host (m_cells m) (m_clock m) lo)) + unat (hi - lo)"
proof -
  let ?v = "vtsc_from_host (m_cells m) (m_clock m)" and ?t = "\<lambda>w. fst (e_rdtsc E w)"
  have host: "lo \<le> ?t w" "?t w \<le> hi" "?t w \<le> ?t (snd (e_rdtsc E w))" "?t w \<le> ?t (snd (e_instant E w))"
    "\<exists>w'. e_set_offset E w off = Some w' \<and> ?t w \<le> ?t w'" for w off
    using assms(1) unfolding steady_host_def Let_def by blast+
  have mx: "unat (max dl (?v lo)) = max (unat dl) (unat (?v lo))" by (simp add: max_def word_le_nat_alt)
  have vb: "unat (?v lo) + unat (hi - lo) < 2 ^ 64" using assms(3) mx by linarith
  have vt: "unat (?v (?t w)) = unat (?v lo) + (unat (?t w) - unat lo)" for w
    by (rule unat_vtsc [OF host(1,2) vb])
  have span: "unat (?t w) - unat lo \<le> unat (hi - lo)" for w
    using host(1,2) [of w] by (simp add: word_le_nat_alt unat_sub)
  define w1 where "w1 = snd (e_instant E (m_os m))"
  define w2 where "w2 = snd (e_rdtsc E w1)"
  define now where "now = ?v (?t w1)"
  show thesis
  proof (cases "dl \<le> now")
    case True
    have "jump E horizon dl m = (Next (), m\<lparr>m_os := w2\<rparr>)"
      using True by (simp add: jump_def read_instant_eq split_beta Let_def now_def w1_def w2_def)
    then have j: "jump E horizon dl m = (Next (), m\<lparr>m_os := w2, m_cells := m_cells m, m_ff := m_ff m\<rparr>)" by simp
    have "unat (?t w1) \<le> unat (?t w2)" using host(3) [of w1] by (simp add: w2_def word_le_nat_alt)
    then have "now \<le> ?v (?t w2)" unfolding now_def word_le_nat_alt vt by simp
    then have "dl \<le> ?v (?t w2)" using True by simp
    then show thesis
      by (rule that [OF j refl]) (use vt [of w2] span [of w2] mx in linarith)
  next
    case False
    let ?d = "dl - now"
    have d: "unat ?d = unat dl - unat now" using False by (intro unat_sub) simp
    have nl: "unat (?v lo) \<le> unat now" unfolding now_def vt by simp
    have dd: "unat ?d \<le> unat dl - unat (?v lo)" using d nl by simp
    let ?off = "tsc_offset (m_cells m) (m_clock m)"
    obtain w3 where w3: "e_set_offset E w2 (?off + ?d) = Some w3" "?t w2 \<le> ?t w3"
      using host(5) by blast
    define cells where "cells = (m_cells m)(vc_cell (m_clock m) := ?off + ?d)"
    define w where "w = snd (e_instant E (snd (e_instant E w3)))"
    have "\<exists>ff. jump E horizon dl m = (Next (), m\<lparr>m_os := w, m_cells := cells, m_ff := ff\<rparr>)"
      unfolding w_def
    proof (rule jump_taken [OF assms(2) _ _ _ _ refl _ _ w3(1) cells_def])
      show "e_rdtsc E (snd (e_instant E (m_os m))) = (?t w1, w2)" by (simp add: w1_def w2_def)
      show "?d = dl - ?v (?t w1)" by (simp add: now_def)
      show "?v (?t w1) < dl" using False by (simp add: now_def)
      show "?d \<le> max_jump_cycles (m_ff m)" using dd assms(4) by (simp add: word_le_nat_alt)
      show "unat ?d < 2 ^ 63" using dd assms(5) by linarith
      show "sint ?off + int (unat ?d) < 2 ^ 63" using dd assms(6) by linarith
    qed
    then obtain ff where j: "jump E horizon dl m = (Next (), m\<lparr>m_os := w, m_cells := cells, m_ff := ff\<rparr>)" by blast
    have later: "?t w1 \<le> ?t w"
      using host(3) [of w1] w3(2) host(4) [of w3] host(4) [of "snd (e_instant E w3)"] unfolding w_def w2_def by simp
    have "vtsc_from_host cells (m_clock m) (?t w) = dl + (?t w - ?t w1)"
      by (simp add: vtsc_from_host_eq cells_def tsc_offset_def now_def)
    moreover have "unat (?t w - ?t w1) = unat (?t w) - unat (?t w1)" by (rule unat_sub [OF later])
    moreover have "unat (?t w) - unat (?t w1) \<le> unat (hi - lo)"
      using span [of w] host(1) [of w1] by (simp add: word_le_nat_alt)
    moreover from this have "unat dl + (unat (?t w) - unat (?t w1)) < 2 ^ 64" using assms(3) mx by linarith
    ultimately have u: "unat (vtsc_from_host cells (m_clock m) (?t w)) = unat dl + (unat (?t w) - unat (?t w1))"
      "unat (?t w) - unat (?t w1) \<le> unat (hi - lo)"
      by (simp_all add: unat_word_ariths)
    show thesis
      by (rule that [OF j refl]) (use u mx in \<open>simp_all add: word_le_nat_alt\<close>)
  qed
qed

lemma fire_events_seq: "next_seq (snd (snd (fire_events l q fired now))) = next_seq q"
proof (induction l q fired now rule: fire_events.induct)
  case (1 l q fired now)
  have "eq_pop_due q now = (e, q') \<Longrightarrow> next_seq q' = next_seq q" for e q'
    by (auto simp: eq_pop_due_def heap_pop_def split: option.splits if_splits)
  then show ?case
    using "1.IH"(1) [OF sym refl _ _ _ sym] "1.IH"(2) [OF sym refl]
    by (auto simp: fire_events.simps [of l q] split: prod.splits option.splits TimerKind.splits)
qed

lemma service_timers_seq:
  assumes "unat (next_seq q) + 2 < 2 ^ 64"
  shows "unat (next_seq (snd (snd (service_timers l q horizon now)))) \<le> unat (next_seq q) + 2"
proof -
  have "unat (next_seq q + 1) = unat (next_seq q) + 1" "unat (next_seq q + 2) = unat (next_seq q) + 2"
    using assms by (simp_all add: unat_word_ariths)
  then show ?thesis
    by (auto simp: service_timers_def Let_def fire_events_seq eq_push_def eq_clear_def add.assoc split: option.splits)
qed

text \<open>The bounds under which the clock and the offset stay within 64 bits until the timer fires.\<close>

definition in_reach :: "u64 \<Rightarrow> u64 \<Rightarrow> u64 option \<Rightarrow> ('c, 'p, 'u, 'w) machine \<Rightarrow> u64 \<Rightarrow> bool" where
  "in_reach lo hi horizon m dl \<longleftrightarrow>
     (let v = vtsc_from_host (m_cells m) (m_clock m) lo;
          last = unat (max dl v) + unat (hi - lo);
          gap = unat dl - unat v
      in last + unat (timer_period (m_lapic m)) < 2 ^ 64
         \<and> (\<forall>hz. horizon = Some hz \<longrightarrow> last < unat hz)
         \<and> gap \<le> unat (max_jump_cycles (m_ff m)) \<and> gap < 2 ^ 63
         \<and> sint (tsc_offset (m_cells m) (m_clock m)) + int gap < 2 ^ 63)"

lemma early_round:
  assumes "asleep m dl" and "unat (next_seq (m_events m)) + 4 < 2 ^ 64" and "steady_host E lo hi"
    and reach: "in_reach lo hi horizon m dl"
    and early: "vtsc_from_host (m_cells m) (m_clock m) (fst (e_rdtsc E (m_os m))) < dl"
  obtains m' where "fast_forward_iter E horizon m = (Next (Some Deliverable), m')"
  | m' now where "fast_forward_iter E horizon m = (Next None, m')" "asleep m' dl" "room_for_two (m_events m')"
      "timer_period (m_lapic m') = timer_period (m_lapic m)"
      "now = vtsc_from_host (m_cells m') (m_clock m') (fst (e_rdtsc E (m_os m')))" "dl \<le> now"
      "unat now \<le> unat (max dl (vtsc_from_host (m_cells m) (m_clock m) lo)) + unat (hi - lo)"
proof -
  let ?v = "vtsc_from_host (m_cells m) (m_clock m)" and ?l = "m_lapic m"
  obtain h w where h: "e_rdtsc E (m_os m) = (h, w)" by fastforce
  have a: "\<not> stdin_open (m_parker m)" "m_egress m = None" "10 \<notin> set (cc_tx (m_com2 m))" "eq_invar (m_events m)"
    "timer_deadline ?l = Some dl"
    using assms(1) by (auto simp: asleep_def)
  have room: "room_for_two (m_events m)" using assms(2) by (simp add: room_for_two_def)
  have "unat dl \<le> unat (max dl (?v lo))" by (simp add: max_def word_le_nat_alt)
  then have hz: "\<forall>hz. horizon = Some hz \<longrightarrow> dl < hz"
    using reach by (auto simp: in_reach_def Let_def word_less_nat_alt)
  have "serviced ?l (?v h) = Some ?l" using a(5) early h by (auto simp: serviced_def)
  moreover have "\<not> (\<exists>z. horizon = Some z \<and> z \<le> ?v h)" using hz early h by auto
  ultimately obtain q where q: "service_timers ?l (m_events m) horizon (?v h) = (Next False, ?l, q)" "eq_invar q"
      "set (eq_pending q) = {x \<in> armed_entries ?l horizon. ?v h < fst x}"
    using service_timers_drain [OF a(4) room, of ?l "?v h" ?l horizon] by auto
  let ?m2 = "m\<lparr>m_os := w, m_lapic := ?l, m_events := q, m_com2 := snd (poll_line (m_com2 m)), m_driver := m_driver m\<rparr>"
  note b = quiet_boundary [OF a(2,3) h q(1)]
  have poll: "poll_console E m = (Next (), m)" using a(1) by (simp add: poll_console_def)
  show thesis
  proof (cases "deliverable_vector ?l")
    case (Some x)
    then show thesis using that(1) b poll by (simp add: fast_forward_iter_def)
  next
    case None
    have "(dl, LapicDeadline) \<in> set (eq_pending q)" using q(3) a(5) early h by (simp add: armed_entries_def)
    moreover have "\<forall>x \<in> set (eq_pending q). dl \<le> fst x" using q(3) a(5) hz by (auto simp: armed_entries_def)
    ultimately have peek: "eq_peek_deadline q = Some dl"
      using evq.peek_pending [OF q(2)] evq.pending_sorted [OF q(2)] by (cases "eq_pending q") force+
    let ?v2 = "vtsc_from_host (m_cells ?m2) (m_clock ?m2)" and ?off2 = "tsc_offset (m_cells ?m2) (m_clock ?m2)"
    have pre: "m_egress ?m2 = None" "unat (max dl (?v2 lo)) + unat (hi - lo) < 2 ^ 64"
      "unat dl - unat (?v2 lo) \<le> unat (max_jump_cycles (m_ff ?m2))" "unat dl - unat (?v2 lo) < 2 ^ 63"
      "sint ?off2 + int (unat dl - unat (?v2 lo)) < 2 ^ 63"
      using reach a(2) by (simp_all add: in_reach_def Let_def)
    obtain w' cells ff now where j: "jump E horizon dl ?m2 = (Next (), ?m2\<lparr>m_os := w', m_cells := cells, m_ff := ff\<rparr>)"
      and now: "now = vtsc_from_host cells (m_clock ?m2) (fst (e_rdtsc E w'))" "dl \<le> now"
        "unat now \<le> unat (max dl (?v2 lo)) + unat (hi - lo)"
      by (rule jump_wakes [OF assms(3) pre])
    let ?m3 = "?m2\<lparr>m_os := w', m_cells := cells, m_ff := ff\<rparr>"
    have "fast_forward_iter E horizon m = (Next None, ?m3)"
      unfolding fast_forward_iter_def poll bind_flow.simps b using None j peek a(2) by (simp add: must_gate_def)
    moreover have "asleep ?m3 dl"
      using assms(1) q(2) poll_line_partial [OF a(3)] by (simp add: asleep_def)
    moreover have "room_for_two q"
      using service_timers_seq [of "m_events m" ?l horizon "?v h"] assms(2) q(1) by (simp add: room_for_two_def)
    ultimately show thesis using that(2) [of ?m3 now] now by simp
  qed
qed

lemma park_wakes:
  assumes "asleep m dl" and "unat (next_seq (m_events m)) + 4 < 2 ^ 64" and "steady_host E lo hi" and "in_reach lo hi horizon m dl"
  shows "\<exists>m'. park_until_deliverable E True horizon m = Some (Next Deliverable, m')"
proof -
  let ?v = "vtsc_from_host (m_cells m) (m_clock m)"
  let ?last = "unat (max dl (?v lo)) + unat (hi - lo)"
  let ?iter = "fast_forward_iter E horizon"
  have reach: "?last + unat (timer_period (m_lapic m)) < 2 ^ 64" "\<forall>hz. horizon = Some hz \<longrightarrow> ?last < unat hz"
    using assms(4) by (simp_all add: in_reach_def Let_def)
  have due: "\<exists>m'. ?iter n = (Next (Some Deliverable), m')"
    if "asleep n dl" "room_for_two (m_events n)" "timer_period (m_lapic n) = timer_period (m_lapic m)" "dl \<le> now"
      "now = vtsc_from_host (m_cells n) (m_clock n) (fst (e_rdtsc E (m_os n)))" "unat now \<le> ?last" for n now
    by (rule wake_round [OF that(1,2,5,4)])
       (use reach that(3,6) in \<open>auto simp: word_less_nat_alt\<close>)
  have room: "room_for_two (m_events m)" using assms(2) by (simp add: room_for_two_def)
  let ?now = "?v (fst (e_rdtsc E (m_os m)))"
  have bound: "unat ?now \<le> ?last"
  proof -
    have h: "lo \<le> fst (e_rdtsc E (m_os m))" "fst (e_rdtsc E (m_os m)) \<le> hi"
      using assms(3) unfolding steady_host_def Let_def by blast+
    have "unat (?v lo) \<le> unat (max dl (?v lo))" by (simp add: max_def word_le_nat_alt)
    moreover from this have "unat (?v lo) + unat (hi - lo) < 2 ^ 64" using reach(1) by linarith
    moreover have "unat (fst (e_rdtsc E (m_os m))) - unat lo \<le> unat (hi - lo)"
      using h by (simp add: word_le_nat_alt unat_sub)
    ultimately show ?thesis using unat_vtsc [OF h, of "m_cells m" "m_clock m"] by linarith
  qed
  have loop: "park_until_deliverable E True horizon m = park_loop ?iter m"
    by (simp add: park_until_deliverable_def fast_forward_until_deliverable_def)
  show ?thesis
  proof (cases "dl \<le> ?now")
    case True
    then obtain m' where "?iter m = (Next (Some Deliverable), m')"
      using due [OF assms(1) room refl _ refl bound] by blast
    then show ?thesis unfolding loop park_loop.simps [of ?iter m] by simp
  next
    case False
    then have "?now < dl" by simp
    from early_round [OF assms this] show ?thesis
    proof cases
      case (1 m')
      then show ?thesis unfolding loop park_loop.simps [of ?iter m] by simp
    next
      case (2 m1 now)
      then obtain m' where "?iter m1 = (Next (Some Deliverable), m')" using due [OF 2(2-4,6,5,7)] by blast
      then show ?thesis
        unfolding loop park_loop.simps [of ?iter m] using 2(1) by (simp add: park_loop.simps [of ?iter m1])
    qed
  qed
qed

lemma fast_forward_iter_mono:
  assumes "fast_forward_iter E horizon m = (r, m')"
  shows "sint (tsc_offset (m_cells m) (m_clock m)) \<le> sint (tsc_offset (m_cells m') (m_clock m'))"
proof (cases "tsc_offset (m_cells m') (m_clock m') = tsc_offset (m_cells m) (m_clock m)")
  case False
  obtain m1 m2 nxt where c: "console_changed m m1" and b: "park_boundary E horizon m1 = (Next None, m2)"
    and j: "jumped horizon nxt (jump_sample E horizon m) m2 m'" and "m_clock m' = m_clock m"
    by (rule fast_forward_iter_moved [OF assms False])
  then show ?thesis
    using park_boundary_outcome [OF b] by (auto simp: jumped_def console_changed_def)
qed simp

lemma park_outcome:
  assumes "park_until_deliverable E ff horizon m = Some (r, m')"
  shows "(\<forall>out. r = Next out \<longrightarrow> outcome_holds E horizon out m')
    \<and> sint (tsc_offset (m_cells m) (m_clock m)) \<le> sint (tsc_offset (m_cells m') (m_clock m'))
    \<and> (\<not> ff \<longrightarrow> tsc_offset (m_cells m') (m_clock m') = tsc_offset (m_cells m) (m_clock m))"
proof (cases ff)
  case True
  let ?I = "\<lambda>n. sint (tsc_offset (m_cells m) (m_clock m)) \<le> sint (tsc_offset (m_cells n) (m_clock n))"
  have "?I m' \<and> (\<forall>out. r = Next out \<longrightarrow> outcome_holds E horizon out m')"
  proof (rule park_loop_result)
    show "park_loop (fast_forward_iter E horizon) m = Some (r, m')"
      using assms True by (simp add: park_until_deliverable_def fast_forward_until_deliverable_def)
    fix n n' q assume "fast_forward_iter E horizon n = (q, n')" "?I n"
    then show "?I n' \<and> (\<forall>out. q = Next (Some out) \<longrightarrow> outcome_holds E horizon out n')"
      using fast_forward_iter_mono fast_forward_iter_outcome by (meson order_trans)
  qed simp
  then show ?thesis using True by simp
next
  case False
  let ?I = "\<lambda>n. m_cells n = m_cells m \<and> m_clock n = m_clock m"
  have "?I m' \<and> (\<forall>out. r = Next out \<longrightarrow> outcome_holds E horizon out m')"
  proof (rule park_loop_result)
    show "park_loop (real_wait_iter E horizon) m = Some (r, m')"
      using assms False by (simp add: park_until_deliverable_def real_wait_until_deliverable_def)
    fix n n' q assume "real_wait_iter E horizon n = (q, n')" "?I n"
    then show "?I n' \<and> (\<forall>out. q = Next (Some out) \<longrightarrow> outcome_holds E horizon out n')"
      using real_wait_iter_outcome [of E horizon n q n'] by simp
  qed simp
  then show ?thesis by simp
qed

section \<open>Properties\<close>

text \<open>An idle guest: the timer is due at 5000, the host's counter reads 1000 and later 1500.\<close>

definition idle_lapic :: Lapic where
  "idle_lapic = sample_lapic\<lparr>irr := vb_default, timer_deadline := Some 5000\<rparr>"

definition sample_machine :: "(unit, unit, bytes \<times> bool, bool) machine" where
  "sample_machine =
     \<lparr>m_lapic = idle_lapic, m_ioapic = ioapic_new 0, m_events = eq_new, m_serial = ([], False),
      m_parker = \<lparr>timer_fd = 5, stdin_fd = 0, stdin_open = False\<rparr>, m_clock = lapic_clock sample_lapic, m_cells = (\<lambda>_. 0),
      m_com2 = control_new ([], False), m_egress = None, m_driver = driver_default, m_ff = ff_new 1000000000 100000 0,
      m_os = False\<rparr>"

definition sample_env :: "(unit, unit, unit, bytes \<times> bool, unit, bool) env" where
  "sample_env =
     \<lparr>e_conn = \<lparr>start_resolve = (\<lambda>c _ _ _. c), take_resolved = (\<lambda>c. ([], c)), start_connect = (\<lambda>c _ _. (False, c)),
        poll_connect = (\<lambda>c _. (Pending, c)), conn_read = (\<lambda>c _ _. (IoOk None, [], c)), conn_write = (\<lambda>c _ _. (IoOk None, c)),
        shutdown_write = (\<lambda>c _. c), conn_close = (\<lambda>c _. c), stream_fd = (\<lambda>_ _. None), resolver_fd = (\<lambda>_. None),
        os_epoll_ctl = (\<lambda>p _ _ _. (True, p))\<rparr>,
      e_uart = sample_uart, e_json = (\<lambda>_. None),
      e_park = \<lparr>os_poll = (\<lambda>w fds. (Ready [], w)), os_ppoll = (\<lambda>w fds. (Ready [], w)),
        os_timerfd_settime = (\<lambda>w _. w), os_timerfd_read = (\<lambda>w. w)\<rparr>,
      e_rdtsc = (\<lambda>w. (if w then 1500 else 1000, True)), e_instant = (\<lambda>w. (0, w)), e_read_stdin = (\<lambda>w. ((0, []), w)),
      e_set_offset = (\<lambda>w off. Some w), e_epoll_fd = (\<lambda>_. 9), e_rate_high = (\<lambda>_ _. False)\<rparr>"

lemma sample_asleep: "asleep sample_machine 5000"
proof -
  have ok: "vb_ok vb_default" and mt: "vb_members vb_default = {}"
    using sample_lapic_facts(1,3) by (simp_all add: lapic_invar_def sample_lapic_def)
  have "lapic_invar idle_lapic"
    using ok sample_lapic_facts(1) by (simp add: lapic_invar_def idle_lapic_def timer_mode_def)
  then show ?thesis
    using mt evq.invar_new
    by (simp add: asleep_def sample_machine_def idle_lapic_def control_new_def timer_masked_def timer_vector_def lapic_enabled_def
        sample_lapic_def prio_def const_defs)
qed

lemma sample_steady: "steady_host sample_env 1000 1500"
  by (simp add: steady_host_def sample_env_def)

lemma sample_reach: "in_reach 1000 1500 (Some 9000) sample_machine 5000"
  by (simp add: in_reach_def Let_def sample_machine_def vtsc_from_host_eq tsc_offset_def idle_lapic_def sample_lapic_def ff_new_def)

lemma sample_wakes: "\<exists>m'. park_until_deliverable sample_env True (Some 9000) sample_machine = Some (Next Deliverable, m')"
  by (rule park_wakes [OF sample_asleep _ sample_steady sample_reach]) (simp add: sample_machine_def eq_new_def)




text \<open>
  C12. A halted guest is woken. With fast-forward on, when the guest sleeps on an armed, unmasked
  and unblocked timer, with no console, no egress and no complete agent line, and the host's
  counter is steady and all values stay in reach, the park returns, and it returns that an
  interrupt is deliverable.
\<close>

theorem ff_wakes:
  assumes "asleep m dl" and "unat (next_seq (m_events m)) + 4 < 2 ^ 64" and "steady_host E lo hi" and "in_reach lo hi horizon m dl"
  shows "\<exists>m'. park_until_deliverable E True horizon m = Some (Next Deliverable, m')"
  by (rule park_wakes [OF assms])

theorem ff_wakes_witness:
  "\<exists>m'. park_until_deliverable sample_env True (Some 9000) sample_machine = Some (Next Deliverable, m')"
  by (rule ff_wakes [OF sample_asleep _ sample_steady sample_reach]) (simp add: sample_machine_def eq_new_def)

text \<open>
  C13. The park's outcomes mean what they say. In either mode, whenever the park returns an outcome:
  a deliverable outcome comes with a deliverable vector, the horizon outcome with a reading of the
  clock at or past the horizon, and the finish outcome with a recorded verdict. The offset of the
  clock never decreases, and with fast-forward off it never changes.
\<close>

theorem park_outcome_sound:
  assumes "park_until_deliverable E ff horizon m = Some (r, m')"
  shows "(\<forall>out. r = Next out \<longrightarrow> outcome_holds E horizon out m')
    \<and> sint (tsc_offset (m_cells m) (m_clock m)) \<le> sint (tsc_offset (m_cells m') (m_clock m'))
    \<and> (\<not> ff \<longrightarrow> tsc_offset (m_cells m') (m_clock m') = tsc_offset (m_cells m) (m_clock m))"
  by (rule park_outcome [OF assms])

theorem park_outcome_sound_witness:
  "\<exists>m'. park_until_deliverable sample_env True (Some 9000) sample_machine = Some (Next Deliverable, m')
     \<and> deliverable_vector (m_lapic m') \<noteq> None"
proof -
  obtain m' where m': "park_until_deliverable sample_env True (Some 9000) sample_machine = Some (Next Deliverable, m')"
    using sample_wakes by blast
  then show ?thesis using park_outcome_sound [OF m'] by (auto simp: outcome_holds_def)
qed

text \<open>
  C14. Servicing the timers ends, and fires exactly what is due. The event queue afterwards holds
  exactly the armed entries that lie in the future; the horizon is reported exactly when it has
  been reached; the timer's vector becomes pending exactly when its deadline has been reached and
  it is not masked; and the timer is left unarmed or armed for a later time.
\<close>

theorem service_timers_exact:
  assumes "lapic_invar l" and "eq_invar q" and "room_for_two q"
    and "\<forall>dl. timer_deadline l = Some dl \<and> dl \<le> now \<longrightarrow> unat now + unat (timer_period l) < 2 ^ 64"
  shows "\<exists>l' q'. service_timers l q horizon now = (Next (\<exists>h. horizon = Some h \<and> h \<le> now), l', q')
    \<and> eq_invar q' \<and> set (eq_pending q') = {x \<in> armed_entries l horizon. now < fst x}
    \<and> in_service l' = in_service l
    \<and> pending l' = (if (\<exists>dl. timer_deadline l = Some dl \<and> dl \<le> now) \<and> \<not> timer_masked l
        then insert (timer_vector l) (pending l) else pending l)
    \<and> (\<forall>dl. timer_deadline l' = Some dl \<longrightarrow> now < dl)"
  using serviced_Some [OF assms(1,4)] service_timers_drain [OF assms(2,3)] by blast

theorem service_timers_exact_witness:
  "\<exists>l' q'. service_timers sample_lapic eq_new (Some 3000) 2000 = (Next False, l', q')
     \<and> set (eq_pending q') = {(3000, StopRun)} \<and> pending l' = {0xec, 0x31}"
proof -
  have d: "timer_deadline sample_lapic = Some 1000" "\<not> timer_masked sample_lapic" "timer_vector sample_lapic = 0xec"
    by (simp_all add: sample_lapic_def timer_masked_def timer_vector_def const_defs)
  have "room_for_two (eq_new :: TimerKind EventQueue)" "unat (2000 :: u64) + unat (timer_period sample_lapic) < 2 ^ 64"
    by (simp_all add: room_for_two_def eq_new_def sample_lapic_def)
  moreover have "{x \<in> armed_entries sample_lapic (Some 3000). 2000 < fst x} = {(3000, StopRun)}"
    using d by (auto simp: armed_entries_def)
  ultimately show ?thesis
    using service_timers_exact [OF sample_lapic_facts(1) evq.invar_new, of 2000 "Some 3000"] d sample_lapic_facts(2) by simp blast
qed

end
