(* ===== verification/Conscan.thy ===== *)
theory Conscan
  imports Control Text
begin

text \<open>
  \<open>src/src/conscan.rs\<close>: the scanner that cuts the teed console into lines and distributes them to
  one log file per service, and the file-name rule of \<open>src/src/main.rs\<close> that it relies on.

  The file system is the parameter \<open>'w log_fs\<close>: opening a path for appending (created and
  truncated) and \<open>write_all\<close>, each of which may fail. The printed seconds are a parameter, since
  they come from a floating-point division. Warnings are left out.
\<close>

section \<open>File names\<close>

definition is_ascii_alphanumeric :: "u8 \<Rightarrow> bool" where
  "is_ascii_alphanumeric b \<longleftrightarrow> 0x30 \<le> b \<and> b \<le> 0x39 \<or> 0x41 \<le> b \<and> b \<le> 0x5a \<or> 0x61 \<le> b \<and> b \<le> 0x7a"

definition is_safe_path_component :: "bytes \<Rightarrow> bool" where
  "is_safe_path_component s \<longleftrightarrow>
     s \<noteq> [] \<and> s \<noteq> ascii ''.'' \<and> s \<noteq> ascii ''..''
     \<and> list_all (\<lambda>b. is_ascii_alphanumeric b \<or> b \<in> set (ascii ''._-'')) s"

definition sanitize_service_filename :: "bytes \<Rightarrow> bytes option" where
  "sanitize_service_filename name = (if is_safe_path_component name then Some name else None)"

section \<open>Strings\<close>

text \<open>The split at the last dash.\<close>

definition rsplit_dash :: "bytes \<Rightarrow> (bytes \<times> bytes) option" where
  "rsplit_dash s =
     (let num = rev (takeWhile (\<lambda>b. b \<noteq> 0x2d) (rev s))
      in if length num = length s then None else Some (take (length s - length num - 1) s, num))"

section \<open>The scanner\<close>

definition PARTIAL_CAP :: nat where [const_defs]: "PARTIAL_CAP = 64 * 1024"

definition RESIDUE :: bytes where [const_defs]: "RESIDUE = ascii ''console''"

text \<open>The tee is shared with the console writer and passed along; a handle is the path it was opened with.\<close>

record ConsoleScan =
  partial :: bytes
  logs_dir :: bytes
  project_prefix :: bytes
  services :: "bytes list"
  files :: "bytes \<rightharpoonup> bytes option"
  residue :: bytes
  t0 :: u64
  scan_hz :: u64

record 'w log_fs =
  open_append :: "'w \<Rightarrow> bytes \<Rightarrow> bool \<times> 'w"
  write_all :: "'w \<Rightarrow> bytes \<Rightarrow> bytes \<Rightarrow> bool \<times> 'w"
  fmt_secs :: "u64 \<Rightarrow> u64 \<Rightarrow> bytes"

definition scan_new :: "bytes \<Rightarrow> bytes \<Rightarrow> bytes list \<Rightarrow> u64 \<Rightarrow> TscFrequency \<Rightarrow> ConsoleScan" where
  "scan_new dir project svcs start freq =
     \<lparr>partial = [], logs_dir = dir, project_prefix = project @ ascii ''-'', services = svcs, files = Map.empty,
      residue = (if RESIDUE \<in> set svcs then ascii ''_'' @ RESIDUE else RESIDUE), t0 = start, scan_hz = hz freq\<rparr>"

definition bracket_prefix :: "bytes \<Rightarrow> bytes option" where
  "bracket_prefix line =
     (if line = [] \<or> hd line \<noteq> 0x5b then None
      else if 0x5d \<in> set line then Some (drop 1 (takeWhile (\<lambda>b. b \<noteq> 0x5d) line)) else None)"

definition service_of :: "ConsoleScan \<Rightarrow> bytes \<Rightarrow> bytes option" where
  "service_of sc name =
     (if \<not> is_utf8 name then None
      else
        let found = (case strip_prefix (project_prefix sc) name of
              None \<Rightarrow> None
            | Some rest \<Rightarrow>
                (case rsplit_dash rest of
                   None \<Rightarrow> None
                 | Some (svc, num) \<Rightarrow>
                     if num \<noteq> [] \<and> list_all (\<lambda>b. 0x30 \<le> b \<and> b \<le> 0x39) num
                     then find (\<lambda>s. s = svc) (services sc) else None))
        in case found of Some s \<Rightarrow> Some s | None \<Rightarrow> find (\<lambda>s. s = name) (services sc))"

definition route :: "ConsoleScan \<Rightarrow> bytes \<Rightarrow> bytes \<times> bytes" where
  "route sc line =
     (case bracket_prefix line of
        None \<Rightarrow> (residue sc, line)
      | Some name \<Rightarrow>
          (case service_of sc name of
             None \<Rightarrow> (residue sc, line)
           | Some service \<Rightarrow>
               let rest = drop (length name + 2) line
               in (service, case strip_prefix [0x20] rest of Some r \<Rightarrow> r | None \<Rightarrow> rest)))"

definition log_path :: "bytes \<Rightarrow> bytes \<Rightarrow> bytes" where
  "log_path dir fname = dir @ ascii ''/'' @ fname @ ascii ''.log''"

definition scan_open_file :: "'w log_fs \<Rightarrow> ConsoleScan \<Rightarrow> bytes \<Rightarrow> 'w \<Rightarrow> bytes option \<times> 'w" where
  "scan_open_file F sc stem w =
     (case sanitize_service_filename stem of
        None \<Rightarrow> (None, w)
      | Some fname \<Rightarrow>
          let path = log_path (logs_dir sc) fname; (ok, w) = open_append F w path
          in (if ok then Some path else None, w))"

definition append_log :: "'w log_fs \<Rightarrow> ConsoleScan \<Rightarrow> bytes \<Rightarrow> bytes \<Rightarrow> 'w \<Rightarrow> ConsoleScan \<times> 'w" where
  "append_log F sc stem bs w =
     (let (sc, w) = (if files sc stem = None then
              (let (opened, w) = scan_open_file F sc stem w in (sc\<lparr>files := (files sc)(stem \<mapsto> opened)\<rparr>, w))
            else (sc, w))
      in case files sc stem of
           Some (Some path) \<Rightarrow>
             (let (ok, w) = write_all F w path bs
              in (if ok then sc else sc\<lparr>files := (files sc)(stem \<mapsto> None)\<rparr>, w))
         | _ \<Rightarrow> (sc, w))"

definition log_entry :: "'w log_fs \<Rightarrow> ConsoleScan \<Rightarrow> bytes \<Rightarrow> u64 \<Rightarrow> bytes" where
  "log_entry F sc message now = fmt_secs F (now - t0 sc) (scan_hz sc) @ ascii '' '' @ message @ [10]"

definition write_line :: "'w log_fs \<Rightarrow> ConsoleScan \<Rightarrow> bytes \<Rightarrow> u64 \<Rightarrow> 'w \<Rightarrow> ConsoleScan \<times> 'w" where
  "write_line F sc line now w =
     (let (stem, message) = route sc line in append_log F sc stem (log_entry F sc message now) w)"

lemma append_log_partial: "partial (fst (append_log F sc stem bs w)) = partial sc"
  by (auto simp: append_log_def Let_def split: prod.splits option.splits if_splits)

lemma write_line_partial [simp]: "partial (fst (write_line F sc line now w)) = partial sc"
  by (simp add: write_line_def append_log_partial split_beta)

function emit_complete_lines :: "'w log_fs \<Rightarrow> ConsoleScan \<Rightarrow> u64 \<Rightarrow> 'w \<Rightarrow> ConsoleScan \<times> 'w" where
  "emit_complete_lines F sc now w =
     (if 10 \<in> set (partial sc) then
        let line = takeWhile (\<lambda>b. b \<noteq> 10) (partial sc);
            (sc, w) = write_line F (sc\<lparr>partial := drop (length line + 1) (partial sc)\<rparr>) (strip_cr line) now w
        in emit_complete_lines F sc now w
      else if length (partial sc) > PARTIAL_CAP then
        write_line F (sc\<lparr>partial := []\<rparr>) (partial sc) now w
      else (sc, w))"
  by pat_completeness auto
termination
proof (relation "measure (\<lambda>(F, sc, now, w). length (partial sc))", simp, goal_cases)
  case (1 F sc now w line x sc' w')
  have "fst x = sc'" using 1(4) by (metis fst_conv)
  then have "partial sc' = drop (length line + 1) (partial sc)" using 1(3) by auto
  moreover have "partial sc \<noteq> []" using 1(1) by auto
  ultimately show ?case by simp
qed

declare emit_complete_lines.simps [simp del]

definition scan_drain :: "'w log_fs \<Rightarrow> ConsoleScan \<Rightarrow> bytes \<Rightarrow> u64 \<Rightarrow> 'w \<Rightarrow> bytes \<times> ConsoleScan \<times> 'w" where
  "scan_drain F sc tee now w =
     (if tee = [] then (tee, sc, w)
      else let (sc, w) = emit_complete_lines F (sc\<lparr>partial := partial sc @ tee\<rparr>) now w in ([], sc, w))"

definition scan_finish :: "'w log_fs \<Rightarrow> ConsoleScan \<Rightarrow> bytes \<Rightarrow> u64 \<Rightarrow> 'w \<Rightarrow> bytes \<times> ConsoleScan \<times> 'w" where
  "scan_finish F sc tee now w =
     (let (tee, sc, w) = scan_drain F sc tee now w in
      if partial sc \<noteq> [] then
        let (sc, w) = write_line F (sc\<lparr>partial := []\<rparr>) (partial sc) now w in (tee, sc, w)
      else (tee, sc, w))"

section \<open>Lines of a stream\<close>

text \<open>The complete lines of a stream, and the fragment after the last newline.\<close>

fun split_lines :: "bytes \<Rightarrow> bytes list \<times> bytes" where
  "split_lines [] = ([], [])"
| "split_lines (b # bs) =
     (case split_lines bs of (ls, frag) \<Rightarrow>
        if b = 10 then ([] # ls, frag)
        else case ls of [] \<Rightarrow> ([], b # frag) | l # ls \<Rightarrow> ((b # l) # ls, frag))"

lemma split_lines_none: "10 \<notin> set bs \<Longrightarrow> split_lines bs = ([], bs)"
  by (induction bs) auto

lemma split_lines_frag: "10 \<notin> set (snd (split_lines bs))"
  by (induction bs) (auto split: prod.splits list.splits)

lemma split_lines_first:
  assumes "10 \<in> set bs"
  shows "split_lines bs =
    (let line = takeWhile (\<lambda>b. b \<noteq> 10) bs; (ls, frag) = split_lines (drop (length line + 1) bs) in (line # ls, frag))"
  using assms by (induction bs) (auto simp: Let_def split: prod.splits)

lemma split_lines_append:
  "split_lines (xs @ ys) =
    (let (ls, frag) = split_lines xs; (ls', frag') = split_lines (frag @ ys) in (ls @ ls', frag'))"
proof (induction xs)
  case (Cons x xs)
  obtain ls frag where s: "split_lines xs = (ls, frag)" by fastforce
  obtain ls2 frag2 where s2: "split_lines (frag @ ys) = (ls2, frag2)" by fastforce
  show ?case using Cons s s2 by (cases ls; cases ls2) (auto simp: split_lines.simps)
qed (auto split: prod.splits)

text \<open>The chunks found in the tee at each drain, and the lines they complete with their time.\<close>

fun scan_run :: "'w log_fs \<Rightarrow> ConsoleScan \<Rightarrow> (bytes \<times> u64) list \<Rightarrow> 'w \<Rightarrow> ConsoleScan \<times> 'w" where
  "scan_run F sc [] w = (sc, w)"
| "scan_run F sc ((tee, now) # xs) w = (let (_, sc, w) = scan_drain F sc tee now w in scan_run F sc xs w)"

fun stamped :: "bytes \<Rightarrow> (bytes \<times> u64) list \<Rightarrow> (bytes \<times> u64) list" where
  "stamped frag [] = []"
| "stamped frag ((tee, now) # xs) =
     (let (ls, frag) = split_lines (frag @ tee) in map (\<lambda>l. (strip_cr l, now)) ls @ stamped frag xs)"

lemma stamped_lines:
  "10 \<notin> set frag \<Longrightarrow> map fst (stamped frag xs) = map strip_cr (fst (split_lines (frag @ concat (map fst xs))))"
proof (induction xs arbitrary: frag)
  case Nil
  then show ?case by (simp add: split_lines_none)
next
  case (Cons x xs)
  obtain tee now where x: "x = (tee, now)" by fastforce
  obtain ls frag' where s: "split_lines (frag @ tee) = (ls, frag')" by fastforce
  have "10 \<notin> set frag'" using split_lines_frag [of "frag @ tee"] s by simp
  then show ?case
    using Cons.IH s x split_lines_append [of "frag @ tee" "concat (map fst xs)"]
    by (simp add: comp_def split: prod.splits)
qed

section \<open>Log files\<close>

text \<open>What a healthy disk promises: opening empties the file, writing appends to it, others are left alone.\<close>

definition log_disk :: "'w log_fs \<Rightarrow> ('w \<Rightarrow> bytes \<Rightarrow> bytes) \<Rightarrow> bool" where
  "log_disk F content \<longleftrightarrow>
     (\<forall>w path. fst (open_append F w path) \<and> content (snd (open_append F w path)) = (content w)(path := []))
   \<and> (\<forall>w path bs. fst (write_all F w path bs)
        \<and> content (snd (write_all F w path bs)) = (content w)(path := content w path @ bs))"

text \<open>The entries of a list of stamped lines that go to one file.\<close>

definition entries_for :: "'w log_fs \<Rightarrow> ConsoleScan \<Rightarrow> bytes \<Rightarrow> (bytes \<times> u64) list \<Rightarrow> bytes list" where
  "entries_for F sc stem es =
     map (\<lambda>(line, now). log_entry F sc (snd (route sc line)) now) (filter (\<lambda>(line, now). fst (route sc line) = stem) es)"

definition logged :: "'w log_fs \<Rightarrow> ('w \<Rightarrow> bytes \<Rightarrow> bytes) \<Rightarrow> (bytes \<times> u64) list \<Rightarrow> ConsoleScan \<Rightarrow> 'w \<Rightarrow> bool" where
  "logged F content es sc w \<longleftrightarrow>
     (\<forall>stem. files sc stem =
        (if entries_for F sc stem es = [] then None
         else Some (if is_safe_path_component stem then Some (log_path (logs_dir sc) stem) else None)))
   \<and> (\<forall>stem. is_safe_path_component stem \<and> entries_for F sc stem es \<noteq> [] \<longrightarrow>
        content w (log_path (logs_dir sc) stem) = concat (entries_for F sc stem es))"

lemma scan_fields [simp]:
  "route (sc\<lparr>partial := p\<rparr>) = route sc" "route (sc\<lparr>files := f\<rparr>) = route sc"
  "log_entry F (sc\<lparr>partial := p\<rparr>) = log_entry F sc" "log_entry F (sc\<lparr>files := f\<rparr>) = log_entry F sc"
  "entries_for F (sc\<lparr>partial := p\<rparr>) = entries_for F sc" "entries_for F (sc\<lparr>files := f\<rparr>) = entries_for F sc"
  "logged F content es (sc\<lparr>partial := p\<rparr>) w = logged F content es sc w"
proof -
  have s: "service_of (sc\<lparr>partial := p\<rparr>) = service_of sc" "service_of (sc\<lparr>files := f\<rparr>) = service_of sc"
    by (intro ext, simp add: service_of_def cong: option.case_cong split: option.split prod.split)+
  show r: "route (sc\<lparr>partial := p\<rparr>) = route sc" "route (sc\<lparr>files := f\<rparr>) = route sc"
    by (intro ext, simp add: route_def s cong: option.case_cong)+
  show l: "log_entry F (sc\<lparr>partial := p\<rparr>) = log_entry F sc" "log_entry F (sc\<lparr>files := f\<rparr>) = log_entry F sc"
    by (intro ext, simp add: log_entry_def)+
  show e: "entries_for F (sc\<lparr>partial := p\<rparr>) = entries_for F sc" "entries_for F (sc\<lparr>files := f\<rparr>) = entries_for F sc"
    by (intro ext, simp add: entries_for_def r l)+
  show "logged F content es (sc\<lparr>partial := p\<rparr>) w = logged F content es sc w"
    by (simp add: logged_def e)
qed

lemma entries_for_snoc:
  "entries_for F sc stem (es @ [(line, now)]) =
     entries_for F sc stem es @ (if fst (route sc line) = stem then [log_entry F sc (snd (route sc line)) now] else [])"
  by (simp add: entries_for_def)

lemma log_path_inj: "log_path dir a = log_path dir b \<longleftrightarrow> a = b"
  by (simp add: log_path_def)

lemma write_line_logged:
  assumes "log_disk F content" and "logged F content es sc w" and "write_line F sc line now w = (sc', w')"
  shows "logged F content (es @ [(line, now)]) sc' w' \<and> sc' = sc\<lparr>files := files sc'\<rparr>"
proof -
  obtain stem msg where r: "route sc line = (stem, msg)" by fastforce
  let ?entry = "log_entry F sc msg now" and ?path = "log_path (logs_dir sc) stem"
  obtain wo where wo: "open_append F w ?path = (True, wo)" "content wo = (content w)(?path := [])"
    using assms(1) unfolding log_disk_def by (metis (full_types) prod.collapse)
  have st: "files sc s = (if entries_for F sc s es = [] then None
      else Some (if is_safe_path_component s then Some (log_path (logs_dir sc) s) else None))" for s
    using assms(2) by (simp add: logged_def)
  have ct: "content w (log_path (logs_dir sc) s) = concat (entries_for F sc s es)"
    if "is_safe_path_component s" "entries_for F sc s es \<noteq> []" for s
    using assms(2) that by (simp add: logged_def)
  define w1 where "w1 = (if entries_for F sc stem es = [] then wo else w)"
  have w1: "content w1 = (content w)(?path := concat (entries_for F sc stem es))" if "is_safe_path_component stem"
    using that ct [of stem] wo(2) by (auto simp: w1_def)
  obtain w2 where w2: "write_all F w1 ?path ?entry = (True, w2)" "content w2 = (content w1)(?path := content w1 ?path @ ?entry)"
    using assms(1) unfolding log_disk_def by (metis (full_types) prod.collapse)
  have res: "(sc', w') =
    (if is_safe_path_component stem then (sc\<lparr>files := (files sc)(stem \<mapsto> Some ?path)\<rparr>, w2)
     else (sc\<lparr>files := (files sc)(stem \<mapsto> None)\<rparr>, w))"
    using assms(3) st [of stem] wo(1) w2(1)
    by (cases "entries_for F sc stem es = []"; cases "is_safe_path_component stem")
       (simp_all add: write_line_def r append_log_def scan_open_file_def sanitize_service_filename_def Let_def w1_def fun_upd_idem)
  then have keep: "sc' = sc\<lparr>files := files sc'\<rparr>" "files sc' = (files sc)(stem \<mapsto> (if is_safe_path_component stem then Some ?path else None))"
    by (auto split: if_splits)
  have same: "entries_for F sc' = entries_for F sc" "logs_dir sc' = logs_dir sc"
    by (subst keep(1), simp)+
  have "files sc' s = (if entries_for F sc s (es @ [(line, now)]) = [] then None
      else Some (if is_safe_path_component s then Some (log_path (logs_dir sc) s) else None))" for s
    using st [of s] keep(2) by (simp add: entries_for_snoc r)
  moreover have "content w' (log_path (logs_dir sc) s) = concat (entries_for F sc s (es @ [(line, now)]))"
    if s: "is_safe_path_component s" "entries_for F sc s (es @ [(line, now)]) \<noteq> []" for s
  proof (cases "is_safe_path_component stem")
    case True
    then have w': "content w' = (content w)(?path := concat (entries_for F sc stem es) @ ?entry)"
      using res w1 w2(2) by simp
    show ?thesis using s ct [of s] w' by (auto simp: entries_for_snoc r log_path_inj)
  next
    case False
    then show ?thesis using s ct [of s] res by (auto simp: entries_for_snoc r split: if_splits)
  qed
  ultimately show ?thesis using keep(1) by (simp add: logged_def same)
qed

lemma emit_logged:
  "log_disk F content \<Longrightarrow> logged F content es sc w \<Longrightarrow> split_lines (partial sc) = (ls, frag)
    \<Longrightarrow> length frag \<le> PARTIAL_CAP \<Longrightarrow> emit_complete_lines F sc now w = (sc', w')
    \<Longrightarrow> logged F content (es @ map (\<lambda>l. (strip_cr l, now)) ls) sc' w' \<and> sc' = sc\<lparr>partial := frag, files := files sc'\<rparr>"
proof (induction F sc now w arbitrary: es ls rule: emit_complete_lines.induct)
  case (1 F sc now w)
  note disk = 1(2) and lg = 1(3) and split = 1(4) and cap = 1(5) and emit = 1(6)
  show ?case
  proof (cases "10 \<in> set (partial sc)")
    case False
    then have s: "ls = []" "frag = partial sc" using split split_lines_none by auto
    then have "(sc', w') = (sc, w)" using emit cap False by (simp add: emit_complete_lines.simps [of F sc])
    then show ?thesis using s lg by simp
  next
    case True
    let ?line = "takeWhile (\<lambda>b. b \<noteq> 10) (partial sc)"
    let ?sc = "sc\<lparr>partial := drop (length ?line + 1) (partial sc)\<rparr>"
    obtain sc1 w1 where wl: "write_line F ?sc (strip_cr ?line) now w = (sc1, w1)" by fastforce
    obtain ls' where ls: "ls = ?line # ls'" "split_lines (partial ?sc) = (ls', frag)"
      using split_lines_first [OF True] split by (auto simp: Let_def split: prod.splits)
    have w: "logged F content (es @ [(strip_cr ?line, now)]) sc1 w1" "sc1 = ?sc\<lparr>files := files sc1\<rparr>"
      using write_line_logged [OF disk _ wl] lg by auto
    have p: "partial sc1 = partial ?sc" by (subst w(2)) simp
    have rest: "emit_complete_lines F sc1 now w1 = (sc', w')"
      using emit True wl by (simp add: emit_complete_lines.simps [of F sc])
    have "logged F content ((es @ [(strip_cr ?line, now)]) @ map (\<lambda>l. (strip_cr l, now)) ls') sc' w'
        \<and> sc' = sc1\<lparr>partial := frag, files := files sc'\<rparr>"
      by (rule 1(1) [OF True refl _ _ disk w(1) _ cap rest]) (use wl ls(2) p in auto)
    then have "logged F content (es @ map (\<lambda>l. (strip_cr l, now)) ls) sc' w'"
      "sc' = ?sc\<lparr>files := files sc1\<rparr>\<lparr>partial := frag, files := files sc'\<rparr>"
      using ls(1) w(2) by simp_all
    then show ?thesis by simp
  qed
qed

lemma scan_run_logged:
  assumes "log_disk F content"
  shows "logged F content es sc w \<Longrightarrow> 10 \<notin> set (partial sc)
    \<Longrightarrow> (\<forall>k \<le> length xs. length (snd (split_lines (partial sc @ concat (map fst (take k xs))))) \<le> PARTIAL_CAP)
    \<Longrightarrow> scan_run F sc xs w = (sc', w')
    \<Longrightarrow> logged F content (es @ stamped (partial sc) xs) sc' w'
      \<and> sc' = sc\<lparr>partial := snd (split_lines (partial sc @ concat (map fst xs))), files := files sc'\<rparr>"
proof (induction xs arbitrary: es sc w)
  case Nil
  then show ?case by (simp add: split_lines_none)
next
  case (Cons x xs)
  obtain tee now where x: "x = (tee, now)" by fastforce
  obtain ls frag where s: "split_lines (partial sc @ tee) = (ls, frag)" by fastforce
  have nl: "10 \<notin> set frag" using split_lines_frag [of "partial sc @ tee"] s by simp
  obtain tee1 sc1 w1 where d: "scan_drain F sc tee now w = (tee1, sc1, w1)" by (metis prod_cases3)
  have cap: "length frag \<le> PARTIAL_CAP" using Cons.prems(3) [rule_format, of 1] s x by simp
  have one: "logged F content (es @ map (\<lambda>l. (strip_cr l, now)) ls) sc1 w1 \<and> sc1 = sc\<lparr>partial := frag, files := files sc1\<rparr>"
  proof (cases "tee = []")
    case True
    then show ?thesis using d s Cons.prems(1,2) by (simp add: scan_drain_def split_lines_none)
  next
    case False
    then have e: "emit_complete_lines F (sc\<lparr>partial := partial sc @ tee\<rparr>) now w = (sc1, w1)"
      using d by (simp add: scan_drain_def split: prod.splits)
    show ?thesis using emit_logged [OF assms _ _ cap e, of es ls] Cons.prems(1) s by simp
  qed
  have p: "partial sc1 = frag" by (subst conjunct2 [OF one]) simp
  have tail: "split_lines (partial sc @ tee @ ys) = (ls @ fst (split_lines (frag @ ys)), snd (split_lines (frag @ ys)))" for ys
    using split_lines_append [of "partial sc @ tee" ys] s by (simp add: split_beta)
  have caps: "\<forall>k \<le> length xs. length (snd (split_lines (partial sc1 @ concat (map fst (take k xs))))) \<le> PARTIAL_CAP"
  proof (intro allI impI)
    fix k assume "k \<le> length xs"
    then show "length (snd (split_lines (partial sc1 @ concat (map fst (take k xs))))) \<le> PARTIAL_CAP"
      using Cons.prems(3) [rule_format, of "Suc k"] x p by (simp add: tail)
  qed
  have "scan_run F sc1 xs w1 = (sc', w')" using Cons.prems(4) d x by simp
  from Cons.IH [OF conjunct1 [OF one] _ caps this] have
    l: "logged F content ((es @ map (\<lambda>l. (strip_cr l, now)) ls) @ stamped frag xs) sc' w'"
    and e: "sc' = sc1\<lparr>partial := snd (split_lines (frag @ concat (map fst xs))), files := files sc'\<rparr>"
    using nl p by auto
  have "sc1 = sc\<lparr>partial := frag, files := files sc1\<rparr>" using one by blast
  then have "sc' = sc\<lparr>partial := frag, files := files sc1\<rparr>\<lparr>partial := snd (split_lines (frag @ concat (map fst xs))), files := files sc'\<rparr>"
    using e by simp
  then show ?case using l x s tail by simp
qed

section \<open>Properties\<close>

text \<open>
  C7. The console is split into log files without loss. However the guest's console bytes are cut
  into drains, and as long as no unfinished line exceeds the cap at a drain, the stamped lines are exactly the
  complete lines of the whole stream in order, the rest is kept for later, and on a healthy disk
  each opened file holds exactly the entries of its service, in order. Only file names that are one
  safe path component are ever opened, each directly in the logs directory.
\<close>

theorem console_demux:
  assumes "log_disk F content" and "sc = scan_new dir project svcs start freq" and "scan_run F sc xs w = (sc', w')"
    and "\<forall>k \<le> length xs. length (snd (split_lines (concat (map fst (take k xs))))) \<le> PARTIAL_CAP"
  shows "map fst (stamped [] xs) = map strip_cr (fst (split_lines (concat (map fst xs))))
    \<and> partial sc' = snd (split_lines (concat (map fst xs)))
    \<and> (\<forall>stem. is_safe_path_component stem \<and> entries_for F sc stem (stamped [] xs) \<noteq> [] \<longrightarrow>
         content w' (log_path dir stem) = concat (entries_for F sc stem (stamped [] xs)))
    \<and> (\<forall>stem path. files sc' stem = Some (Some path) \<longrightarrow> is_safe_path_component stem \<and> path = log_path dir stem)"
proof -
  have new: "partial sc = []" "logs_dir sc = dir" "files sc = Map.empty" using assms(2) by (simp_all add: scan_new_def)
  have "logged F content [] sc w" using new by (simp add: logged_def entries_for_def)
  then have l: "logged F content (stamped [] xs) sc' w'"
    and e: "sc' = sc\<lparr>partial := snd (split_lines (concat (map fst xs))), files := files sc'\<rparr>"
    using scan_run_logged [OF assms(1), of "[]" sc w xs sc' w'] assms(3,4) new by simp_all
  have same: "partial sc' = snd (split_lines (concat (map fst xs)))" "logs_dir sc' = dir" "entries_for F sc' = entries_for F sc"
    by (subst e, simp add: new)+
  show ?thesis
    using l stamped_lines [of "[]" xs] by (auto simp: logged_def same split: if_splits)
qed

definition sample_fs :: "(bytes \<Rightarrow> bytes) log_fs" where
  "sample_fs = \<lparr>open_append = (\<lambda>w p. (True, w(p := []))), write_all = (\<lambda>w p bs. (True, w(p := w p @ bs))), fmt_secs = (\<lambda>d f. [0x30])\<rparr>"

theorem console_demux_witness:
  "let sc = scan_new (ascii ''d'') (ascii ''p'') [ascii ''db''] 0 \<lparr>freq_hz = 1\<rparr>;
       (sc', w') = scan_run sample_fs sc [(ascii ''[p-db-1] up'' @ [13, 10] @ ascii ''[d'', 5), (ascii ''b] x'' @ [10], 9)] (\<lambda>_. [1])
   in w' (log_path (ascii ''d'') (ascii ''db'')) = ascii ''0 up'' @ [10] @ ascii ''0 x'' @ [10] \<and> partial sc' = []"
proof -
  let ?sc = "scan_new (ascii ''d'') (ascii ''p'') [ascii ''db''] 0 \<lparr>freq_hz = 1\<rparr>"
  let ?xs = "[(ascii ''[p-db-1] up'' @ [13, 10] @ ascii ''[d'', 5), (ascii ''b] x'' @ [10], 9)]"
  obtain sc' w' where r: "scan_run sample_fs ?sc ?xs (\<lambda>_. [1]) = (sc', w')" by fastforce
  have disk: "log_disk sample_fs (\<lambda>w. w)" by (simp add: log_disk_def sample_fs_def)
  have cap: "\<forall>k \<le> length ?xs. length (snd (split_lines (concat (map fst (take k ?xs))))) \<le> PARTIAL_CAP"
  proof (intro allI impI)
    fix k assume "k \<le> length ?xs"
    then have "k = 0 \<or> k = 1 \<or> k = 2" by auto
    moreover have "snd (split_lines (concat (map fst (take 0 ?xs)))) = []"
      "snd (split_lines (concat (map fst (take 1 ?xs)))) = ascii ''[d''"
      "snd (split_lines (concat (map fst (take 2 ?xs)))) = []"
      by code_simp+
    ultimately show "length (snd (split_lines (concat (map fst (take k ?xs))))) \<le> PARTIAL_CAP"
      by (elim disjE) (simp_all only: list.size, simp_all add: ascii_def const_defs)
  qed
  have e: "entries_for sample_fs ?sc (ascii ''db'') (stamped [] ?xs) = [ascii ''0 up'' @ [10], ascii ''0 x'' @ [10]]"
    by code_simp
  have t: "snd (split_lines (concat (map fst ?xs))) = []" "is_safe_path_component (ascii ''db'')"
    by code_simp+
  show ?thesis using console_demux [OF disk refl r cap] e t r by simp
qed

end
