(* ===== verification/RunLoop.thy ===== *)
theory RunLoop
  imports Idle Conscan Pit Pic
begin

text \<open>
  The vCPU loop of \<open>src/src/main.rs\<close> (\<open>run_user_backend\<close>): at each boundary it services the timers, pumps the
  serial channels, folds in the agent's lines, drains the console scanner and decides on an
  injection; then it arms the doorbell, enters the guest and dispatches the exit to the device
  that owns the port or the address, parks, or stops.

  KVM is the parameter \<open>'w kvm\<close>: entering the guest, queueing an interrupt, the standard output
  and the file system of the logs. \<open>k_stdout\<close> is the result of the write to the standard output that was
  not interrupted by a signal. The page shared with KVM is the record \<open>KvmRun\<close>, and \<open>vm_data\<close>
  is the data area in which an exit leaves its answer. The host counter is sampled once per device
  access and per arming of the doorbell, whether or not that access reads it. Log lines, the
  periodic report and the wedge watchdog of \<open>diag.rs\<close>, which only observe, are left out.
\<close>

section \<open>State and parameters\<close>

datatype VcpuExit =
    IoOut u16 bytes
  | IoIn u16 bytes
  | MmioRead u64 bytes
  | MmioWrite u64 bytes
  | IrqWindowOpen
  | Hlt
  | Shutdown
  | SystemEvent u32
  | FailEntry u64 u32
  | InternalError
  | OtherExit

datatype run_result = Ran VcpuExit | RunErrno int

definition EINTR :: int where [const_defs]: "EINTR = 4"

definition EAGAIN :: int where [const_defs]: "EAGAIN = 11"

record KvmRun =
  ready_for_interrupt_injection :: u8
  if_flag :: u8
  kr_cr8 :: u64
  request_interrupt_window :: u8

record ('c, 'p, 'u, 'w) vm =
  vm_m :: "('c, 'p, 'u, 'w) machine"
  vm_pic :: PicStub
  vm_pit :: PitStub
  vm_doorbell :: Doorbell
  vm_bell :: doorbell_cells
  vm_run :: KvmRun
  vm_console :: ConsoleOut
  vm_scan :: "ConsoleScan option"
  vm_data :: bytes
  hlt_count :: u64

record 'w kvm =
  k_run :: "KvmRun \<Rightarrow> doorbell_cells \<Rightarrow> 'w \<Rightarrow> run_result \<times> KvmRun \<times> doorbell_cells \<times> 'w"
  k_interrupt :: "'w \<Rightarrow> u8 \<Rightarrow> bool \<times> 'w"
  k_stdout :: "'w \<Rightarrow> bytes \<Rightarrow> int \<times> 'w"
  k_logs :: "'w log_fs"
  k_fs_write :: "'w \<Rightarrow> bytes \<Rightarrow> bytes \<Rightarrow> 'w"

text \<open>A sample of the host counter.\<close>

definition sample_host :: "('c, 'a, 'p, 'u, 'j, 'w) env \<Rightarrow> ('c, 'p, 'u, 'w) machine \<Rightarrow> host \<times> ('c, 'p, 'u, 'w) machine" where
  "sample_host E m =
     (let (h, w) = e_rdtsc E (m_os m) in (\<lparr>host_cells = m_cells m, host_rdtsc = h\<rparr>, m\<lparr>m_os := w\<rparr>))"

section \<open>The boundary\<close>

text \<open>The console scanner shares the tee of the console writer.\<close>

definition drain_scan ::
  "('c, 'a, 'p, 'u, 'j, 'w) env \<Rightarrow> 'w kvm \<Rightarrow> ('c, 'p, 'u, 'w) vm \<Rightarrow> ('c, 'p, 'u, 'w) vm" where
  "drain_scan E K v =
     (case (vm_scan v, co_tee (vm_console v)) of
        (Some sc, Some tee) \<Rightarrow>
          let (now, m) = read_clock E (vm_m v);
              (tee, sc, w) = scan_drain (k_logs K) sc tee now (m_os m)
          in v\<lparr>vm_m := m\<lparr>m_os := w\<rparr>, vm_scan := Some sc, vm_console := (vm_console v)\<lparr>co_tee := Some tee\<rparr>\<rparr>
      | _ \<Rightarrow> v)"

text \<open>Steps (1) to (1c): timers, channels, agent lines, console scanner.\<close>

definition pump_egress ::
  "('c, 'a, 'p, 'u, 'j, 'w) env \<Rightarrow> ('c, 'p, 'u, 'w) machine \<Rightarrow> unit flow \<times> ('c, 'p, 'u, 'w) machine" where
  "pump_egress E m =
     (case m_egress m of
        None \<Rightarrow> (Next (), m)
      | Some eg \<Rightarrow>
          (case channel_pump (e_conn E) (e_uart E) eg (m_lapic m) (m_ioapic m) of
             (Inl e, eg, l) \<Rightarrow> (Fails (EgressFailed e), m\<lparr>m_egress := Some eg, m_lapic := l\<rparr>)
           | (Inr _, eg, l) \<Rightarrow> (Next (), m\<lparr>m_egress := Some eg, m_lapic := l\<rparr>)))"

definition run_boundary ::
  "('c, 'a, 'p, 'u, 'j, 'w) env \<Rightarrow> u64 option \<Rightarrow> ('c, 'p, 'u, 'w) machine
     \<Rightarrow> StopReason option flow \<times> ('c, 'p, 'u, 'w) machine" where
  "run_boundary E horizon m =
     (let (now, m) = read_clock E m;
          (fired, l, q) = service_timers (m_lapic m) (m_events m) horizon now
      in bind_flow (fired, m\<lparr>m_lapic := l, m_events := q\<rparr>) (\<lambda>fired m.
         if fired then (Next (Some Horizon), m)
         else
           let (c, l) = control_pump (e_uart E) (m_com2 m) (m_lapic m) (m_ioapic m)
           in bind_flow (pump_egress E (m\<lparr>m_com2 := c, m_lapic := l\<rparr>)) (\<lambda>_ m.
                let (finished, c, d) = drain_agent (e_json E) (m_com2 m) (m_driver m);
                    m = m\<lparr>m_com2 := c, m_driver := d\<rparr>
                in (Next (if finished then Some DriverFinish else None), m))))"

text \<open>Steps (2) and (3): the task priority, the injection, and what KVM is asked for.\<close>

definition inject_step ::
  "'w kvm \<Rightarrow> ('c, 'p, 'u, 'w) vm \<Rightarrow> unit flow \<times> ('c, 'p, 'u, 'w) vm" where
  "inject_step K v =
     (let m = vm_m v; r = vm_run v;
          l = sync_tpr_from_cr8 (m_lapic m) (kr_cr8 r);
          deliverable = deliverable_vector l;
          ask = (\<lambda>injected l. r\<lparr>request_interrupt_window := (if deliverable \<noteq> None \<and> \<not> injected then 1 else 0),
                                kr_cr8 := ucast (drop_bit 4 (tpr l))\<rparr>)
      in case deliverable of
           Some vec \<Rightarrow>
             if ready_for_interrupt_injection r \<noteq> 0 \<and> if_flag r \<noteq> 0 then
               (case k_interrupt K (m_os m) vec of
                  (False, w) \<Rightarrow> (Fails (KvmFailed ''KVM_INTERRUPT''), v\<lparr>vm_m := m\<lparr>m_lapic := l, m_os := w\<rparr>\<rparr>)
                | (True, w) \<Rightarrow>
                    let l = ack_injected l vec
                    in (Next (), v\<lparr>vm_m := m\<lparr>m_lapic := l, m_os := w\<rparr>, vm_run := ask True l\<rparr>))
             else (Next (), v\<lparr>vm_m := m\<lparr>m_lapic := l\<rparr>, vm_run := ask False l\<rparr>)
         | None \<Rightarrow> (Next (), v\<lparr>vm_m := m\<lparr>m_lapic := l\<rparr>, vm_run := ask False l\<rparr>))"

text \<open>Step (4): the doorbell, and the guest.\<close>

definition arm_doorbell ::
  "('c, 'a, 'p, 'u, 'j, 'w) env \<Rightarrow> ('c, 'p, 'u, 'w) vm \<Rightarrow> ('c, 'p, 'u, 'w) vm" where
  "arm_doorbell E v =
     (let (env, m) = sample_host E (vm_m v);
          (d, e) = doorbell_arm env (m_clock m) (vm_doorbell v) (vm_bell v)
            (min_deadline (eq_peek_deadline (m_events m)) (timer_deadline (m_lapic m)))
      in v\<lparr>vm_m := m, vm_doorbell := d, vm_bell := e\<rparr>)"

definition enter_guest :: "'w kvm \<Rightarrow> ('c, 'p, 'u, 'w) vm \<Rightarrow> run_result \<times> ('c, 'p, 'u, 'w) vm" where
  "enter_guest K v =
     (let (res, r, e, w) = k_run K (vm_run v) (vm_bell v) (m_os (vm_m v))
      in (res, v\<lparr>vm_run := r, vm_bell := e, vm_m := (vm_m v)\<lparr>m_os := w\<rparr>\<rparr>))"

section \<open>Port and memory accesses\<close>

text \<open>An access of several bytes is one device access per byte.\<close>

fun each_read :: "('s \<Rightarrow> u8 \<times> 's) \<Rightarrow> nat \<Rightarrow> 's \<Rightarrow> bytes \<times> 's" where
  "each_read f 0 s = ([], s)"
| "each_read f (Suc n) s = (let (b, s) = f s; (bs, s) = each_read f n s in (b # bs, s))"

text \<open>The console port: what the UART emits goes to the console writer; errors are ignored.\<close>

definition com1_write ::
  "('c, 'a, 'p, 'u, 'j, 'w) env \<Rightarrow> 'w kvm \<Rightarrow> u16 \<Rightarrow> u8 \<Rightarrow> ('c, 'p, 'u, 'w) vm \<Rightarrow> ('c, 'p, 'u, 'w) vm" where
  "com1_write E K port b v =
     (let m = vm_m v; (out, u) = uart_write (e_uart E) (m_serial m) (ucast (port - SERIAL_PORT_BASE)) b
      in if out = [] then v\<lparr>vm_m := m\<lparr>m_serial := u\<rparr>\<rparr>
         else
           let (n, w) = k_stdout K (m_os m) out; (_, _, co) = console_write (vm_console v) out n
           in v\<lparr>vm_m := m\<lparr>m_serial := u, m_os := w\<rparr>, vm_console := co\<rparr>)"

definition com1_read ::
  "('c, 'a, 'p, 'u, 'j, 'w) env \<Rightarrow> u16 \<Rightarrow> ('c, 'p, 'u, 'w) machine \<Rightarrow> u8 \<times> ('c, 'p, 'u, 'w) machine" where
  "com1_read E port m =
     (let (b, u) = uart_read (e_uart E) (m_serial m) (ucast (port - SERIAL_PORT_BASE)) in (b, m\<lparr>m_serial := u\<rparr>))"

definition com2_write ::
  "('c, 'a, 'p, 'u, 'j, 'w) env \<Rightarrow> u16 \<Rightarrow> u8 \<Rightarrow> ('c, 'p, 'u, 'w) machine \<Rightarrow> ('c, 'p, 'u, 'w) machine" where
  "com2_write E port b m =
     (let (c, l) = control_pio_write (e_uart E) (m_com2 m) port b (m_lapic m) (m_ioapic m)
      in m\<lparr>m_com2 := c, m_lapic := l\<rparr>)"

definition com2_read ::
  "('c, 'a, 'p, 'u, 'j, 'w) env \<Rightarrow> u16 \<Rightarrow> ('c, 'p, 'u, 'w) machine \<Rightarrow> u8 \<times> ('c, 'p, 'u, 'w) machine" where
  "com2_read E port m =
     (let (b, c, l) = control_pio_read (e_uart E) (m_com2 m) port (m_lapic m) (m_ioapic m)
      in (b, m\<lparr>m_com2 := c, m_lapic := l\<rparr>))"

definition com4_write ::
  "('c, 'a, 'p, 'u, 'j, 'w) env \<Rightarrow> u16 \<Rightarrow> u8 \<Rightarrow> ('c, 'p, 'u, 'w) machine \<Rightarrow> ('c, 'p, 'u, 'w) machine" where
  "com4_write E port b m =
     (case m_egress m of
        None \<Rightarrow> m
      | Some eg \<Rightarrow>
          let (eg, l) = channel_pio_write (e_uart E) eg port b (m_lapic m) (m_ioapic m)
          in m\<lparr>m_egress := Some eg, m_lapic := l\<rparr>)"

definition com4_read ::
  "('c, 'a, 'p, 'u, 'j, 'w) env \<Rightarrow> u16 \<Rightarrow> ('c, 'p, 'u, 'w) machine \<Rightarrow> u8 \<times> ('c, 'p, 'u, 'w) machine" where
  "com4_read E port m =
     (case m_egress m of
        None \<Rightarrow> (0xff, m)
      | Some eg \<Rightarrow>
          let (b, eg, l) = channel_pio_read (e_uart E) eg port (m_lapic m) (m_ioapic m)
          in (b, m\<lparr>m_egress := Some eg, m_lapic := l\<rparr>))"

definition pit_out ::
  "('c, 'a, 'p, 'u, 'j, 'w) env \<Rightarrow> u16 \<Rightarrow> u8 \<Rightarrow> ('c, 'p, 'u, 'w) vm \<Rightarrow> ('c, 'p, 'u, 'w) vm" where
  "pit_out E port b v =
     (let (env, m) = sample_host E (vm_m v) in v\<lparr>vm_m := m, vm_pit := pit_write env (vm_pit v) port b\<rparr>)"

definition pit_in ::
  "('c, 'a, 'p, 'u, 'j, 'w) env \<Rightarrow> u16 \<Rightarrow> ('c, 'p, 'u, 'w) vm \<Rightarrow> u8 \<times> ('c, 'p, 'u, 'w) vm" where
  "pit_in E port v =
     (let (env, m) = sample_host E (vm_m v); (p, b) = pit_read env (vm_pit v) port
      in (b, v\<lparr>vm_m := m, vm_pit := p\<rparr>))"

definition on_machine :: "(('c, 'p, 'u, 'w) machine \<Rightarrow> ('c, 'p, 'u, 'w) machine) \<Rightarrow> ('c, 'p, 'u, 'w) vm \<Rightarrow> ('c, 'p, 'u, 'w) vm" where
  "on_machine f v = v\<lparr>vm_m := f (vm_m v)\<rparr>"

text \<open>
  The two port dispatchers. The flag says whether the caller has an arm for the egress port: the
  main loop has one, the log capture has none.
\<close>

definition pio_out ::
  "bool \<Rightarrow> ('c, 'a, 'p, 'u, 'j, 'w) env \<Rightarrow> 'w kvm \<Rightarrow> u16 \<Rightarrow> bytes \<Rightarrow> ('c, 'p, 'u, 'w) vm \<Rightarrow> ('c, 'p, 'u, 'w) vm" where
  "pio_out com4 E K port data v =
     (if is_serial port then on_machine (serial_irq E) (fold (com1_write E K port) data v)
      else if control_handles port then on_machine (fold (com2_write E port) data) v
      else if com4 \<and> m_egress (vm_m v) \<noteq> None \<and> channel_handles port then on_machine (fold (com4_write E port) data) v
      else if pit_handles port then fold (pit_out E port) data v
      else if pic_handles port then v\<lparr>vm_pic := fold (\<lambda>b p. pic_write p port b) data (vm_pic v)\<rparr>
      else v)"

definition pio_in ::
  "bool \<Rightarrow> ('c, 'a, 'p, 'u, 'j, 'w) env \<Rightarrow> u16 \<Rightarrow> nat \<Rightarrow> ('c, 'p, 'u, 'w) vm \<Rightarrow> bytes \<times> ('c, 'p, 'u, 'w) vm" where
  "pio_in com4 E port n v =
     (if is_serial port then
        (let (bs, m) = each_read (com1_read E port) n (vm_m v) in (bs, v\<lparr>vm_m := serial_irq E m\<rparr>))
      else if control_handles port then
        (let (bs, m) = each_read (com2_read E port) n (vm_m v) in (bs, v\<lparr>vm_m := m\<rparr>))
      else if com4 \<and> m_egress (vm_m v) \<noteq> None \<and> channel_handles port then
        (let (bs, m) = each_read (com4_read E port) n (vm_m v) in (bs, v\<lparr>vm_m := m\<rparr>))
      else if pit_handles port then each_read (pit_in E port) n v
      else if pic_handles port then (replicate n (pic_read (vm_pic v) port), v)
      else (replicate n 0xff, v))"

definition mmio_read_exit ::
  "('c, 'a, 'p, 'u, 'j, 'w) env \<Rightarrow> u64 \<Rightarrow> ('c, 'p, 'u, 'w) machine \<Rightarrow> u32 \<times> ('c, 'p, 'u, 'w) machine" where
  "mmio_read_exit E addr m =
     (if in_lapic addr then
        (let (env, m) = sample_host E m in (lapic_mmio_read env (m_lapic m) (ucast (addr - XAPIC_BASE)), m))
      else if ioapic_handles addr then (ioapic_mmio_read (m_ioapic m) addr, m)
      else (0, m))"

definition mmio_write_exit ::
  "('c, 'a, 'p, 'u, 'j, 'w) env \<Rightarrow> u64 \<Rightarrow> u32 \<Rightarrow> ('c, 'p, 'u, 'w) machine \<Rightarrow> ('c, 'p, 'u, 'w) machine" where
  "mmio_write_exit E addr val m =
     (if in_lapic addr then
        (let (env, m) = sample_host E m
         in m\<lparr>m_lapic := lapic_mmio_write env (m_lapic m) (ucast (addr - XAPIC_BASE)) val\<rparr>)
      else if ioapic_handles addr then m\<lparr>m_ioapic := ioapic_mmio_write (m_ioapic m) addr val\<rparr>
      else m)"

text \<open>The device exits, common to the main loop and the log capture.\<close>

definition device_exit ::
  "bool \<Rightarrow> ('c, 'a, 'p, 'u, 'j, 'w) env \<Rightarrow> 'w kvm \<Rightarrow> VcpuExit \<Rightarrow> ('c, 'p, 'u, 'w) vm \<Rightarrow> ('c, 'p, 'u, 'w) vm" where
  "device_exit com4 E K exit v =
     (case exit of
        IoOut port data \<Rightarrow> pio_out com4 E K port data v
      | IoIn port data \<Rightarrow> let (bs, v) = pio_in com4 E port (length data) v in v\<lparr>vm_data := bs\<rparr>
      | MmioRead addr data \<Rightarrow>
          let (val, m) = mmio_read_exit E addr (vm_m v) in v\<lparr>vm_m := m, vm_data := write_u32_le data val\<rparr>
      | MmioWrite addr data \<Rightarrow> on_machine (mmio_write_exit E addr (read_u32_le data)) v
      | _ \<Rightarrow> v)"

section \<open>The loop\<close>

text \<open>
  A halted guest: a halt with interrupts disabled is the end, any other parks. The result is
  \<open>None\<close> if the park never returns.
\<close>

definition halt_exit ::
  "('c, 'a, 'p, 'u, 'j, 'w) env \<Rightarrow> 'w kvm \<Rightarrow> bool \<Rightarrow> u64 option \<Rightarrow> ('c, 'p, 'u, 'w) vm
     \<Rightarrow> (StopReason option flow \<times> ('c, 'p, 'u, 'w) vm) option" where
  "halt_exit E K ff horizon v =
     (let v = drain_scan E K v in
      if if_flag (vm_run v) = 0 then Some (Next (Some GuestHalt), v)
      else
        let v = v\<lparr>hlt_count := hlt_count v + 1\<rparr> in
        map_option (\<lambda>(r, m). bind_flow (r, v\<lparr>vm_m := m\<rparr>) (\<lambda>outcome v.
            (Next (case outcome of ParkHorizon \<Rightarrow> Some Horizon | ParkDriverFinish \<Rightarrow> Some DriverFinish | Deliverable \<Rightarrow> None), v)))
          (park_until_deliverable E ff horizon (vm_m v)))"

definition handle_exit ::
  "('c, 'a, 'p, 'u, 'j, 'w) env \<Rightarrow> 'w kvm \<Rightarrow> bool \<Rightarrow> u64 option \<Rightarrow> VcpuExit \<Rightarrow> ('c, 'p, 'u, 'w) vm
     \<Rightarrow> (StopReason option flow \<times> ('c, 'p, 'u, 'w) vm) option" where
  "handle_exit E K ff horizon exit v =
     (case exit of
        Hlt \<Rightarrow> halt_exit E K ff horizon v
      | Shutdown \<Rightarrow> Some (Next (Some GuestShutdown), v)
      | SystemEvent _ \<Rightarrow> Some (Next (Some GuestSystemEvent), v)
      | FailEntry _ _ \<Rightarrow> Some (Fails (KvmFailed ''KVM_EXIT_FAIL_ENTRY''), v)
      | InternalError \<Rightarrow> Some (Fails (KvmFailed ''KVM_EXIT_INTERNAL_ERROR''), v)
      | _ \<Rightarrow> Some (Next None, device_exit True E K exit v))"

text \<open>Steps (1) to (4) up to the entry: \<open>None\<close> means that the guest is entered.\<close>

definition before_entry ::
  "('c, 'a, 'p, 'u, 'j, 'w) env \<Rightarrow> 'w kvm \<Rightarrow> u64 option \<Rightarrow> ('c, 'p, 'u, 'w) vm
     \<Rightarrow> StopReason option flow \<times> ('c, 'p, 'u, 'w) vm" where
  "before_entry E K horizon v =
     (let v = v\<lparr>vm_bell := doorbell_clear (vm_doorbell v) (vm_bell v)\<rparr>;
          (r, m) = run_boundary E horizon (vm_m v)
      in bind_flow (r, v\<lparr>vm_m := m\<rparr>) (\<lambda>stop v.
         if stop \<noteq> None then (Next stop, v)
         else bind_flow (inject_step K (drain_scan E K v)) (\<lambda>_ v. (Next None, arm_doorbell E v))))"

definition run_iter ::
  "('c, 'a, 'p, 'u, 'j, 'w) env \<Rightarrow> 'w kvm \<Rightarrow> bool \<Rightarrow> u64 option \<Rightarrow> ('c, 'p, 'u, 'w) vm
     \<Rightarrow> (StopReason option flow \<times> ('c, 'p, 'u, 'w) vm) option" where
  "run_iter E K ff horizon v =
     (case before_entry E K horizon v of
        (Next None, v) \<Rightarrow>
          (case enter_guest K v of
             (Ran exit, v) \<Rightarrow> handle_exit E K ff horizon exit v
           | (RunErrno e, v) \<Rightarrow>
               Some (if e = EINTR \<or> e = EAGAIN then Next None else Fails (KvmFailed ''KVM_RUN''), v))
      | (r, v) \<Rightarrow> Some (r, v))"

partial_function (option) run_loop ::
  "('v \<Rightarrow> ('s option flow \<times> 'v) option) \<Rightarrow> 'v \<Rightarrow> ('s flow \<times> 'v) option" where
  "run_loop iter v =
     (case iter v of
        None \<Rightarrow> None
      | Some (Next None, v) \<Rightarrow> run_loop iter v
      | Some (Next (Some s), v) \<Rightarrow> Some (Next s, v)
      | Some (Fails e, v) \<Rightarrow> Some (Fails e, v)
      | Some (Panics, v) \<Rightarrow> Some (Panics, v)
      | Some (Stuck, v) \<Rightarrow> Some (Stuck, v))"

end
