(* ===== verification/Capture.thy ===== *)
theory Capture
  imports RunLoop
begin

text \<open>
  The log capture of \<open>src/src/main.rs\<close> after a run (\<open>capture_logs\<close>, \<open>drive_until_reply\<close>,
  \<open>format_k8s_logs\<close>) and the end of \<open>run_user_backend\<close>: the guest is driven on until the agent
  answers each request for a piece of a service's log, within a budget of real and virtual time.

  The virtual budget is the argument \<open>horizon\<close>, since its length comes from a floating-point
  product. Log lines and the texts of the run's metrics are left out.
\<close>

section \<open>Formatting\<close>

text \<open>\<open>str::lines\<close> and \<open>str::splitn\<close>.\<close>

definition str_lines :: "bytes \<Rightarrow> bytes list" where
  "str_lines s = (let (ls, frag) = split_lines s in map strip_cr ls @ (if frag \<noteq> [] then [frag] else []))"

fun splitn :: "nat \<Rightarrow> 'a \<Rightarrow> 'a list \<Rightarrow> 'a list list" where
  "splitn 0 sep xs = []"
| "splitn (Suc 0) sep xs = [xs]"
| "splitn (Suc (Suc n)) sep xs =
     (if sep \<in> set xs then
        let a = takeWhile (\<lambda>x. x \<noteq> sep) xs in a # splitn (Suc n) sep (drop (length a + 1) xs)
      else [xs])"

definition nth_or_empty :: "bytes list \<Rightarrow> nat \<Rightarrow> bytes" where
  "nth_or_empty xs i = (if i < length xs then xs ! i else [])"

definition format_k8s_line :: "bytes \<Rightarrow> bytes" where
  "format_k8s_line line =
     (let it = splitn 4 0x20 line;
          ts = nth_or_empty it 0; stream = nth_or_empty it 1; pf = nth_or_empty it 2; msg = nth_or_empty it 3
      in if (stream = ascii ''stdout'' \<or> stream = ascii ''stderr'') \<and> (pf = ascii ''F'' \<or> pf = ascii ''P'')
         then ts @ [0x20] @ stream @ [0x20] @ msg @ [10]
         else line @ [10])"

definition format_k8s_logs :: "bytes \<Rightarrow> bytes" where
  "format_k8s_logs raw = concat (map format_k8s_line (filter (\<lambda>l. l \<noteq> []) (str_lines raw)))"

section \<open>One request\<close>

function drop_lines :: "'u ControlChannel \<Rightarrow> 'u ControlChannel" where
  "drop_lines c = (case poll_line c of (None, c) \<Rightarrow> c | (Some _, c) \<Rightarrow> drop_lines c)"
  by pat_completeness auto
termination
  by (relation "measure (\<lambda>c. length (cc_tx c))") (auto dest: poll_line_shorter [OF sym])

declare drop_lines.simps [simp del]

lemma control_pump_tx [simp]: "cc_tx (fst (control_pump U c l io)) = cc_tx c"
  by (simp add: control_pump_def control_after_uart_io_def Let_def split_beta)

text \<open>The search for the reply with the wanted id; every line read makes room for more input.\<close>

function find_reply ::
  "(bytes \<Rightarrow> 'j Reply option) \<Rightarrow> 'u Uart \<Rightarrow> u64 \<Rightarrow> Ioapic \<Rightarrow> 'u ControlChannel \<Rightarrow> Lapic
     \<Rightarrow> 'j Reply option \<times> 'u ControlChannel \<times> Lapic" where
  "find_reply J U want io c l =
     (case poll_line c of
        (None, c') \<Rightarrow> (None, c', l)
      | (Some line, c') \<Rightarrow>
          (case decode_line J line of
             Some rep \<Rightarrow>
               if rep_id rep = Some want then (Some rep, c', l)
               else find_reply J U want io (fst (control_pump U c' l io)) (snd (control_pump U c' l io))
           | None \<Rightarrow> find_reply J U want io (fst (control_pump U c' l io)) (snd (control_pump U c' l io))))"
  by pat_completeness auto
termination
  by (relation "measure (\<lambda>(J, U, want, io, c, l). length (cc_tx c))") (auto simp: split_beta dest: poll_line_shorter [OF sym])

declare find_reply.simps [simp del]

text \<open>
  An answer is \<open>Inr\<close> with the reply, \<open>Inr None\<close> when a budget ran out, and \<open>Inl\<close> when the guest or the
  vCPU is gone.
\<close>

type_synonym 'j answer = "unit + 'j Reply option"

definition capture_park ::
  "('c, 'a, 'p, 'u, 'j, 'w) env \<Rightarrow> bool \<Rightarrow> u64 \<Rightarrow> ('c, 'p, 'u, 'w) vm
     \<Rightarrow> ('j answer option flow \<times> ('c, 'p, 'u, 'w) vm) option" where
  "capture_park E ff horizon v =
     (if if_flag (vm_run v) = 0 then Some (Next (Some (Inl ())), v)
      else
        map_option (\<lambda>(r, m).
            let v' = v\<lparr>vm_m := m\<lparr>m_driver := m_driver (vm_m v)\<rparr>\<rparr> in
            (case r of
               Next Deliverable \<Rightarrow> (Next None, v')
             | Next ParkHorizon \<Rightarrow> (Next (Some (Inr None)), v')
             | Next ParkDriverFinish \<Rightarrow> (Next None, v')
             | Fails _ \<Rightarrow> (Next (Some (Inl ())), v')
             | Panics \<Rightarrow> (Panics, v')
             | Stuck \<Rightarrow> (Stuck, v')))
          (park_until_deliverable E ff (Some horizon) ((vm_m v)\<lparr>m_driver := driver_default\<rparr>)))"

definition capture_exit ::
  "('c, 'a, 'p, 'u, 'j, 'w) env \<Rightarrow> 'w kvm \<Rightarrow> bool \<Rightarrow> u64 \<Rightarrow> VcpuExit \<Rightarrow> ('c, 'p, 'u, 'w) vm
     \<Rightarrow> ('j answer option flow \<times> ('c, 'p, 'u, 'w) vm) option" where
  "capture_exit E K ff horizon exit v =
     (case exit of
        Hlt \<Rightarrow> capture_park E ff horizon v
      | Shutdown \<Rightarrow> Some (Next (Some (Inl ())), v)
      | SystemEvent _ \<Rightarrow> Some (Next (Some (Inl ())), v)
      | FailEntry _ _ \<Rightarrow> Some (Next (Some (Inl ())), v)
      | InternalError \<Rightarrow> Some (Next (Some (Inl ())), v)
      | _ \<Rightarrow> Some (Next None, device_exit False E K exit v))"

text \<open>The part before the entry: budgets, timers, replies, egress, injection, doorbell.\<close>

definition capture_boundary ::
  "('c, 'a, 'p, 'u, 'j, 'w) env \<Rightarrow> u64 \<Rightarrow> u64 \<Rightarrow> nat \<Rightarrow> ('c, 'p, 'u, 'w) machine
     \<Rightarrow> 'j answer option flow \<times> ('c, 'p, 'u, 'w) machine" where
  "capture_boundary E want horizon wall m =
     (let (t, m) = read_instant E m in
      if t \<ge> wall then (Next (Some (Inr None)), m)
      else
        let (now, m) = read_clock E m;
            (fired, l, q) = service_timers (m_lapic m) (m_events m) (Some horizon) now
        in bind_flow (fired, m\<lparr>m_lapic := l, m_events := q\<rparr>) (\<lambda>fired m.
           if fired then (Next (Some (Inr None)), m)
           else
             let (c, l) = control_pump (e_uart E) (m_com2 m) (m_lapic m) (m_ioapic m);
                 (rep, c, l) = find_reply (e_json E) (e_uart E) want (m_ioapic m) c l;
                 m = m\<lparr>m_com2 := c, m_lapic := l\<rparr>
             in if rep \<noteq> None then (Next (Some (Inr rep)), m)
                else (case pump_egress E m of
                        (Fails _, m) \<Rightarrow> (Next (Some (Inl ())), m)
                      | (_, m) \<Rightarrow> (Next None, m))))"

definition drive_iter ::
  "('c, 'a, 'p, 'u, 'j, 'w) env \<Rightarrow> 'w kvm \<Rightarrow> bool \<Rightarrow> u64 \<Rightarrow> u64 \<Rightarrow> nat \<Rightarrow> ('c, 'p, 'u, 'w) vm
     \<Rightarrow> ('j answer option flow \<times> ('c, 'p, 'u, 'w) vm) option" where
  "drive_iter E K ff want horizon wall v =
     (let v = v\<lparr>vm_bell := doorbell_clear (vm_doorbell v) (vm_bell v)\<rparr>;
          (r, m) = capture_boundary E want horizon wall (vm_m v);
          v = v\<lparr>vm_m := m\<rparr>
      in case r of
           Next None \<Rightarrow>
             (case inject_step K v of
                (Next _, v) \<Rightarrow>
                  (case enter_guest K (arm_doorbell E v) of
                     (Ran exit, v) \<Rightarrow> capture_exit E K ff horizon exit v
                   | (RunErrno e, v) \<Rightarrow>
                       Some (Next (if e = EINTR \<or> e = EAGAIN then None else Some (Inl ())), v))
              | (_, v) \<Rightarrow> Some (Next (Some (Inl ())), v))
         | r \<Rightarrow> Some (r, v))"

definition drive_until_reply ::
  "('c, 'a, 'p, 'u, 'j, 'w) env \<Rightarrow> 'w kvm \<Rightarrow> bool \<Rightarrow> bytes \<Rightarrow> u64 \<Rightarrow> u64 \<Rightarrow> nat \<Rightarrow> ('c, 'p, 'u, 'w) vm
     \<Rightarrow> ('j answer flow \<times> ('c, 'p, 'u, 'w) vm) option" where
  "drive_until_reply E K ff framed want horizon wall v =
     (let m = vm_m v;
          (c, l) = control_pump (e_uart E) (send_frame (drop_lines (m_com2 m)) framed) (m_lapic m) (m_ioapic m)
      in run_loop (drive_iter E K ff want horizon wall) (v\<lparr>vm_m := m\<lparr>m_com2 := c, m_lapic := l\<rparr>\<rparr>))"

section \<open>The capture\<close>

definition ping_request :: "u64 \<Rightarrow> Request" where
  "ping_request i = request_default\<lparr>req_id := i, req_op := ''ping''\<rparr>"

definition logs_request :: "u64 \<Rightarrow> string \<Rightarrow> u64 \<Rightarrow> Request" where
  "logs_request i service cursor =
     request_default\<lparr>req_id := i, req_op := ''logs'', req_container := Some service, req_cursor := Some cursor,
       req_max_bytes := Some MAX_LOGS_CHUNK_BYTES\<rparr>"

text \<open>A round trip: the argument \<open>to_vec\<close> is the JSON library, whose failure is unwrapped.\<close>

definition ask ::
  "('c, 'a, 'p, 'u, 'j, 'w) env \<Rightarrow> 'w kvm \<Rightarrow> bool \<Rightarrow> (Request \<Rightarrow> bytes option) \<Rightarrow> u64 \<Rightarrow> nat \<Rightarrow> Request \<Rightarrow> ('c, 'p, 'u, 'w) vm
     \<Rightarrow> ('j answer flow \<times> ('c, 'p, 'u, 'w) vm) option" where
  "ask E K ff to_vec horizon wall req v =
     (case encode_line to_vec req of
        None \<Rightarrow> Some (Panics, v)
      | Some framed \<Rightarrow> drive_until_reply E K ff framed (req_id req) horizon wall v)"

text \<open>What one answer means for the log pulled so far: go on from a cursor, or stop, aborted or not.\<close>

datatype pulled = More u64 bytes | Done bool bytes

definition fold_answer :: "u64 \<Rightarrow> bytes \<Rightarrow> 'j answer \<Rightarrow> pulled" where
  "fold_answer cursor raw ans =
     (case ans of
        Inl _ \<Rightarrow> Done True raw
      | Inr None \<Rightarrow> Done False raw
      | Inr (Some rep) \<Rightarrow>
          if rep_ok rep \<noteq> Some True then Done False raw
          else
            let raw = raw @ (case rep_data rep of Some d \<Rightarrow> ascii d | None \<Rightarrow> []);
                nxt = (case rep_next_cursor rep of Some c \<Rightarrow> c | None \<Rightarrow> cursor)
            in if rep_eof rep = Some True \<or> nxt \<le> cursor then Done False raw else More nxt raw)"

lemma fold_answer_More: "fold_answer cursor raw ans = More nxt raw' \<Longrightarrow> cursor < nxt"
  by (auto simp: fold_answer_def Let_def split: sum.splits option.splits if_splits)

text \<open>The loop over the pieces of one log; the cursor only grows.\<close>

function pull_log ::
  "(Request \<Rightarrow> 'v \<Rightarrow> ('j answer flow \<times> 'v) option) \<Rightarrow> string \<Rightarrow> u64 \<Rightarrow> u64 \<Rightarrow> bytes \<Rightarrow> 'v
     \<Rightarrow> ((bool \<times> bytes \<times> u64) flow \<times> 'v) option" where
  "pull_log A service next_id cursor raw v =
     (case A (logs_request next_id service cursor) v of
        None \<Rightarrow> None
      | Some (Next ans, v) \<Rightarrow>
          (case fold_answer cursor raw ans of
             More nxt raw \<Rightarrow> pull_log A service (next_id + 1) nxt raw v
           | Done aborted raw \<Rightarrow> Some (Next (aborted, raw, next_id + 1), v))
      | Some (Fails e, v) \<Rightarrow> Some (Fails e, v)
      | Some (Panics, v) \<Rightarrow> Some (Panics, v)
      | Some (Stuck, v) \<Rightarrow> Some (Stuck, v))"
  by pat_completeness auto
termination
proof (relation "measure (\<lambda>(A, service, next_id, cursor, raw, v). 2 ^ 64 - unat cursor)", simp, goal_cases)
  case (1 A service next_id cursor raw v x1 x2 x3 x4 nxt raw')
  then have "cursor < nxt" by (blast dest: fold_answer_More)
  then have "unat cursor < unat nxt" by (simp add: word_less_nat_alt)
  moreover have "unat nxt < 2 ^ 64" by (rule unat_u64_bound)
  ultimately show ?case by simp
qed

declare pull_log.simps [simp del]

record LogsCapture =
  lc_dir :: bytes
  lc_services :: "string list"
  lc_project :: bytes

fun capture_services ::
  "'w kvm \<Rightarrow> (Request \<Rightarrow> ('c, 'p, 'u, 'w) vm \<Rightarrow> ('j answer flow \<times> ('c, 'p, 'u, 'w) vm) option) \<Rightarrow> bytes \<Rightarrow> string list \<Rightarrow> u64
     \<Rightarrow> ('c, 'p, 'u, 'w) vm \<Rightarrow> (unit flow \<times> ('c, 'p, 'u, 'w) vm) option" where
  "capture_services K A dir [] next_id v = Some (Next (), v)"
| "capture_services K A dir (service # rest) next_id v =
     (case sanitize_service_filename (ascii service) of
        None \<Rightarrow> capture_services K A dir rest next_id v
      | Some fname \<Rightarrow>
          (case pull_log A service next_id 0 [] v of
             None \<Rightarrow> None
           | Some (Next (aborted, raw, next_id), v) \<Rightarrow>
               let m = vm_m v; w = k_fs_write K (m_os m) (log_path dir fname) (format_k8s_logs raw);
                   v = v\<lparr>vm_m := m\<lparr>m_os := w\<rparr>\<rparr>
               in if aborted then Some (Next (), v) else capture_services K A dir rest next_id v
           | Some (Fails e, v) \<Rightarrow> Some (Fails e, v)
           | Some (Panics, v) \<Rightarrow> Some (Panics, v)
           | Some (Stuck, v) \<Rightarrow> Some (Stuck, v)))"

definition CAPTURE_WALL_BUDGET :: nat where [const_defs]: "CAPTURE_WALL_BUDGET = 30 * 10 ^ 9"

definition capture_logs ::
  "('c, 'a, 'p, 'u, 'j, 'w) env \<Rightarrow> 'w kvm \<Rightarrow> bool \<Rightarrow> (Request \<Rightarrow> bytes option) \<Rightarrow> u64 \<Rightarrow> LogsCapture \<Rightarrow> ('c, 'p, 'u, 'w) vm
     \<Rightarrow> (unit flow \<times> ('c, 'p, 'u, 'w) vm) option" where
  "capture_logs E K ff to_vec budget cap v =
     (let (t, m) = read_instant E (vm_m v);
          wall = t + CAPTURE_WALL_BUDGET;
          (now, m) = read_clock E m;
          A = ask E K ff to_vec (now + budget) wall
      in case A (ping_request 1) (v\<lparr>vm_m := m\<rparr>) of
           None \<Rightarrow> None
         | Some (Next (Inr (Some rep)), v) \<Rightarrow>
             (case rep_schema rep of
                Some s \<Rightarrow> if s \<ge> 2 then capture_services K A (lc_dir cap) (lc_services cap) 2 v else Some (Next (), v)
              | None \<Rightarrow> Some (Next (), v))
         | Some (Next _, v) \<Rightarrow> Some (Next (), v)
         | Some (Fails e, v) \<Rightarrow> Some (Fails e, v)
         | Some (Panics, v) \<Rightarrow> Some (Panics, v)
         | Some (Stuck, v) \<Rightarrow> Some (Stuck, v))"

section \<open>The end of a run\<close>

definition finish_scan ::
  "('c, 'a, 'p, 'u, 'j, 'w) env \<Rightarrow> 'w kvm \<Rightarrow> ('c, 'p, 'u, 'w) vm \<Rightarrow> ('c, 'p, 'u, 'w) vm" where
  "finish_scan E K v =
     (case (vm_scan v, co_tee (vm_console v)) of
        (Some sc, Some tee) \<Rightarrow>
          let (now, m) = read_clock E (vm_m v);
              (tee, sc, w) = scan_finish (k_logs K) sc tee now (m_os m)
          in v\<lparr>vm_m := m\<lparr>m_os := w\<rparr>, vm_scan := Some sc, vm_console := (vm_console v)\<lparr>co_tee := Some tee\<rparr>\<rparr>
      | _ \<Rightarrow> v)"

text \<open>From the loop to the outcome: capture only after a graceful stop, and the verdict last.\<close>

definition run_user_backend ::
  "('c, 'a, 'p, 'u, 'j, 'w) env \<Rightarrow> 'w kvm \<Rightarrow> bool \<Rightarrow> (Request \<Rightarrow> bytes option) \<Rightarrow> u64 option \<Rightarrow> u64 \<Rightarrow> LogsCapture option
     \<Rightarrow> ('c, 'p, 'u, 'w) vm \<Rightarrow> (RunOutcome flow \<times> ('c, 'p, 'u, 'w) vm) option" where
  "run_user_backend E K ff to_vec horizon budget logs v =
     (case run_loop (run_iter E K ff horizon) v of
        None \<Rightarrow> None
      | Some (Next stop, v) \<Rightarrow>
          (case (case logs of
                   Some cap \<Rightarrow>
                     if stop = DriverFinish \<or> stop = Horizon then capture_logs E K ff to_vec budget cap v
                     else Some (Next (), v)
                 | None \<Rightarrow> Some (Next (), v)) of
             None \<Rightarrow> None
           | Some (r, v) \<Rightarrow> Some (bind_flow (r, v) (\<lambda>_ v.
               let v = finish_scan E K v in (Next (run_outcome (m_driver (vm_m v)) stop), v))))
      | Some (Fails e, v) \<Rightarrow> Some (Fails e, v)
      | Some (Panics, v) \<Rightarrow> Some (Panics, v)
      | Some (Stuck, v) \<Rightarrow> Some (Stuck, v))"

text \<open>The devices at the start of a run.\<close>

definition mptable_ioapic_id :: u8 where
  "mptable_ioapic_id = 2"

definition vm_new ::
  "(u32 \<Rightarrow> CpuidResult) \<Rightarrow> VirtualClock \<Rightarrow> cells \<Rightarrow> 'u \<Rightarrow> 'u \<Rightarrow> ('c, 'p, 'u) EgressChannel option \<Rightarrow> Parker \<Rightarrow> FfState
     \<Rightarrow> Doorbell \<times> doorbell_cells \<Rightarrow> KvmRun \<Rightarrow> ConsoleOut \<Rightarrow> ConsoleScan option \<Rightarrow> 'w \<Rightarrow> (unit, ('c, 'p, 'u, 'w) vm) outcome" where
  "vm_new cpuid clock cells serial com2 egress parker ff bell run console scan w =
     (let (num, den) = apic_timer_tsc_ratio cpuid (hz (vc_freq clock)) in
      case lapic_new (clock_clone clock) num den of
        Ok l \<Rightarrow> Ok
          \<lparr>vm_m = \<lparr>m_lapic = l, m_ioapic = ioapic_new mptable_ioapic_id, m_events = eq_new, m_serial = serial,
              m_parker = parker, m_clock = clock, m_cells = cells, m_com2 = control_new com2, m_egress = egress,
              m_driver = driver_default, m_ff = ff, m_os = w\<rparr>,
           vm_pic = pic_new, vm_pit = pit_new (clock_clone clock), vm_doorbell = fst bell, vm_bell = snd bell,
           vm_run = run, vm_console = console, vm_scan = scan, vm_data = [], hlt_count = 0\<rparr>
      | Err e \<Rightarrow> Err e
      | Panic \<Rightarrow> Panic)"

end
