(* ===== verification/RunProps.thy ===== *)
theory RunProps
  imports Capture ParkProps
begin

text \<open>
  Properties of the vCPU loop and the log capture: every step of either keeps the devices
  well-formed and changes the interrupt controller only by the controller's own steps; what
  KVM is asked for at every entry; what a stop means; and what the log capture leaves alone.
\<close>

section \<open>The interrupt controller\<close>

text \<open>A controller that some sequence of its own steps leads to from reset.\<close>

definition lapic_ok :: "VirtualClock \<Rightarrow> Lapic \<Rightarrow> bool" where
  "lapic_ok clk l \<longleftrightarrow> (\<exists>num den l0. lapic_new clk num den = Ok l0 \<and> lapic_step\<^sup>*\<^sup>* l0 l)"

lemma lapic_ok_step: "lapic_ok clk l \<Longrightarrow> lapic_step l l' \<Longrightarrow> lapic_ok clk l'"
  unfolding lapic_ok_def by (meson rtranclp.rtrancl_into_rtrancl)

lemmas lapic_ok_raise = lapic_ok_step [OF _ step_raise]
  and lapic_ok_inject = lapic_ok_step [OF _ step_inject]
  and lapic_ok_write = lapic_ok_step [OF _ step_write]
  and lapic_ok_cr8 = lapic_ok_step [OF _ step_cr8]
  and lapic_ok_fire = lapic_ok_step [OF _ step_fire]

lemma lapic_ok_raised: "lapic_ok clk l \<Longrightarrow> raised l l' \<Longrightarrow> lapic_ok clk l'"
  by (auto simp: raised_def intro: lapic_ok_raise)

lemma lapic_ok_irq: "lapic_ok clk l \<Longrightarrow> lapic_ok clk (raise_irq l io irq)"
  by (rule lapic_ok_raised [OF _ raised_irq])

lemma lapic_clock_write: "lapic_clock (lapic_mmio_write env l off val) = lapic_clock l"
proof -
  have "lapic_clock (eoi l) = lapic_clock l" by (simp add: eoi_def split: option.split)
  moreover have "lapic_clock (write_icr l val) = lapic_clock l" by (simp add: write_icr_def lapic_raise_def Let_def)
  moreover have "lapic_clock (write_lvt_timer l val) = lapic_clock l" by (simp add: write_lvt_timer_def Let_def)
  moreover have "lapic_clock (write_timer_ict env l val) = lapic_clock l" by (simp add: write_timer_ict_def Let_def)
  ultimately show ?thesis unfolding lapic_mmio_write_def by simp
qed

lemma lapic_clock_fire: "fire_timer_if_due l now = Some (l', b) \<Longrightarrow> lapic_clock l' = lapic_clock l"
  by (auto simp: fire_timer_if_due_def lapic_raise_def split: option.splits if_splits)

lemma lapic_clock_step: "lapic_step l l' \<Longrightarrow> lapic_clock l' = lapic_clock l"
  by (auto elim!: lapic_stepE simp: lapic_clock_write lapic_clock_fire lapic_raise_def ack_injected_def sync_tpr_from_cr8_def)

lemma lapic_okD:
  assumes "lapic_ok clk l"
  shows "lapic_invar l" "lapic_clock l = clk" "nested (in_service l)"
proof -
  obtain num den l0 where l0: "lapic_new clk num den = Ok l0" "lapic_step\<^sup>*\<^sup>* l0 l"
    using assms by (auto simp: lapic_ok_def)
  from l0(2) have "lapic_invar l \<and> lapic_clock l = clk \<and> nested (in_service l)"
  proof (induction rule: rtranclp_induct)
    case base
    have "in_service l0 = {}" "lapic_clock l0 = clk"
      using l0(1) sample_lapic_facts(1,3)
      by (auto simp: lapic_new_def sample_lapic_def split: if_splits)
    then show ?case using lapic_new_invar [OF l0(1)] by (simp add: nested_def)
  next
    case (step l l')
    then show ?case using lapic_step_invar nested_step lapic_clock_step by metis
  qed
  then show "lapic_invar l" "lapic_clock l = clk" "nested (in_service l)" by auto
qed

section \<open>The machine\<close>

definition machine_ok :: "VirtualClock \<Rightarrow> ('c, 'p, 'u, 'w) machine \<Rightarrow> bool" where
  "machine_ok clk m \<longleftrightarrow> m_clock m = clk \<and> lapic_ok clk (m_lapic m) \<and> ioapic_invar (m_ioapic m)
     \<and> (\<forall>eg. m_egress m = Some eg \<longrightarrow> backend_ok (ec_backend eg))"

lemma machine_ok_frame [simp]:
  "machine_ok clk (m\<lparr>m_os := w\<rparr>) = machine_ok clk m"
  "machine_ok clk (m\<lparr>m_events := q\<rparr>) = machine_ok clk m"
  "machine_ok clk (m\<lparr>m_serial := u\<rparr>) = machine_ok clk m"
  "machine_ok clk (m\<lparr>m_parker := p\<rparr>) = machine_ok clk m"
  "machine_ok clk (m\<lparr>m_cells := cs\<rparr>) = machine_ok clk m"
  "machine_ok clk (m\<lparr>m_com2 := c\<rparr>) = machine_ok clk m"
  "machine_ok clk (m\<lparr>m_driver := d\<rparr>) = machine_ok clk m"
  "machine_ok clk (m\<lparr>m_ff := f\<rparr>) = machine_ok clk m"
  by (simp_all add: machine_ok_def)

lemma machine_ok_lapic: "machine_ok clk m \<Longrightarrow> lapic_ok clk l \<Longrightarrow> machine_ok clk (m\<lparr>m_lapic := l\<rparr>)"
  by (simp add: machine_ok_def)

lemma machine_okD: "machine_ok clk m \<Longrightarrow> lapic_ok clk (m_lapic m)"
  by (simp add: machine_ok_def)

lemma fire_events_ok: "lapic_ok clk l \<Longrightarrow> lapic_ok clk (fst (snd (fire_events l q fired now)))"
proof (induction l q fired now rule: fire_events.induct)
  case (1 l q fired now)
  then show ?case
    by (auto simp: fire_events.simps [of l q] lapic_ok_fire split: prod.splits option.splits TimerKind.splits)
qed

lemma service_timers_ok: "lapic_ok clk l \<Longrightarrow> service_timers l q horizon now = (r, l', q') \<Longrightarrow> lapic_ok clk l'"
  using fire_events_ok [of clk l] by (auto simp: service_timers_def Let_def dest!: arg_cong [where f = "fst \<circ> snd"])

lemma console_changed_ok: "machine_ok clk m \<Longrightarrow> console_changed m m' \<Longrightarrow> machine_ok clk m'"
  by (auto simp: console_changed_def machine_ok_def intro: lapic_ok_raised)

lemma feed_guest_sessions:
  "feed_guest U u b sent = (u', b', sent') \<Longrightarrow> sessions b' = sessions b \<and> resolving b' = resolving b"
proof (induction U u b sent arbitrary: u' b' sent' rule: feed_guest.induct)
  case (1 U u b sent)
  obtain chunk b1 where d: "drain_to_guest b (fifo_capacity U u) = (chunk, b1)" by fastforce
  have b1: "sessions b1 = sessions b \<and> resolving b1 = resolving b" using d by (auto simp: drain_to_guest_def Let_def)
  show ?case
  proof (cases "fifo_capacity U u = 0 \<or> \<not> has_frames_for_guest b")
    case True
    then show ?thesis using 1(2) by (simp add: feed_guest.simps [of U u b])
  next
    case False
    obtain n u1 where e: "enqueue_raw_bytes U u chunk = (n, u1)" by fastforce
    have step: "feed_guest U u b sent =
      (case n of Some k \<Rightarrow> if k > 0 then if k < length chunk then (u1, unshift_to_guest b1 (drop k chunk), True)
            else feed_guest U u1 b1 True else (u1, unshift_to_guest b1 chunk, sent)
       | None \<Rightarrow> (u1, unshift_to_guest b1 chunk, sent))"
      using False d e by (subst feed_guest.simps) simp
    show ?thesis
    proof (cases "\<exists>k. n = Some k \<and> 0 < k \<and> \<not> k < length chunk")
      case True
      then obtain k where k: "n = Some k" "0 < k" "\<not> k < length chunk" by blast
      have f: "feed_guest U u1 b1 True = (u', b', sent')" using 1(2) k unfolding step by simp
      show ?thesis using 1(1) [OF refl False d [symmetric] refl e [symmetric] k f] b1 by simp
    next
      case False
      then have "b' = unshift_to_guest b1 chunk \<or> (\<exists>k. b' = unshift_to_guest b1 (drop k chunk))"
        using 1(2) unfolding step by (auto split: option.splits if_splits)
      then obtain bs where "b' = b1\<lparr>tx_pending := bs\<rparr>" unfolding unshift_to_guest_eq by blast
      then show ?thesis using b1 by simp
    qed
  qed
qed

lemma channel_pump_ok:
  assumes "channel_pump K U c l io = (Inr x, c', l')" and "backend_ok (ec_backend c)"
  shows "backend_ok (ec_backend c')"
proof -
  obtain b where bp: "backend_pump K (ec_backend c) (ec_tx c) = (Inr (), b)"
    using assms(1) by (auto simp: channel_pump_def Let_def split: prod.splits sum.splits)
  obtain u b1 sent where f: "feed_guest U (ec_serial c) b False = (u, b1, sent)" by (metis prod_cases3)
  have "backend_ok b" using pump_spec [OF assms(2) bp] by simp
  then have "backend_ok b1" using feed_guest_sessions [OF f] backend_ok_same [of b1 b] by simp
  moreover have "ec_backend c' = b1"
    using assms(1) bp f by (auto simp: channel_pump_def channel_after_uart_io_def Let_def split: prod.splits if_splits)
  ultimately show ?thesis by simp
qed

lemma pump_egress_ok:
  assumes "pump_egress E m = (Next x, m')" and "machine_ok clk m"
  shows "machine_ok clk m'"
proof (cases "m_egress m")
  case None
  then show ?thesis using assms by (simp add: pump_egress_def)
next
  case (Some eg)
  obtain r eg' l where p: "channel_pump (e_conn E) (e_uart E) eg (m_lapic m) (m_ioapic m) = (r, eg', l)" by (metis prod_cases3)
  have m': "m' = m\<lparr>m_egress := Some eg', m_lapic := l\<rparr>" "r = Inr ()"
    using assms(1) Some p by (auto simp: pump_egress_def split: sum.splits)
  have "backend_ok (ec_backend eg')" using channel_pump_ok [OF p [unfolded m'(2)]] assms(2) Some by (simp add: machine_ok_def)
  moreover have "lapic_ok clk l" using channel_pump_raised [OF p] assms(2) lapic_ok_raised by (auto simp: machine_ok_def)
  ultimately show ?thesis using assms(2) m'(1) by (simp add: machine_ok_def)
qed

lemma read_clock_ok [simp]: "machine_ok clk (snd (read_clock E m)) = machine_ok clk m"
  by (simp add: read_clock_eq)

text \<open>The park's boundary, over \<open>pump_egress\<close>.\<close>

lemma park_boundary_eq:
  "park_boundary E horizon m =
     (let (now, m) = read_clock E m;
          (fired, l, q) = service_timers (m_lapic m) (m_events m) horizon now
      in bind_flow (fired, m\<lparr>m_lapic := l, m_events := q\<rparr>) (\<lambda>fired m.
         if fired then (Next (Some ParkHorizon), m)
         else
           let (finished, c, d) = drain_agent (e_json E) (m_com2 m) (m_driver m);
               m = m\<lparr>m_com2 := c, m_driver := d\<rparr>
           in if finished then (Next (Some ParkDriverFinish), m)
              else bind_flow (pump_egress E m) (\<lambda>_ m.
                     if deliverable_vector (m_lapic m) \<noteq> None then (Next (Some Deliverable), m) else (Next None, m))))"
  unfolding park_boundary_def pump_egress_def by (simp only: Let_def)

lemma park_boundary_ok:
  assumes "park_boundary E horizon m = (Next r, m')" and "machine_ok clk m"
  shows "machine_ok clk m'"
proof -
  obtain now w where rc: "read_clock E m = (now, m\<lparr>m_os := w\<rparr>)" by (simp add: read_clock_eq)
  obtain fired l q where st: "service_timers (m_lapic m) (m_events m) horizon now = (fired, l, q)" by (metis prod_cases3)
  have l: "machine_ok clk (m\<lparr>m_os := w, m_lapic := l, m_events := q\<rparr>)"
    using service_timers_ok [OF machine_okD [OF assms(2)] st] assms(2) by (simp add: machine_ok_def)
  obtain fin c d where dr: "drain_agent (e_json E) (m_com2 m) (m_driver m) = (fin, c, d)" by (metis prod_cases3)
  let ?m = "m\<lparr>m_os := w, m_lapic := l, m_events := q, m_com2 := c, m_driver := d\<rparr>"
  obtain r2 m2 where pe: "pump_egress E ?m = (r2, m2)" by fastforce
  have ok: "machine_ok clk ?m" using l by simp
  show ?thesis
    using assms(1) rc st dr pe l ok pump_egress_ok [of E ?m "()" m2 clk]
    by (cases fired; cases r2) (auto simp: park_boundary_eq Let_def split: if_splits)
qed

lemma timeout_to_deadline_ok: "timeout_to_deadline E m = (t, m') \<Longrightarrow> machine_ok clk m' = machine_ok clk m"
  by (auto simp: timeout_to_deadline_def read_clock_eq split: option.splits)

lemma park_wait_ok: "machine_ok clk m \<Longrightarrow> park_wait E t m = (r, m') \<Longrightarrow> machine_ok clk m'"
  by (rule console_changed_ok [OF _ park_wait_changes])

lemma gate_wait_ok:
  assumes "gate_wait E m = (Next x, m')" and "machine_ok clk m"
  shows "machine_ok clk m'"
proof -
  obtain t m1 where t: "timeout_to_deadline E m = (t, m1)" by fastforce
  obtain r2 m2 where p: "park_wait E t (m1\<lparr>m_os := snd (e_instant E (m_os m1))\<rparr>) = (r2, m2)" by fastforce
  have m2: "machine_ok clk m2"
    using park_wait_ok [OF _ p] timeout_to_deadline_ok [OF t] assms(2) by simp
  obtain w f where m': "m' = m2\<lparr>m_os := w, m_egress := map_option f (m_egress m2)\<rparr>"
    and f: "\<And>eg. sessions (ec_backend (f eg)) = sessions (ec_backend eg) \<and> resolving (ec_backend (f eg)) = resolving (ec_backend eg)"
  proof -
    let ?w = "snd (e_instant E (snd (e_instant E (snd (e_instant E (m_os m2))))))"
    let ?f = "\<lambda>eg. snd (maybe_warn_long_gate (note_gated_interval eg
        (of_nat (min (fst (e_instant E (m_os m2)) - fst (e_instant E (m_os m1))) (2 ^ 64 - 1)))
        (fst (e_instant E (snd (e_instant E (m_os m2))))))
        (fst (e_instant E (snd (e_instant E (snd (e_instant E (m_os m2))))))))"
    have "m' = m2\<lparr>m_os := ?w, m_egress := map_option ?f (m_egress m2)\<rparr>"
      using assms(1) t p by (cases r2) (auto simp: gate_wait_def read_instant_eq Let_def)
    moreover have "sessions (ec_backend (?f eg)) = sessions (ec_backend eg) \<and> resolving (ec_backend (?f eg)) = resolving (ec_backend eg)" for eg
      by (simp add: maybe_warn_long_gate_def note_gated_interval_def backend_note_gated_interval_def split_beta)
    ultimately show thesis by (rule that)
  qed
  have "backend_ok (ec_backend (f eg)) = backend_ok (ec_backend eg)" for eg
    using f [of eg] by (intro backend_ok_same) auto
  then show ?thesis using m2 m' by (auto simp: machine_ok_def)
qed

lemma jump_ok: "jump E horizon nxt m = (r, m') \<Longrightarrow> machine_ok clk m \<Longrightarrow> machine_ok clk m'"
  by (erule jump_cases) (auto simp: jumped_def)

lemma fast_forward_iter_ok:
  assumes "fast_forward_iter E horizon m = (Next r, m')" and "machine_ok clk m"
  shows "machine_ok clk m'"
proof -
  obtain m1 where p: "poll_console E m = (Next (), m1)"
    and k: "bind_flow (park_boundary E horizon m1) (\<lambda>outcome m. case outcome of Some out \<Rightarrow> (Next (Some out), m)
      | None \<Rightarrow> bind_flow (if must_gate m then gate_wait E m else case eq_peek_deadline (m_events m) of
           None \<Rightarrow> park_wait E None m | Some nxt \<Rightarrow> jump E horizon nxt m) (\<lambda>_ m. (Next None, m))) = (Next r, m')"
    using assms(1) unfolding fast_forward_iter_def by (auto elim: bind_flow_NextE)
  have m1: "machine_ok clk m1" by (rule console_changed_ok [OF assms(2) poll_console_changes [OF p]])
  obtain out m2 where b: "park_boundary E horizon m1 = (Next out, m2)"
    and k2: "(case out of Some out \<Rightarrow> (Next (Some out), m2)
      | None \<Rightarrow> bind_flow (if must_gate m2 then gate_wait E m2 else case eq_peek_deadline (m_events m2) of
           None \<Rightarrow> park_wait E None m2 | Some nxt \<Rightarrow> jump E horizon nxt m2) (\<lambda>_ m. (Next None, m))) = (Next r, m')"
    using k by (rule bind_flow_NextE)
  have m2: "machine_ok clk m2" by (rule park_boundary_ok [OF b m1])
  show ?thesis
  proof (cases out)
    case (Some x)
    then show ?thesis using k2 m2 by simp
  next
    case None
    then obtain x m3 where "(if must_gate m2 then gate_wait E m2 else case eq_peek_deadline (m_events m2) of
           None \<Rightarrow> park_wait E None m2 | Some nxt \<Rightarrow> jump E horizon nxt m2) = (Next x, m3)" "m' = m3"
      using k2 by (auto elim!: bind_flow_NextE)
    then show ?thesis
      using gate_wait_ok [of E m2 x m3 clk] park_wait_ok [OF m2, of E None "Next x" m3] jump_ok [of E horizon _ m2 "Next x" m3 clk] m2
      by (auto split: if_splits option.splits)
  qed
qed

lemma real_wait_iter_ok:
  assumes "real_wait_iter E horizon m = (Next r, m')" and "machine_ok clk m"
  shows "machine_ok clk m'"
proof -
  obtain out m2 where b: "park_boundary E horizon m = (Next out, m2)"
    and k: "(case out of Some out \<Rightarrow> (Next (Some out), m2)
      | None \<Rightarrow> let (timeout_ns, m) = timeout_to_deadline E m2 in bind_flow (park_wait E timeout_ns m) (\<lambda>_ m. (Next None, m))) = (Next r, m')"
    using assms(1) unfolding real_wait_iter_def by (rule bind_flow_NextE)
  have m2: "machine_ok clk m2" by (rule park_boundary_ok [OF b assms(2)])
  obtain t m3 where t: "timeout_to_deadline E m2 = (t, m3)" by fastforce
  have m3: "machine_ok clk m3" using timeout_to_deadline_ok [OF t] m2 by simp
  show ?thesis
    using k m2 t park_wait_ok [OF m3, of E t]
    by (auto split: option.splits elim!: bind_flow_NextE)
qed

text \<open>An invariant that rounds without an error keep holds of every outcome.\<close>

lemma park_loop_Next:
  assumes "park_loop iter m = Some (Next out, m')" and "I m"
    and step: "\<And>m m' r. iter m = (Next r, m') \<Longrightarrow> I m \<Longrightarrow> I m'"
  shows "I m'"
proof -
  let ?P = "\<lambda>it m y. it = iter \<longrightarrow> I m \<longrightarrow> (\<forall>out m'. y = (Next out, m') \<longrightarrow> I m')"
  have "?P iter m (Next out, m')"
  proof (rule park_loop.raw_induct [where P = ?P, OF _ assms(1)], goal_cases)
    case (1 loop it m y)
    obtain r1 m1 where i: "iter m = (r1, m1)" by fastforce
    show ?case using 1 step [of m _ m1] i by (cases r1) (auto split: option.splits)
  qed
  then show ?thesis using assms(2) by blast
qed

lemma park_ok:
  assumes "park_until_deliverable E ff horizon m = Some (Next out, m')" and "machine_ok clk m"
  shows "machine_ok clk m'"
proof (cases ff)
  case True
  then have "park_loop (fast_forward_iter E horizon) m = Some (Next out, m')"
    using assms(1) by (simp add: park_until_deliverable_def fast_forward_until_deliverable_def)
  then show ?thesis by (rule park_loop_Next [where I = "machine_ok clk", OF _ assms(2) fast_forward_iter_ok])
next
  case False
  then have "park_loop (real_wait_iter E horizon) m = Some (Next out, m')"
    using assms(1) by (simp add: park_until_deliverable_def real_wait_until_deliverable_def)
  then show ?thesis by (rule park_loop_Next [where I = "machine_ok clk", OF _ assms(2) real_wait_iter_ok])
qed

section \<open>The virtual machine\<close>

definition pit_ok :: "VirtualClock \<Rightarrow> PitStub \<Rightarrow> bool" where
  "pit_ok clk p \<longleftrightarrow> length (channels p) = 3 \<and> length (elcr p) = 2 \<and> pit_clock p = clk"

definition vm_ok :: "VirtualClock \<Rightarrow> ('c, 'p, 'u, 'w) vm \<Rightarrow> bool" where
  "vm_ok clk v \<longleftrightarrow> machine_ok clk (vm_m v) \<and> pit_ok clk (vm_pit v)"

lemma vm_ok_frame [simp]:
  "vm_ok clk (v\<lparr>vm_pic := p\<rparr>) = vm_ok clk v"
  "vm_ok clk (v\<lparr>vm_doorbell := d\<rparr>) = vm_ok clk v"
  "vm_ok clk (v\<lparr>vm_bell := e\<rparr>) = vm_ok clk v"
  "vm_ok clk (v\<lparr>vm_run := r\<rparr>) = vm_ok clk v"
  "vm_ok clk (v\<lparr>vm_console := c\<rparr>) = vm_ok clk v"
  "vm_ok clk (v\<lparr>vm_scan := s\<rparr>) = vm_ok clk v"
  "vm_ok clk (v\<lparr>vm_data := d'\<rparr>) = vm_ok clk v"
  "vm_ok clk (v\<lparr>hlt_count := n\<rparr>) = vm_ok clk v"
  by (simp_all add: vm_ok_def)

lemma vm_ok_machine: "vm_ok clk v \<Longrightarrow> machine_ok clk m \<Longrightarrow> vm_ok clk (v\<lparr>vm_m := m\<rparr>)"
  by (simp add: vm_ok_def)

lemma vm_okD: "vm_ok clk v \<Longrightarrow> machine_ok clk (vm_m v)" "vm_ok clk v \<Longrightarrow> pit_ok clk (vm_pit v)"
  by (simp_all add: vm_ok_def)

lemma fold_invar: "(\<And>b s. I s \<Longrightarrow> I (f b s)) \<Longrightarrow> I s \<Longrightarrow> I (fold f bs s)"
  by (induction bs arbitrary: s) auto

lemma each_read_invar:
  assumes "\<And>s. I s \<Longrightarrow> I (snd (f s))"
  shows "I s \<Longrightarrow> I (snd (each_read f n s))"
  using assms by (induction n arbitrary: s) (auto simp: split_beta)

lemma sample_host_ok [simp]: "machine_ok clk (snd (sample_host E m)) = machine_ok clk m"
  by (simp add: sample_host_def split_beta)

lemma pit_write_ok: "pit_ok clk p \<Longrightarrow> pit_ok clk (pit_write env p port b)"
  by (auto simp: pit_ok_def pit_write_def write_at_def write_control_def Let_def)

lemma pit_read_ok: "pit_ok clk p \<Longrightarrow> pit_ok clk (fst (pit_read env p port))"
  by (auto simp: pit_ok_def pit_read_def read_at_def Let_def split_beta)

lemma serial_irq_ok: "machine_ok clk m \<Longrightarrow> machine_ok clk (serial_irq E m)"
  by (auto simp: serial_irq_def split_beta Let_def machine_ok_def intro: lapic_ok_irq)

lemma com1_write_ok: "vm_ok clk v \<Longrightarrow> vm_ok clk (com1_write E K port b v)"
  by (auto simp: com1_write_def vm_ok_def split_beta Let_def)

lemma com1_read_ok: "machine_ok clk m \<Longrightarrow> machine_ok clk (snd (com1_read E port m))"
  by (simp add: com1_read_def split_beta)

lemma com2_write_ok: "machine_ok clk m \<Longrightarrow> machine_ok clk (com2_write E port b m)"
  by (auto simp: com2_write_def control_pio_write_def control_after_uart_io_def split_beta Let_def machine_ok_def
      intro: lapic_ok_irq)

lemma com2_read_ok: "machine_ok clk m \<Longrightarrow> machine_ok clk (snd (com2_read E port m))"
  by (auto simp: com2_read_def control_pio_read_def control_after_uart_io_def split_beta Let_def machine_ok_def
      intro: lapic_ok_irq)

lemma com4_write_ok: "machine_ok clk m \<Longrightarrow> machine_ok clk (com4_write E port b m)"
  by (auto simp: com4_write_def channel_pio_write_def channel_after_uart_io_def split_beta Let_def machine_ok_def
      intro: lapic_ok_irq split: option.splits)

lemma com4_read_ok: "machine_ok clk m \<Longrightarrow> machine_ok clk (snd (com4_read E port m))"
  by (auto simp: com4_read_def channel_pio_read_def channel_after_uart_io_def split_beta Let_def machine_ok_def
      intro: lapic_ok_irq split: option.splits)

lemma pit_out_ok: "vm_ok clk v \<Longrightarrow> vm_ok clk (pit_out E port b v)"
  by (simp add: pit_out_def split_beta vm_ok_def pit_write_ok)

lemma pit_in_ok: "vm_ok clk v \<Longrightarrow> vm_ok clk (snd (pit_in E port v))"
  by (simp add: pit_in_def split_beta vm_ok_def pit_read_ok)

lemma on_machine_ok: "(\<And>m. machine_ok clk m \<Longrightarrow> machine_ok clk (f m)) \<Longrightarrow> vm_ok clk v \<Longrightarrow> vm_ok clk (on_machine f v)"
  by (simp add: on_machine_def vm_ok_def)

lemmas vm_fold = fold_invar [where I = "vm_ok clk" for clk] and machine_fold = fold_invar [where I = "machine_ok clk" for clk]
  and vm_reads = each_read_invar [where I = "vm_ok clk" for clk] and machine_reads = each_read_invar [where I = "machine_ok clk" for clk]

lemma pio_out_ok:
  assumes "vm_ok clk v"
  shows "vm_ok clk (pio_out com4 E K port data v)"
proof -
  have m: "machine_ok clk (vm_m v)" using assms by (rule vm_okD)
  have c1: "vm_ok clk (fold (com1_write E K port) data v)" by (rule vm_fold [OF com1_write_ok assms])
  have c2: "machine_ok clk (fold (com2_write E port) data (vm_m v))" by (rule machine_fold [OF com2_write_ok m])
  have c4: "machine_ok clk (fold (com4_write E port) data (vm_m v))" by (rule machine_fold [OF com4_write_ok m])
  have p: "vm_ok clk (fold (pit_out E port) data v)" by (rule vm_fold [OF pit_out_ok assms])
  show ?thesis
    using assms p vm_ok_machine [OF c1 serial_irq_ok [OF vm_okD(1) [OF c1], of E]] vm_ok_machine [OF assms c2] vm_ok_machine [OF assms c4]
    by (simp add: pio_out_def on_machine_def)
qed

lemma pio_in_ok:
  assumes "vm_ok clk v"
  shows "vm_ok clk (snd (pio_in com4 E port n v))"
proof -
  have m: "machine_ok clk (vm_m v)" using assms by (rule vm_okD)
  have c1: "machine_ok clk (snd (each_read (com1_read E port) n (vm_m v)))" by (rule machine_reads [OF com1_read_ok m])
  have c2: "machine_ok clk (snd (each_read (com2_read E port) n (vm_m v)))" by (rule machine_reads [OF com2_read_ok m])
  have c4: "machine_ok clk (snd (each_read (com4_read E port) n (vm_m v)))" by (rule machine_reads [OF com4_read_ok m])
  have p: "vm_ok clk (snd (each_read (pit_in E port) n v))" by (rule vm_reads [OF pit_in_ok assms])
  show ?thesis
    using assms p vm_ok_machine [OF assms serial_irq_ok [OF c1, of E]] vm_ok_machine [OF assms c2] vm_ok_machine [OF assms c4]
    by (simp add: pio_in_def split_beta)
qed

lemma mmio_write_ok: "machine_ok clk m \<Longrightarrow> machine_ok clk (mmio_write_exit E addr val m)"
  by (auto simp: mmio_write_exit_def sample_host_def split_beta machine_ok_def intro: lapic_ok_write ioapic_write_invar)

lemma mmio_read_ok: "machine_ok clk m \<Longrightarrow> machine_ok clk (snd (mmio_read_exit E addr m))"
  by (simp add: mmio_read_exit_def split_beta)

lemma device_exit_ok:
  assumes "vm_ok clk v"
  shows "vm_ok clk (device_exit com4 E K exit v)"
proof -
  have m: "machine_ok clk (vm_m v)" using assms by (rule vm_okD)
  show ?thesis
    using assms pio_out_ok [OF assms] pio_in_ok [OF assms] vm_ok_machine [OF assms mmio_write_ok [OF m]]
      vm_ok_machine [OF assms mmio_read_ok [OF m]]
    by (cases exit) (simp_all add: device_exit_def split_beta on_machine_def)
qed

lemma drain_scan_ok: "vm_ok clk v \<Longrightarrow> vm_ok clk (drain_scan E K v)"
  by (simp add: drain_scan_def read_clock_eq split_beta vm_ok_def split: option.split)

lemma control_pump_raised: "control_pump U c l io = (c', l') \<Longrightarrow> raised l l'"
  by (auto simp: control_pump_def control_after_uart_io_def Let_def raised_irq raised_refl split: prod.splits if_splits)

lemma run_boundary_ok:
  assumes "run_boundary E horizon m = (Next r, m')" and "machine_ok clk m"
  shows "machine_ok clk m'"
proof -
  obtain now w where rc: "read_clock E m = (now, m\<lparr>m_os := w\<rparr>)" by (simp add: read_clock_eq)
  obtain fired l q where st: "service_timers (m_lapic m) (m_events m) horizon now = (fired, l, q)" by (metis prod_cases3)
  have l: "lapic_ok clk l" by (rule service_timers_ok [OF machine_okD [OF assms(2)] st])
  have ok: "machine_ok clk (m\<lparr>m_os := w, m_lapic := l, m_events := q\<rparr>)" using l assms(2) by (simp add: machine_ok_def)
  obtain c l2 where cp: "control_pump (e_uart E) (m_com2 m) l (m_ioapic m) = (c, l2)" by fastforce
  let ?m = "m\<lparr>m_os := w, m_lapic := l, m_events := q, m_com2 := c, m_lapic := l2\<rparr>"
  have ok2: "machine_ok clk ?m"
    using lapic_ok_raised [OF l control_pump_raised [OF cp]] assms(2) by (simp add: machine_ok_def)
  obtain r2 m2 where pe: "pump_egress E ?m = (r2, m2)" by fastforce
  obtain fin c3 d where dr: "drain_agent (e_json E) (m_com2 m2) (m_driver m2) = (fin, c3, d)" by (metis prod_cases3)
  show ?thesis
    using assms(1) rc st cp pe dr ok pump_egress_ok [of E ?m "()" m2 clk] ok2
    by (cases fired; cases r2) (auto simp: run_boundary_def Let_def split: if_splits)
qed

lemma inject_step_ok:
  assumes "inject_step K v = (r, v')" and "vm_ok clk v"
  shows "vm_ok clk v'"
proof -
  let ?l = "sync_tpr_from_cr8 (m_lapic (vm_m v)) (kr_cr8 (vm_run v))"
  have l: "lapic_ok clk ?l" using assms(2) by (auto simp: vm_ok_def machine_ok_def intro: lapic_ok_cr8)
  then have "lapic_ok clk (ack_injected ?l vec)" if "deliverable_vector ?l = Some vec" for vec
    using that by (rule lapic_ok_inject)
  then show ?thesis
    using assms l by (auto simp: inject_step_def Let_def vm_ok_def machine_ok_def split: option.splits if_splits prod.splits bool.splits)
qed

lemma arm_doorbell_ok: "vm_ok clk v \<Longrightarrow> vm_ok clk (arm_doorbell E v)"
  by (simp add: arm_doorbell_def split_beta Let_def vm_ok_def)

lemma enter_guest_ok: "enter_guest K v = (r, v') \<Longrightarrow> vm_ok clk v \<Longrightarrow> vm_ok clk v'"
  by (auto simp: enter_guest_def vm_ok_def split: prod.splits)

lemma halt_exit_ok:
  assumes "halt_exit E K ff horizon v = Some (Next r, v')" and "vm_ok clk v"
  shows "vm_ok clk v'"
proof -
  let ?v = "drain_scan E K v"
  let ?w = "?v\<lparr>hlt_count := hlt_count ?v + 1\<rparr>"
  have ok: "vm_ok clk ?v" by (rule drain_scan_ok [OF assms(2)])
  show ?thesis
  proof (cases "if_flag (vm_run ?v) = 0")
    case True
    then show ?thesis using assms(1) ok by (simp add: halt_exit_def)
  next
    case False
    then obtain out m where p: "park_until_deliverable E ff horizon (vm_m ?v) = Some (Next out, m)" and v': "v' = ?w\<lparr>vm_m := m\<rparr>"
      using assms(1) by (auto simp: halt_exit_def Let_def elim!: bind_flow_NextE)
    have "machine_ok clk m" by (rule park_ok [OF p vm_okD(1) [OF ok]])
    then show ?thesis unfolding v' using ok by (intro vm_ok_machine) simp_all
  qed
qed

lemma handle_exit_ok:
  assumes "handle_exit E K ff horizon exit v = Some (Next r, v')" and "vm_ok clk v"
  shows "vm_ok clk v'"
  using assms halt_exit_ok [of E K ff horizon v r v' clk] device_exit_ok [OF assms(2), of True E K exit]
  by (cases exit) (simp_all add: handle_exit_def)

lemma before_entry_cases:
  assumes "before_entry E K horizon v = (Next r, v')" and "v0 = v\<lparr>vm_bell := doorbell_clear (vm_doorbell v) (vm_bell v)\<rparr>"
  obtains (stop) x m where "run_boundary E horizon (vm_m v) = (Next (Some x), m)" "r = Some x" "v' = v0\<lparr>vm_m := m\<rparr>"
  | (enter) m v2 where "run_boundary E horizon (vm_m v) = (Next None, m)"
      "inject_step K (drain_scan E K (v0\<lparr>vm_m := m\<rparr>)) = (Next (), v2)" "r = None" "v' = arm_doorbell E v2"
proof -
  obtain rb m where b: "run_boundary E horizon (vm_m v) = (rb, m)" by fastforce
  obtain ri v2 where i: "inject_step K (drain_scan E K (v0\<lparr>vm_m := m\<rparr>)) = (ri, v2)" by fastforce
  have "bind_flow (rb, v0\<lparr>vm_m := m\<rparr>) (\<lambda>stop v. if stop \<noteq> None then (Next stop, v)
      else bind_flow (inject_step K (drain_scan E K v)) (\<lambda>_ v. (Next None, arm_doorbell E v))) = (Next r, v')"
    using assms b by (simp add: before_entry_def)
  then show thesis using b i that by (cases rb; cases ri) (auto split: if_splits)
qed

lemma before_entry_ok:
  assumes "before_entry E K horizon v = (Next r, v')" and "vm_ok clk v"
  shows "vm_ok clk v'"
  using assms(1) refl
proof (cases rule: before_entry_cases)
  case (stop x m)
  then show ?thesis using run_boundary_ok [OF stop(1)] assms(2) by (simp add: vm_ok_def)
next
  case (enter m v2)
  have "vm_ok clk (v\<lparr>vm_bell := doorbell_clear (vm_doorbell v) (vm_bell v), vm_m := m\<rparr>)"
    using run_boundary_ok [OF enter(1)] assms(2) by (simp add: vm_ok_def)
  then show ?thesis using inject_step_ok [OF enter(2) drain_scan_ok] enter(4) by (simp add: arm_doorbell_ok)
qed

lemma run_iter_cases:
  assumes "run_iter E K ff horizon v = Some (r, v')"
  obtains (stop) "before_entry E K horizon v = (r, v')" "r \<noteq> Next None"
  | (failed) v1 e where "before_entry E K horizon v = (Next None, v1)" "enter_guest K v1 = (RunErrno e, v')"
      "r = (if e = EINTR \<or> e = EAGAIN then Next None else Fails (KvmFailed ''KVM_RUN''))"
  | (ran) v1 v2 exit where "before_entry E K horizon v = (Next None, v1)" "enter_guest K v1 = (Ran exit, v2)"
      "handle_exit E K ff horizon exit v2 = Some (r, v')"
  using assms by (auto simp: run_iter_def split: prod.splits flow.splits option.splits run_result.splits if_splits)

lemma run_iter_ok:
  assumes "run_iter E K ff horizon v = Some (Next r, v')" and "vm_ok clk v"
  shows "vm_ok clk v'"
  using assms(1)
proof (cases rule: run_iter_cases)
  case stop
  then show ?thesis using before_entry_ok assms(2) by blast
next
  case (failed v1 e)
  then show ?thesis using before_entry_ok [OF failed(1) assms(2)] enter_guest_ok by blast
next
  case (ran v1 v2 exit)
  then show ?thesis using before_entry_ok [OF ran(1) assms(2)] enter_guest_ok handle_exit_ok by blast
qed

section \<open>The log capture\<close>

lemma find_reply_raised: "lapic_ok clk l \<Longrightarrow> find_reply J U want io c l = (rep, c', l') \<Longrightarrow> lapic_ok clk l'"
proof (induction J U want io c l arbitrary: rep c' l' rule: find_reply.induct)
  case (1 J U want io c l)
  obtain line c1 where p: "poll_line c = (line, c1)" by fastforce
  obtain c2 l2 where cp: "control_pump U c1 l io = (c2, l2)" by fastforce
  have l2: "lapic_ok clk l2" by (rule lapic_ok_raised [OF 1(3) control_pump_raised [OF cp]])
  show ?case
  proof (cases line)
    case None
    then show ?thesis using 1(3,4) p by (simp add: find_reply.simps [of J U want io c])
  next
    case (Some x)
    show ?thesis
    proof (cases "\<exists>rep. decode_line J x = Some rep \<and> rep_id rep = Some want")
      case True
      then show ?thesis using 1(3,4) p Some by (auto simp: find_reply.simps [of J U want io c])
    next
      case False
      then have f: "find_reply J U want io c2 l2 = (rep, c', l')"
        using 1(4) p Some cp by (cases "decode_line J x") (auto simp: find_reply.simps [of J U want io c] split: if_splits)
      show ?thesis
      proof (cases "decode_line J x")
        case None
        then show ?thesis using 1(1) [OF p [symmetric] Some None] f l2 cp by simp
      next
        case (Some r)
        then show ?thesis using 1(2) [OF p [symmetric] \<open>line = Some x\<close> Some] f l2 cp False by simp
      qed
    qed
  qed
qed

lemma capture_boundary_ok:
  assumes "capture_boundary E want horizon wall m = (Next None, m')" and "machine_ok clk m"
  shows "machine_ok clk m'"
proof -
  obtain t m1 where ri: "read_instant E m = (t, m1)" by fastforce
  have m1: "machine_ok clk m1" "m_lapic m1 = m_lapic m" "m_events m1 = m_events m" "m_ioapic m1 = m_ioapic m" "m_com2 m1 = m_com2 m"
    using ri assms(2) by (auto simp: read_instant_eq)
  obtain now w where rc: "read_clock E m1 = (now, m1\<lparr>m_os := w\<rparr>)" by (simp add: read_clock_eq)
  obtain fired l q where st: "service_timers (m_lapic m1) (m_events m1) (Some horizon) now = (fired, l, q)" by (metis prod_cases3)
  have l: "lapic_ok clk l" by (rule service_timers_ok [OF machine_okD [OF m1(1)] st])
  obtain c l2 where cp: "control_pump (e_uart E) (m_com2 m1) l (m_ioapic m1) = (c, l2)" by fastforce
  have l2: "lapic_ok clk l2" by (rule lapic_ok_raised [OF l control_pump_raised [OF cp]])
  obtain rep c3 l3 where fr: "find_reply (e_json E) (e_uart E) want (m_ioapic m1) c l2 = (rep, c3, l3)" by (metis prod_cases3)
  let ?m = "m1\<lparr>m_os := w, m_lapic := l, m_events := q, m_com2 := c3, m_lapic := l3\<rparr>"
  have ok: "machine_ok clk ?m" using find_reply_raised [OF l2 fr] m1(1) by (simp add: machine_ok_def)
  obtain r2 m2 where pe: "pump_egress E ?m = (r2, m2)" by fastforce
  show ?thesis
    using assms(1) ri rc st cp fr pe pump_egress_ok [of E ?m "()" m2 clk] ok
    by (cases fired; cases r2) (auto simp: capture_boundary_def Let_def pump_egress_def split: if_splits option.splits prod.splits sum.splits)
qed

lemma capture_exit_ok:
  assumes "capture_exit E K ff horizon exit v = Some (Next None, v')" and "vm_ok clk v"
  shows "vm_ok clk v'"
proof (cases "exit = Hlt")
  case True
  let ?m = "(vm_m v)\<lparr>m_driver := driver_default\<rparr>"
  have live: "if_flag (vm_run v) \<noteq> 0" using assms(1) True by (auto simp: capture_exit_def capture_park_def)
  obtain r m where p: "park_until_deliverable E ff (Some horizon) ?m = Some (r, m)"
    using assms(1) True live by (cases "park_until_deliverable E ff (Some horizon) ?m") (auto simp: capture_exit_def capture_park_def)
  have "v' = v\<lparr>vm_m := m\<lparr>m_driver := m_driver (vm_m v)\<rparr>\<rparr> \<and> (\<exists>out. r = Next out)"
    using assms(1) True live p
    by (cases r) (auto simp: capture_exit_def capture_park_def Let_def split: ParkOutcome.splits)
  then have v': "v' = v\<lparr>vm_m := m\<lparr>m_driver := m_driver (vm_m v)\<rparr>\<rparr>" and r: "\<exists>out. r = Next out" by auto
  from r obtain out where q: "park_until_deliverable E ff (Some horizon) ?m = Some (Next out, m)" using p by blast
  have "machine_ok clk m" by (rule park_ok [OF q]) (use assms(2) in \<open>simp add: vm_ok_def\<close>)
  then show ?thesis unfolding v' using assms(2) by (intro vm_ok_machine) simp_all
next
  case False
  then show ?thesis using assms device_exit_ok [OF assms(2), of False E K exit] by (cases exit) (simp_all add: capture_exit_def)
qed

lemma drive_iter_cases:
  assumes "drive_iter E K ff want horizon wall v = Some (Next None, v')"
    and "v0 = v\<lparr>vm_bell := doorbell_clear (vm_doorbell v) (vm_bell v)\<rparr>"
  obtains m v1 v2 res where "capture_boundary E want horizon wall (vm_m v) = (Next None, m)"
    "inject_step K (v0\<lparr>vm_m := m\<rparr>) = (Next (), v1)" "enter_guest K (arm_doorbell E v1) = (res, v2)"
    "v2 = v' \<or> (\<exists>exit. res = Ran exit \<and> capture_exit E K ff horizon exit v2 = Some (Next None, v'))"
proof -
  obtain r m where b: "capture_boundary E want horizon wall (vm_m v) = (r, m)" by fastforce
  obtain ri v1 where i: "inject_step K (v0\<lparr>vm_m := m\<rparr>) = (ri, v1)" by fastforce
  obtain res v2 where e: "enter_guest K (arm_doorbell E v1) = (res, v2)" by fastforce
  have "r = Next None" "ri = Next ()"
    "v2 = v' \<or> (\<exists>exit. res = Ran exit \<and> capture_exit E K ff horizon exit v2 = Some (Next None, v'))"
    using assms b i e
    by (auto simp: drive_iter_def Let_def split: flow.splits option.splits run_result.splits if_splits)
  then show thesis using that b i e by blast
qed

lemma drive_iter_ok:
  assumes "drive_iter E K ff want horizon wall v = Some (Next None, v')" and "vm_ok clk v"
  shows "vm_ok clk v'"
  using assms(1) refl
proof (cases rule: drive_iter_cases)
  case (1 m v1 v2 res)
  have "machine_ok clk m" by (rule capture_boundary_ok [OF 1(1) vm_okD(1) [OF assms(2)]])
  then have "vm_ok clk (v\<lparr>vm_bell := doorbell_clear (vm_doorbell v) (vm_bell v), vm_m := m\<rparr>)"
    using assms(2) by (intro vm_ok_machine) simp_all
  then have "vm_ok clk v1" by (rule inject_step_ok [OF 1(2)])
  then have "vm_ok clk v2" using enter_guest_ok [OF 1(3)] arm_doorbell_ok by blast
  then show ?thesis using 1(4) capture_exit_ok by blast
qed

section \<open>Reachable states\<close>

text \<open>
  The states of a run: the devices as they are built, the rounds of the loop, and, for the
  log capture, a queued request and the rounds that go on.
\<close>

inductive run_reach :: "('c, 'a, 'p, 'u, 'j, 'w) env \<Rightarrow> 'w kvm \<Rightarrow> VirtualClock \<Rightarrow> ('c, 'p, 'u, 'w) vm \<Rightarrow> bool"
  for E K clk where
  built: "vm_new cpuid clk cells serial com2 egress parker ff bell run console scan w = Ok v
    \<Longrightarrow> (\<forall>eg. egress = Some eg \<longrightarrow> (\<exists>ep c. with_connector (e_conn E) ep c = Inr (ec_backend eg))) \<Longrightarrow> run_reach E K clk v"
| round: "run_reach E K clk v \<Longrightarrow> run_iter E K ff horizon v = Some (Next r, v') \<Longrightarrow> run_reach E K clk v'"
| request: "run_reach E K clk v
    \<Longrightarrow> control_pump (e_uart E) (send_frame (drop_lines (m_com2 (vm_m v))) framed) (m_lapic (vm_m v)) (m_ioapic (vm_m v)) = (c, l)
    \<Longrightarrow> run_reach E K clk (v\<lparr>vm_m := (vm_m v)\<lparr>m_com2 := c, m_lapic := l\<rparr>\<rparr>)"
| capture: "run_reach E K clk v \<Longrightarrow> drive_iter E K ff want dl wall v = Some (Next None, v') \<Longrightarrow> run_reach E K clk v'"

lemma clock_clone_eq: "clock_clone clk = clk"
  by (simp add: clock_clone_def)

lemma vm_new_ok:
  assumes "vm_new cpuid clk cells serial com2 egress parker ff bell run console scan w = Ok v"
    and "\<And>eg. egress = Some eg \<Longrightarrow> backend_ok (ec_backend eg)"
  shows "vm_ok clk v"
proof -
  obtain num den where r: "apic_timer_tsc_ratio cpuid (hz (vc_freq clk)) = (num, den)" by fastforce
  obtain l where l: "lapic_new clk num den = Ok l"
    using assms(1) r by (cases "lapic_new clk num den") (simp_all add: vm_new_def clock_clone_eq)
  have lo: "lapic_ok clk l" unfolding lapic_ok_def using l by (intro exI conjI) (assumption, rule rtranclp.rtrancl_refl)
  have v: "m_clock (vm_m v) = clk" "m_lapic (vm_m v) = l" "m_ioapic (vm_m v) = ioapic_new mptable_ioapic_id"
    "m_egress (vm_m v) = egress" "vm_pit v = pit_new clk"
    using assms(1) r l by (auto simp: vm_new_def clock_clone_eq)
  show ?thesis
    using lo assms(2) ioapic_new_invar by (simp add: vm_ok_def machine_ok_def v pit_ok_def pit_new_def)
qed

lemma request_ok:
  assumes "vm_ok clk v" and "control_pump U ch (m_lapic (vm_m v)) io = (c, l)"
  shows "vm_ok clk (v\<lparr>vm_m := (vm_m v)\<lparr>m_com2 := c, m_lapic := l\<rparr>\<rparr>)"
proof -
  have m: "machine_ok clk (vm_m v)" by (rule vm_okD(1) [OF assms(1)])
  have "lapic_ok clk l" by (rule lapic_ok_raised [OF machine_okD [OF m] control_pump_raised [OF assms(2)]])
  then have "machine_ok clk ((vm_m v)\<lparr>m_com2 := c, m_lapic := l\<rparr>)" using m by (simp add: machine_ok_def)
  then show ?thesis by (rule vm_ok_machine [OF assms(1)])
qed

lemma run_reach_ok: "run_reach E K clk v \<Longrightarrow> vm_ok clk v"
proof (induction rule: run_reach.induct)
  case (built cpuid cells serial com2 egress parker ff bell run console scan w v)
  show ?case
  proof (rule vm_new_ok [OF built(1)])
    fix eg assume "egress = Some eg"
    then obtain ep c where "with_connector (e_conn E) ep c = Inr (ec_backend eg)" using built(2) by blast
    then show "backend_ok (ec_backend eg)" by (rule egress_reach_ok [OF egress_reach.start])
  qed
next
  case (round v ff horizon r v')
  show ?case by (rule run_iter_ok [OF round(2,3)])
next
  case (request v framed c l)
  show ?case by (rule request_ok [OF request(3,2)])
next
  case (capture v ff want dl wall v')
  show ?case by (rule drive_iter_ok [OF capture(2,3)])
qed

section \<open>At the entry\<close>

lemma injected_not_deliverable:
  assumes "lapic_invar l" and "deliverable_vector l = Some vec"
  shows "deliverable_vector (ack_injected l vec) = None" and "in_service (ack_injected l vec) = insert vec (in_service l)"
proof -
  have ok: "vb_ok (irr l)" "vb_ok (isr l)" using assms(1) by (auto simp: lapic_invar_def)
  have top: "\<forall>u \<in> pending l. u \<le> vec" using deliverable_iff [OF assms(1)] assms(2) by blast
  show s: "in_service (ack_injected l vec) = insert vec (in_service l)"
    using ok by (simp add: ack_injected_def vb.members_put)
  have sub: "pending (ack_injected l vec) \<subseteq> pending l" using ok by (auto simp: ack_injected_def vb.members_del)
  show "deliverable_vector (ack_injected l vec) = None"
  proof (rule ccontr)
    assume "deliverable_vector (ack_injected l vec) \<noteq> None"
    then obtain u where u: "deliverable_vector (ack_injected l vec) = Some u" by blast
    then have "u \<in> pending (ack_injected l vec)" "prio vec < prio u"
      using deliverable_iff [OF lapic_invar_ack [OF assms(1)]] s by auto
    then have "u \<le> vec" using sub top by blast
    then have "prio u \<le> prio vec" unfolding prio_def word_le_nat_alt by (rule div_le_mono)
    then show False using \<open>prio vec < prio u\<close> by simp
  qed
qed

lemma fire_events_isr: "isr (fst (snd (fire_events l q fired now))) = isr l"
proof (induction l q fired now rule: fire_events.induct)
  case (1 l q fired now)
  have "fire_timer_if_due l now = Some (l', b) \<Longrightarrow> isr l' = isr l" for l' b by (rule fire_frame)
  then show ?case
    using "1.IH"(1) [OF sym refl _ _ _ sym] "1.IH"(2) [OF sym refl]
    by (auto simp: fire_events.simps [of l q] split: prod.splits option.splits TimerKind.splits)
qed

lemma raised_isr: "raised l l' \<Longrightarrow> isr l' = isr l"
  by (auto simp: raised_def lapic_raise_def)

lemma run_boundary_isr:
  assumes "run_boundary E horizon m = (Next r, m')"
  shows "isr (m_lapic m') = isr (m_lapic m)"
proof -
  obtain now w where rc: "read_clock E m = (now, m\<lparr>m_os := w\<rparr>)" by (simp add: read_clock_eq)
  obtain fired l q where st: "service_timers (m_lapic m) (m_events m) horizon now = (fired, l, q)" by (metis prod_cases3)
  have l: "isr l = isr (m_lapic m)"
    using fire_events_isr [of "m_lapic m"] st by (auto simp: service_timers_def Let_def dest!: arg_cong [where f = "fst \<circ> snd"])
  obtain c l2 where cp: "control_pump (e_uart E) (m_com2 m) l (m_ioapic m) = (c, l2)" by fastforce
  have l2: "isr l2 = isr l" by (rule raised_isr [OF control_pump_raised [OF cp]])
  let ?m = "m\<lparr>m_os := w, m_lapic := l, m_events := q, m_com2 := c, m_lapic := l2\<rparr>"
  obtain r2 m2 where pe: "pump_egress E ?m = (r2, m2)" by fastforce
  have m2: "isr (m_lapic m2) = isr l2"
    using pe by (auto simp: pump_egress_def dest!: channel_pump_raised raised_isr split: option.splits prod.splits sum.splits)
  obtain fin c3 d where dr: "drain_agent (e_json E) (m_com2 m2) (m_driver m2) = (fin, c3, d)" by (metis prod_cases3)
  show ?thesis
    using assms rc st cp pe dr l l2 m2
    by (cases fired; cases r2) (auto simp: run_boundary_def Let_def split: if_splits)
qed

lemma drain_scan_frame [simp]:
  "m_lapic (vm_m (drain_scan E K v)) = m_lapic (vm_m v)" "m_events (vm_m (drain_scan E K v)) = m_events (vm_m v)"
  "vm_run (drain_scan E K v) = vm_run v" "vm_doorbell (drain_scan E K v) = vm_doorbell v"
  "m_driver (vm_m (drain_scan E K v)) = m_driver (vm_m v)" "m_cells (vm_m (drain_scan E K v)) = m_cells (vm_m v)"
  "m_clock (vm_m (drain_scan E K v)) = m_clock (vm_m v)"
  by (simp_all add: drain_scan_def read_clock_eq split_beta Let_def split: option.split)

lemma arm_doorbell_frame:
  "m_lapic (vm_m (arm_doorbell E v)) = m_lapic (vm_m v)" "m_events (vm_m (arm_doorbell E v)) = m_events (vm_m v)"
  "vm_run (arm_doorbell E v) = vm_run v" "m_driver (vm_m (arm_doorbell E v)) = m_driver (vm_m v)"
  "db_enabled (vm_doorbell v) \<Longrightarrow> last_armed (vm_doorbell (arm_doorbell E v))
     = min_deadline (eq_peek_deadline (m_events (vm_m v))) (timer_deadline (m_lapic (vm_m v)))"
  by (auto simp: arm_doorbell_def sample_host_def doorbell_arm_def arm_swap_def arm_set_def split_beta Let_def)

lemma inject_step_spec:
  assumes "inject_step K v = (Next x, v')" and "lapic_invar (m_lapic (vm_m v))"
  shows "request_interrupt_window (vm_run v') = (if deliverable_vector (m_lapic (vm_m v')) \<noteq> None then 1 else 0)
    \<and> kr_cr8 (vm_run v') = ucast (drop_bit 4 (tpr (m_lapic (vm_m v')))) \<and> vm_doorbell v' = vm_doorbell v
    \<and> (in_service (m_lapic (vm_m v')) = in_service (m_lapic (vm_m v)) \<or>
       ready_for_interrupt_injection (vm_run v) \<noteq> 0 \<and> if_flag (vm_run v) \<noteq> 0
       \<and> (\<exists>vec. deliverable_vector (sync_tpr_from_cr8 (m_lapic (vm_m v)) (kr_cr8 (vm_run v))) = Some vec
            \<and> in_service (m_lapic (vm_m v')) = insert vec (in_service (m_lapic (vm_m v)))))"
proof -
  let ?l = "sync_tpr_from_cr8 (m_lapic (vm_m v)) (kr_cr8 (vm_run v))"
  have l: "lapic_invar ?l" "in_service ?l = in_service (m_lapic (vm_m v))"
    using lapic_invar_sync [OF assms(2)] by (auto simp: sync_tpr_from_cr8_def)
  show ?thesis
  proof (cases "\<exists>vec. deliverable_vector ?l = Some vec \<and> ready_for_interrupt_injection (vm_run v) \<noteq> 0 \<and> if_flag (vm_run v) \<noteq> 0")
    case True
    then obtain vec where vec: "deliverable_vector ?l = Some vec" "ready_for_interrupt_injection (vm_run v) \<noteq> 0" "if_flag (vm_run v) \<noteq> 0"
      by blast
    obtain ok w where k: "k_interrupt K (m_os (vm_m v)) vec = (ok, w)" by fastforce
    have "ok" "m_lapic (vm_m v') = ack_injected ?l vec" "vm_doorbell v' = vm_doorbell v"
      "vm_run v' = (vm_run v)\<lparr>request_interrupt_window := 0, kr_cr8 := ucast (drop_bit 4 (tpr (ack_injected ?l vec)))\<rparr>"
      using assms(1) vec k by (auto simp: inject_step_def Let_def split: bool.splits)
    then show ?thesis using injected_not_deliverable [OF l(1) vec(1)] l(2) vec by simp
  next
    case False
    then have "m_lapic (vm_m v') = ?l" "vm_doorbell v' = vm_doorbell v"
      "vm_run v' = (vm_run v)\<lparr>request_interrupt_window := (if deliverable_vector ?l \<noteq> None then 1 else 0), kr_cr8 := ucast (drop_bit 4 (tpr ?l))\<rparr>"
      using assms(1) by (auto simp: inject_step_def Let_def split: option.splits if_splits)
    then show ?thesis using l(2) by simp
  qed
qed

lemma sync_tpr_class: "unat (tpr (sync_tpr_from_cr8 l cr8)) div 16 = unat (cr8 AND 0xf)"
proof -
  have "cr8 AND 0xf = cr8 AND mask 4" by (simp add: mask_eq_exp_minus_1)
  then have m: "unat (cr8 AND 0xf) = unat cr8 mod 16" by (simp only: unat_and_mask) simp
  then have u: "unat (ucast (cr8 AND 0xf) :: u32) = unat cr8 mod 16"
    by (simp add: unsigned_ucast_eq take_bit_nat_eq_self)
  have "unat (push_bit 4 (ucast (cr8 AND 0xf)) :: u32) = 16 * (unat cr8 mod 16)"
    by (simp only: unat_push_bit u) (simp add: take_bit_nat_eq_self)
  then show ?thesis unfolding sync_tpr_from_cr8_def using m by (simp del: push_bit_numeral)
qed

lemma entry_spec:
  assumes "run_reach E K clk v" and "before_entry E K horizon v = (Next None, v')"
  shows "request_interrupt_window (vm_run v') = (if deliverable_vector (m_lapic (vm_m v')) \<noteq> None then 1 else 0)
    \<and> kr_cr8 (vm_run v') = ucast (drop_bit 4 (tpr (m_lapic (vm_m v'))))
    \<and> (db_enabled (vm_doorbell v) \<longrightarrow> last_armed (vm_doorbell v')
         = min_deadline (eq_peek_deadline (m_events (vm_m v'))) (timer_deadline (m_lapic (vm_m v'))))
    \<and> (in_service (m_lapic (vm_m v')) = in_service (m_lapic (vm_m v)) \<or>
       ready_for_interrupt_injection (vm_run v) \<noteq> 0 \<and> if_flag (vm_run v) \<noteq> 0
       \<and> (\<exists>vec. (\<forall>u \<in> in_service (m_lapic (vm_m v)). prio u < prio vec) \<and> unat (kr_cr8 (vm_run v) AND 0xf) < prio vec
            \<and> in_service (m_lapic (vm_m v')) = insert vec (in_service (m_lapic (vm_m v)))))"
  using assms(2) refl
proof (cases rule: before_entry_cases)
  case (enter m v2)
  let ?v = "drain_scan E K (v\<lparr>vm_bell := doorbell_clear (vm_doorbell v) (vm_bell v), vm_m := m\<rparr>)"
  let ?l = "sync_tpr_from_cr8 (m_lapic m) (kr_cr8 (vm_run v))"
  have ok: "machine_ok clk m" by (rule run_boundary_ok [OF enter(1) vm_okD(1) [OF run_reach_ok [OF assms(1)]]])
  have inv: "lapic_invar (m_lapic m)" by (rule lapic_okD(1) [OF machine_okD [OF ok]])
  have isr: "in_service (m_lapic m) = in_service (m_lapic (vm_m v))" using run_boundary_isr [OF enter(1)] by simp
  have i: "in_service ?l = in_service (m_lapic m)" "unat (tpr ?l) div 16 = unat (kr_cr8 (vm_run v) AND 0xf)"
    using sync_tpr_class [of "m_lapic m" "kr_cr8 (vm_run v)"] by (simp_all add: sync_tpr_from_cr8_def)
  have dv: "deliverable_vector ?l = Some vec \<Longrightarrow>
      (\<forall>u \<in> in_service (m_lapic (vm_m v)). prio u < prio vec) \<and> unat (kr_cr8 (vm_run v) AND 0xf) < prio vec" for vec
    using deliverable_iff [OF lapic_invar_sync [OF inv, of "kr_cr8 (vm_run v)"]] i isr by auto
  have s: "request_interrupt_window (vm_run v2) = (if deliverable_vector (m_lapic (vm_m v2)) \<noteq> None then 1 else 0)"
    "kr_cr8 (vm_run v2) = ucast (drop_bit 4 (tpr (m_lapic (vm_m v2))))" "vm_doorbell v2 = vm_doorbell v"
    "in_service (m_lapic (vm_m v2)) = in_service (m_lapic m) \<or>
       ready_for_interrupt_injection (vm_run v) \<noteq> 0 \<and> if_flag (vm_run v) \<noteq> 0
       \<and> (\<exists>vec. deliverable_vector ?l = Some vec \<and> in_service (m_lapic (vm_m v2)) = insert vec (in_service (m_lapic m)))"
    using inject_step_spec [OF enter(2)] inv by auto
  show ?thesis
    unfolding enter(4) arm_doorbell_frame
    using s dv isr arm_doorbell_frame(5) [of v2 E] by auto
qed simp

end
