(* ===== verification/RunOutcome.thy ===== *)
theory RunOutcome
  imports RunProps
begin

text \<open>
  Properties of whole runs of the vCPU loop of \<open>src/src/main.rs\<close>: the well-formedness of the devices, the
  protocol at the entry of the guest, the meaning of a stop reason, and that the log capture after a run
  changes neither its verdict nor its exit code.
\<close>

section \<open>Stops\<close>

definition stop_holds ::
  "('c, 'a, 'p, 'u, 'j, 'w) env \<Rightarrow> u64 option \<Rightarrow> StopReason \<Rightarrow> ('c, 'p, 'u, 'w) vm \<Rightarrow> bool" where
  "stop_holds E horizon stop v \<longleftrightarrow>
     (case stop of
        Horizon \<Rightarrow> (\<exists>h w. horizon = Some h
          \<and> h \<le> vtsc_from_host (m_cells (vm_m v)) (m_clock (vm_m v)) (fst (e_rdtsc E w)))
      | DriverFinish \<Rightarrow> dr_verdict (m_driver (vm_m v)) \<noteq> None
      | GuestHalt \<Rightarrow> if_flag (vm_run v) = 0
      | _ \<Rightarrow> True)"

lemma run_boundary_stop:
  assumes "run_boundary E horizon m = (Next (Some s), m')"
  shows "(s = Horizon \<and> (\<exists>h. horizon = Some h \<and> h \<le> vtsc_from_host (m_cells m') (m_clock m') (fst (e_rdtsc E (m_os m)))))
    \<or> (s = DriverFinish \<and> dr_verdict (m_driver m') \<noteq> None)"
proof -
  obtain fired l q where st: "service_timers (m_lapic m) (m_events m) horizon
      (vtsc_from_host (m_cells m) (m_clock m) (fst (e_rdtsc E (m_os m)))) = (fired, l, q)" by (metis prod_cases3)
  let ?m = "m\<lparr>m_os := snd (e_rdtsc E (m_os m)), m_lapic := l, m_events := q\<rparr>"
  obtain c l2 where cp: "control_pump (e_uart E) (m_com2 m) l (m_ioapic m) = (c, l2)" by fastforce
  obtain r2 m2 where pe: "pump_egress E (?m\<lparr>m_com2 := c, m_lapic := l2\<rparr>) = (r2, m2)" by fastforce
  obtain fin c3 d where dr: "drain_agent (e_json E) (m_com2 m2) (m_driver m2) = (fin, c3, d)" by (metis prod_cases3)
  have step: "run_boundary E horizon m = bind_flow (fired, ?m) (\<lambda>fired m.
      if fired then (Next (Some Horizon), m) else bind_flow (r2, m2) (\<lambda>_ m.
        (Next (if fin then Some DriverFinish else None), m2\<lparr>m_com2 := c3, m_driver := d\<rparr>)))"
    using st cp pe dr by (cases fired; cases r2) (simp_all add: run_boundary_def read_clock_eq Let_def)
  show ?thesis
  proof (cases "fired = Next True")
    case True
    then have "s = Horizon" "m' = ?m" using assms step by auto
    then show ?thesis using service_timers_horizon [OF st [unfolded True]] by auto
  next
    case False
    then have "fin" "s = DriverFinish" "m' = m2\<lparr>m_com2 := c3, m_driver := d\<rparr>"
      using assms step by (cases fired; cases r2; auto split: if_splits)+
    then show ?thesis using drain_agent_finished [OF dr] by simp
  qed
qed

lemma halt_exit_stop:
  assumes "halt_exit E K ff horizon v = Some (Next (Some s), v')"
  shows "stop_holds E horizon s v'"
proof -
  let ?v = "drain_scan E K v"
  show ?thesis
  proof (cases "if_flag (vm_run ?v) = 0")
    case True
    then have "s = GuestHalt" "v' = ?v" using assms by (auto simp: halt_exit_def)
    then show ?thesis using True by (simp add: stop_holds_def)
  next
    case False
    then obtain out m where p: "park_until_deliverable E ff horizon (vm_m ?v) = Some (Next out, m)"
      and s: "(case out of ParkHorizon \<Rightarrow> Some Horizon | ParkDriverFinish \<Rightarrow> Some DriverFinish | Deliverable \<Rightarrow> None) = Some s"
      and v': "vm_m v' = m"
      using assms by (auto simp: halt_exit_def Let_def elim!: bind_flow_NextE)
    have "outcome_holds E horizon out m" using park_outcome [OF p] by blast
    then show ?thesis using s v' by (cases out) (auto simp: outcome_holds_def stop_holds_def)
  qed
qed

lemma run_iter_stop:
  assumes "run_iter E K ff horizon v = Some (Next (Some s), v')"
  shows "stop_holds E horizon s v'"
  using assms
proof (cases rule: run_iter_cases)
  case stop
  from stop(1) refl show ?thesis
  proof (cases rule: before_entry_cases)
    case (stop x m)
    then have x: "x = s" "vm_m v' = m" by auto
    show ?thesis using run_boundary_stop [OF stop(1)] unfolding x by (auto simp: stop_holds_def x(2))
  qed simp
next
  case (failed v1 e)
  then show ?thesis by (simp split: if_splits)
next
  case (ran v1 v2 exit)
  show ?thesis
    using ran(3) halt_exit_stop [of E K ff horizon v2 s v'] by (cases exit) (auto simp: handle_exit_def stop_holds_def)
qed

lemma run_loop_result:
  assumes "run_loop iter v = Some (r, v')" and "I v"
    and "\<And>v v' r. iter v = Some (r, v') \<Longrightarrow> I v \<Longrightarrow> I v' \<and> (\<forall>s. r = Next (Some s) \<longrightarrow> Q s v')"
  shows "I v' \<and> (\<forall>s. r = Next s \<longrightarrow> Q s v')"
proof -
  let ?P = "\<lambda>it v y. it = iter \<longrightarrow> I v \<longrightarrow> (case y of (r, v') \<Rightarrow> I v' \<and> (\<forall>s. r = Next s \<longrightarrow> Q s v'))"
  have "?P iter v (r, v')"
  proof (rule run_loop.raw_induct [where P = ?P, OF _ assms(1)], goal_cases)
    case (1 loop it v y)
    show ?case
    proof (intro impI)
      assume it: "it = iter" and iv: "I v"
      obtain r1 v1 where i: "iter v = Some (r1, v1)" using 1(2) it by (cases "iter v") auto
      show "case y of (r, v') \<Rightarrow> I v' \<and> (\<forall>s. r = Next s \<longrightarrow> Q s v')"
        using 1 assms(3) [OF i iv] it i by (cases r1) (auto split: option.splits)
    qed
  qed
  then show ?thesis using assms(2) by simp
qed

lemma run_loop_stop:
  assumes "run_loop (run_iter E K ff horizon) v = Some (Next stop, v')"
  shows "stop_holds E horizon stop v'"
  using run_loop_result [OF assms, of "\<lambda>_. True" "stop_holds E horizon"] run_iter_stop by blast

section \<open>The log capture leaves the verdict alone\<close>

abbreviation driver_of :: "('c, 'p, 'u, 'w) vm \<Rightarrow> DriverRun" where
  "driver_of v \<equiv> m_driver (vm_m v)"

lemma pump_egress_driver: "pump_egress E m = (r, m') \<Longrightarrow> m_driver m' = m_driver m"
  by (auto simp: pump_egress_def split: option.splits prod.splits sum.splits)

lemma capture_boundary_driver:
  assumes "capture_boundary E want horizon wall m = (r, m')"
  shows "m_driver m' = m_driver m"
proof -
  obtain t m1 where ri: "read_instant E m = (t, m1)" by fastforce
  have m1: "m_driver m1 = m_driver m" using ri by (auto simp: read_instant_eq)
  obtain now w where rc: "read_clock E m1 = (now, m1\<lparr>m_os := w\<rparr>)" by (simp add: read_clock_eq)
  obtain fired l q where st: "service_timers (m_lapic m1) (m_events m1) (Some horizon) now = (fired, l, q)" by (metis prod_cases3)
  obtain c l2 where cp: "control_pump (e_uart E) (m_com2 m1) l (m_ioapic m1) = (c, l2)" by fastforce
  obtain rep c3 l3 where fr: "find_reply (e_json E) (e_uart E) want (m_ioapic m1) c l2 = (rep, c3, l3)" by (metis prod_cases3)
  let ?m = "m1\<lparr>m_os := w, m_lapic := l, m_events := q, m_com2 := c3, m_lapic := l3\<rparr>"
  obtain r2 m2 where pe: "pump_egress E ?m = (r2, m2)" by fastforce
  have "m_driver m2 = m_driver m1" using pump_egress_driver [OF pe] by simp
  then show ?thesis
    using assms ri rc st cp fr pe m1
    by (cases fired; cases r2) (auto simp: capture_boundary_def Let_def split: if_splits)
qed

lemma inject_step_driver: "inject_step K v = (r, v') \<Longrightarrow> driver_of v' = driver_of v"
  by (auto simp: inject_step_def Let_def split: option.splits if_splits prod.splits bool.splits)

lemma enter_guest_driver: "enter_guest K v = (r, v') \<Longrightarrow> driver_of v' = driver_of v"
  by (auto simp: enter_guest_def split: prod.splits)

lemma com_driver:
  "driver_of (com1_write E K port b v) = driver_of v" "m_driver (snd (com1_read E port m)) = m_driver m"
  "m_driver (com2_write E port b m) = m_driver m" "m_driver (snd (com2_read E port m)) = m_driver m"
  "m_driver (com4_write E port b m) = m_driver m" "m_driver (snd (com4_read E port m)) = m_driver m"
  "driver_of (pit_out E port b v) = driver_of v" "driver_of (snd (pit_in E port v)) = driver_of v"
  "m_driver (serial_irq E m) = m_driver m"
  by (simp_all add: com1_write_def com1_read_def com2_write_def com2_read_def com4_write_def com4_read_def pit_out_def pit_in_def
      serial_irq_def sample_host_def split_beta Let_def split: option.split)

lemma fold_same: "(\<And>b s. g (f b s) = g s) \<Longrightarrow> g (fold f bs s) = g s"
  by (induction bs arbitrary: s) auto

lemma each_read_same: "(\<And>s. g (snd (f s)) = g s) \<Longrightarrow> g (snd (each_read f n s)) = g s"
  by (induction n arbitrary: s) (auto simp: split_beta)

lemma device_exit_driver: "driver_of (device_exit com4 E K exit v) = driver_of v"
proof -
  note folds = fold_same [where g = driver_of] fold_same [where g = m_driver]
  have "driver_of (pio_out com4 E K port data v) = driver_of v" for port data
    by (simp add: pio_out_def on_machine_def com_driver folds)
  moreover have "driver_of (snd (pio_in com4 E port n v)) = driver_of v" for port n
    by (simp add: pio_in_def split_beta com_driver each_read_same [where g = driver_of] each_read_same [where g = m_driver])
  moreover have "m_driver (mmio_write_exit E addr val m) = m_driver m" "m_driver (snd (mmio_read_exit E addr m)) = m_driver m" for addr val m
    by (simp_all add: mmio_write_exit_def mmio_read_exit_def sample_host_def split_beta)
  ultimately show ?thesis by (cases exit) (simp_all add: device_exit_def split_beta on_machine_def)
qed

lemma capture_exit_driver:
  assumes "capture_exit E K ff horizon exit v = Some (r, v')"
  shows "driver_of v' = driver_of v"
proof (cases "exit = Hlt")
  case True
  show ?thesis
  proof (cases "park_until_deliverable E ff (Some horizon) ((vm_m v)\<lparr>m_driver := driver_default\<rparr>)")
    case None
    then show ?thesis using True assms by (auto simp: capture_exit_def capture_park_def split: if_splits)
  next
    case (Some y)
    obtain a b where y: "y = (a, b)" by fastforce
    show ?thesis
      using True assms Some y
      by (cases a) (auto simp: capture_exit_def capture_park_def Let_def split: if_splits ParkOutcome.splits)
  qed
next
  case False
  then show ?thesis using assms device_exit_driver [of False E K exit v] by (cases exit) (auto simp: capture_exit_def)
qed

lemma arm_doorbell_driver: "driver_of (arm_doorbell E v) = driver_of v"
  by (rule arm_doorbell_frame)

lemma drive_iter_driver:
  assumes "drive_iter E K ff want horizon wall v = Some (r, v')"
  shows "driver_of v' = driver_of v"
proof -
  let ?v = "v\<lparr>vm_bell := doorbell_clear (vm_doorbell v) (vm_bell v)\<rparr>"
  obtain rb m where b: "capture_boundary E want horizon wall (vm_m v) = (rb, m)" by fastforce
  obtain ri v1 where i: "inject_step K (?v\<lparr>vm_m := m\<rparr>) = (ri, v1)" by fastforce
  obtain res v2 where e: "enter_guest K (arm_doorbell E v1) = (res, v2)" by fastforce
  have d: "m_driver m = driver_of v" "driver_of v1 = m_driver m" "driver_of v2 = driver_of v1"
    using capture_boundary_driver [OF b] inject_step_driver [OF i] enter_guest_driver [OF e] by (simp_all add: arm_doorbell_driver)
  have "driver_of v' = m_driver m \<or> v' = v1 \<or> v' = v2 \<or> (\<exists>exit. capture_exit E K ff horizon exit v2 = Some (r, v'))"
    using assms b i e by (auto simp: drive_iter_def Let_def split: flow.splits option.splits run_result.splits)
  then show ?thesis using d capture_exit_driver by metis
qed

lemma drive_until_reply_driver:
  assumes "drive_until_reply E K ff framed want horizon wall v = Some (r, v')"
  shows "driver_of v' = driver_of v"
proof -
  obtain c l where cp: "control_pump (e_uart E) (send_frame (drop_lines (m_com2 (vm_m v))) framed) (m_lapic (vm_m v)) (m_ioapic (vm_m v)) = (c, l)"
    by fastforce
  let ?v = "v\<lparr>vm_m := (vm_m v)\<lparr>m_com2 := c, m_lapic := l\<rparr>\<rparr>"
  have loop: "run_loop (drive_iter E K ff want horizon wall) ?v = Some (r, v')"
    using assms cp by (simp add: drive_until_reply_def)
  have "driver_of v' = driver_of v \<and> (\<forall>s. r = Next s \<longrightarrow> True)"
  proof (rule run_loop_result [OF loop])
    fix u u' q assume "drive_iter E K ff want horizon wall u = Some (q, u')" "driver_of u = driver_of v"
    then show "driver_of u' = driver_of v \<and> (\<forall>s. q = Next (Some s) \<longrightarrow> True)"
      using drive_iter_driver [of E K ff want horizon wall u q u'] by simp
  qed simp
  then show ?thesis by simp
qed

lemma ask_driver: "ask E K ff to_vec horizon wall req v = Some (r, v') \<Longrightarrow> driver_of v' = driver_of v"
  by (auto simp: ask_def drive_until_reply_driver split: option.splits)

lemma pull_log_driver:
  assumes "\<And>req v r v'. A req v = Some (r, v') \<Longrightarrow> driver_of v' = driver_of v"
  shows "pull_log A service next_id cursor raw v = Some (r, v') \<Longrightarrow> driver_of v' = driver_of v"
proof (induction "2 ^ 64 - unat cursor" arbitrary: next_id cursor raw v rule: less_induct)
  case less
  show ?case
  proof (cases "A (logs_request next_id service cursor) v")
    case None
    then show ?thesis using less(2) by (simp add: pull_log.simps [of A service next_id cursor])
  next
    case (Some y)
    obtain a v1 where y: "y = (a, v1)" by fastforce
    have v1: "driver_of v1 = driver_of v" using assms Some y by blast
    show ?thesis
    proof (cases "\<exists>ans nxt raw'. a = Next ans \<and> fold_answer cursor raw ans = More nxt raw'")
      case True
      then obtain ans nxt raw' where n: "a = Next ans" "fold_answer cursor raw ans = More nxt raw'" by blast
      have "unat cursor < unat nxt" using fold_answer_More [OF n(2)] by (simp add: word_less_nat_alt)
      moreover have "unat nxt < 2 ^ 64" by (rule unat_u64_bound)
      ultimately have "2 ^ 64 - unat nxt < 2 ^ 64 - unat cursor" by simp
      moreover have "pull_log A service (next_id + 1) nxt raw' v1 = Some (r, v')"
        using less(2) Some y n by (simp add: pull_log.simps [of A service next_id cursor])
      ultimately show ?thesis using less(1) v1 by metis
    next
      case False
      then have "v' = v1" using less(2) Some y
        by (auto simp: pull_log.simps [of A service next_id cursor] split: flow.splits pulled.splits)
      then show ?thesis using v1 by simp
    qed
  qed
qed

lemma capture_services_driver:
  assumes "\<And>req v r v'. A req v = Some (r, v') \<Longrightarrow> driver_of v' = driver_of v"
  shows "capture_services K A dir svcs next_id v = Some (r, v') \<Longrightarrow> driver_of v' = driver_of v"
proof (induction svcs arbitrary: next_id v)
  case (Cons s ss)
  show ?case
  proof (cases "sanitize_service_filename (ascii s)")
    case None
    then show ?thesis using Cons by simp
  next
    case (Some fname)
    show ?thesis
    proof (cases "pull_log A s next_id 0 [] v")
      case None
      then show ?thesis using Cons(2) Some by simp
    next
      case pulled: (Some y)
      obtain a v1 where y: "y = (a, v1)" by fastforce
      have "pull_log A s next_id 0 [] v = Some (a, v1)" using pulled y by simp
      then have v1: "driver_of v1 = driver_of v" by (rule pull_log_driver [rotated]) (rule assms)
      let ?w = "\<lambda>raw. k_fs_write K (m_os (vm_m v1)) (log_path dir fname) (format_k8s_logs raw)"
      show ?thesis
      proof (cases a)
        case (Next x)
        obtain ab raw i where x: "x = (ab, raw, i)" by (metis prod_cases3)
        show ?thesis using Cons.prems Cons.IH [of i "v1\<lparr>vm_m := (vm_m v1)\<lparr>m_os := ?w raw\<rparr>\<rparr>"] Some pulled y Next x v1
          by (auto simp: Let_def split: if_splits)
      qed (use Cons.prems Some pulled y v1 in auto)
    qed
  qed
qed simp

lemma capture_logs_driver:
  assumes "capture_logs E K ff to_vec budget cap v = Some (r, v')"
  shows "driver_of v' = driver_of v"
proof -
  obtain t m1 where ri: "read_instant E (vm_m v) = (t, m1)" by fastforce
  obtain now m2 where rc: "read_clock E m1 = (now, m2)" by fastforce
  have m2: "m_driver m2 = driver_of v" using ri rc by (auto simp: read_instant_eq read_clock_eq)
  let ?A = "ask E K ff to_vec (now + budget) (t + CAPTURE_WALL_BUDGET)"
  obtain a v1 where a: "?A (ping_request 1) (v\<lparr>vm_m := m2\<rparr>) = Some (a, v1)"
    using assms ri rc by (cases "?A (ping_request 1) (v\<lparr>vm_m := m2\<rparr>)") (auto simp: capture_logs_def Let_def)
  have v1: "driver_of v1 = driver_of v" using ask_driver [OF a] m2 by simp
  have "v' = v1 \<or> capture_services K ?A (lc_dir cap) (lc_services cap) 2 v1 = Some (r, v')"
    using assms ri rc a by (auto simp: capture_logs_def Let_def split: flow.splits sum.splits option.splits if_splits)
  moreover have "driver_of v' = driver_of v1" if "capture_services K ?A (lc_dir cap) (lc_services cap) 2 v1 = Some (r, v')"
    using that by (rule capture_services_driver [rotated]) (rule ask_driver)
  ultimately show ?thesis using v1 by auto
qed

lemma finish_scan_driver: "driver_of (finish_scan E K v) = driver_of v"
  by (simp add: finish_scan_def read_clock_eq split_beta Let_def split: option.split)

lemma run_user_backend_cases:
  assumes "run_user_backend E K ff to_vec horizon budget logs v = Some (Next out, v')"
  obtains stop v1 v2 where "run_loop (run_iter E K ff horizon) v = Some (Next stop, v1)"
    "driver_of v2 = driver_of v1" "v' = finish_scan E K v2" "out = run_outcome (driver_of v1) stop"
    "logs = None \<longrightarrow> v2 = v1"
proof -
  obtain a v1 where loop: "run_loop (run_iter E K ff horizon) v = Some (a, v1)"
    using assms by (cases "run_loop (run_iter E K ff horizon) v") (auto simp: run_user_backend_def)
  obtain stop where stop: "a = Next stop" using assms loop by (cases a) (auto simp: run_user_backend_def)
  let ?cap = "case logs of Some cap \<Rightarrow> if stop = DriverFinish \<or> stop = Horizon then capture_logs E K ff to_vec budget cap v1
      else Some (Next (), v1) | None \<Rightarrow> Some (Next (), v1)"
  obtain r v2 where cap: "?cap = Some (r, v2)"
    using assms loop stop by (cases ?cap) (auto simp: run_user_backend_def)
  have v2: "driver_of v2 = driver_of v1" "logs = None \<longrightarrow> v2 = v1"
    using cap capture_logs_driver by (auto split: option.splits if_splits)
  have "bind_flow (r, v2) (\<lambda>_ v. let v = finish_scan E K v in (Next (run_outcome (driver_of v) stop), v)) = (Next out, v')"
    using assms loop stop cap by (simp add: run_user_backend_def)
  then have "v' = finish_scan E K v2" "out = run_outcome (driver_of v2) stop"
    by (auto simp: Let_def finish_scan_driver elim!: bind_flow_NextE)
  then show thesis using that loop stop v2 by simp
qed

section \<open>The egress port\<close>

text \<open>No other device answers on the ports of COM4.\<close>

lemma com4_ports:
  assumes "channel_handles port"
  shows "\<not> is_serial port" "\<not> control_handles port" "\<not> pit_handles port" "\<not> pic_handles port"
  using assms
  by (auto simp: channel_handles_def is_serial_def control_handles_def pit_handles_def pic_handles_def const_defs
      word_le_nat_alt word_less_nat_alt)

section \<open>Properties\<close>

text \<open>
  A machine as it is built, and a host: the counter reads 1000 and later 1500, the monotonic clock 0 and
  later 100 seconds, and a guest that is entered powers off.
\<close>

definition run_env :: "(unit, unit, unit, bytes \<times> bool, unit, bool) env" where
  "run_env = sample_env\<lparr>e_instant := (\<lambda>w. (if w then 10 ^ 11 else 0, True)), e_rdtsc := (\<lambda>w. (if w then 1500 else 1000, w))\<rparr>"

definition sample_kvm :: "bool kvm" where
  "sample_kvm =
     \<lparr>k_run = (\<lambda>r e w. (Ran Hlt, r\<lparr>if_flag := 0\<rparr>, e, w)), k_interrupt = (\<lambda>w vec. (True, w)), k_stdout = (\<lambda>w bs. (1, w)),
      k_logs = \<lparr>open_append = (\<lambda>w p. (False, w)), write_all = (\<lambda>w p bs. (False, w)), fmt_secs = (\<lambda>_ _. [])\<rparr>,
      k_fs_write = (\<lambda>w p bs. w)\<rparr>"

definition reset_lapic :: Lapic where
  "reset_lapic = sample_lapic\<lparr>tsc_per_count_num := 2, tsc_per_count_den := 1, tpr := 0, svr := 0xff, lvt_timer := LVT_MASK,
     lvt_thermal := LVT_MASK, lvt_perf := LVT_MASK, lvt_lint0 := LVT_MASK, lvt_lint1 := LVT_MASK, lvt_error := LVT_MASK,
     irr := vb_default, timer_deadline := None, timer_period := 0, timer_dcr := 0\<rparr>"

definition sample_vm :: "(unit, unit, bytes \<times> bool, bool) vm" where
  "sample_vm =
     \<lparr>vm_m = sample_machine\<lparr>m_lapic := reset_lapic, m_ioapic := ioapic_new mptable_ioapic_id\<rparr>,
      vm_pic = pic_new, vm_pit = pit_new (lapic_clock sample_lapic), vm_doorbell = \<lparr>db_enabled = True, last_armed = None\<rparr>,
      vm_bell = \<lparr>immediate_exit = 0, ie_pointer = True, FIRED = False, host_timer = itimerspec_zero\<rparr>,
      vm_run = \<lparr>ready_for_interrupt_injection = 1, if_flag = 1, kr_cr8 = 0, request_interrupt_window = 0\<rparr>,
      vm_console = console_out_new None, vm_scan = None, vm_data = [], hlt_count = 0\<rparr>"

lemma sample_vm_reach: "run_reach run_env sample_kvm (lapic_clock sample_lapic) sample_vm"
proof (rule run_reach.built)
  show "vm_new (\<lambda>_. \<lparr>eax = 1, ebx = 2, ecx = 3, edx = 0\<rparr>) (lapic_clock sample_lapic) (\<lambda>_. 0) ([], False) ([], False) None
      (m_parker sample_machine) (m_ff sample_machine) (vm_doorbell sample_vm, vm_bell sample_vm) (vm_run sample_vm)
      (console_out_new None) None False = Ok sample_vm"
    by (simp add: vm_new_def apic_timer_tsc_ratio_def lapic_new_def Let_def sample_vm_def sample_machine_def reset_lapic_def
        sample_lapic_def clock_clone_eq)
qed simp

lemma sample_boundary: "run_boundary run_env None (vm_m sample_vm) = (Next None, vm_m sample_vm)"
proof -
  have "service_timers reset_lapic eq_new None now = (Next False, reset_lapic, eq_new)" for now
    by (simp add: service_timers_def reset_lapic_def fire_events.simps eq_pop_due_def eq_clear_def eq_new_def)
  moreover have "drain_agent J (control_new u) d = (False, control_new u, d)" for J :: "bytes \<Rightarrow> unit Reply option" and u :: "bytes \<times> bool" and d
    by (simp add: drain_agent.simps [of J] poll_line_def control_new_def)
  moreover have "control_pump U (control_new u) l io = (control_new u, l)" for U :: "(bytes \<times> bool) Uart" and u l io
    by (simp add: control_pump_def control_new_def)
  ultimately show ?thesis
    by (simp add: run_boundary_def read_clock_eq sample_vm_def sample_machine_def run_env_def sample_env_def pump_egress_def)
qed

lemma reset_lapic_idle: "sync_tpr_from_cr8 reset_lapic 0 = reset_lapic" "deliverable_vector reset_lapic = None"
  by (simp_all add: sync_tpr_from_cr8_def reset_lapic_def deliverable_vector_def lapic_enabled_def const_defs)

lemma sample_entry: "\<exists>v. before_entry run_env sample_kvm None sample_vm = (Next None, v) \<and> vm_scan v = None"
proof -
  have "before_entry run_env sample_kvm None sample_vm = (Next None, arm_doorbell run_env sample_vm)"
    using sample_boundary
    by (simp add: before_entry_def drain_scan_def inject_step_def doorbell_clear_def reset_lapic_idle)
       (simp add: sample_vm_def reset_lapic_idle sample_machine_def, simp add: reset_lapic_def)
  then show ?thesis by (simp add: arm_doorbell_def split_beta Let_def sample_vm_def)
qed

lemma sample_halts:
  "\<exists>v. run_user_backend run_env sample_kvm True to_vec None 0 None sample_vm = Some (Next \<lparr>ro_stop = GuestHalt, ro_exit_code = 0\<rparr>, v)"
proof -
  obtain v where v: "before_entry run_env sample_kvm None sample_vm = (Next None, v)" "vm_scan v = None" using sample_entry by blast
  let ?v = "v\<lparr>vm_run := (vm_run v)\<lparr>if_flag := 0\<rparr>\<rparr>"
  have "enter_guest sample_kvm v = (Ran Hlt, ?v)" by (simp add: enter_guest_def sample_kvm_def)
  moreover have "drain_scan run_env sample_kvm ?v = ?v" using v(2) by (simp add: drain_scan_def)
  ultimately have "run_iter run_env sample_kvm True None sample_vm = Some (Next (Some GuestHalt), ?v)"
    using v by (simp add: run_iter_def handle_exit_def halt_exit_def Let_def)
  then have r: "run_loop (run_iter run_env sample_kvm True None) sample_vm = Some (Next GuestHalt, ?v)"
    by (subst run_loop.simps) simp
  have "driver_of v = driver_default"
    using v(1) refl
  proof (cases rule: before_entry_cases)
    case (enter m v2)
    then have "m = vm_m sample_vm" using sample_boundary by simp
    then show ?thesis
      using inject_step_driver [OF enter(2)] enter(4) by (simp add: arm_doorbell_driver sample_vm_def sample_machine_def)
  qed simp
  then show ?thesis
    using r by (simp add: run_user_backend_def Let_def finish_scan_driver run_outcome_def driver_default_def const_defs)
qed

text \<open>A run that ends at its horizon and then fails to reach the agent for the logs.\<close>

lemma sample_captures:
  "\<exists>v. run_user_backend run_env sample_kvm True (\<lambda>_. Some []) (Some 500) 0 (Some \<lparr>lc_dir = [], lc_services = [''db''], lc_project = []\<rparr>) sample_vm
     = Some (Next \<lparr>ro_stop = Horizon, ro_exit_code = EXIT_HORIZON\<rparr>, v)"
proof -
  have st: "\<exists>q. service_timers reset_lapic eq_new (Some 500) 1000 = (Next True, reset_lapic, q)"
    by (simp add: service_timers_def reset_lapic_def fire_events.simps eq_pop_due_def heap_pop_def eq_push_def eq_clear_def eq_new_def)
  then obtain q where q: "service_timers reset_lapic eq_new (Some 500) 1000 = (Next True, reset_lapic, q)" by blast
  let ?m = "(vm_m sample_vm)\<lparr>m_events := q\<rparr>"
  have b: "run_boundary run_env (Some 500) (vm_m sample_vm) = (Next (Some Horizon), ?m)"
    using q by (simp add: run_boundary_def read_clock_eq sample_vm_def sample_machine_def run_env_def vtsc_from_host_eq tsc_offset_def)
  have "doorbell_clear (vm_doorbell sample_vm) (vm_bell sample_vm) = vm_bell sample_vm"
    by (simp add: doorbell_clear_def sample_vm_def)
  then have be: "before_entry run_env sample_kvm (Some 500) sample_vm = (Next (Some Horizon), sample_vm\<lparr>vm_m := ?m\<rparr>)"
    using b by (simp add: before_entry_def)
  let ?v = "sample_vm\<lparr>vm_m := ?m\<rparr>"
  have loop: "run_loop (run_iter run_env sample_kvm True (Some 500)) sample_vm = Some (Next Horizon, ?v)"
    using be by (subst run_loop.simps) (simp add: run_iter_def)
  have ask: "\<exists>v'. ask run_env sample_kvm True (\<lambda>_. Some []) hz (30 * 10 ^ 9) req v = Some (Next (Inr None), v')"
    if "m_os (vm_m v)" for hz req v
  proof -
    obtain c l where cp: "control_pump (e_uart run_env) (send_frame (drop_lines (m_com2 (vm_m v))) [10]) (m_lapic (vm_m v)) (m_ioapic (vm_m v)) = (c, l)"
      by fastforce
    then show ?thesis
      using that by (simp add: ask_def encode_line_def drive_until_reply_def)
         (subst run_loop.simps, simp add: drive_iter_def capture_boundary_def read_instant_eq run_env_def Let_def)
  qed
  have "\<exists>v'. capture_logs run_env sample_kvm True (\<lambda>_. Some []) 0 \<lparr>lc_dir = [], lc_services = [''db''], lc_project = []\<rparr> ?v = Some (Next (), v')"
  proof -
    obtain m2 now where ri: "read_instant run_env (vm_m ?v) = (0, (vm_m ?v)\<lparr>m_os := True\<rparr>)" and rc: "read_clock run_env ((vm_m ?v)\<lparr>m_os := True\<rparr>) = (now, m2)" "m_os m2"
      by (simp add: read_instant_eq read_clock_eq run_env_def sample_vm_def sample_machine_def)
    then obtain v' where "ask run_env sample_kvm True (\<lambda>_. Some []) (now + 0) (30 * 10 ^ 9) (ping_request 1) (?v\<lparr>vm_m := m2\<rparr>) = Some (Next (Inr None), v')"
      using ask [of "?v\<lparr>vm_m := m2\<rparr>" "now + 0"] by auto
    then show ?thesis using ri rc by (simp add: capture_logs_def const_defs)
  qed
  then obtain v' where cap: "capture_logs run_env sample_kvm True (\<lambda>_. Some []) 0 \<lparr>lc_dir = [], lc_services = [''db''], lc_project = []\<rparr> ?v = Some (Next (), v')"
    by blast
  have "driver_of v' = driver_default" using capture_logs_driver [OF cap] by (simp add: sample_vm_def sample_machine_def)
  then show ?thesis
    using loop cap by (simp add: run_user_backend_def Let_def finish_scan_driver run_outcome_def driver_default_def)
qed

text \<open>
  C3. The devices stay well-formed. In every state a run or a log capture reaches from the built
  devices, whatever the guest, KVM, the UARTs, the sockets and the files do: the interrupt controller
  satisfies its invariant and nests at most fifteen interrupts, all devices share one clock, every
  table has the size its accesses rely on, and the egress table stays within its limit.
\<close>

theorem run_devices_ok:
  assumes "run_reach E K clk v"
  shows "lapic_invar (m_lapic (vm_m v)) \<and> card (in_service (m_lapic (vm_m v))) \<le> 15
    \<and> lapic_clock (m_lapic (vm_m v)) = clk \<and> m_clock (vm_m v) = clk \<and> pit_clock (vm_pit v) = clk
    \<and> length (redtbl (m_ioapic (vm_m v))) = NUM_RTES \<and> length (channels (vm_pit v)) = 3 \<and> length (elcr (vm_pit v)) = 2
    \<and> (\<forall>eg. m_egress (vm_m v) = Some eg \<longrightarrow> length (sessions (ec_backend eg)) \<le> MAX_SESSIONS)"
proof -
  have ok: "vm_ok clk v" by (rule run_reach_ok [OF assms])
  then have l: "lapic_ok clk (m_lapic (vm_m v))" by (rule machine_okD [OF vm_okD(1)])
  show ?thesis
    using ok lapic_okD [OF l] nested_card [OF lapic_okD(3) [OF l]]
    by (auto simp: vm_ok_def machine_ok_def pit_ok_def ioapic_invar_def backend_ok_def)
qed

theorem run_devices_ok_witness:
  "run_reach run_env sample_kvm (lapic_clock sample_lapic) sample_vm
   \<and> lapic_invar (m_lapic (vm_m sample_vm)) \<and> length (channels (vm_pit sample_vm)) = 3"
  using sample_vm_reach run_devices_ok [OF sample_vm_reach] by simp

text \<open>
  C2. What KVM is asked for at every entry of the guest. The interrupt window is requested exactly
  when a vector is still deliverable, so an interrupt that cannot be injected now is not forgotten;
  the guest's CR8 is the task priority of the controller; an enabled doorbell is armed for the
  earlier of the queue's and the controller's deadline; and a vector entered service only if KVM was
  ready and the guest had interrupts enabled, and then exactly one, of a class above the guest's CR8
  and above every vector in service.
\<close>

theorem entry_protocol:
  assumes "run_reach E K clk v" and "before_entry E K horizon v = (Next None, v')"
  shows "request_interrupt_window (vm_run v') = (if deliverable_vector (m_lapic (vm_m v')) \<noteq> None then 1 else 0)
    \<and> kr_cr8 (vm_run v') = ucast (drop_bit 4 (tpr (m_lapic (vm_m v'))))
    \<and> (db_enabled (vm_doorbell v) \<longrightarrow> last_armed (vm_doorbell v')
         = min_deadline (eq_peek_deadline (m_events (vm_m v'))) (timer_deadline (m_lapic (vm_m v'))))
    \<and> (in_service (m_lapic (vm_m v')) = in_service (m_lapic (vm_m v)) \<or>
       ready_for_interrupt_injection (vm_run v) \<noteq> 0 \<and> if_flag (vm_run v) \<noteq> 0
       \<and> (\<exists>vec. (\<forall>u \<in> in_service (m_lapic (vm_m v)). prio u < prio vec) \<and> unat (kr_cr8 (vm_run v) AND 0xf) < prio vec
            \<and> in_service (m_lapic (vm_m v')) = insert vec (in_service (m_lapic (vm_m v)))))"
  by (rule entry_spec [OF assms])

theorem entry_protocol_witness:
  "\<exists>v. before_entry run_env sample_kvm None sample_vm = (Next None, v)
     \<and> kr_cr8 (vm_run v) = ucast (drop_bit 4 (tpr (m_lapic (vm_m v))))
     \<and> last_armed (vm_doorbell v) = min_deadline (eq_peek_deadline (m_events (vm_m v))) (timer_deadline (m_lapic (vm_m v)))"
proof -
  obtain v where v: "before_entry run_env sample_kvm None sample_vm = (Next None, v)" using sample_entry by blast
  have "db_enabled (vm_doorbell sample_vm)" by (simp add: sample_vm_def)
  then show ?thesis using v entry_protocol [OF sample_vm_reach v] by auto
qed

text \<open>
  C5. A stop means what it says, and decides the exit code only when nobody finished the run. If a
  run returns an outcome, the loop stopped for its reason in some state, where a horizon stop comes with a reading of
  the clock at or past the horizon, a finish with a recorded verdict and a halt with interrupts disabled;
  the exit code is that of the recorded verdict, and that of the stop reason without one.
\<close>

theorem run_stop_sound:
  assumes "run_user_backend E K ff to_vec horizon budget logs v = Some (Next out, v')"
  shows "\<exists>v1. run_loop (run_iter E K ff horizon) v = Some (Next (ro_stop out), v1) \<and> stop_holds E horizon (ro_stop out) v1
    \<and> dr_verdict (driver_of v') = dr_verdict (driver_of v1)
    \<and> ro_exit_code out = (case dr_verdict (driver_of v1) of Some vd \<Rightarrow> verdict_exit_code vd | None \<Rightarrow> stop_exit_code (ro_stop out))"
proof -
  obtain stop v1 v2 where r: "run_loop (run_iter E K ff horizon) v = Some (Next stop, v1)"
    "driver_of v2 = driver_of v1" "v' = finish_scan E K v2" "out = run_outcome (driver_of v1) stop"
    by (rule run_user_backend_cases [OF assms])
  have "stop_holds E horizon stop v1" by (rule run_loop_stop [OF r(1)])
  then show ?thesis using r by (intro exI [of _ v1]) (simp add: run_outcome_def finish_scan_driver split: option.split)
qed

theorem run_stop_sound_witness:
  "\<exists>v1. run_loop (run_iter run_env sample_kvm True None) sample_vm = Some (Next GuestHalt, v1) \<and> if_flag (vm_run v1) = 0"
proof -
  obtain v where v: "run_user_backend run_env sample_kvm True (\<lambda>_. None) None 0 None sample_vm
      = Some (Next \<lparr>ro_stop = GuestHalt, ro_exit_code = 0\<rparr>, v)"
    using sample_halts by blast
  show ?thesis using run_stop_sound [OF v] by (auto simp: stop_holds_def)
qed

text \<open>
  C4. Capturing the logs never changes the verdict. If a run with a log capture returns an outcome,
  the same run without one returns the same stop reason and exit code, and the same driver state, although the capture
  goes on driving the guest, drains the agent's lines and parks.
\<close>

theorem capture_verdict_neutral:
  assumes "run_user_backend E K ff to_vec horizon budget logs v = Some (Next out, v')"
  shows "\<exists>v1. run_user_backend E K ff to_vec horizon budget None v = Some (Next out, v1) \<and> driver_of v' = driver_of v1"
proof -
  obtain stop v1 v2 where r: "run_loop (run_iter E K ff horizon) v = Some (Next stop, v1)"
    "driver_of v2 = driver_of v1" "v' = finish_scan E K v2" "out = run_outcome (driver_of v1) stop"
    by (rule run_user_backend_cases [OF assms])
  have "run_user_backend E K ff to_vec horizon budget None v = Some (Next out, finish_scan E K v1)"
    using r(1,4) by (simp add: run_user_backend_def Let_def finish_scan_driver)
  then show ?thesis using r(2,3) by (simp add: finish_scan_driver)
qed

theorem capture_verdict_neutral_witness:
  "\<exists>v1. run_user_backend run_env sample_kvm True (\<lambda>_. Some []) (Some 500) 0 None sample_vm
     = Some (Next \<lparr>ro_stop = Horizon, ro_exit_code = EXIT_HORIZON\<rparr>, v1)"
proof -
  obtain v where v: "run_user_backend run_env sample_kvm True (\<lambda>_. Some []) (Some 500) 0
      (Some \<lparr>lc_dir = [], lc_services = [''db''], lc_project = []\<rparr>) sample_vm = Some (Next \<lparr>ro_stop = Horizon, ro_exit_code = EXIT_HORIZON\<rparr>, v)"
    using sample_captures by blast
  show ?thesis using capture_verdict_neutral [OF v] by blast
qed

text \<open>
  C8. The egress port is open bus unless egress is on. With egress off, the main loop answers every
  read of a COM4 port with ones and drops every write, changing nothing; with egress on it reads and
  writes the egress channel byte by byte. The loop of the log capture has no arm for these ports, so
  that there they are open bus even while egress is on and the channel is being pumped.
\<close>

theorem com4_dispatch:
  assumes "channel_handles port"
  shows "(m_egress (vm_m v) = None \<longrightarrow> pio_in True E port n v = (replicate n 0xff, v) \<and> pio_out True E K port data v = v)
    \<and> (m_egress (vm_m v) \<noteq> None \<longrightarrow>
        pio_in True E port n v = (let (bs, m) = each_read (com4_read E port) n (vm_m v) in (bs, v\<lparr>vm_m := m\<rparr>))
        \<and> pio_out True E K port data v = v\<lparr>vm_m := fold (com4_write E port) data (vm_m v)\<rparr>)
    \<and> device_exit False E K (IoIn port data) v = v\<lparr>vm_data := replicate (length data) 0xff\<rparr>
    \<and> device_exit False E K (IoOut port data) v = v"
  using assms com4_ports [OF assms] by (auto simp: pio_in_def pio_out_def device_exit_def on_machine_def)

theorem com4_dispatch_witness:
  "channel_handles 0x2e8 \<and> pio_in True run_env 0x2e8 2 sample_vm = ([0xff, 0xff], sample_vm)"
proof -
  have h: "channel_handles 0x2e8" by (simp add: channel_handles_def const_defs)
  have "m_egress (vm_m sample_vm) = None" by (simp add: sample_vm_def sample_machine_def)
  then show ?thesis using h com4_dispatch [OF h, of sample_vm run_env 2] by (simp add: numeral_2_eq_2)
qed

end
