(* ===== verification/Forwarder.thy ===== *)
theory Forwarder
  imports EgressPump Text
begin

text \<open>
  The guest end of the egress wire (\<open>src/tdvmm-agent/src/forwarder.rs\<close>): a SOCKS5 proxy whose
  connections are streams of the mux that the backend of \<^verbatim>\<open>Egress\<close> serves on the host.

  The threads of the forwarder are the demux reader, the accept loop and, per connection, a handler
  that spawns one more thread for the direction to the host. They share the registry, the counter of
  stream ids and the writer of the tty, each behind a lock that is held for one operation. So a state
  is those shared cells, the channel of every connection and where each handler stands; the operations
  below are what a thread does between two points where another thread may run. The client sockets
  and the tty are parameters, numbered by connection; a channel has the number of its connection.
\<close>

section \<open>Constants and data\<close>

definition FWD_READ_CHUNK :: nat where [const_defs]: "FWD_READ_CHUNK = 16 * 1024"
definition WINDOW_GRANT_THRESHOLD :: nat where [const_defs]: "WINDOW_GRANT_THRESHOLD = 16 * 1024"
definition SOCKS_OK :: u8 where [const_defs]: "SOCKS_OK = 0"
definition SOCKS_GENERAL_FAILURE :: u8 where [const_defs]: "SOCKS_GENERAL_FAILURE = 1"
definition SOCKS_NET_UNREACHABLE :: u8 where [const_defs]: "SOCKS_NET_UNREACHABLE = 3"
definition SOCKS_HOST_UNREACHABLE :: u8 where [const_defs]: "SOCKS_HOST_UNREACHABLE = 4"
definition SOCKS_CONN_REFUSED :: u8 where [const_defs]: "SOCKS_CONN_REFUSED = 5"
definition SOCKS_CMD_UNSUPPORTED :: u8 where [const_defs]: "SOCKS_CMD_UNSUPPORTED = 7"
definition SOCKS_ATYP_UNSUPPORTED :: u8 where [const_defs]: "SOCKS_ATYP_UNSUPPORTED = 8"

datatype Inbound = InConnected | InFailed EgressReason | InData bytes | InClose | InRst

record Socks5Target =
  tg_host :: bytes
  tg_port :: u16

datatype SocksError = Rejected u8 | SocksIo

text \<open>
  The answers of the operating system: a read returns some bytes (none at the end of the stream), is
  interrupted or fails; a write of the whole buffer succeeds (\<open>None\<close>) or fails after some bytes.
\<close>

datatype read_answer = ReadBytes bytes | Interrupted | ReadError

record 'w fwd_os =
  tty_read :: "'w \<Rightarrow> nat \<Rightarrow> read_answer \<times> 'w"
  tty_write_all :: "'w \<Rightarrow> bytes \<Rightarrow> nat option \<times> 'w"
  cl_read_exact :: "'w \<Rightarrow> nat \<Rightarrow> nat \<Rightarrow> bytes option \<times> 'w"
  cl_read :: "'w \<Rightarrow> nat \<Rightarrow> nat \<Rightarrow> read_answer \<times> 'w"
  cl_write_all :: "'w \<Rightarrow> nat \<Rightarrow> bytes \<Rightarrow> bool \<times> 'w"
  cl_shutdown_write :: "'w \<Rightarrow> nat \<Rightarrow> 'w"
  cl_shutdown_both :: "'w \<Rightarrow> nat \<Rightarrow> 'w"
  cl_try_clone :: "'w \<Rightarrow> nat \<Rightarrow> bool \<times> 'w"

text \<open>
  Where a handler stands: before the handshake, with a stream id but the open not yet sent, waiting
  for the verdict, relaying (is the thread towards the host running; the bytes not yet granted, or
  \<open>None\<close> once the direction to the client has ended), or returned.
\<close>

datatype handler = Fresh | Registered u16 Socks5Target | Waiting u16 | Relaying u16 bool "nat option" | Returned

record 'w forwarder =
  fw_registry :: "u16 \<rightharpoonup> nat"
  fw_chan :: "nat \<Rightarrow> Inbound list"
  fw_counter :: u32
  fw_handlers :: "nat \<Rightarrow> handler"
  fw_accepted :: nat
  fw_buf :: bytes
  fw_tx :: bytes
  fw_exited :: bool
  fw_world :: 'w

definition forwarder_new :: "'w \<Rightarrow> 'w forwarder" where
  "forwarder_new w =
     \<lparr>fw_registry = Map.empty, fw_chan = (\<lambda>_. []), fw_counter = 1, fw_handlers = (\<lambda>_. Returned), fw_accepted = 0,
      fw_buf = [], fw_tx = [], fw_exited = False, fw_world = w\<rparr>"

section \<open>The writer of the tty\<close>

definition tty_send :: "'w fwd_os \<Rightarrow> EgressFrame \<Rightarrow> 'w forwarder \<Rightarrow> bool \<times> 'w forwarder" where
  "tty_send E fr s =
     (case encode fr [] of
        Inl e \<Rightarrow> (False, s)
      | Inr scratch \<Rightarrow>
          (case tty_write_all E (fw_world s) scratch of
             (None, w) \<Rightarrow> (True, s\<lparr>fw_tx := fw_tx s @ scratch, fw_world := w\<rparr>)
           | (Some k, w) \<Rightarrow> (False, s\<lparr>fw_tx := fw_tx s @ take k scratch, fw_world := w\<rparr>)))"

fun chunks :: "nat \<Rightarrow> 'a list \<Rightarrow> 'a list list" where
  "chunks n xs = (if xs = [] \<or> n = 0 then [] else take n xs # chunks n (drop n xs))"

declare chunks.simps [simp del]

fun send_chunks :: "'w fwd_os \<Rightarrow> u16 \<Rightarrow> bytes list \<Rightarrow> 'w forwarder \<Rightarrow> bool \<times> 'w forwarder" where
  "send_chunks E stream [] s = (True, s)"
| "send_chunks E stream (c # cs) s =
     (case tty_send E (Data stream c) s of
        (True, s) \<Rightarrow> send_chunks E stream cs s
      | (False, s) \<Rightarrow> (False, s))"

definition send_data :: "'w fwd_os \<Rightarrow> u16 \<Rightarrow> bytes \<Rightarrow> 'w forwarder \<Rightarrow> bool \<times> 'w forwarder" where
  "send_data E stream pl s = send_chunks E stream (chunks EGRESS_MAX_PAYLOAD pl) s"

section \<open>Routing\<close>

fun inbound_of :: "EgressFrame \<Rightarrow> (u16 \<times> Inbound) option" where
  "inbound_of (OpenOk stream) = Some (stream, InConnected)"
| "inbound_of (OpenErr stream reason) = Some (stream, InFailed reason)"
| "inbound_of (Data stream pl) = Some (stream, InData pl)"
| "inbound_of (Close stream) = Some (stream, InClose)"
| "inbound_of (Rst stream) = Some (stream, InRst)"
| "inbound_of (Open _ _ _) = None"
| "inbound_of (Window _ _) = None"

definition fwd_route :: "EgressFrame \<Rightarrow> 'w forwarder \<Rightarrow> 'w forwarder" where
  "fwd_route fr s =
     (case inbound_of fr of
        None \<Rightarrow> s
      | Some (stream, msg) \<Rightarrow>
          (case fw_registry s stream of
             Some n \<Rightarrow> s\<lparr>fw_chan := (fw_chan s)(n := fw_chan s n @ [msg])\<rparr>
           | None \<Rightarrow> s))"

text \<open>The frames of the buffer, one after the other; framing that is lost stops the process.\<close>

function demux_frames :: "bytes \<Rightarrow> 'w forwarder \<Rightarrow> 'w forwarder" where
  "demux_frames buf s =
     (case decode buf of
        Ok (Some d) \<Rightarrow> demux_frames (drop (consumed d) buf) (fwd_route (frame d) s)
      | Ok None \<Rightarrow> s\<lparr>fw_buf := buf\<rparr>
      | Err e \<Rightarrow> s\<lparr>fw_exited := True\<rparr>
      | Panic \<Rightarrow> s\<lparr>fw_exited := True\<rparr>)"
  by pat_completeness auto
termination
proof (relation "measure (\<lambda>(buf, s). length buf)", simp, goal_cases)
  case (1 buf s d d')
  then have "length (wire (frame d')) \<le> length buf" "6 \<le> length (wire (frame d'))"
      "consumed d' = length (wire (frame d'))"
    using decode_Some_wire [of buf d'] by (auto simp: wire_def intro: order_trans dest: arg_cong [where f = length])
  then show ?case by simp
qed

declare demux_frames.simps [simp del]

definition demux_step :: "'w fwd_os \<Rightarrow> 'w forwarder \<Rightarrow> 'w forwarder" where
  "demux_step E s =
     (case tty_read E (fw_world s) FWD_READ_CHUNK of
        (ReadBytes bs, w) \<Rightarrow>
          if bs = [] then s\<lparr>fw_exited := True, fw_world := w\<rparr>
          else demux_frames (fw_buf s @ bs) (s\<lparr>fw_world := w\<rparr>)
      | (Interrupted, w) \<Rightarrow> s\<lparr>fw_world := w\<rparr>
      | (ReadError, w) \<Rightarrow> s\<lparr>fw_exited := True, fw_world := w\<rparr>)"

section \<open>SOCKS negotiation\<close>

definition read_client :: "'w fwd_os \<Rightarrow> nat \<Rightarrow> nat \<Rightarrow> 'w \<Rightarrow> (SocksError + bytes) \<times> 'w" where
  "read_client E n k w =
     (case cl_read_exact E w n k of (Some bs, w) \<Rightarrow> (Inr bs, w) | (None, w) \<Rightarrow> (Inl SocksIo, w))"

definition write_client :: "'w fwd_os \<Rightarrow> nat \<Rightarrow> bytes \<Rightarrow> 'w \<Rightarrow> (SocksError + unit) \<times> 'w" where
  "write_client E n bs w = (case cl_write_all E w n bs of (True, w) \<Rightarrow> (Inr (), w) | (False, w) \<Rightarrow> (Inl SocksIo, w))"

definition from_be_bytes_u16 :: "u8 \<Rightarrow> u8 \<Rightarrow> u16" where
  "from_be_bytes_u16 hi lo = push_bit 8 (ucast hi) OR ucast lo"

definition ipv4_text :: "bytes \<Rightarrow> bytes" where
  "ipv4_text a =
     (let dec = (\<lambda>i. ascii (decimal (unat (a ! i))))
      in dec 0 @ ascii ''.'' @ dec 1 @ ascii ''.'' @ dec 2 @ ascii ''.'' @ dec 3)"

definition ipv6_text :: "bytes \<Rightarrow> bytes" where
  "ipv6_text a =
     (let seg = (\<lambda>i. hex_u16 (from_be_bytes_u16 (a ! i) (a ! (i + 1))))
      in seg 0 @ concat (map (\<lambda>i. ascii '':'' @ seg i) [2, 4, 6, 8, 10, 12, 14]))"

definition socks5_address :: "'w fwd_os \<Rightarrow> nat \<Rightarrow> u8 \<Rightarrow> 'w \<Rightarrow> (SocksError + bytes) \<times> 'w" where
  "socks5_address E n atyp w =
     (if atyp = 1 then and_then (read_client E n 4 w) (\<lambda>a w. (Inr (ipv4_text a), w))
      else if atyp = 3 then
        and_then (read_client E n 1 w) (\<lambda>len w.
        and_then (read_client E n (unat (len ! 0)) w) (\<lambda>name w.
          (if is_utf8 name then Inr name else Inl (Rejected SOCKS_GENERAL_FAILURE), w)))
      else if atyp = 4 then and_then (read_client E n 16 w) (\<lambda>a w. (Inr (ipv6_text a), w))
      else (Inl (Rejected SOCKS_ATYP_UNSUPPORTED), w))"

definition socks5_greeting :: "'w fwd_os \<Rightarrow> nat \<Rightarrow> 'w \<Rightarrow> (SocksError + unit) \<times> 'w" where
  "socks5_greeting E n w =
     and_then (read_client E n 2 w) (\<lambda>head w.
       if head ! 0 \<noteq> 5 then (Inl (Rejected 0), w)
       else and_then (read_client E n (unat (head ! 1)) w) (\<lambda>methods w.
         if 0 \<notin> set methods then (Inl (Rejected 0), snd (write_client E n [5, 0xff] w))
         else write_client E n [5, 0] w))"

definition socks5_request :: "'w fwd_os \<Rightarrow> nat \<Rightarrow> 'w \<Rightarrow> (SocksError + Socks5Target) \<times> 'w" where
  "socks5_request E n w =
     and_then (read_client E n 4 w) (\<lambda>req w.
       if req ! 0 \<noteq> 5 then (Inl (Rejected SOCKS_GENERAL_FAILURE), w)
       else if req ! 1 \<noteq> 1 then (Inl (Rejected SOCKS_CMD_UNSUPPORTED), w)
       else and_then (socks5_address E n (req ! 3) w) (\<lambda>host w.
            and_then (read_client E n 2 w) (\<lambda>p w.
              let port = from_be_bytes_u16 (p ! 0) (p ! 1)
              in if host = [] \<or> port = 0 then (Inl (Rejected SOCKS_GENERAL_FAILURE), w)
                 else (Inr \<lparr>tg_host = host, tg_port = port\<rparr>, w))))"

definition socks5_negotiate :: "'w fwd_os \<Rightarrow> nat \<Rightarrow> 'w \<Rightarrow> (SocksError + Socks5Target) \<times> 'w" where
  "socks5_negotiate E n w = and_then (socks5_greeting E n w) (\<lambda>_ w. socks5_request E n w)"

definition socks5_reply :: "'w fwd_os \<Rightarrow> nat \<Rightarrow> u8 \<Rightarrow> 'w \<Rightarrow> bool \<times> 'w" where
  "socks5_reply E n rep w = cl_write_all E w n [5, rep, 0, 1, 0, 0, 0, 0, 0, 0]"

fun reply_code_for :: "EgressReason \<Rightarrow> u8" where
  "reply_code_for ResolveFailed = SOCKS_HOST_UNREACHABLE"
| "reply_code_for ConnectRefused = SOCKS_CONN_REFUSED"
| "reply_code_for Unreachable = SOCKS_NET_UNREACHABLE"
| "reply_code_for StreamLimit = SOCKS_GENERAL_FAILURE"
| "reply_code_for ProtocolError = SOCKS_GENERAL_FAILURE"
| "reply_code_for Overrun = SOCKS_GENERAL_FAILURE"
| "reply_code_for (Other _) = SOCKS_GENERAL_FAILURE"

section \<open>Stream ids\<close>

text \<open>
  The loop under the registry lock: the counter goes up, wrapping at 32 bits, until its low half is
  no live stream. With all ids live it does not end.
\<close>

partial_function (option) find_id :: "(u16 \<rightharpoonup> nat) \<Rightarrow> u32 \<Rightarrow> (u16 \<times> u32) option" where
  "find_id reg counter =
     (let cand = ucast counter
      in if reg cand = None then Some (cand, counter + 1) else find_id reg (counter + 1))"

definition register :: "nat \<Rightarrow> 'w forwarder \<Rightarrow> (u16 \<times> 'w forwarder) option" where
  "register n s =
     map_option (\<lambda>(sid, counter).
         (sid, s\<lparr>fw_counter := counter, fw_registry := (fw_registry s)(sid \<mapsto> n), fw_chan := (fw_chan s)(n := [])\<rparr>))
       (find_id (fw_registry s) (fw_counter s))"

definition deregister :: "u16 \<Rightarrow> 'w forwarder \<Rightarrow> 'w forwarder" where
  "deregister sid s = s\<lparr>fw_registry := (fw_registry s)(sid := None)\<rparr>"

section \<open>One connection\<close>

definition at_phase :: "nat \<Rightarrow> handler \<Rightarrow> 'w forwarder \<Rightarrow> 'w forwarder" where
  "at_phase n h s = s\<lparr>fw_handlers := (fw_handlers s)(n := h)\<rparr>"

text \<open>The handshake, then a stream id; \<open>None\<close> when there is none to be found.\<close>

definition negotiate_step :: "'w fwd_os \<Rightarrow> nat \<Rightarrow> 'w forwarder \<Rightarrow> 'w forwarder option" where
  "negotiate_step E n s =
     (case socks5_negotiate E n (fw_world s) of
        (Inl (Rejected rep), w) \<Rightarrow>
          Some (at_phase n Returned (s\<lparr>fw_world := if rep \<noteq> 0 then snd (socks5_reply E n rep w) else w\<rparr>))
      | (Inl SocksIo, w) \<Rightarrow> Some (at_phase n Returned (s\<lparr>fw_world := w\<rparr>))
      | (Inr target, w) \<Rightarrow>
          map_option (\<lambda>(sid, s). at_phase n (Registered sid target) s) (register n (s\<lparr>fw_world := w\<rparr>)))"

definition open_step :: "'w fwd_os \<Rightarrow> nat \<Rightarrow> u16 \<Rightarrow> Socks5Target \<Rightarrow> 'w forwarder \<Rightarrow> 'w forwarder" where
  "open_step E n sid target s =
     (case tty_send E (Open sid (tg_port target) (tg_host target)) s of
        (True, s) \<Rightarrow> at_phase n (Waiting sid) s
      | (False, s) \<Rightarrow> at_phase n Returned (deregister sid s))"

text \<open>A receive blocks while the channel is empty and its sender is still registered.\<close>

datatype received = Got Inbound | Disconnected

definition recv :: "nat \<Rightarrow> 'w forwarder \<Rightarrow> (received \<times> 'w forwarder) option" where
  "recv n s =
     (case fw_chan s n of
        msg # rest \<Rightarrow> Some (Got msg, s\<lparr>fw_chan := (fw_chan s)(n := rest)\<rparr>)
      | [] \<Rightarrow> if n \<in> ran (fw_registry s) then None else Some (Disconnected, s))"

definition teardown :: "'w fwd_os \<Rightarrow> nat \<Rightarrow> u16 \<Rightarrow> 'w forwarder \<Rightarrow> 'w forwarder" where
  "teardown E n sid s =
     (let s = snd (tty_send E (Rst sid) s); s = s\<lparr>fw_world := cl_shutdown_both E (fw_world s) n\<rparr>
      in deregister sid s)"

definition connected :: "'w fwd_os \<Rightarrow> nat \<Rightarrow> u16 \<Rightarrow> 'w forwarder \<Rightarrow> 'w forwarder" where
  "connected E n sid s =
     (case socks5_reply E n SOCKS_OK (fw_world s) of
        (False, w) \<Rightarrow> at_phase n Returned (teardown E n sid (s\<lparr>fw_world := w\<rparr>))
      | (True, w) \<Rightarrow>
          (case cl_try_clone E w n of
             (False, w) \<Rightarrow> at_phase n Returned (teardown E n sid (s\<lparr>fw_world := w\<rparr>))
           | (True, w) \<Rightarrow> at_phase n (Relaying sid True (Some 0)) (s\<lparr>fw_world := w\<rparr>)))"

definition give_up :: "'w fwd_os \<Rightarrow> nat \<Rightarrow> u16 \<Rightarrow> u8 \<Rightarrow> 'w forwarder \<Rightarrow> 'w forwarder" where
  "give_up E n sid rep s =
     at_phase n Returned (deregister sid (s\<lparr>fw_world := snd (socks5_reply E n rep (fw_world s))\<rparr>))"

definition verdict_step :: "'w fwd_os \<Rightarrow> nat \<Rightarrow> u16 \<Rightarrow> 'w forwarder \<Rightarrow> 'w forwarder option" where
  "verdict_step E n sid s =
     map_option (\<lambda>(r, s).
         case r of
           Got InConnected \<Rightarrow> connected E n sid s
         | Got (InFailed reason) \<Rightarrow> give_up E n sid (reply_code_for reason) s
         | _ \<Rightarrow> give_up E n sid SOCKS_GENERAL_FAILURE s)
       (recv n s)"

text \<open>One round of \<open>relay_up\<close> and of \<open>relay_down\<close>: does the loop go on, and with how much ungranted.\<close>

definition relay_up :: "'w fwd_os \<Rightarrow> nat \<Rightarrow> u16 \<Rightarrow> 'w forwarder \<Rightarrow> bool \<times> 'w forwarder" where
  "relay_up E n sid s =
     (case cl_read E (fw_world s) n FWD_READ_CHUNK of
        (ReadBytes bs, w) \<Rightarrow>
          if bs = [] then (False, snd (tty_send E (Close sid) (s\<lparr>fw_world := w\<rparr>)))
          else send_data E sid bs (s\<lparr>fw_world := w\<rparr>)
      | (Interrupted, w) \<Rightarrow> (True, s\<lparr>fw_world := w\<rparr>)
      | (ReadError, w) \<Rightarrow> (False, snd (tty_send E (Rst sid) (s\<lparr>fw_world := w\<rparr>))))"

definition relay_down_msg :: "'w fwd_os \<Rightarrow> nat \<Rightarrow> u16 \<Rightarrow> nat \<Rightarrow> Inbound \<Rightarrow> 'w forwarder \<Rightarrow> nat option \<times> 'w forwarder" where
  "relay_down_msg E n sid ungranted msg s =
     (case msg of
        InData bs \<Rightarrow>
          (case cl_write_all E (fw_world s) n bs of
             (False, w) \<Rightarrow> (None, snd (tty_send E (Rst sid) (s\<lparr>fw_world := w\<rparr>)))
           | (True, w) \<Rightarrow>
               let ungranted = ungranted + length bs; s = s\<lparr>fw_world := w\<rparr>
               in if WINDOW_GRANT_THRESHOLD \<le> ungranted
                  then (Some 0, snd (tty_send E (Window sid (of_nat ungranted)) s))
                  else (Some ungranted, s))
      | InClose \<Rightarrow> (None, s\<lparr>fw_world := cl_shutdown_write E (fw_world s) n\<rparr>)
      | InRst \<Rightarrow> (None, s)
      | _ \<Rightarrow> (Some ungranted, s))"

definition relay_down :: "'w fwd_os \<Rightarrow> nat \<Rightarrow> u16 \<Rightarrow> nat \<Rightarrow> 'w forwarder \<Rightarrow> (nat option \<times> 'w forwarder) option" where
  "relay_down E n sid ungranted s =
     map_option (\<lambda>(r, s). case r of Got msg \<Rightarrow> relay_down_msg E n sid ungranted msg s | Disconnected \<Rightarrow> (None, s))
       (recv n s)"

definition up_step :: "'w fwd_os \<Rightarrow> nat \<Rightarrow> u16 \<Rightarrow> nat option \<Rightarrow> 'w forwarder \<Rightarrow> 'w forwarder" where
  "up_step E n sid down s = (let (go, s) = relay_up E n sid s in at_phase n (Relaying sid go down) s)"

definition down_step :: "'w fwd_os \<Rightarrow> nat \<Rightarrow> u16 \<Rightarrow> bool \<Rightarrow> nat \<Rightarrow> 'w forwarder \<Rightarrow> 'w forwarder option" where
  "down_step E n sid up ungranted s =
     map_option (\<lambda>(down, s).
         at_phase n (Relaying sid up down)
           (if down = None then s\<lparr>fw_world := cl_shutdown_both E (fw_world s) n\<rparr> else s))
       (relay_down E n sid ungranted s)"

definition join_step :: "nat \<Rightarrow> u16 \<Rightarrow> 'w forwarder \<Rightarrow> 'w forwarder" where
  "join_step n sid s = at_phase n Returned (deregister sid s)"

definition accept_step :: "'w forwarder \<Rightarrow> 'w forwarder" where
  "accept_step s = at_phase (fw_accepted s) Fresh (s\<lparr>fw_accepted := fw_accepted s + 1\<rparr>)"

section \<open>All threads\<close>

text \<open>
  One step of any thread, or of the world around the process. A step is the work of a thread from one
  blocking call to the next: the frames of one read of the demultiplexer, one chunk of a relay. The
  locks of the registry and of the port are taken and released within a step, and what two threads do
  between two such calls is not interleaved finer than that.
\<close>

inductive fwd_step :: "'w fwd_os \<Rightarrow> 'w forwarder \<Rightarrow> 'w forwarder \<Rightarrow> bool" for E where
  outside: "fwd_step E s (s\<lparr>fw_world := w\<rparr>)"
| accept: "fwd_step E s (accept_step s)"
| demux: "fwd_step E s (demux_step E s)"
| negotiate: "fw_handlers s n = Fresh \<Longrightarrow> negotiate_step E n s = Some s' \<Longrightarrow> fwd_step E s s'"
| opens: "fw_handlers s n = Registered sid target \<Longrightarrow> fwd_step E s (open_step E n sid target s)"
| verdict: "fw_handlers s n = Waiting sid \<Longrightarrow> verdict_step E n sid s = Some s' \<Longrightarrow> fwd_step E s s'"
| up: "fw_handlers s n = Relaying sid True down \<Longrightarrow> fwd_step E s (up_step E n sid down s)"
| down: "fw_handlers s n = Relaying sid up (Some u) \<Longrightarrow> down_step E n sid up u s = Some s' \<Longrightarrow> fwd_step E s s'"
| join: "fw_handlers s n = Relaying sid False None \<Longrightarrow> fwd_step E s (join_step n sid s)"

inductive fwd_reach :: "'w fwd_os \<Rightarrow> 'w forwarder \<Rightarrow> bool" for E where
  start: "fwd_reach E (forwarder_new w)"
| step: "fwd_reach E s \<Longrightarrow> \<not> fw_exited s \<Longrightarrow> fwd_step E s s' \<Longrightarrow> fwd_reach E s'"

end
