(* ===== verification/ForwarderProps.thy ===== *)
theory ForwarderProps
  imports Forwarder
begin

text \<open>
  What the guest end of the egress wire guarantees: the frames it puts on the wire are ones the host
  accepts, cut anywhere; stream ids belong to one connection each; the window credit it gives back
  never lets the host run dry; and a SOCKS client is answered as the protocol demands.
\<close>

section \<open>Sending\<close>

text \<open>A tty on which no write fails.\<close>

definition healthy_tty :: "'w fwd_os \<Rightarrow> bool" where
  "healthy_tty E \<longleftrightarrow> (\<forall>w bs. fst (tty_write_all E w bs) = None)"

definition only_io :: "'w forwarder \<Rightarrow> 'w forwarder \<Rightarrow> bool" where
  "only_io s s' \<longleftrightarrow> fw_registry s' = fw_registry s \<and> fw_chan s' = fw_chan s \<and> fw_counter s' = fw_counter s
     \<and> fw_handlers s' = fw_handlers s \<and> fw_accepted s' = fw_accepted s \<and> fw_buf s' = fw_buf s \<and> fw_exited s' = fw_exited s"

definition sent :: "'w forwarder \<Rightarrow> EgressFrame list \<Rightarrow> 'w forwarder \<Rightarrow> bool" where
  "sent s fs s' \<longleftrightarrow> only_io s s' \<and> fw_tx s' = fw_tx s @ concat (map wire fs)"

lemma only_io_world: "only_io s (s\<lparr>fw_world := w\<rparr>)"
  by (simp add: only_io_def)

lemma only_io_refl: "only_io s s"
  by (simp add: only_io_def)

lemma only_io_trans: "only_io s s1 \<Longrightarrow> only_io s1 s2 \<Longrightarrow> only_io s s2"
  by (simp add: only_io_def)

lemma sent_Nil: "sent s [] (s\<lparr>fw_world := w\<rparr>)"
  by (simp add: sent_def only_io_def)

lemma sent_refl: "sent s [] s"
  by (simp add: sent_def only_io_def)

lemma sent_trans: "sent s fs s1 \<Longrightarrow> sent s1 gs s2 \<Longrightarrow> sent s (fs @ gs) s2"
  by (simp add: sent_def only_io_def)

lemma sent_world: "sent s fs s1 \<Longrightarrow> sent s fs (s1\<lparr>fw_world := w\<rparr>)"
  by (simp add: sent_def only_io_def)

lemma world_sent: "sent (s\<lparr>fw_world := w\<rparr>) fs s1 \<Longrightarrow> sent s fs s1"
  by (simp add: sent_def only_io_def)

lemma tty_send_sent:
  assumes "healthy_tty E" and "encodable f" shows "fst (tty_send E f s) \<and> sent s [f] (snd (tty_send E f s))"
proof -
  obtain w where "tty_write_all E (fw_world s) (wire f) = (None, w)"
    using assms(1) unfolding healthy_tty_def by (metis prod.collapse)
  then show ?thesis by (simp add: tty_send_def encode_encodable [OF assms(2)] sent_def only_io_def)
qed

lemma chunks_props:
  "0 < n \<Longrightarrow> concat (chunks n xs) = xs \<and> (\<forall>c \<in> set (chunks n xs). length c \<le> n \<and> c \<noteq> [])"
proof (induction n xs rule: chunks.induct)
  case (1 n xs)
  then show ?case by (cases "xs = []") (simp_all add: chunks.simps [of n xs] chunks.simps [of n "[]"])
qed

lemma send_chunks_sent:
  assumes "healthy_tty E" and "\<forall>c \<in> set cs. length c \<le> EGRESS_MAX_PAYLOAD"
  shows "fst (send_chunks E sid cs s) \<and> sent s (map (Data sid) cs) (snd (send_chunks E sid cs s))"
  using assms(2)
proof (induction cs arbitrary: s)
  case Nil
  then show ?case by (simp add: sent_refl)
next
  case (Cons c cs)
  obtain s1 where s1: "tty_send E (Data sid c) s = (True, s1)" "sent s [Data sid c] s1"
    using tty_send_sent [OF assms(1), of "Data sid c" s] Cons.prems by (cases "tty_send E (Data sid c) s") auto
  then show ?case using Cons sent_trans [OF s1(2)] by fastforce
qed

lemma send_data_sent:
  assumes "healthy_tty E"
  shows "\<exists>cs. concat cs = bs \<and> (\<forall>c \<in> set cs. length c \<le> EGRESS_MAX_PAYLOAD) \<and> fst (send_data E sid bs s)
    \<and> sent s (map (Data sid) cs) (snd (send_data E sid bs s))"
  using chunks_props [of EGRESS_MAX_PAYLOAD bs] send_chunks_sent [OF assms, of "chunks EGRESS_MAX_PAYLOAD bs" sid s]
  by (intro exI [of _ "chunks EGRESS_MAX_PAYLOAD bs"]) (auto simp: send_data_def EGRESS_MAX_PAYLOAD_def)

section \<open>Talking on one stream\<close>

lemma only_io_tty_send: "only_io s (snd (tty_send E f s))"
  by (auto simp: tty_send_def only_io_def split: sum.splits prod.splits option.splits)

lemma only_io_send_chunks: "only_io s (snd (send_chunks E sid cs s))"
proof (induction cs arbitrary: s)
  case Nil
  then show ?case by (simp add: only_io_refl)
next
  case (Cons c cs)
  obtain ok s1 where s1: "tty_send E (Data sid c) s = (ok, s1)" by fastforce
  then have "only_io s s1" using only_io_tty_send [of s E "Data sid c"] by simp
  then show ?case using s1 Cons [of s1] by (cases ok) (auto intro: only_io_trans)
qed

fun is_open :: "EgressFrame \<Rightarrow> bool" where
  "is_open (Open _ _ _) \<longleftrightarrow> True"
| "is_open _ \<longleftrightarrow> False"

fun to_host_frame :: "EgressFrame \<Rightarrow> bool" where
  "to_host_frame (OpenOk _) \<longleftrightarrow> False"
| "to_host_frame (OpenErr _ _) \<longleftrightarrow> False"
| "to_host_frame (Open _ port host) \<longleftrightarrow> host \<noteq> [] \<and> port \<noteq> 0"
| "to_host_frame _ \<longleftrightarrow> True"

definition speaks :: "u16 \<Rightarrow> EgressFrame list \<Rightarrow> bool" where
  "speaks sid fs \<longleftrightarrow> (\<forall>f \<in> set fs. frame_stream f = sid \<and> encodable f \<and> to_host_frame f \<and> \<not> is_open f)"

text \<open>From \<open>s\<close> to \<open>s'\<close> only bytes went out, on a healthy tty whole frames of one stream.\<close>

definition talked :: "'w fwd_os \<Rightarrow> u16 \<Rightarrow> 'w forwarder \<Rightarrow> 'w forwarder \<Rightarrow> bool" where
  "talked E sid s s' \<longleftrightarrow> only_io s s' \<and> (healthy_tty E \<longrightarrow> (\<exists>fs. speaks sid fs \<and> sent s fs s'))"

lemma talked_world: "talked E sid s (s\<lparr>fw_world := w\<rparr>)"
  unfolding talked_def by (auto simp: speaks_def only_io_world intro!: exI [of _ "[]"] sent_Nil)

lemma talked_refl: "talked E sid s s"
  unfolding talked_def by (auto simp: speaks_def only_io_refl intro!: exI [of _ "[]"] sent_refl)

lemma talked_trans:
  assumes "talked E sid s s1" and "talked E sid s1 s2" shows "talked E sid s s2"
proof -
  have "\<exists>fs. speaks sid fs \<and> sent s fs s2" if h: "healthy_tty E"
  proof -
    obtain fs gs where "speaks sid fs" "sent s fs s1" "speaks sid gs" "sent s1 gs s2"
      using assms h by (auto simp: talked_def)
    then show ?thesis by (intro exI [of _ "fs @ gs"]) (auto simp: speaks_def intro: sent_trans)
  qed
  then show ?thesis using assms only_io_trans by (auto simp: talked_def)
qed

lemma talked_tty_send:
  assumes "encodable f" "to_host_frame f" "\<not> is_open f" "frame_stream f = sid"
  shows "talked E sid s (snd (tty_send E f s))"
  using assms tty_send_sent [of E f s] only_io_tty_send [of s E f] unfolding talked_def speaks_def
  by (auto intro!: exI [of _ "[f]"])

lemma talked_send_data: "talked E sid s (snd (send_data E sid bs s))"
proof -
  have "\<exists>fs. speaks sid fs \<and> sent s fs (snd (send_data E sid bs s))" if h: "healthy_tty E"
  proof -
    obtain cs where "\<forall>c \<in> set cs. length c \<le> EGRESS_MAX_PAYLOAD" "sent s (map (Data sid) cs) (snd (send_data E sid bs s))"
      using send_data_sent [OF h] by blast
    then show ?thesis by (intro exI [of _ "map (Data sid) cs"]) (auto simp: speaks_def)
  qed
  then show ?thesis by (simp add: talked_def send_data_def only_io_send_chunks)
qed

lemma talked_relay_up: "talked E sid s (snd (relay_up E n sid s))"
proof (cases "cl_read E (fw_world s) n FWD_READ_CHUNK")
  case (Pair r w)
  note io = talked_trans [OF talked_world talked_tty_send] talked_trans [OF talked_world talked_send_data]
  show ?thesis using Pair by (cases r) (simp_all add: relay_up_def talked_world io)
qed

lemma talked_relay_down_msg: "talked E sid s (snd (relay_down_msg E n sid u msg s))"
proof (cases msg)
  case (InData bs)
  obtain ok w where c: "cl_write_all E (fw_world s) n bs = (ok, w)" by fastforce
  show ?thesis
    using InData c by (cases ok)
      (simp_all add: relay_down_msg_def Let_def talked_world talked_trans [OF talked_world talked_tty_send])
qed (simp_all add: relay_down_msg_def talked_refl talked_world)

lemma relay_down_msg_range:
  "fst (relay_down_msg E n sid u msg s) = Some u' \<Longrightarrow> u < WINDOW_GRANT_THRESHOLD \<Longrightarrow> u' < WINDOW_GRANT_THRESHOLD"
  by (auto simp: relay_down_msg_def Let_def WINDOW_GRANT_THRESHOLD_def split: Inbound.splits prod.splits bool.splits if_splits)

section \<open>Which connection owns which stream\<close>

fun live_id :: "handler \<Rightarrow> u16 option" where
  "live_id (Registered sid _) = Some sid"
| "live_id (Waiting sid) = Some sid"
| "live_id (Relaying sid _ _) = Some sid"
| "live_id Fresh = None"
| "live_id Returned = None"

definition target_ok :: "Socks5Target \<Rightarrow> bool" where
  "target_ok t \<longleftrightarrow> tg_host t \<noteq> [] \<and> length (tg_host t) \<le> EGRESS_MAX_HOST_LEN \<and> tg_port t \<noteq> 0"

fun handler_ok :: "handler \<Rightarrow> bool" where
  "handler_ok (Registered _ t) \<longleftrightarrow> target_ok t"
| "handler_ok (Relaying _ _ (Some u)) \<longleftrightarrow> u < WINDOW_GRANT_THRESHOLD"
| "handler_ok _ \<longleftrightarrow> True"

fun inbound_ok :: "Inbound \<Rightarrow> bool" where
  "inbound_ok (InData bs) \<longleftrightarrow> length bs \<le> EGRESS_MAX_PAYLOAD"
| "inbound_ok _ \<longleftrightarrow> True"

definition table_ok :: "'w forwarder \<Rightarrow> bool" where
  "table_ok s \<longleftrightarrow> (\<forall>sid n. fw_registry s sid = Some n \<longleftrightarrow> live_id (fw_handlers s n) = Some sid)
     \<and> (\<forall>n \<ge> fw_accepted s. fw_handlers s n = Returned)
     \<and> (\<forall>n. handler_ok (fw_handlers s n)) \<and> (\<forall>n. \<forall>m \<in> set (fw_chan s n). inbound_ok m)"

lemma table_ok_cong:
  "table_ok s \<Longrightarrow> fw_registry s' = fw_registry s \<Longrightarrow> fw_handlers s' = fw_handlers s \<Longrightarrow> fw_accepted s' = fw_accepted s
   \<Longrightarrow> fw_chan s' = fw_chan s \<Longrightarrow> table_ok s'"
  by (simp add: table_ok_def)

lemma table_ok_io: "only_io s s' \<Longrightarrow> table_ok s \<Longrightarrow> table_ok s'"
  by (rule table_ok_cong) (simp_all add: only_io_def)

lemma table_ok_phase:
  assumes "table_ok s" and "fw_handlers s n \<noteq> Returned" and "live_id h = live_id (fw_handlers s n)" and "handler_ok h"
  shows "table_ok (at_phase n h s)"
  using assms by (auto simp: table_ok_def at_phase_def not_le [symmetric])

lemma table_ok_leave:
  assumes "table_ok s" and "live_id (fw_handlers s n) = Some sid"
  shows "table_ok (at_phase n Returned (deregister sid s))"
proof -
  have "live_id (fw_handlers s m) \<noteq> Some sid" if "m \<noteq> n" for m
    using assms that unfolding table_ok_def by (metis option.inject)
  then show ?thesis using assms by (auto simp: table_ok_def at_phase_def deregister_def)
qed

lemma table_ok_enter:
  assumes "table_ok s" and "fw_handlers s n = Fresh" and "fw_registry s sid = None" and "target_ok t"
  shows "table_ok (at_phase n (Registered sid t)
    (s\<lparr>fw_counter := c, fw_registry := (fw_registry s)(sid \<mapsto> n), fw_chan := (fw_chan s)(n := [])\<rparr>))"
proof -
  have free: "live_id (fw_handlers s m) \<noteq> Some sid" for m
    using assms(1,3) unfolding table_ok_def by (metis option.distinct(1))
  have "n < fw_accepted s" using assms(1,2) by (metis handler.distinct(7) not_le table_ok_def)
  then show ?thesis using assms free by (auto simp: table_ok_def at_phase_def)
qed

section \<open>Allocating a stream id\<close>

lemma find_id_free: "find_id reg c = Some (sid, c') \<Longrightarrow> reg sid = None"
proof -
  assume "find_id reg c = Some (sid, c')"
  then have "reg (fst (sid, c')) = None"
    by (rule find_id.raw_induct [where P = "\<lambda>reg c x. reg (fst x) = None", rotated]) (force simp: Let_def split: if_splits)
  then show ?thesis by simp
qed

lemma ucast_succ: "ucast (c + 1) = (ucast c + 1 :: u16)" for c :: u32
proof -
  have "unat (ucast (c + 1) :: u16) = unat (c + 1) mod 2 ^ 16" by (simp add: unsigned_ucast_eq take_bit_eq_mod)
  also have "\<dots> = (unat c + 1) mod 2 ^ 16" by (simp add: unat_word_ariths mod_mod_cancel)
  also have "\<dots> = (unat c mod 2 ^ 16 + 1) mod 2 ^ 16" by (simp only: mod_add_left_eq)
  also have "\<dots> = unat (ucast c + 1 :: u16)" by (simp add: unat_word_ariths unsigned_ucast_eq take_bit_eq_mod)
  finally show ?thesis by (simp only: word_unat_eq_iff)
qed

lemma unat_pred: "x \<noteq> 0 \<Longrightarrow> unat (x - 1) = unat x - 1" for x :: u16
  using unat_sub [of 1 x] unat_eq_0 [of x] by (simp add: word_le_nat_alt)

lemma find_id_ends:
  assumes "reg sid = None" shows "\<exists>sid' c'. find_id reg c = Some (sid', c')"
proof (induction "unat (sid - ucast c :: u16)" arbitrary: c)
  case 0
  then have "sid = ucast c" by (simp add: unat_eq_0)
  then show ?case using assms by (subst find_id.simps) (simp add: Let_def)
next
  case (Suc d)
  have "sid - ucast (c + 1) = (sid - ucast c) - 1" by (simp add: ucast_succ)
  moreover have "unat (sid - ucast c - 1) = unat (sid - ucast c) - 1" using Suc.hyps(2) by (intro unat_pred) auto
  ultimately have "unat (sid - ucast (c + 1)) = unat (sid - ucast c) - 1" by (simp only:)
  then have "d = unat (sid - ucast (c + 1))" using Suc.hyps(2) by linarith
  then show ?case using Suc.hyps(1) [of "c + 1"] by (subst find_id.simps) (simp add: Let_def)
qed

section \<open>What the handshake accepts\<close>

text \<open>\<open>read_exact\<close> fills the buffer it is given, or fails.\<close>

definition exact_reads :: "'w fwd_os \<Rightarrow> bool" where
  "exact_reads E \<longleftrightarrow> (\<forall>w n k. case fst (cl_read_exact E w n k) of Some bs \<Rightarrow> length bs = k | None \<Rightarrow> True)"

lemma read_client_length: "exact_reads E \<Longrightarrow> read_client E n k w = (Inr bs, w') \<Longrightarrow> length bs = k"
  unfolding exact_reads_def read_client_def
  by (elim allE [of _ w] allE [of _ n] allE [of _ k]) (auto split: prod.splits option.splits)

lemma decimal_length: "n < 1000 \<Longrightarrow> 0 < length (decimal n) \<and> length (decimal n) \<le> 3"
  by (simp add: decimal.simps [of n] decimal.simps [of "n div 10"] decimal.simps [of "n div 10 div 10"])

lemma ipv4_text_length: "0 < length (ipv4_text a)" "length (ipv4_text a) \<le> EGRESS_MAX_HOST_LEN"
proof -
  have "unat b < 2 ^ LENGTH(8)" for b :: u8 by (rule unsigned_less)
  then have "unat b < 1000" for b :: u8 using less_trans [of "unat b" 256 1000] by simp
  then have d: "0 < length (decimal (unat b)) \<and> length (decimal (unat b)) \<le> 3" for b :: u8 by (rule decimal_length)
  show "0 < length (ipv4_text a)" by (simp add: ipv4_text_def Let_def ascii_def)
  show "length (ipv4_text a) \<le> EGRESS_MAX_HOST_LEN"
    using d [of "a ! 0"] d [of "a ! 1"] d [of "a ! 2"] d [of "a ! 3"]
    by (simp add: ipv4_text_def Let_def ascii_def EGRESS_MAX_HOST_LEN_def)
qed

lemma ipv6_text_length: "0 < length (ipv6_text a)" "length (ipv6_text a) \<le> EGRESS_MAX_HOST_LEN"
proof -
  let ?seg = "\<lambda>i. hex_u16 (from_be_bytes_u16 (a ! i) (a ! (i + 1)))"
  show "0 < length (ipv6_text a)" using hex_u16_length(1) by (simp add: ipv6_text_def Let_def)
  show "length (ipv6_text a) \<le> EGRESS_MAX_HOST_LEN"
    using hex_u16_length(2) [of "from_be_bytes_u16 (a ! 0) (a ! Suc 0)"] hex_u16_length(2) [of "from_be_bytes_u16 (a ! 2) (a ! Suc 2)"]
      hex_u16_length(2) [of "from_be_bytes_u16 (a ! 4) (a ! Suc 4)"] hex_u16_length(2) [of "from_be_bytes_u16 (a ! 6) (a ! Suc 6)"]
      hex_u16_length(2) [of "from_be_bytes_u16 (a ! 8) (a ! Suc 8)"] hex_u16_length(2) [of "from_be_bytes_u16 (a ! 10) (a ! Suc 10)"]
      hex_u16_length(2) [of "from_be_bytes_u16 (a ! 12) (a ! Suc 12)"] hex_u16_length(2) [of "from_be_bytes_u16 (a ! 14) (a ! Suc 14)"]
    by (simp add: ipv6_text_def Let_def ascii_def EGRESS_MAX_HOST_LEN_def)
qed

lemma socks5_address_length:
  assumes "exact_reads E" and "socks5_address E n atyp w = (Inr host, w')" shows "length host \<le> EGRESS_MAX_HOST_LEN"
proof -
  have "unat b < 2 ^ LENGTH(8)" for b :: u8 by (rule unsigned_less)
  then have "unat b \<le> 255" for b :: u8 using less_Suc_eq_le [of "unat b" 255] by simp
  then show ?thesis
    using assms(2) ipv4_text_length(2) ipv6_text_length(2)
    by (auto simp: socks5_address_def and_then_Inr EGRESS_MAX_HOST_LEN_def dest!: read_client_length [OF assms(1)] split: if_splits)
qed

lemma negotiated_target:
  "exact_reads E \<Longrightarrow> socks5_negotiate E n w = (Inr t, w') \<Longrightarrow> target_ok t"
  by (auto simp: socks5_negotiate_def socks5_request_def and_then_Inr Let_def target_ok_def
      dest: socks5_address_length split: if_splits)

section \<open>Every step keeps the table\<close>

lemma recv_cases:
  assumes "recv n s = Some (r, s1)"
  shows "fw_handlers s1 = fw_handlers s" "fw_registry s1 = fw_registry s" "fw_tx s1 = fw_tx s"
    "table_ok s \<Longrightarrow> table_ok s1" "table_ok s \<Longrightarrow> r = Got msg \<Longrightarrow> inbound_ok msg"
proof -
  have chan: "table_ok s \<Longrightarrow> m \<in> set (fw_chan s n) \<Longrightarrow> inbound_ok m" for m by (simp add: table_ok_def)
  show "fw_handlers s1 = fw_handlers s" "fw_registry s1 = fw_registry s" "fw_tx s1 = fw_tx s"
    using assms by (auto simp: recv_def split: list.splits if_splits)
  show "table_ok s \<Longrightarrow> r = Got msg \<Longrightarrow> inbound_ok msg"
    using assms chan [of msg] by (auto simp: recv_def split: list.splits if_splits)
  assume ok: "table_ok s"
  show "table_ok s1"
  proof (cases "fw_chan s n")
    case (Cons m rest)
    then have "s1 = s\<lparr>fw_chan := (fw_chan s)(n := rest)\<rparr>" using assms by (simp add: recv_def)
    then show ?thesis using ok chan [OF ok] Cons by (simp add: table_ok_def)
  qed (use assms ok in \<open>auto simp: recv_def split: if_splits\<close>)
qed

text \<open>What a handler that owns a stream can do in one step.\<close>

definition moved :: "'w fwd_os \<Rightarrow> nat \<Rightarrow> u16 \<Rightarrow> 'w forwarder \<Rightarrow> 'w forwarder \<Rightarrow> bool" where
  "moved E n sid s s' \<longleftrightarrow> (\<exists>s2. talked E sid s s2 \<and>
     (s' = at_phase n Returned (deregister sid s2)
      \<or> (\<exists>up down. handler_ok (Relaying sid up down) \<and> s' = at_phase n (Relaying sid up down) s2)))"

lemma moved_leave: "talked E sid s s2 \<Longrightarrow> moved E n sid s (at_phase n Returned (deregister sid s2))"
  unfolding moved_def by blast

lemma moved_relay:
  "talked E sid s s2 \<Longrightarrow> handler_ok (Relaying sid up down) \<Longrightarrow> moved E n sid s (at_phase n (Relaying sid up down) s2)"
  unfolding moved_def by blast

lemma moved_table:
  assumes "table_ok s" and "live_id (fw_handlers s n) = Some sid" and "moved E n sid s s'" shows "table_ok s'"
proof -
  obtain s2 where t: "talked E sid s s2" and c: "s' = at_phase n Returned (deregister sid s2)
      \<or> (\<exists>up down. handler_ok (Relaying sid up down) \<and> s' = at_phase n (Relaying sid up down) s2)"
    using assms(3) unfolding moved_def by blast
  have ok: "table_ok s2" and h: "fw_handlers s2 = fw_handlers s"
    using t assms(1) table_ok_io by (auto simp: talked_def only_io_def)
  have alive: "fw_handlers s2 n \<noteq> Returned" using assms(2) h by auto
  have "table_ok (at_phase n (Relaying sid up down) s2)" if "handler_ok (Relaying sid up down)" for up down
    using assms(2) h that by (intro table_ok_phase [OF ok alive]) simp_all
  then show ?thesis using c table_ok_leave [OF ok, of n sid] assms(2) h by auto
qed

lemma moved_teardown: "moved E n sid s (at_phase n Returned (teardown E n sid s))"
proof -
  have "talked E sid s (snd (tty_send E (Rst sid) s))" by (rule talked_tty_send) simp_all
  then show ?thesis unfolding teardown_def Let_def by (intro moved_leave talked_trans [OF _ talked_world])
qed

lemma moved_world: "moved E n sid (s\<lparr>fw_world := w\<rparr>) s' \<Longrightarrow> moved E n sid s s'"
  unfolding moved_def by (elim exE conjE) (blast intro: talked_trans [OF talked_world])

lemma moved_connected: "moved E n sid s (connected E n sid s)"
proof (cases "socks5_reply E n SOCKS_OK (fw_world s)")
  case (Pair ok w)
  obtain ok2 w2 where c: "cl_try_clone E w n = (ok2, w2)" by fastforce
  have down: "moved E n sid s (at_phase n Returned (teardown E n sid (s\<lparr>fw_world := w\<rparr>)))" for w
    by (rule moved_world [OF moved_teardown])
  have relay: "moved E n sid s (at_phase n (Relaying sid True (Some 0)) (s\<lparr>fw_world := w2\<rparr>))"
    by (rule moved_relay [OF talked_world]) (simp add: WINDOW_GRANT_THRESHOLD_def)
  show ?thesis using Pair c down relay by (cases ok; cases ok2) (simp_all add: connected_def)
qed

lemma moved_give_up: "moved E n sid s (give_up E n sid rep s)"
  unfolding give_up_def by (rule moved_leave [OF talked_world])

lemma moved_verdict:
  assumes "verdict_step E n sid s = Some s'" shows "\<exists>r s1. recv n s = Some (r, s1) \<and> moved E n sid s1 s'"
proof -
  obtain r s1 where r: "recv n s = Some (r, s1)" using assms by (auto simp: verdict_step_def)
  have "s' = connected E n sid s1 \<or> (\<exists>rep. s' = give_up E n sid rep s1)"
    using assms r by (auto simp: verdict_step_def split: received.splits Inbound.splits)
  then show ?thesis using r moved_connected moved_give_up by metis
qed

lemma moved_up: "handler_ok (Relaying sid True down) \<Longrightarrow> moved E n sid s (up_step E n sid down s)"
proof -
  assume "handler_ok (Relaying sid True down)"
  then have "handler_ok (Relaying sid go down)" for go by (cases down) auto
  then have "moved E n sid s (at_phase n (Relaying sid go down) (snd (relay_up E n sid s)))" for go
    by (rule moved_relay [OF talked_relay_up])
  then show ?thesis by (simp add: up_step_def case_prod_unfold Let_def)
qed

lemma moved_down:
  assumes "down_step E n sid up u s = Some s'" and "u < WINDOW_GRANT_THRESHOLD"
  shows "\<exists>r s1. recv n s = Some (r, s1) \<and> moved E n sid s1 s'"
proof -
  obtain r s1 where r: "recv n s = Some (r, s1)" using assms by (auto simp: down_step_def relay_down_def)
  define ds where "ds = (case r of Got msg \<Rightarrow> relay_down_msg E n sid u msg s1 | Disconnected \<Rightarrow> (None, s1))"
  have t: "talked E sid s1 (snd ds)" by (cases r) (simp_all add: ds_def talked_relay_down_msg talked_refl)
  have ok: "handler_ok (Relaying sid up (fst ds))"
    using relay_down_msg_range [OF _ assms(2)] by (cases r; cases "fst ds") (auto simp: ds_def)
  have s': "s' = at_phase n (Relaying sid up (fst ds))
      (if fst ds = None then (snd ds)\<lparr>fw_world := cl_shutdown_both E (fw_world (snd ds)) n\<rparr> else snd ds)"
    using assms(1) r by (cases ds) (auto simp: down_step_def relay_down_def ds_def)
  have "moved E n sid s1 s'"
    unfolding s' by (rule moved_relay [OF _ ok]) (simp add: t talked_trans [OF t talked_world])
  then show ?thesis using r by blast
qed

lemma inbound_of_ok: "inbound_of f = Some (sid, msg) \<Longrightarrow> encodable f \<Longrightarrow> inbound_ok msg"
  by (cases f) auto

lemma route_props:
  "fw_handlers (fwd_route f s) = fw_handlers s" "fw_tx (fwd_route f s) = fw_tx s"
  "table_ok s \<Longrightarrow> encodable f \<Longrightarrow> table_ok (fwd_route f s)"
  by (auto simp: fwd_route_def table_ok_def inbound_of_ok split: option.splits)

lemma demux_frames_props:
  "fw_handlers (demux_frames buf s) = fw_handlers s \<and> fw_tx (demux_frames buf s) = fw_tx s
   \<and> (table_ok s \<longrightarrow> table_ok (demux_frames buf s))"
proof (induction buf s rule: demux_frames.induct)
  case (1 buf s)
  show ?case
  proof (cases "decode buf")
    case (Ok x)
    show ?thesis
    proof (cases x)
      case None
      then show ?thesis using Ok by (simp add: demux_frames.simps [of buf s] table_ok_def)
    next
      case (Some d)
      then have e: "encodable (frame d)" using decode_Some_wire [of buf d] Ok by simp
      have "demux_frames buf s = demux_frames (drop (consumed d) buf) (fwd_route (frame d) s)"
        using Ok Some by (simp add: demux_frames.simps [of buf s])
      then show ?thesis using 1 [OF Ok Some] e by (simp add: route_props)
    qed
  qed (simp_all add: demux_frames.simps [of buf s] table_ok_def)
qed

lemma demux_step_props:
  "fw_handlers (demux_step E s) = fw_handlers s \<and> fw_tx (demux_step E s) = fw_tx s
   \<and> (table_ok s \<longrightarrow> table_ok (demux_step E s))"
proof (cases "tty_read E (fw_world s) FWD_READ_CHUNK")
  case (Pair r w)
  have w: "table_ok (s\<lparr>fw_world := w\<rparr>) \<longleftrightarrow> table_ok s" "table_ok (s\<lparr>fw_exited := e, fw_world := w\<rparr>) \<longleftrightarrow> table_ok s" for e
    by (simp_all add: table_ok_def)
  show ?thesis using Pair demux_frames_props [of _ "s\<lparr>fw_world := w\<rparr>"] by (cases r) (simp_all add: demux_step_def w)
qed

lemma negotiate_cases:
  assumes "negotiate_step E n s = Some s'"
  obtains (rejected) w where "s' = at_phase n Returned (s\<lparr>fw_world := w\<rparr>)"
  | (accepted) sid t c w where "fw_registry s sid = None" "exact_reads E \<Longrightarrow> target_ok t"
      "s' = at_phase n (Registered sid t) (s\<lparr>fw_world := w, fw_counter := c,
         fw_registry := (fw_registry s)(sid \<mapsto> n), fw_chan := (fw_chan s)(n := [])\<rparr>)"
proof (cases "socks5_negotiate E n (fw_world s)")
  case (Pair r w)
  show thesis
  proof (cases r)
    case (Inl e)
    then show thesis using assms Pair rejected by (cases e) (auto simp: negotiate_step_def)
  next
    case (Inr t)
    obtain sid c where f: "find_id (fw_registry s) (fw_counter s) = Some (sid, c)"
      and s': "s' = at_phase n (Registered sid t) (s\<lparr>fw_world := w, fw_counter := c,
         fw_registry := (fw_registry s)(sid \<mapsto> n), fw_chan := (fw_chan s)(n := [])\<rparr>)"
      using assms Pair Inr by (auto simp: negotiate_step_def register_def)
    have "exact_reads E \<Longrightarrow> target_ok t" using negotiated_target [of E n "fw_world s" t w] Pair Inr by simp
    then show thesis by (rule accepted [OF find_id_free [OF f] _ s'])
  qed
qed

lemma table_ok_new: "table_ok (forwarder_new w)"
  by (simp add: table_ok_def forwarder_new_def)

lemma table_ok_accept: "table_ok s \<Longrightarrow> table_ok (accept_step s)"
proof -
  assume ok: "table_ok s"
  then have r: "fw_handlers s (fw_accepted s) = Returned" by (simp add: table_ok_def)
  have "live_id (((fw_handlers s)(fw_accepted s := Fresh)) m) = live_id (fw_handlers s m)" for m by (simp add: r)
  then show ?thesis using ok by (simp add: table_ok_def accept_step_def at_phase_def)
qed

lemma table_ok_step:
  assumes x: "exact_reads E" and ok: "table_ok s" and st: "fwd_step E s s'" shows "table_ok s'"
  using st
proof (cases rule: fwd_step.cases)
  case (outside w)
  then show ?thesis using ok by (simp add: table_ok_def)
next
  case accept
  then show ?thesis using table_ok_accept [OF ok] by simp
next
  case demux
  then show ?thesis using ok demux_step_props [of E s] by simp
next
  case (negotiate n)
  from negotiate(2) show ?thesis
  proof (cases rule: negotiate_cases)
    case (rejected w)
    have "table_ok (s\<lparr>fw_world := w\<rparr>)" using ok by (simp add: table_ok_def)
    then show ?thesis unfolding rejected using negotiate(1) by (intro table_ok_phase) simp_all
  next
    case (accepted sid t c w)
    have "table_ok (s\<lparr>fw_world := w\<rparr>)" using ok by (simp add: table_ok_def)
    from table_ok_enter [OF this, of n sid t c] show ?thesis using accepted negotiate(1) x by simp
  qed
next
  case (opens n sid t)
  obtain sent_ok s1 where s1: "tty_send E (Open sid (tg_port t) (tg_host t)) s = (sent_ok, s1)" by fastforce
  then have io: "only_io s s1" using only_io_tty_send [of s E "Open sid (tg_port t) (tg_host t)"] by simp
  then have ok1: "table_ok s1" using ok by (rule table_ok_io)
  have h: "fw_handlers s1 n = Registered sid t" using opens(2) io by (simp add: only_io_def)
  show ?thesis
    using opens s1 h table_ok_leave [OF ok1, of n sid] table_ok_phase [OF ok1, of n "Waiting sid"]
    by (cases sent_ok) (simp_all add: open_step_def)
next
  case (verdict n sid)
  obtain r s1 where r: "recv n s = Some (r, s1)" "moved E n sid s1 s'" using moved_verdict [OF verdict(2)] by blast
  show ?thesis using verdict(1) recv_cases [OF r(1)] ok by (intro moved_table [OF _ _ r(2)]) simp_all
next
  case (up n sid down)
  have "handler_ok (fw_handlers s n)" using ok by (simp add: table_ok_def)
  then have "moved E n sid s s'" unfolding up(1,2) by (rule moved_up)
  moreover have "live_id (fw_handlers s n) = Some sid" by (simp add: up(2))
  ultimately show ?thesis by (rule moved_table [OF ok, rotated])
next
  case (down n sid up u)
  have "handler_ok (fw_handlers s n)" using ok by (simp add: table_ok_def)
  then have u: "u < WINDOW_GRANT_THRESHOLD" by (simp only: down(1) handler_ok.simps)
  obtain r s1 where r: "recv n s = Some (r, s1)" "moved E n sid s1 s'" using moved_down [OF down(2) u] by blast
  show ?thesis using down(1) recv_cases [OF r(1)] ok by (intro moved_table [OF _ _ r(2)]) simp_all
next
  case (join n sid)
  then show ?thesis using table_ok_leave [OF ok, of n sid] by (simp add: join_step_def)
qed

lemma fwd_reach_table: "fwd_reach E s \<Longrightarrow> exact_reads E \<Longrightarrow> table_ok s"
  by (induction rule: fwd_reach.induct) (auto intro: table_ok_new table_ok_step)

section \<open>What is on the wire\<close>

definition opened :: "EgressFrame list \<Rightarrow> u16 set" where
  "opened fs = {frame_stream f | f. f \<in> set fs \<and> is_open f}"

text \<open>Nothing is said on a stream before its open.\<close>

fun disciplined :: "u16 set \<Rightarrow> EgressFrame list \<Rightarrow> bool" where
  "disciplined S [] \<longleftrightarrow> True"
| "disciplined S (f # fs) \<longleftrightarrow> (if is_open f then disciplined (insert (frame_stream f) S) fs
                              else frame_stream f \<in> S \<and> disciplined S fs)"

lemma opened_simps [simp]:
  "opened [] = {}" "opened (fs @ gs) = opened fs \<union> opened gs"
  "opened (f # fs) = (if is_open f then insert (frame_stream f) (opened fs) else opened fs)"
  by (auto simp: opened_def)

lemma disciplined_append: "disciplined S (fs @ gs) \<longleftrightarrow> disciplined S fs \<and> disciplined (S \<union> opened fs) gs"
  by (induction fs arbitrary: S) simp_all

lemma disciplined_speaks: "speaks sid fs \<Longrightarrow> sid \<in> S \<Longrightarrow> disciplined S fs"
  by (induction fs) (auto simp: speaks_def)

lemma opened_speaks: "speaks sid fs \<Longrightarrow> opened fs = {}"
  by (auto simp: opened_def speaks_def)

fun opened_id :: "handler \<Rightarrow> u16 option" where
  "opened_id (Waiting sid) = Some sid"
| "opened_id (Relaying sid _ _) = Some sid"
| "opened_id _ = None"

definition wire_ok :: "EgressFrame list \<Rightarrow> 'w forwarder \<Rightarrow> bool" where
  "wire_ok fs s \<longleftrightarrow> fw_tx s = concat (map wire fs) \<and> (\<forall>f \<in> set fs. encodable f \<and> to_host_frame f)
     \<and> disciplined {} fs \<and> (\<forall>n sid. opened_id (fw_handlers s n) = Some sid \<longrightarrow> sid \<in> opened fs)"

lemma wire_ok_silent:
  assumes "wire_ok fs s" and "fw_tx s' = fw_tx s"
    and "\<And>n sid. opened_id (fw_handlers s' n) = Some sid \<Longrightarrow> \<exists>m. opened_id (fw_handlers s m) = Some sid"
  shows "wire_ok fs s'"
  using assms unfolding wire_ok_def by metis

lemma wire_ok_moved:
  assumes h: "healthy_tty E" and "wire_ok fs s" and "opened_id (fw_handlers s n) = Some sid" and "moved E n sid s s'"
  shows "\<exists>gs. wire_ok gs s'"
proof -
  obtain s2 gs where t: "speaks sid gs" "sent s gs s2" and c: "s' = at_phase n Returned (deregister sid s2)
      \<or> (\<exists>up down. s' = at_phase n (Relaying sid up down) s2)"
    using assms(4) h unfolding moved_def talked_def by blast
  have h2: "fw_handlers s2 = fw_handlers s" "fw_tx s2 = fw_tx s @ concat (map wire gs)"
    using t(2) by (simp_all add: sent_def only_io_def)
  have tx: "fw_tx s' = fw_tx s2" using c by (auto simp: at_phase_def deregister_def)
  have ids: "opened_id (fw_handlers s' m) = Some i \<Longrightarrow> i \<in> opened fs" for m i
    using c assms(2,3) h2(1) by (auto simp: at_phase_def deregister_def wire_ok_def split: if_splits)
  have "wire_ok (fs @ gs) s'"
    using assms(2,3) t(1) tx h2(2) ids disciplined_speaks [OF t(1), of "opened fs"] opened_speaks [OF t(1)]
    by (auto simp: wire_ok_def disciplined_append speaks_def)
  then show ?thesis by blast
qed

lemma wire_ok_step:
  assumes h: "healthy_tty E" and ok: "table_ok s" and w: "wire_ok fs s" and st: "fwd_step E s s'"
  shows "\<exists>gs. wire_ok gs s'"
  using st
proof (cases rule: fwd_step.cases)
  case (outside w')
  then show ?thesis using w by (auto simp: wire_ok_def)
next
  case accept
  then have "wire_ok fs s'" using w by (simp add: wire_ok_def accept_step_def at_phase_def)
  then show ?thesis by blast
next
  case demux
  then have "wire_ok fs s'" using w demux_step_props [of E s] by (simp add: wire_ok_def)
  then show ?thesis by blast
next
  case (negotiate n)
  from negotiate(2) have "wire_ok fs s'"
    by (cases rule: negotiate_cases) (use w in \<open>simp_all add: wire_ok_def at_phase_def\<close>)
  then show ?thesis by blast
next
  case (opens n sid t)
  let ?f = "Open sid (tg_port t) (tg_host t)"
  have "handler_ok (fw_handlers s n)" using ok by (simp add: table_ok_def)
  then have t: "target_ok t" by (simp only: opens(2) handler_ok.simps)
  then have e: "encodable ?f" "to_host_frame ?f" by (simp_all add: target_ok_def)
  obtain s1 where s1: "tty_send E ?f s = (True, s1)" "sent s [?f] s1"
    using tty_send_sent [OF h e(1), of s] by (cases "tty_send E ?f s") auto
  have "wire_ok (fs @ [?f]) (at_phase n (Waiting sid) s1)"
    using w s1(2) e by (auto simp: wire_ok_def at_phase_def sent_def only_io_def disciplined_append)
  moreover have "s' = at_phase n (Waiting sid) s1" using opens(1) s1(1) by (simp add: open_step_def)
  ultimately show ?thesis by blast
next
  case (verdict n sid)
  obtain r s1 where r: "recv n s = Some (r, s1)" "moved E n sid s1 s'" using moved_verdict [OF verdict(2)] by blast
  have "wire_ok fs s1" "opened_id (fw_handlers s1 n) = Some sid"
    using w recv_cases [OF r(1)] verdict(1) by (simp_all add: wire_ok_def)
  then show ?thesis by (rule wire_ok_moved [OF h _ _ r(2)])
next
  case (up n sid down)
  have "handler_ok (fw_handlers s n)" using ok by (simp add: table_ok_def)
  then have "moved E n sid s s'" unfolding up(1,2) by (rule moved_up)
  moreover have "opened_id (fw_handlers s n) = Some sid" by (simp add: up(2))
  ultimately show ?thesis by (rule wire_ok_moved [OF h w, rotated])
next
  case (down n sid up u)
  have "handler_ok (fw_handlers s n)" using ok by (simp add: table_ok_def)
  then have u: "u < WINDOW_GRANT_THRESHOLD" by (simp only: down(1) handler_ok.simps)
  obtain r s1 where r: "recv n s = Some (r, s1)" "moved E n sid s1 s'" using moved_down [OF down(2) u] by blast
  have "wire_ok fs s1" "opened_id (fw_handlers s1 n) = Some sid"
    using w recv_cases [OF r(1)] down(1) by (simp_all add: wire_ok_def)
  then show ?thesis by (rule wire_ok_moved [OF h _ _ r(2)])
next
  case (join n sid)
  then have "wire_ok fs s'" using w by (simp add: wire_ok_def join_step_def at_phase_def deregister_def)
  then show ?thesis by blast
qed

lemma fwd_reach_wire:
  assumes "fwd_reach E s" and h: "healthy_tty E" and x: "exact_reads E" shows "\<exists>fs. wire_ok fs s"
  using assms(1)
proof (induction rule: fwd_reach.induct)
  case (start w)
  have "wire_ok [] (forwarder_new w)" by (simp add: wire_ok_def forwarder_new_def)
  then show ?case by blast
next
  case (step s s')
  then show ?case using wire_ok_step [OF h fwd_reach_table [OF step(1) x]] by blast
qed

section \<open>What the host makes of it\<close>

text \<open>Any initial part of the wire is read as some first frames and the start of the next one.\<close>

lemma frames_of_cut:
  "\<forall>f \<in> set fs. encodable f \<Longrightarrow> \<exists>m rest. frames_of (take k (concat (map wire fs))) = Inr (map to_owned (take m fs), rest)"
proof (induction fs arbitrary: k)
  case Nil
  then show ?case by (subst frames_of.simps) (simp add: decode_def EGRESS_HEADER_LEN_def)
next
  case (Cons f fs)
  then have e: "encodable f" by simp
  show ?case
  proof (cases "length (wire f) \<le> k")
    case True
    let ?rest = "take (k - length (wire f)) (concat (map wire fs))"
    obtain m r where ih: "frames_of ?rest = Inr (map to_owned (take m fs), r)" using Cons by fastforce
    have "take k (concat (map wire (f # fs))) = wire f @ ?rest" using True by simp
    then have "frames_of (take k (concat (map wire (f # fs)))) = Inr (map to_owned (take (Suc m) (f # fs)), r)"
      by (subst frames_of.simps) (simp add: decode_wire_append [OF e] ih)
    then show ?thesis by blast
  next
    case False
    then have "take k (concat (map wire (f # fs))) = take k (wire f)" by simp
    moreover have "decode (take k (wire f)) = Ok None"
      using False by (intro decode_wire_prefix [OF e, of _ "drop k (wire f)"]) simp_all
    then have "frames_of (take k (wire f)) = Inr (map to_owned (take 0 (f # fs)), take k (wire f))"
      by (subst frames_of.simps) simp
    ultimately show ?thesis by metis
  qed
qed

section \<open>Window credit\<close>

fun relay_down_all :: "'w fwd_os \<Rightarrow> nat \<Rightarrow> u16 \<Rightarrow> nat \<Rightarrow> Inbound list \<Rightarrow> 'w forwarder \<Rightarrow> nat option \<times> 'w forwarder" where
  "relay_down_all E n sid u [] s = (Some u, s)"
| "relay_down_all E n sid u (m # ms) s =
     (case relay_down_msg E n sid u m s of
        (Some u, s) \<Rightarrow> relay_down_all E n sid u ms s
      | (None, s) \<Rightarrow> (None, s))"

fun data_len :: "Inbound \<Rightarrow> nat" where
  "data_len (InData bs) = length bs"
| "data_len _ = 0"

definition grants :: "u16 \<Rightarrow> nat list \<Rightarrow> EgressFrame list" where
  "grants sid cs = map (\<lambda>c. Window sid (of_nat c)) cs"

lemma relay_down_msg_credit:
  assumes h: "healthy_tty E" and m: "inbound_ok m" "u < WINDOW_GRANT_THRESHOLD"
    and r: "relay_down_msg E n sid u m s = (Some u', s')"
  shows "\<exists>cs. sent s (grants sid cs) s' \<and> u + data_len m = sum_list cs + u' \<and> u' < WINDOW_GRANT_THRESHOLD \<and> (\<forall>c \<in> set cs. c < 2 ^ 32)"
proof (cases m)
  case (InData bs)
  obtain ok w where c: "cl_write_all E (fw_world s) n bs = (ok, w)" by fastforce
  have ok: "ok" using r InData c by (cases ok) (simp_all add: relay_down_msg_def)
  let ?u = "u + length bs"
  show ?thesis
  proof (cases "WINDOW_GRANT_THRESHOLD \<le> ?u")
    case True
    have "sent s [Window sid (of_nat ?u)] s'" and "u' = 0"
      using r InData c ok True tty_send_sent [OF h, of "Window sid (of_nat ?u)" "s\<lparr>fw_world := w\<rparr>"] world_sent
      by (auto simp: relay_down_msg_def Let_def)
    moreover have "?u < 2 ^ 32" using m InData by (simp add: WINDOW_GRANT_THRESHOLD_def EGRESS_MAX_PAYLOAD_def)
    ultimately show ?thesis using InData by (intro exI [of _ "[?u]"]) (simp add: grants_def WINDOW_GRANT_THRESHOLD_def)
  next
    case False
    then show ?thesis using r InData c ok
      by (intro exI [of _ "[]"]) (auto simp: relay_down_msg_def Let_def grants_def intro: sent_Nil)
  qed
qed (use r m in \<open>auto simp: relay_down_msg_def grants_def intro!: exI [of _ "[]"] sent_refl\<close>)

lemma relay_down_all_credit:
  assumes h: "healthy_tty E" and "\<forall>m \<in> set ms. inbound_ok m" and "u < WINDOW_GRANT_THRESHOLD"
    and "relay_down_all E n sid u ms s = (Some u', s')"
  shows "\<exists>cs. sent s (grants sid cs) s' \<and> u + sum_list (map data_len ms) = sum_list cs + u' \<and> u' < WINDOW_GRANT_THRESHOLD
    \<and> (\<forall>c \<in> set cs. c < 2 ^ 32)"
  using assms(2-)
proof (induction ms arbitrary: u s)
  case Nil
  then show ?case by (intro exI [of _ "[]"]) (simp add: grants_def sent_refl)
next
  case (Cons m ms)
  obtain u1 s1 where m: "relay_down_msg E n sid u m s = (Some u1, s1)" and rest: "relay_down_all E n sid u1 ms s1 = (Some u', s')"
    using Cons.prems(3) by (auto split: prod.splits option.splits)
  obtain cs where cs: "sent s (grants sid cs) s1" "u + data_len m = sum_list cs + u1" "u1 < WINDOW_GRANT_THRESHOLD" "\<forall>c \<in> set cs. c < 2 ^ 32"
    using relay_down_msg_credit [OF h _ Cons.prems(2) m] Cons.prems(1) by auto
  obtain ds where ds: "sent s1 (grants sid ds) s'" "u1 + sum_list (map data_len ms) = sum_list ds + u'" "u' < WINDOW_GRANT_THRESHOLD"
      "\<forall>c \<in> set ds. c < 2 ^ 32"
    using Cons.IH [OF _ cs(3) rest] Cons.prems(1) by auto
  have "sent s (grants sid (cs @ ds)) s'" using sent_trans [OF cs(1) ds(1)] by (simp add: grants_def)
  then show ?case using cs ds by (intro exI [of _ "cs @ ds"]) auto
qed

lemma handle_grants:
  assumes "bt_ok (sessions b)" and "bt_get (sessions b) sid = Some h" and "\<forall>c \<in> set cs. c < 2 ^ 32"
    and "to_guest_credit h + sum_list cs < 2 ^ 64"
  shows "\<exists>b' h'. handle_frames K b (map to_owned (grants sid cs)) = (Inr (), b') \<and> bt_get (sessions b') sid = Some h'
    \<and> to_guest_credit h' = to_guest_credit h + sum_list cs"
  using assms
proof (induction cs arbitrary: b h)
  case Nil
  then show ?case by (simp add: grants_def)
next
  case (Cons c cs)
  define h1 where "h1 = h\<lparr>to_guest_credit := to_guest_credit h + c\<rparr>"
  define b1 where "b1 = put_session b sid h1"
  have c: "unat (of_nat c :: u32) = c" using Cons.prems(3) by (intro unat_of_nat_eq) simp
  have "min (to_guest_credit h + c) (2 ^ 64 - 1) = to_guest_credit h + c" using Cons.prems(4) by simp
  then have f: "handle_frame K b (OWindow sid (of_nat c)) = (Inr (), b1)" using Cons.prems(2) c by (simp add: b1_def h1_def)
  have "bt_ok (sessions b1)" "bt_get (sessions b1) sid = Some h1"
    using Cons.prems(1) by (simp_all add: b1_def put_session_def bt.ok_ins bt.get_ins)
  moreover have "to_guest_credit h1 + sum_list cs < 2 ^ 64" using Cons.prems(4) by (simp add: h1_def)
  ultimately obtain b' h' where "handle_frames K b1 (map to_owned (grants sid cs)) = (Inr (), b')" "bt_get (sessions b') sid = Some h'"
      "to_guest_credit h' = to_guest_credit h1 + sum_list cs"
    using Cons.IH [of b1 h1] Cons.prems(3) by auto
  then show ?case using f by (simp add: grants_def h1_def)
qed

lemma ingest_wires:
  assumes "\<forall>f \<in> set fs. encodable f" and "rx_parse b = []"
  shows "ingest_and_parse K b (concat (map wire fs)) = with_rx [] (handle_frames K b (map to_owned fs))"
proof -
  have "frames_of (concat (map wire fs)) = Inr (map to_owned fs, [])"
    using assms(1)
  proof (induction fs)
    case Nil
    then show ?case by (subst frames_of.simps) (simp add: decode_def EGRESS_HEADER_LEN_def)
  next
    case (Cons f fs)
    then show ?case by (subst frames_of.simps) (simp add: decode_wire_append)
  qed
  then show ?thesis using assms(2) by (simp add: ingest_eq)
qed

section \<open>A client that speaks the protocol\<close>

definition client_law :: "'w fwd_os \<Rightarrow> nat \<Rightarrow> ('w \<Rightarrow> bytes) \<Rightarrow> ('w \<Rightarrow> bytes) \<Rightarrow> bool" where
  "client_law E n input output \<longleftrightarrow>
     (\<forall>w k. k \<le> length (input w) \<longrightarrow>
        (\<exists>w'. cl_read_exact E w n k = (Some (take k (input w)), w') \<and> input w' = drop k (input w) \<and> output w' = output w))
     \<and> (\<forall>w bs. \<exists>w'. cl_write_all E w n bs = (True, w') \<and> input w' = input w \<and> output w' = output w @ bs)"

lemma client_read:
  assumes "client_law E n input output" and "input w = xs @ ys" and "length xs = k"
  shows "\<exists>w'. read_client E n k w = (Inr xs, w') \<and> input w' = ys \<and> output w' = output w"
proof -
  have "\<exists>w'. cl_read_exact E w n k = (Some (take k (input w)), w') \<and> input w' = drop k (input w) \<and> output w' = output w"
    using assms unfolding client_law_def by (elim conjE) (drule spec [of _ w], drule spec [of _ k], simp)
  then show ?thesis using assms by (auto simp: read_client_def)
qed

lemma client_write:
  assumes "client_law E n input output"
  shows "\<exists>w'. write_client E n bs w = (Inr (), w') \<and> input w' = input w \<and> output w' = output w @ bs"
proof -
  obtain w' where "cl_write_all E w n bs = (True, w')" "input w' = input w" "output w' = output w @ bs"
    using assms unfolding client_law_def by blast
  then show ?thesis by (simp add: write_client_def)
qed

lemma be_bytes_u16: "from_be_bytes_u16 (ucast (drop_bit 8 p)) (ucast p) = p"
proof (rule bit_word_eqI)
  fix i assume "i < LENGTH(16)"
  then show "bit (from_be_bytes_u16 (ucast (drop_bit 8 p)) (ucast p)) i \<longleftrightarrow> bit p i"
    by (auto simp: from_be_bytes_u16_def bit_simps not_le)
qed

definition socks5_hello :: "bytes \<Rightarrow> bytes \<Rightarrow> u16 \<Rightarrow> u8 \<Rightarrow> bytes" where
  "socks5_hello methods name port rsv =
     [5, of_nat (length methods)] @ methods @ [5, 1, rsv, 3] @ [of_nat (length name)] @ name
       @ [ucast (drop_bit 8 port), ucast port]"

lemma unat_len_u8: "n \<le> 255 \<Longrightarrow> unat (of_nat n :: u8) = n"
  by (intro unat_of_nat_eq) simp

lemma socks5_request_connect:
  assumes law: "client_law E n input output"
    and inp: "input w = [5, 1, rsv, 3] @ [of_nat (length name)] @ name @ [ucast (drop_bit 8 port), ucast port] @ rest"
    and name: "name \<noteq> []" "length name \<le> 255" "is_utf8 name" and port: "port \<noteq> 0"
  shows "\<exists>w'. socks5_request E n w = (Inr \<lparr>tg_host = name, tg_port = port\<rparr>, w') \<and> input w' = rest \<and> output w' = output w"
proof -
  obtain w1 where w1: "read_client E n 4 w = (Inr [5, 1, rsv, 3], w1)"
      "input w1 = [of_nat (length name)] @ name @ [ucast (drop_bit 8 port), ucast port] @ rest" "output w1 = output w"
    using client_read [OF law inp, of 4] by auto
  obtain w2 where w2: "read_client E n 1 w1 = (Inr [of_nat (length name)], w2)"
      "input w2 = name @ [ucast (drop_bit 8 port), ucast port] @ rest" "output w2 = output w1"
    using client_read [OF law w1(2), of 1] by auto
  obtain w3 where w3: "read_client E n (length name) w2 = (Inr name, w3)"
      "input w3 = [ucast (drop_bit 8 port), ucast port] @ rest" "output w3 = output w2"
    using client_read [OF law w2(2), of "length name"] by auto
  obtain w4 where w4: "read_client E n 2 w3 = (Inr [ucast (drop_bit 8 port), ucast port], w4)" "input w4 = rest" "output w4 = output w3"
    using client_read [OF law w3(2), of 2] by auto
  have "socks5_address E n 3 w1 = (Inr name, w3)"
    using w2(1) w3(1) name by (simp add: socks5_address_def unat_len_u8)
  then have "socks5_request E n w = (Inr \<lparr>tg_host = name, tg_port = port\<rparr>, w4)"
    using w1(1) w4(1) name port by (simp add: socks5_request_def be_bytes_u16)
  then show ?thesis using w1(3) w2(3) w3(3) w4(2,3) by simp
qed

lemma negotiate_connect:
  assumes law: "client_law E n input output" and inp: "input w = socks5_hello methods name port rsv @ rest"
    and methods: "0 \<in> set methods" "length methods \<le> 255"
    and name: "name \<noteq> []" "length name \<le> 255" "is_utf8 name" and port: "port \<noteq> 0"
  shows "\<exists>w'. socks5_negotiate E n w = (Inr \<lparr>tg_host = name, tg_port = port\<rparr>, w') \<and> input w' = rest \<and> output w' = output w @ [5, 0]"
proof -
  let ?req = "[5, 1, rsv, 3] @ [of_nat (length name)] @ name @ [ucast (drop_bit 8 port), ucast port] @ rest"
  have inp: "input w = [5, of_nat (length methods)] @ methods @ ?req" using inp by (simp add: socks5_hello_def)
  obtain w1 where w1: "read_client E n 2 w = (Inr [5, of_nat (length methods)], w1)" "input w1 = methods @ ?req" "output w1 = output w"
    using client_read [OF law inp, of 2] by auto
  obtain w2 where w2: "read_client E n (length methods) w1 = (Inr methods, w2)" "input w2 = ?req" "output w2 = output w1"
    using client_read [OF law w1(2), of "length methods"] by auto
  obtain w3 where w3: "write_client E n [5, 0] w2 = (Inr (), w3)" "input w3 = ?req" "output w3 = output w2 @ [5, 0]"
    using client_write [OF law, of "[5, 0]" w2] w2(2) by auto
  obtain w4 where w4: "socks5_request E n w3 = (Inr \<lparr>tg_host = name, tg_port = port\<rparr>, w4)" "input w4 = rest" "output w4 = output w3"
    using socks5_request_connect [OF law w3(2) name port] by auto
  have "socks5_greeting E n w = (Inr (), w3)"
    using w1(1) w2(1) w3(1) methods by (simp add: socks5_greeting_def unat_len_u8)
  then have "socks5_negotiate E n w = (Inr \<lparr>tg_host = name, tg_port = port\<rparr>, w4)" using w4(1) by (simp add: socks5_negotiate_def)
  then show ?thesis using w1(3) w2(3) w3(3) w4(2,3) by simp
qed

section \<open>Properties\<close>

text \<open>
  C10. The guest never corrupts the mux. In every state the threads of the forwarder can reach, over
  a tty that does not fail, the bytes on the wire are whole frames that only the guest may send, with
  valid names and ports in every open and nothing said on a stream before its open; and whatever part
  of them the host has received, its backend accepts it and handles exactly the first frames.
\<close>

theorem forwarder_wire:
  assumes "fwd_reach E s" and "healthy_tty E" and "exact_reads E" and "rx_parse b = []"
  shows "\<exists>fs. fw_tx s = concat (map wire fs) \<and> (\<forall>f \<in> set fs. to_host_frame f) \<and> disciplined {} fs
    \<and> (\<forall>k. \<exists>m rest. ingest_and_parse K b (take k (fw_tx s)) = with_rx rest (handle_frames K b (map to_owned (take m fs)))
           \<and> fst (ingest_and_parse K b (take k (fw_tx s))) = Inr ())"
proof -
  obtain fs where w: "wire_ok fs s" using fwd_reach_wire [OF assms(1-3)] by blast
  have "\<exists>m rest. ingest_and_parse K b (take k (fw_tx s)) = with_rx rest (handle_frames K b (map to_owned (take m fs)))
      \<and> fst (ingest_and_parse K b (take k (fw_tx s))) = Inr ()" for k
  proof -
    obtain m rest where "frames_of (take k (concat (map wire fs))) = Inr (map to_owned (take m fs), rest)"
      using frames_of_cut [of fs k] w by (auto simp: wire_ok_def)
    then have "ingest_and_parse K b (take k (fw_tx s)) = with_rx rest (handle_frames K b (map to_owned (take m fs)))"
      using w assms(4) by (simp add: ingest_eq wire_ok_def)
    then show ?thesis using handle_frames_Inr [of K b] by (auto simp: with_rx_def)
  qed
  then show ?thesis using w by (intro exI [of _ fs]) (auto simp: wire_ok_def)
qed

text \<open>The sample world is what one client has still to send; writes succeed and are not recorded.\<close>

definition sample_fwd_os :: "(bytes \<times> bytes) fwd_os" where
  "sample_fwd_os =
     \<lparr>tty_read = (\<lambda>w k. (Interrupted, w)), tty_write_all = (\<lambda>w bs. (None, w)),
      cl_read_exact = (\<lambda>w n k. if k \<le> length (fst w) then (Some (take k (fst w)), drop k (fst w), snd w) else (None, w)),
      cl_read = (\<lambda>w n k. (ReadBytes [], w)), cl_write_all = (\<lambda>w n bs. (True, fst w, snd w @ bs)),
      cl_shutdown_write = (\<lambda>w n. w), cl_shutdown_both = (\<lambda>w n. w), cl_try_clone = (\<lambda>w n. (True, w))\<rparr>"

lemma sample_fwd_os_laws:
  "healthy_tty sample_fwd_os" "exact_reads sample_fwd_os" "client_law sample_fwd_os n fst snd"
  by (simp_all add: healthy_tty_def exact_reads_def client_law_def sample_fwd_os_def)

theorem forwarder_wire_witness:
  "\<exists>s fs. fwd_reach sample_fwd_os s \<and> fw_tx s = wire (Open 1 80 [97]) \<and> fw_tx s = concat (map wire fs) \<and> disciplined {} fs"
proof -
  let ?s0 = "forwarder_new (socks5_hello [0] [97] 80 0, [])"
  have r1: "fwd_reach sample_fwd_os (accept_step ?s0)"
    by (rule fwd_reach.step [OF fwd_reach.start _ fwd_step.accept]) (simp add: forwarder_new_def)
  have f: "find_id Map.empty 1 = Some (1, 2)" by (subst find_id.simps) simp
  have u: "is_utf8 [97]" by (simp add: utf8_step_def)
  obtain w' where n: "socks5_negotiate sample_fwd_os 0 (socks5_hello [0] [97] 80 0, []) = (Inr \<lparr>tg_host = [97], tg_port = 80\<rparr>, w')"
    using negotiate_connect [OF sample_fwd_os_laws(3), of "(socks5_hello [0] [97] 80 0, [])" "[0]" "[97]" 80 0 "[]" 0] u by auto
  obtain s2 where s2: "negotiate_step sample_fwd_os 0 (accept_step ?s0) = Some s2"
      "fw_handlers s2 0 = Registered 1 \<lparr>tg_host = [97], tg_port = 80\<rparr>" "fw_tx s2 = []" "\<not> fw_exited s2"
    by (simp add: negotiate_step_def accept_step_def at_phase_def forwarder_new_def n register_def f)
  have r2: "fwd_reach sample_fwd_os s2"
    by (rule fwd_reach.step [OF r1 _ fwd_step.negotiate [OF _ s2(1)]]) (simp_all add: accept_step_def at_phase_def forwarder_new_def)
  let ?s3 = "open_step sample_fwd_os 0 1 \<lparr>tg_host = [97], tg_port = 80\<rparr> s2"
  have r3: "fwd_reach sample_fwd_os ?s3" by (rule fwd_reach.step [OF r2 s2(4) fwd_step.opens [OF s2(2)]])
  obtain s4 where "tty_send sample_fwd_os (Open 1 80 [97]) s2 = (True, s4)" "sent s2 [Open 1 80 [97]] s4"
    using tty_send_sent [OF sample_fwd_os_laws(1), of "Open 1 80 [97]" s2]
    by (cases "tty_send sample_fwd_os (Open 1 80 [97]) s2") (simp add: EGRESS_MAX_HOST_LEN_def)
  then have tx: "fw_tx ?s3 = wire (Open 1 80 [97])" using s2(3) by (simp add: open_step_def at_phase_def sent_def)
  have "rx_parse sample_backend = []" by (simp add: sample_backend_def)
  from forwarder_wire [OF r3 sample_fwd_os_laws(1,2) this] obtain fs where "fw_tx ?s3 = concat (map wire fs)" "disciplined {} fs"
    by blast
  then show ?thesis using r3 tx by blast
qed

text \<open>
  C11. A stream belongs to one connection. In every reachable state the registry maps exactly the ids
  of the live connections, no two live connections share an id, a frame of the host reaches the
  channel of the connection that owns its stream and no other; and a new connection always gets an id
  that is free, as long as there is one. With all 65536 taken the search does not end.
\<close>

theorem stream_ids_exclusive:
  assumes "fwd_reach E s" and "exact_reads E"
  shows "(fw_registry s sid = Some n \<longleftrightarrow> live_id (fw_handlers s n) = Some sid)
    \<and> (live_id (fw_handlers s n) = Some sid \<and> live_id (fw_handlers s m) = Some sid \<longrightarrow> n = m)
    \<and> (inbound_of f = Some (sid, msg) \<longrightarrow>
         fw_chan (fwd_route f s) n = fw_chan s n @ (if live_id (fw_handlers s n) = Some sid then [msg] else []))
    \<and> (register k s = None \<longleftrightarrow> (\<forall>i. fw_registry s i \<noteq> None))
    \<and> (register k s = Some (i, s') \<longrightarrow> (\<forall>j. live_id (fw_handlers s j) \<noteq> Some i) \<and> fw_registry s' = (fw_registry s)(i \<mapsto> k))"
proof -
  have ok: "table_ok s" by (rule fwd_reach_table [OF assms])
  then have reg: "fw_registry s i = Some j \<longleftrightarrow> live_id (fw_handlers s j) = Some i" for i j by (simp add: table_ok_def)
  have full: "register k s = None \<longleftrightarrow> (\<forall>i. fw_registry s i \<noteq> None)"
    using find_id_ends [of "fw_registry s" _ "fw_counter s"] find_id_free [of "fw_registry s" "fw_counter s"]
    by (cases "find_id (fw_registry s) (fw_counter s)") (auto simp: register_def)
  have new: "fw_registry s i = None \<and> fw_registry s' = (fw_registry s)(i \<mapsto> k)" if "register k s = Some (i, s')"
    using that find_id_free [of "fw_registry s" "fw_counter s" i] by (auto simp: register_def)
  have route: "fw_chan (fwd_route f s) n = fw_chan s n @ (if live_id (fw_handlers s n) = Some sid then [msg] else [])"
    if "inbound_of f = Some (sid, msg)"
    using that reg [of sid n] by (cases "fw_registry s sid") (auto simp: fwd_route_def)
  have one: "live_id (fw_handlers s n) = Some sid \<Longrightarrow> live_id (fw_handlers s m) = Some sid \<Longrightarrow> n = m"
    using reg [of sid n] reg [of sid m] by simp
  have free: "live_id (fw_handlers s j) \<noteq> Some i" if "fw_registry s i = None" for j using reg [of i j] that by simp
  show ?thesis using reg full new route one free by simp
qed

theorem stream_ids_exclusive_witness:
  "\<exists>i s'. register 0 (forwarder_new ([], []) :: (bytes \<times> bytes) forwarder) = Some (i, s') \<and> fw_registry s' = [i \<mapsto> 0]"
proof -
  let ?s = "forwarder_new ([], []) :: (bytes \<times> bytes) forwarder"
  have r: "fwd_reach sample_fwd_os ?s" by (rule fwd_reach.start)
  have "register 0 ?s \<noteq> None"
    using stream_ids_exclusive [OF r sample_fwd_os_laws(2), of _ _ _ _ _ 0] by (simp add: forwarder_new_def)
  then obtain i s' where i: "register 0 ?s = Some (i, s')" by auto
  then have "fw_registry s' = (fw_registry ?s)(i \<mapsto> 0)"
    using stream_ids_exclusive [OF r sample_fwd_os_laws(2), of _ _ _ _ _ 0 i s'] by simp
  then show ?thesis using i by (simp add: forwarder_new_def)
qed

text \<open>
  C25. The window never stalls a download. If the credit of a stream at the host, the bytes on their
  way to the client and the bytes not yet granted back make up the initial window, then once the
  forwarder has delivered those bytes and the host has read its frames, credit and ungranted bytes make
  up the window again and more than half of it is credit, so the host can go on sending.
\<close>

theorem window_never_stalls:
  assumes "healthy_tty E" and "\<forall>m \<in> set msgs. inbound_ok m" and "u < WINDOW_GRANT_THRESHOLD"
    and "relay_down_all E n sid u msgs s = (Some u', s')"
    and "bt_ok (sessions b)" and "rx_parse b = []" and "bt_get (sessions b) sid = Some h"
    and "to_guest_credit h + sum_list (map data_len msgs) + u = WINDOW_BYTES"
  shows "\<exists>b' h'. ingest_and_parse K b (drop (length (fw_tx s)) (fw_tx s')) = (Inr (), b') \<and> bt_get (sessions b') sid = Some h'
    \<and> to_guest_credit h' + u' = WINDOW_BYTES \<and> WINDOW_BYTES div 2 < to_guest_credit h'"
proof -
  obtain cs where cs: "sent s (grants sid cs) s'" "u + sum_list (map data_len msgs) = sum_list cs + u'"
      "u' < WINDOW_GRANT_THRESHOLD" "\<forall>c \<in> set cs. c < 2 ^ 32"
    using relay_down_all_credit [OF assms(1-4)] by blast
  have e: "\<forall>f \<in> set (grants sid cs). encodable f" by (simp add: grants_def)
  have tx: "drop (length (fw_tx s)) (fw_tx s') = concat (map wire (grants sid cs))" using cs(1) by (simp add: sent_def)
  have sum: "to_guest_credit h + sum_list cs + u' = WINDOW_BYTES" using assms(8) cs(2) by simp
  then have "to_guest_credit h + sum_list cs < 2 ^ 64" by (simp add: WINDOW_BYTES_def)
  then obtain b' h' where b': "handle_frames K b (map to_owned (grants sid cs)) = (Inr (), b')" "bt_get (sessions b') sid = Some h'"
      "to_guest_credit h' = to_guest_credit h + sum_list cs"
    using handle_grants [OF assms(5,7) cs(4)] by blast
  have "ingest_and_parse K b (drop (length (fw_tx s)) (fw_tx s')) = (Inr (), b'\<lparr>rx_parse := []\<rparr>)"
    unfolding tx ingest_wires [OF e assms(6)] by (simp add: b'(1) with_rx_def)
  moreover have "to_guest_credit h' + u' = WINDOW_BYTES" using b'(3) sum by simp
  moreover have "WINDOW_BYTES div 2 < to_guest_credit h'"
    using calculation(2) cs(3) by (simp add: WINDOW_BYTES_def WINDOW_GRANT_THRESHOLD_def)
  ultimately show ?thesis using b'(2) by simp
qed

theorem window_never_stalls_witness:
  "\<exists>b' h'. ingest_and_parse sample_connector
       (put_session sample_backend 7 (new_resolving\<lparr>to_guest_credit := WINDOW_BYTES - 3\<rparr>)) [] = (Inr (), b')
     \<and> bt_get (sessions b') 7 = Some h' \<and> to_guest_credit h' + 3 = WINDOW_BYTES"
proof -
  let ?s = "forwarder_new ([], []) :: (bytes \<times> bytes) forwarder"
  let ?b = "put_session sample_backend 7 (new_resolving\<lparr>to_guest_credit := WINDOW_BYTES - 3\<rparr>)"
  have r: "relay_down_all sample_fwd_os 0 7 0 [InData [1, 2, 3]] ?s = (Some 3, ?s\<lparr>fw_world := ([], [1, 2, 3])\<rparr>)"
    by (simp add: relay_down_msg_def sample_fwd_os_def forwarder_new_def WINDOW_GRANT_THRESHOLD_def)
  have b: "bt_ok (sessions ?b)" "bt_get (sessions ?b) 7 = Some (new_resolving\<lparr>to_guest_credit := WINDOW_BYTES - 3\<rparr>)" "rx_parse ?b = []"
    by (simp_all add: put_session_def sample_backend_def bt_ok_def bt_keys_def bt_get_def)
  show ?thesis
    using window_never_stalls [OF sample_fwd_os_laws(1) _ _ r b(1,3,2), of sample_connector]
    by (auto simp: WINDOW_GRANT_THRESHOLD_def EGRESS_MAX_PAYLOAD_def WINDOW_BYTES_def forwarder_new_def)
qed

text \<open>
  C26. A client that offers no authentication and asks to connect to a name gets exactly the name and
  port it sent, after one reply that selects no authentication; no byte behind the request is read, so
  whatever the client sends next is relayed.
\<close>

theorem socks5_connect:
  assumes "client_law E n input output" and "input w = socks5_hello methods name port rsv @ rest"
    and "0 \<in> set methods" and "length methods \<le> 255" and "name \<noteq> []" and "length name \<le> 255" and "is_utf8 name" and "port \<noteq> 0"
  shows "\<exists>w'. socks5_negotiate E n w = (Inr \<lparr>tg_host = name, tg_port = port\<rparr>, w') \<and> input w' = rest \<and> output w' = output w @ [5, 0]"
  by (rule negotiate_connect [OF assms])

theorem socks5_connect_witness:
  "\<exists>w'. socks5_negotiate sample_fwd_os 0 (socks5_hello [2, 0] [97] 80 0 @ [9], []) = (Inr \<lparr>tg_host = [97], tg_port = 80\<rparr>, w') \<and> fst w' = [9]"
proof -
  have u: "is_utf8 [97]" by (simp add: utf8_step_def)
  show ?thesis
    using socks5_connect [OF sample_fwd_os_laws(3), of "(socks5_hello [2, 0] [97] 80 0 @ [9], [])" "[2, 0]" "[97]" 80 0 "[9]" 0] u
    by auto
qed

end
