(* ===== verification/Agent.thy ===== *)
theory Agent
  imports Driver Collections Text "HOL-Library.Char_ord" "HOL-Library.List_Lexorder"
begin

text \<open>
  The agent inside the guest (\<open>src/tdvmm-agent/src/agent.rs\<close>): the operations it serves on
  containers and on the network between them, and the verdict it records.

  The programs it runs, the files it reads, the JSON of \<open>podman ps\<close>, the Unicode tables behind
  \<open>to_lowercase\<close> and the build hash are parameters over a world \<open>'w\<close>. A child process ends with an
  exit code, or with none when a signal killed it; it succeeded when the code is zero. The texts of
  failures inside the library and the operating system are parameters too.
\<close>

section \<open>The world of the guest\<close>

definition COMPOSE_SERVICE_LABEL :: string where [const_defs]: "COMPOSE_SERVICE_LABEL = ''com.docker.compose.service''"
definition AGENT_ID :: string where [const_defs]: "AGENT_ID = ''tdvmm-agent/1''"

record PodmanPs =
  ps_id :: string
  ps_names :: "string list"
  ps_state :: string
  ps_exit_code :: i64
  ps_labels :: "string \<rightharpoonup> string"
  ps_status :: string

datatype nft_answer = NftSpawn string | NftWait string | NftDone "i64 option" bytes "string option"

datatype open_answer = OpenMissing | OpenFails string | Opened

text \<open>
  \<open>os_output\<close> runs a program and gives its code, output and error output; \<open>os_timed\<close> runs podman under a
  limit in seconds and gives its code and error output; \<open>os_nft\<close> feeds a script to nft and gives its
  code, error output and the failure of the write; \<open>os_read\<close> reads at most so many bytes of the opened log.
\<close>

record 'w guest_os =
  os_output :: "'w \<Rightarrow> string list \<Rightarrow> (string + i64 option \<times> bytes \<times> bytes) \<times> 'w"
  os_timed :: "'w \<Rightarrow> u64 \<Rightarrow> string list \<Rightarrow> (string + i64 option \<times> bytes) \<times> 'w"
  os_nft :: "'w \<Rightarrow> string \<Rightarrow> nft_answer \<times> 'w"
  os_ps :: "bytes \<Rightarrow> string + PodmanPs list"
  os_lower :: "string \<Rightarrow> string"
  os_millis :: "'w \<Rightarrow> nat"
  os_write_file :: "'w \<Rightarrow> string \<Rightarrow> string \<Rightarrow> 'w"
  os_open :: "'w \<Rightarrow> string \<Rightarrow> open_answer \<times> 'w"
  os_seek :: "'w \<Rightarrow> u64 \<Rightarrow> string option \<times> 'w"
  os_read :: "'w \<Rightarrow> nat \<Rightarrow> (string + bytes) \<times> 'w"
  os_build :: string

section \<open>Strings\<close>

definition text_of :: "bytes \<Rightarrow> string" where
  "text_of bs = map (\<lambda>b. char_of (unat b)) bs"

definition lossy :: "bytes \<Rightarrow> string" where
  "lossy bs = text_of (from_utf8_lossy bs)"

text \<open>The encodings of the characters that \<open>char::is_whitespace\<close> accepts.\<close>

definition white_space :: "string list" where
  "white_space = map text_of
     ([[9], [10], [11], [12], [13], [32], [0xC2, 0x85], [0xC2, 0xA0], [0xE1, 0x9A, 0x80]]
      @ map (\<lambda>b. [0xE2, 0x80, b]) [0x80, 0x81, 0x82, 0x83, 0x84, 0x85, 0x86, 0x87, 0x88, 0x89, 0x8A, 0xA8, 0xA9, 0xAF]
      @ [[0xE2, 0x81, 0x9F], [0xE3, 0x80, 0x80]])"

definition leading_white :: "string list \<Rightarrow> string \<Rightarrow> nat" where
  "leading_white ws s = (case find (\<lambda>p. take (length p) s = p) ws of Some p \<Rightarrow> length p | None \<Rightarrow> 0)"

function trim_start :: "string list \<Rightarrow> string \<Rightarrow> string" where
  "trim_start ws s = (let n = leading_white ws s in if n = 0 \<or> s = [] then s else trim_start ws (drop n s))"
  by pat_completeness auto
termination by (relation "measure (\<lambda>(ws, s). length s)") auto

declare trim_start.simps [simp del]

definition trim_text :: "string \<Rightarrow> string" where
  "trim_text s = rev (trim_start (map rev white_space) (rev (trim_start white_space s)))"

function until_white :: "string \<Rightarrow> string" where
  "until_white [] = []"
| "until_white (c # s) = (if leading_white white_space (c # s) \<noteq> 0 then [] else c # until_white s)"
  by pat_completeness auto
termination by (relation "measure length") auto

text \<open>The first token of \<open>split_whitespace\<close>.\<close>

definition first_token :: "string \<Rightarrow> string option" where
  "first_token s = (let t = until_white (trim_start white_space s) in if t = [] then None else Some t)"

definition contains_text :: "string \<Rightarrow> string \<Rightarrow> bool" where
  "contains_text s p = list_ex (\<lambda>i. take (length p) (drop i s) = p) [0..<Suc (length s)]"

fun join_spaces :: "string list \<Rightarrow> string" where
  "join_spaces [] = ''''"
| "join_spaces [x] = x"
| "join_spaces (x # xs) = x @ '' '' @ join_spaces xs"

section \<open>Errors\<close>

datatype AgentError = AgIo string string | AgCommand string "i64 option" string | AgParse string string | AgMissing string

fun agent_error_display :: "AgentError \<Rightarrow> string" where
  "agent_error_display (AgIo what source) = what @ '': '' @ source"
| "agent_error_display (AgCommand what status stderr) =
     (case status of Some c \<Rightarrow> what @ '' exited with status '' @ decimal_i64 c | None \<Rightarrow> what @ '' did not complete'')
     @ (if stderr \<noteq> '''' then '': '' @ stderr else '''')"
| "agent_error_display (AgParse what source) = what @ '': '' @ source"
| "agent_error_display (AgMissing what) = what"

datatype Want = Running | Stopped

section \<open>podman\<close>

definition podman_json :: "'w guest_os \<Rightarrow> string list \<Rightarrow> 'w \<Rightarrow> (AgentError + PodmanPs list) \<times> 'w" where
  "podman_json E args w =
     (case os_output E w args of
        (Inl e, w) \<Rightarrow> (Inl (AgIo (''running podman '' @ join_spaces args) e), w)
      | (Inr (status, stdout, stderr), w) \<Rightarrow>
          if status \<noteq> Some 0 then (Inl (AgCommand (''podman '' @ join_spaces args) status (trim_text (lossy stderr))), w)
          else (case os_ps E stdout of
                  Inl e \<Rightarrow> (Inl (AgParse (''parsing podman '' @ join_spaces args @ '' output'') e), w)
                | Inr cs \<Rightarrow> (Inr cs, w)))"

definition first_name :: "PodmanPs \<Rightarrow> string" where
  "first_name c = (case ps_names c of [] \<Rightarrow> '''' | n # _ \<Rightarrow> n)"

definition container_info :: "'w guest_os \<Rightarrow> PodmanPs \<Rightarrow> ContainerInfo" where
  "container_info E c =
     (let s = os_lower E (ps_status c);
          health = (if contains_text s ''unhealthy'' then ''unhealthy''
                    else if contains_text s ''healthy'' then ''healthy''
                    else if contains_text s ''starting'' then ''starting'' else '''')
      in \<lparr>ci_name = first_name c,
          ci_service = (case ps_labels c COMPOSE_SERVICE_LABEL of Some v \<Rightarrow> v | None \<Rightarrow> ''''),
          ci_state = os_lower E (ps_state c), ci_exit_code = ps_exit_code c, ci_health = health\<rparr>)"

definition list_containers :: "'w guest_os \<Rightarrow> 'w \<Rightarrow> (AgentError + ContainerInfo list) \<times> 'w" where
  "list_containers E w =
     and_then (podman_json E [''ps'', ''-a'', ''--format'', ''json''] w) (\<lambda>raw w. (Inr (map (container_info E) raw), w))"

fun pick_running :: "string \<Rightarrow> PodmanPs list \<Rightarrow> (string \<times> string) option" where
  "pick_running service [] = None"
| "pick_running service (c # cs) =
     (if ps_state c \<noteq> ''running'' then pick_running service cs
      else if ps_labels c COMPOSE_SERVICE_LABEL = Some service then Some (ps_id c, first_name c)
      else if service \<in> set (ps_names c) then Some (ps_id c, service)
      else pick_running service cs)"

definition resolve_running :: "'w guest_os \<Rightarrow> string \<Rightarrow> 'w \<Rightarrow> (AgentError + (string \<times> string) option) \<times> 'w" where
  "resolve_running E service w =
     and_then (podman_json E [''ps'', ''--format'', ''json''] w) (\<lambda>raw w. (Inr (pick_running service raw), w))"

definition matches_service :: "string \<Rightarrow> PodmanPs \<Rightarrow> bool" where
  "matches_service service c \<longleftrightarrow> ps_labels c COMPOSE_SERVICE_LABEL = Some service \<or> service \<in> set (ps_names c)"

definition wanted :: "Want \<Rightarrow> PodmanPs \<Rightarrow> bool" where
  "wanted want c = (case want of Running \<Rightarrow> ps_state c = ''running'' | Stopped \<Rightarrow> ps_state c \<noteq> ''running'')"

definition resolve_by_service :: "'w guest_os \<Rightarrow> string \<Rightarrow> Want \<Rightarrow> 'w \<Rightarrow> (AgentError + (string \<times> string) option) \<times> 'w" where
  "resolve_by_service E service want w =
     and_then (podman_json E [''ps'', ''-a'', ''--format'', ''json''] w) (\<lambda>raw w.
       (Inr (map_option (\<lambda>c. (ps_id c, first_name c)) (find (\<lambda>c. matches_service service c \<and> wanted want c) raw)), w))"

definition inspect_text :: "'w guest_os \<Rightarrow> string list \<Rightarrow> string \<Rightarrow> 'w \<Rightarrow> (AgentError + string) \<times> 'w" where
  "inspect_text E args what w =
     (case os_output E w args of
        (Inl e, w) \<Rightarrow> (Inl (AgIo ''running podman inspect'' e), w)
      | (Inr (status, stdout, stderr), w) \<Rightarrow>
          if status \<noteq> Some 0 then (Inl (AgCommand what status (trim_text (lossy stderr))), w)
          else (Inr (lossy stdout), w))"

definition container_ip :: "'w guest_os \<Rightarrow> string \<Rightarrow> 'w \<Rightarrow> (AgentError + string) \<times> 'w" where
  "container_ip E i w =
     and_then (inspect_text E [''inspect'', ''-f'', ''{{range .NetworkSettings.Networks}}{{.IPAddress}} {{end}}'', i]
                 ''podman inspect (network IP)'' w) (\<lambda>out w.
       (case first_token out of Some tok \<Rightarrow> Inr tok | None \<Rightarrow> Inl (AgMissing (''no bridge IP for '' @ i)), w))"

definition container_log_path :: "'w guest_os \<Rightarrow> string \<Rightarrow> 'w \<Rightarrow> (AgentError + string) \<times> 'w" where
  "container_log_path E i w =
     and_then (inspect_text E [''inspect'', ''--format'', ''{{.HostConfig.LogConfig.Path}}'', i]
                 ''podman inspect (log path)'' w) (\<lambda>out w.
       let p = trim_text out in (if p = '''' then Inl (AgMissing (''empty log path for '' @ i)) else Inr p, w))"

definition run_podman :: "'w guest_os \<Rightarrow> u64 \<Rightarrow> string list \<Rightarrow> 'w \<Rightarrow> (AgentError + unit) \<times> 'w" where
  "run_podman E timeout_s args w =
     (case os_timed E w (if timeout_s = 0 then 60 else timeout_s) args of
        (Inl e, w) \<Rightarrow> (Inl (AgIo (''spawning podman '' @ join_spaces args) e), w)
      | (Inr (status, stderr), w) \<Rightarrow>
          (if status = Some 0 then Inr () else Inl (AgCommand (''podman '' @ join_spaces args) status (lossy stderr)), w))"

section \<open>Reading a log\<close>

text \<open>The read loop: at most \<open>cap\<close> bytes, ended by an empty read. A read never returns more than it was asked for.\<close>

function read_up_to :: "'w guest_os \<Rightarrow> nat \<Rightarrow> bytes \<Rightarrow> 'w \<Rightarrow> (string + bytes) \<times> 'w" where
  "read_up_to E cap buf w =
     (if length buf < cap then
        (case os_read E w (cap - length buf) of
           (Inl e, w) \<Rightarrow> (Inl e, w)
         | (Inr bs, w) \<Rightarrow>
             let bs = take (cap - length buf) bs
             in if bs = [] then (Inr buf, w) else read_up_to E cap (buf @ bs) w)
      else (Inr buf, w))"
  by pat_completeness auto
termination
  by (relation "measure (\<lambda>(E, cap, buf, w). cap - length buf)") (auto simp: min_def simp flip: length_greater_0_conv)

declare read_up_to.simps [simp del]

definition read_log_chunk :: "'w guest_os \<Rightarrow> string \<Rightarrow> u64 \<Rightarrow> nat \<Rightarrow> 'w \<Rightarrow> (AgentError + string \<times> nat \<times> bool) \<times> 'w" where
  "read_log_chunk E path cursor cap w =
     (case os_open E w path of
        (OpenMissing, w) \<Rightarrow> (Inr ('''', 0, True), w)
      | (OpenFails e, w) \<Rightarrow> (Inl (AgIo (''opening log '' @ path) e), w)
      | (Opened, w) \<Rightarrow>
          (case os_seek E w cursor of
             (Some e, w) \<Rightarrow> (Inl (AgIo (''seeking log '' @ path) e), w)
           | (None, w) \<Rightarrow>
               (case read_up_to E cap [] w of
                  (Inl e, w) \<Rightarrow> (Inl (AgIo (''reading log '' @ path) e), w)
                | (Inr buf, w) \<Rightarrow> (Inr (lossy buf, length buf, length buf < cap), w))))"

section \<open>Partitions\<close>

type_synonym partitions = "(string, string \<times> string) btree"

definition pair_key :: "string \<Rightarrow> string \<Rightarrow> string" where
  "pair_key a b = (if b < a then b @ [CHR 0x00] @ a else a @ [CHR 0x00] @ b)"

definition drop_rule :: "string \<Rightarrow> string \<Rightarrow> string" where
  "drop_rule a b = ''add rule inet tdvmm_faults partition ip saddr '' @ a @ '' ip daddr '' @ b @ '' drop'' @ newline"

definition partition_script :: "partitions \<Rightarrow> string" where
  "partition_script ps =
     ''add table inet tdvmm_faults'' @ newline @ ''delete table inet tdvmm_faults'' @ newline
     @ ''add table inet tdvmm_faults'' @ newline
     @ ''add chain inet tdvmm_faults partition { type filter hook forward priority -300 ; policy accept ; }'' @ newline
     @ concat (map (\<lambda>(_, a, b). drop_rule a b @ drop_rule b a) ps)"

definition apply_partitions :: "'w guest_os \<Rightarrow> partitions \<Rightarrow> 'w \<Rightarrow> (AgentError + unit) \<times> 'w" where
  "apply_partitions E ps w =
     (case os_nft E w (partition_script ps) of
        (NftSpawn e, w) \<Rightarrow> (Inl (AgIo ''spawning nft'' e), w)
      | (NftWait e, w) \<Rightarrow> (Inl (AgIo ''waiting for nft'' e), w)
      | (NftDone status stderr write_result, w) \<Rightarrow>
          if status \<noteq> Some 0 then (Inl (AgCommand ''nft -f -'' status (trim_text (lossy stderr))), w)
          else (case write_result of
                  Some e \<Rightarrow> (Inl (AgIo ''writing ruleset to nft stdin'' e), w)
                | None \<Rightarrow> (Inr (), w)))"

definition enable_bridge_netfilter :: "'w guest_os \<Rightarrow> 'w \<Rightarrow> 'w" where
  "enable_bridge_netfilter E w =
     os_write_file E (os_write_file E w ''/proc/sys/net/bridge/bridge-nf-call-iptables'' (''1'' @ newline))
       ''/proc/sys/net/bridge/bridge-nf-call-ip6tables'' (''1'' @ newline)"

section \<open>The agent\<close>

record Agent =
  ag_partitions :: partitions
  ag_finished :: "i64 option"

definition agent_new :: Agent where
  "agent_new = \<lparr>ag_partitions = [], ag_finished = None\<rparr>"

definition err_reply :: "u64 \<Rightarrow> string \<Rightarrow> string \<Rightarrow> 'j Reply" where
  "err_reply i op error = reply_default\<lparr>rep_id := Some i, rep_ok := Some False, rep_op := Some op, rep_error := Some error\<rparr>"

definition ok_stdout :: "u64 \<Rightarrow> string \<Rightarrow> string \<Rightarrow> 'j Reply" where
  "ok_stdout i op stdout = reply_default\<lparr>rep_id := Some i, rep_ok := Some True, rep_op := Some op, rep_stdout := Some stdout\<rparr>"

definition nonempty :: "bytes \<Rightarrow> string option" where
  "nonempty bs = (if bs = [] then None else Some (lossy bs))"

definition or_empty :: "string option \<Rightarrow> string" where
  "or_empty x = (case x of Some s \<Rightarrow> s | None \<Rightarrow> '''')"

definition do_finish :: "Request \<Rightarrow> Agent \<Rightarrow> 'j Reply \<times> Agent" where
  "do_finish req a =
     (let verdict = (case req_exit req of Some v \<Rightarrow> v | None \<Rightarrow> 0)
      in case ag_finished a of
           Some first \<Rightarrow> (err_reply (req_id req) OP_FINISH (''run already finished with exit '' @ decimal_i64 first), a)
         | None \<Rightarrow> (ok_stdout (req_id req) OP_FINISH (''finish '' @ decimal_i64 verdict), a\<lparr>ag_finished := Some verdict\<rparr>))"

definition accepted_finish :: "Request \<Rightarrow> 'j Reply \<Rightarrow> bool" where
  "accepted_finish req reply \<longleftrightarrow> req_op req = OP_FINISH \<and> rep_ok reply = Some True"

definition ping_reply :: "'w guest_os \<Rightarrow> Request \<Rightarrow> 'j Reply" where
  "ping_reply E req = reply_default\<lparr>rep_id := Some (req_id req), rep_ok := Some True, rep_op := Some ''ping'',
     rep_agent := Some AGENT_ID, rep_schema := Some SCHEMA, rep_build := Some (os_build E)\<rparr>"

definition do_containers :: "'w guest_os \<Rightarrow> Request \<Rightarrow> 'w \<Rightarrow> 'j Reply \<times> 'w" where
  "do_containers E req w =
     (case list_containers E w of
        (Inr cs, w) \<Rightarrow> (reply_default\<lparr>rep_id := Some (req_id req), rep_ok := Some True, rep_op := Some ''containers'',
                        rep_containers := Some cs\<rparr>, w)
      | (Inl e, w) \<Rightarrow> (err_reply (req_id req) ''containers'' (kind_msg PodmanPs (agent_error_display e)), w))"

definition exec_in :: "'w guest_os \<Rightarrow> Request \<Rightarrow> string \<Rightarrow> string list \<Rightarrow> 'w \<Rightarrow> 'j Reply \<times> 'w" where
  "exec_in E req i cmd w0 =
     (let (out, w) = os_output E w0 ([''exec'', i] @ cmd); dur = of_nat (os_millis E w - os_millis E w0)
      in case out of
           Inr (status, stdout, stderr) \<Rightarrow>
             (reply_default\<lparr>rep_id := Some (req_id req), rep_ok := Some True, rep_op := Some ''exec'',
                rep_exit := Some (case status of Some c \<Rightarrow> c | None \<Rightarrow> - 1), rep_stdout := nonempty stdout,
                rep_stderr := nonempty stderr, rep_dur_ms := Some dur\<rparr>, w)
         | Inl e \<Rightarrow>
             (reply_default\<lparr>rep_id := Some (req_id req), rep_ok := Some False, rep_op := Some ''exec'',
                rep_error := Some (kind_msg PodmanExec e), rep_dur_ms := Some dur\<rparr>, w))"

definition do_exec :: "'w guest_os \<Rightarrow> Request \<Rightarrow> 'w \<Rightarrow> 'j Reply \<times> 'w" where
  "do_exec E req w =
     (let container = or_empty (req_container req); cmd = (case req_cmd req of Some c \<Rightarrow> c | None \<Rightarrow> [])
      in if container = '''' \<or> cmd = [] then (err_reply (req_id req) ''exec'' ''exec requires `container` and `cmd`'', w)
         else case resolve_running E container w of
                (Inr (Some (i, _)), w) \<Rightarrow> exec_in E req i cmd w
              | (Inr None, w) \<Rightarrow>
                  (err_reply (req_id req) ''exec'' (kind_msg NoContainer (''no running container for service '' @ container)), w)
              | (Inl e, w) \<Rightarrow> (err_reply (req_id req) ''exec'' (kind_msg PodmanPs (agent_error_display e)), w))"

definition timeout_of :: "Request \<Rightarrow> u64" where
  "timeout_of req = (case req_timeout_s req of Some t \<Rightarrow> t | None \<Rightarrow> 0)"

definition do_lifecycle :: "'w guest_os \<Rightarrow> Request \<Rightarrow> string \<Rightarrow> 'w \<Rightarrow> 'j Reply \<times> 'w" where
  "do_lifecycle E req op w =
     (let container = or_empty (req_container req)
      in if container = '''' then (err_reply (req_id req) op (op @ '' requires `container`''), w)
         else case resolve_by_service E container Running w of
                (Inr (Some (i, name)), w) \<Rightarrow>
                  (case run_podman E (timeout_of req) [op, i] w of
                     (Inl e, w) \<Rightarrow> (err_reply (req_id req) op (''podman_'' @ op @ '': '' @ agent_error_display e), w)
                   | (Inr _, w) \<Rightarrow>
                       (ok_stdout (req_id req) op (op @ '' '' @ container @ '' ('' @ name @ '')''),
                        snd (run_podman E (timeout_of req) [''wait'', i] w)))
              | (Inr None, w) \<Rightarrow>
                  (err_reply (req_id req) op (kind_msg NoContainer (''no running container for service '' @ container)), w)
              | (Inl e, w) \<Rightarrow> (err_reply (req_id req) op (kind_msg PodmanPs (agent_error_display e)), w))"

definition do_start :: "'w guest_os \<Rightarrow> Request \<Rightarrow> 'w \<Rightarrow> 'j Reply \<times> 'w" where
  "do_start E req w =
     (let container = or_empty (req_container req)
      in if container = '''' then (err_reply (req_id req) ''start'' ''start requires `container`'', w)
         else case resolve_by_service E container Stopped w of
                (Inr (Some (i, name)), w) \<Rightarrow>
                  (case run_podman E (timeout_of req) [''start'', i] w of
                     (Inl e, w) \<Rightarrow> (err_reply (req_id req) ''start'' (''podman_start: '' @ agent_error_display e), w)
                   | (Inr _, w) \<Rightarrow> (ok_stdout (req_id req) ''start'' (''start '' @ container @ '' ('' @ name @ '')''), w))
              | (Inr None, w) \<Rightarrow>
                  (case resolve_by_service E container Running w of
                     (Inr (Some _), w) \<Rightarrow> (ok_stdout (req_id req) ''start'' (''already running '' @ container), w)
                   | (_, w) \<Rightarrow>
                       (err_reply (req_id req) ''start'' (kind_msg NoContainer (''no stopped container for service '' @ container)), w))
              | (Inl e, w) \<Rightarrow> (err_reply (req_id req) ''start'' (kind_msg PodmanPs (agent_error_display e)), w))"

definition bool_text :: "bool \<Rightarrow> string" where
  "bool_text b = (if b then ''true'' else ''false'')"

text \<open>The two containers and their addresses, or the reply that says what is missing.\<close>

definition partition_ends ::
  "'w guest_os \<Rightarrow> Request \<Rightarrow> string \<Rightarrow> string \<Rightarrow> 'w \<Rightarrow> ('j Reply + string \<times> string) \<times> 'w" where
  "partition_ends E req a b w =
     (let fail = (\<lambda>msg. err_reply (req_id req) ''partition'' msg)
      in case resolve_by_service E a Running w of
           (Inl e, w) \<Rightarrow> (Inl (fail (kind_msg PodmanPs (agent_error_display e))), w)
         | (Inr aid, w) \<Rightarrow>
      (case resolve_by_service E b Running w of
           (Inl e, w) \<Rightarrow> (Inl (fail (kind_msg PodmanPs (agent_error_display e))), w)
         | (Inr bid, w) \<Rightarrow>
      (case (aid, bid) of
           (Some (aid, _), Some (bid, _)) \<Rightarrow>
             (case container_ip E aid w of
                (Inl e, w) \<Rightarrow> (Inl (fail (''ip('' @ a @ ''): '' @ agent_error_display e)), w)
              | (Inr aip, w) \<Rightarrow>
                  (case container_ip E bid w of
                     (Inl e, w) \<Rightarrow> (Inl (fail (''ip('' @ b @ ''): '' @ agent_error_display e)), w)
                   | (Inr bip, w) \<Rightarrow> (Inr (aip, bip), w)))
         | _ \<Rightarrow>
             (Inl (fail (kind_msg NoContainer (''need both running ('' @ a @ '' running='' @ bool_text (aid \<noteq> None)
                @ '', '' @ b @ '' running='' @ bool_text (bid \<noteq> None) @ '')''))), w))))"

definition do_partition :: "'w guest_os \<Rightarrow> Request \<Rightarrow> Agent \<Rightarrow> 'w \<Rightarrow> 'j Reply \<times> Agent \<times> 'w" where
  "do_partition E req ag w =
     (let a = or_empty (req_container req); b = or_empty (req_peer req)
      in if a = '''' \<or> b = '''' then
           (err_reply (req_id req) ''partition'' ''partition requires two services (`container` and `peer`)'', ag, w)
         else case partition_ends E req a b w of
           (Inl reply, w) \<Rightarrow> (reply, ag, w)
         | (Inr (aip, bip), w) \<Rightarrow>
             let w = enable_bridge_netfilter E w; key = pair_key a b;
                 ag = ag\<lparr>ag_partitions := bt_insert key (aip, bip) (ag_partitions ag)\<rparr>
             in case apply_partitions E (ag_partitions ag) w of
                  (Inl e, w) \<Rightarrow>
                    (err_reply (req_id req) ''partition'' (kind_msg Nft (agent_error_display e)),
                     ag\<lparr>ag_partitions := bt_remove key (ag_partitions ag)\<rparr>, w)
                | (Inr _, w) \<Rightarrow>
                    (ok_stdout (req_id req) ''partition''
                       (''partition '' @ a @ ''('' @ aip @ '') <-x-> '' @ b @ ''('' @ bip @ '')''), ag, w))"

definition do_heal :: "'w guest_os \<Rightarrow> Request \<Rightarrow> Agent \<Rightarrow> 'w \<Rightarrow> 'j Reply \<times> Agent \<times> 'w" where
  "do_heal E req ag w =
     (let a = or_empty (req_container req); b = or_empty (req_peer req)
      in if (a = '''') \<noteq> (b = '''') then
           (err_reply (req_id req) ''heal'' ''heal needs two services (`container` and `peer`) or none (heal all)'', ag, w)
         else
           let ag = ag\<lparr>ag_partitions := (if a = '''' then [] else bt_remove (pair_key a b) (ag_partitions ag))\<rparr>
           in case apply_partitions E (ag_partitions ag) w of
                (Inl e, w) \<Rightarrow> (err_reply (req_id req) ''heal'' (kind_msg Nft (agent_error_display e)), ag, w)
              | (Inr _, w) \<Rightarrow>
                  (ok_stdout (req_id req) ''heal'' (if a \<noteq> '''' then ''heal '' @ a @ '' <-> '' @ b else ''heal all''), ag, w))"

definition log_cap :: "Request \<Rightarrow> nat" where
  "log_cap req = unat (min (case req_max_bytes req of Some m \<Rightarrow> m | None \<Rightarrow> MAX_LOGS_CHUNK_BYTES) MAX_LOGS_CHUNK_BYTES)"

text \<open>The container whose log is meant: a running one first, else a stopped one.\<close>

definition log_container :: "'w guest_os \<Rightarrow> Request \<Rightarrow> string \<Rightarrow> 'w \<Rightarrow> ('j Reply + string) \<times> 'w" where
  "log_container E req service w =
     (let fail = (\<lambda>msg. err_reply (req_id req) ''logs'' msg)
      in case resolve_by_service E service Running w of
           (Inr (Some (i, _)), w) \<Rightarrow> (Inr i, w)
         | (Inr None, w) \<Rightarrow>
             (case resolve_by_service E service Stopped w of
                (Inr (Some (i, _)), w) \<Rightarrow> (Inr i, w)
              | (Inr None, w) \<Rightarrow> (Inl (fail (kind_msg NoContainer (''no container for service '' @ service))), w)
              | (Inl e, w) \<Rightarrow> (Inl (fail (kind_msg PodmanPs (agent_error_display e))), w))
         | (Inl e, w) \<Rightarrow> (Inl (fail (kind_msg PodmanPs (agent_error_display e))), w))"

definition logs_reply :: "Request \<Rightarrow> u64 \<Rightarrow> AgentError + string \<times> nat \<times> bool \<Rightarrow> 'j Reply" where
  "logs_reply req cursor r =
     (case r of
        Inr (data, n, eof) \<Rightarrow>
          reply_default\<lparr>rep_id := Some (req_id req), rep_ok := Some True, rep_op := Some ''logs'',
            rep_data := (if data = '''' then None else Some data),
            rep_next_cursor := Some (saturating_add cursor (of_nat n)), rep_eof := Some eof\<rparr>
      | Inl e \<Rightarrow> err_reply (req_id req) ''logs'' (kind_msg PodmanOp (agent_error_display e)))"

definition do_logs :: "'w guest_os \<Rightarrow> Request \<Rightarrow> 'w \<Rightarrow> 'j Reply \<times> 'w" where
  "do_logs E req w =
     (let service = or_empty (req_container req); cursor = (case req_cursor req of Some c \<Rightarrow> c | None \<Rightarrow> 0)
      in if service = '''' then (err_reply (req_id req) ''logs'' ''logs requires `container`'', w)
         else case log_container E req service w of
                (Inl reply, w) \<Rightarrow> (reply, w)
              | (Inr i, w) \<Rightarrow>
                  (case container_log_path E i w of
                     (Inl e, w) \<Rightarrow> (err_reply (req_id req) ''logs'' (kind_msg PodmanPs (agent_error_display e)), w)
                   | (Inr path, w) \<Rightarrow>
                       (let (r, w) = read_log_chunk E path cursor (log_cap req) w in (logs_reply req cursor r, w))))"

definition handle :: "'w guest_os \<Rightarrow> Request \<Rightarrow> Agent \<Rightarrow> 'w \<Rightarrow> 'j Reply \<times> Agent \<times> 'w" where
  "handle E req ag w =
     (let op = req_op req; pure = (\<lambda>(r, w). (r, ag, w))
      in if op = OP_FINISH then (let (r, ag) = do_finish req ag in (r, ag, w))
         else if op = ''ping'' then (ping_reply E req, ag, w)
         else if op = ''containers'' then pure (do_containers E req w)
         else if op = ''exec'' then pure (do_exec E req w)
         else if op = ''kill'' then pure (do_lifecycle E req ''kill'' w)
         else if op = ''stop'' then pure (do_lifecycle E req ''stop'' w)
         else if op = ''start'' then pure (do_start E req w)
         else if op = ''partition'' then do_partition E req ag w
         else if op = ''heal'' then do_heal E req ag w
         else if op = ''logs'' then pure (do_logs E req w)
         else (err_reply (req_id req) op (kind_msg UnknownOp op), ag, w))"

end
