(* ===== verification/Bridge.thy ===== *)
theory Bridge
  imports Agent
begin

text \<open>
  The multiplexer of the agent (\<open>src/tdvmm-agent/src/bridge.rs\<close>): line framing, the requests of the host
  on the control tty, the connections of containers on the control socket and the events on the shared
  pipe, served by one loop that is the only writer of the control tty.

  The system calls are parameters: a poll says which sources are ready or fails, a read returns the bytes
  it got (none at the end of the stream) or fails, a write of a whole buffer succeeds (\<open>None\<close>) or fails
  after some bytes. So is the JSON library: the text of a reply, the request or event in a text (for a
  request, the text of its failure), and an object of strings. A connection is its file descriptor.
\<close>

section \<open>Parameters\<close>

definition FIFO_EVENT_CAP :: nat where [const_defs]: "FIFO_EVENT_CAP = 4096"
definition RX_LINE_CAP :: nat where [const_defs]: "RX_LINE_CAP = 64 * 1024"
definition MAX_CTL_CONNS :: nat where [const_defs]: "MAX_CTL_CONNS = 32"

datatype source = SrcControl | SrcEvents | SrcListener | SrcConn nat

record ('j, 'w) bridge_os =
  br_guest :: "'w guest_os"
  br_poll :: "'w \<Rightarrow> source list \<Rightarrow> (source \<Rightarrow> bool) option \<times> 'w"
  br_read :: "'w \<Rightarrow> source \<Rightarrow> nat \<Rightarrow> bytes option \<times> 'w"
  br_tty_write :: "'w \<Rightarrow> bytes \<Rightarrow> nat option \<times> 'w"
  br_conn_write :: "'w \<Rightarrow> nat \<Rightarrow> bytes \<Rightarrow> bool \<times> 'w"
  br_accept :: "'w \<Rightarrow> nat option \<times> 'w"
  br_try_clone :: "'w \<Rightarrow> nat \<Rightarrow> bool \<times> 'w"
  js_reply :: "'j Reply \<Rightarrow> bytes option"
  js_request :: "bytes \<Rightarrow> string + Request"
  js_event :: "bytes \<Rightarrow> 'j GuestEvent option"
  js_strings :: "(string \<times> string) list \<Rightarrow> 'j"

text \<open>
  The state of the loop: the buffers of the control tty, of the pipe (if there is one) and of each
  connection; \<open>bs_tty\<close> is all that was written to the control tty.
\<close>

record 'w bridge =
  bs_agent :: Agent
  bs_control :: bytes
  bs_events :: "bytes option"
  bs_listener :: bool
  bs_conns :: "(nat \<times> bytes) list"
  bs_seq :: u64
  bs_tty :: bytes
  bs_world :: 'w

section \<open>Line framing\<close>

definition reader_next :: "bytes \<Rightarrow> (bytes \<times> bytes) option" where
  "reader_next buf =
     (let i = length (takeWhile (\<lambda>b. b \<noteq> 10) buf)
      in if i < length buf then Some (take (i + 1) buf, drop (i + 1) buf)
         else if RX_LINE_CAP < length buf then Some (buf, [])
         else None)"

lemma reader_next_shorter: "reader_next buf = Some (line, rest) \<Longrightarrow> length rest < length buf"
  by (auto simp: reader_next_def Let_def split: if_splits)

text \<open>The lines that the iterator yields, and the partial line that stays.\<close>

function reader_lines :: "bytes \<Rightarrow> bytes list \<times> bytes" where
  "reader_lines buf =
     (case reader_next buf of
        None \<Rightarrow> ([], buf)
      | Some (line, rest) \<Rightarrow> (let (ls, buf) = reader_lines rest in (line # ls, buf)))"
  by pat_completeness auto
termination by (relation "measure length") (auto dest: reader_next_shorter)

declare reader_lines.simps [simp del]

definition READ_SIZE :: nat where [const_defs]: "READ_SIZE = 8192"

text \<open>\<open>fill\<close> and the lines it completes; \<open>None\<close> at the end of the stream and on an error.\<close>

definition fill_lines :: "('j, 'w) bridge_os \<Rightarrow> source \<Rightarrow> bytes \<Rightarrow> 'w \<Rightarrow> (bytes list \<times> bytes) option \<times> 'w" where
  "fill_lines E src buf w =
     (case br_read E w src READ_SIZE of
        (Some bs, w) \<Rightarrow> if bs = [] then (None, w) else (Some (reader_lines (buf @ bs)), w)
      | (None, w) \<Rightarrow> (None, w))"

section \<open>Replies and events\<close>

definition write_reply :: "('j, 'w) bridge_os \<Rightarrow> 'j Reply \<Rightarrow> 'w bridge \<Rightarrow> bool \<times> 'w bridge" where
  "write_reply E reply s =
     (case encode_line (js_reply E) reply of
        None \<Rightarrow> (False, s)
      | Some bs \<Rightarrow>
          (case br_tty_write E (bs_world s) bs of
             (None, w) \<Rightarrow> (True, s\<lparr>bs_tty := bs_tty s @ bs, bs_world := w\<rparr>)
           | (Some k, w) \<Rightarrow> (False, s\<lparr>bs_tty := bs_tty s @ take k bs, bs_world := w\<rparr>)))"

definition conn_reply :: "('j, 'w) bridge_os \<Rightarrow> nat \<Rightarrow> 'j Reply \<Rightarrow> 'w bridge \<Rightarrow> bool \<times> 'w bridge" where
  "conn_reply E fd reply s =
     (case encode_line (js_reply E) reply of
        None \<Rightarrow> (False, s)
      | Some bs \<Rightarrow> (let (ok, w) = br_conn_write E (bs_world s) fd bs in (ok, s\<lparr>bs_world := w\<rparr>)))"

definition event_default :: "'j GuestEvent" where
  "event_default = \<lparr>ev_kind = '''', ev_name = '''', ev_ok = None, ev_exit = None, ev_details = None\<rparr>"

definition bad_request :: "string \<Rightarrow> 'j Reply" where
  "bad_request detail = reply_default\<lparr>rep_ok := Some False, rep_op := Some ''?'', rep_error := Some (kind_msg BadRequest detail)\<rparr>"

definition finish_event :: "Request \<Rightarrow> 'j GuestEvent" where
  "finish_event req = event_default\<lparr>ev_kind := OP_FINISH, ev_name := or_empty (req_message req),
     ev_exit := Some (case req_exit req of Some c \<Rightarrow> c | None \<Rightarrow> 0)\<rparr>"

definition ctl_mirror :: "('j, 'w) bridge_os \<Rightarrow> Request \<Rightarrow> 'j Reply \<Rightarrow> 'j GuestEvent" where
  "ctl_mirror E req reply =
     (let details = (case req_container req of Some c \<Rightarrow> [(''service'', c)] | None \<Rightarrow> [])
            @ (case req_peer req of Some p \<Rightarrow> [(''peer'', p)] | None \<Rightarrow> [])
            @ (if rep_ok reply \<noteq> Some True then (case rep_error reply of Some e \<Rightarrow> [(''error'', e)] | None \<Rightarrow> []) else [])
      in event_default\<lparr>ev_kind := ''ctl'', ev_name := req_op req, ev_ok := Some (rep_ok reply = Some True),
           ev_details := (if details = [] then None else Some (js_strings E details))\<rparr>)"

definition invalid_event :: "('j, 'w) bridge_os \<Rightarrow> (string \<times> string) list \<Rightarrow> 'j GuestEvent" where
  "invalid_event E details = event_default\<lparr>ev_kind := ''invalid'', ev_details := Some (js_strings E details)\<rparr>"

definition parse_event :: "('j, 'w) bridge_os \<Rightarrow> bytes \<Rightarrow> 'j GuestEvent" where
  "parse_event E line =
     (let capped = take FIFO_EVENT_CAP (trim_frame line); raw = lossy (take 256 capped)
      in case js_event E capped of
           Some ev \<Rightarrow>
             if is_reserved_event_kind (ev_kind ev) then
               invalid_event E [(''raw'', raw), (''rejected'', ''reserved event kind (agent-originated only)'')]
             else if ev_kind ev \<noteq> '''' then ev
             else invalid_event E [(''raw'', raw)]
         | None \<Rightarrow> invalid_event E [(''raw'', raw)])"

section \<open>Requests\<close>

definition serve :: "('j, 'w) bridge_os \<Rightarrow> Request \<Rightarrow> 'w bridge \<Rightarrow> 'j Reply \<times> 'w bridge" where
  "serve E req s =
     (let (reply, ag, w) = handle (br_guest E) req (bs_agent s) (bs_world s) in (reply, s\<lparr>bs_agent := ag, bs_world := w\<rparr>))"

definition handle_control_line :: "('j, 'w) bridge_os \<Rightarrow> bytes \<Rightarrow> 'w bridge \<Rightarrow> bool \<times> 'w bridge" where
  "handle_control_line E line s =
     (if trim_frame line = [] then (True, s)
      else case js_request E (trim_frame line) of
             Inl e \<Rightarrow> write_reply E (bad_request e) s
           | Inr req \<Rightarrow> (let (reply, s) = serve E req s in write_reply E reply s))"

text \<open>The event to forward, and whether the connection still lives.\<close>

definition handle_ctl_line :: "('j, 'w) bridge_os \<Rightarrow> nat \<Rightarrow> bytes \<Rightarrow> 'w bridge \<Rightarrow> ('j GuestEvent option \<times> bool) \<times> 'w bridge" where
  "handle_ctl_line E fd line s =
     (if trim_frame line = [] then ((None, True), s)
      else case js_request E (trim_frame line) of
             Inl e \<Rightarrow> (let (alive, s) = conn_reply E fd (bad_request e) s in ((None, alive), s))
           | Inr req \<Rightarrow>
               (let (reply, s) = serve E req s;
                    forward = (if accepted_finish req reply then finish_event req else ctl_mirror E req reply);
                    (alive, s) = conn_reply E fd reply s
                in ((Some forward, alive), s)))"

definition forward_event :: "('j, 'w) bridge_os \<Rightarrow> 'j GuestEvent \<Rightarrow> 'w bridge \<Rightarrow> bool \<times> 'w bridge" where
  "forward_event E ev s =
     (let s = s\<lparr>bs_seq := bs_seq s + 1\<rparr> in write_reply E (from_event (bs_seq s) ev) s)"

section \<open>The loop\<close>

text \<open>The loops over lines; the first flag is whether the agent goes on.\<close>

fun control_lines :: "('j, 'w) bridge_os \<Rightarrow> bytes list \<Rightarrow> 'w bridge \<Rightarrow> bool \<times> 'w bridge" where
  "control_lines E [] s = (True, s)"
| "control_lines E (line # ls) s =
     (case handle_control_line E line s of
        (True, s) \<Rightarrow> control_lines E ls s
      | (False, s) \<Rightarrow> (False, s))"

fun conn_lines :: "('j, 'w) bridge_os \<Rightarrow> nat \<Rightarrow> bytes list \<Rightarrow> 'w bridge \<Rightarrow> (bool \<times> bool) \<times> 'w bridge" where
  "conn_lines E fd [] s = ((True, True), s)"
| "conn_lines E fd (line # ls) s =
     (let ((forward, alive), s) = handle_ctl_line E fd line s;
          (ok, s) = (case forward of Some ev \<Rightarrow> forward_event E ev s | None \<Rightarrow> (True, s))
      in if \<not> ok then ((False, alive), s)
         else if \<not> alive then ((True, False), s)
         else conn_lines E fd ls s)"

fun event_lines :: "('j, 'w) bridge_os \<Rightarrow> bytes list \<Rightarrow> 'w bridge \<Rightarrow> bool \<times> 'w bridge" where
  "event_lines E [] s = (True, s)"
| "event_lines E (line # ls) s =
     (case forward_event E (parse_event E line) s of
        (True, s) \<Rightarrow> event_lines E ls s
      | (False, s) \<Rightarrow> (False, s))"

definition control_phase :: "('j, 'w) bridge_os \<Rightarrow> (source \<Rightarrow> bool) \<Rightarrow> 'w bridge \<Rightarrow> bool \<times> 'w bridge" where
  "control_phase E ready s =
     (if ready SrcControl then
        (case fill_lines E SrcControl (bs_control s) (bs_world s) of
           (Some (ls, buf), w) \<Rightarrow> control_lines E ls (s\<lparr>bs_control := buf, bs_world := w\<rparr>)
         | (None, w) \<Rightarrow> (False, s\<lparr>bs_world := w\<rparr>))
      else (True, s))"

definition accept_phase :: "('j, 'w) bridge_os \<Rightarrow> (source \<Rightarrow> bool) \<Rightarrow> 'w bridge \<Rightarrow> 'w bridge" where
  "accept_phase E ready s =
     (if bs_listener s \<and> ready SrcListener then
        (case br_accept E (bs_world s) of
           (Some fd, w) \<Rightarrow>
             (let (cloned, w) = br_try_clone E w fd; s = s\<lparr>bs_world := w\<rparr>
              in if cloned \<and> length (bs_conns s) < MAX_CTL_CONNS then s\<lparr>bs_conns := bs_conns s @ [(fd, [])]\<rparr> else s)
         | (None, w) \<Rightarrow> s\<lparr>bs_world := w\<rparr>)
      else s)"

text \<open>The polled connections in order: those still alive with their buffers, and whether to go on.\<close>

fun serve_conns ::
  "('j, 'w) bridge_os \<Rightarrow> (source \<Rightarrow> bool) \<Rightarrow> (nat \<times> bytes) list \<Rightarrow> 'w bridge \<Rightarrow> (bool \<times> (nat \<times> bytes) list) \<times> 'w bridge" where
  "serve_conns E ready [] s = ((True, []), s)"
| "serve_conns E ready ((fd, buf) # cs) s =
     (if \<not> ready (SrcConn fd) then
        (let ((go, kept), s) = serve_conns E ready cs s in ((go, (fd, buf) # kept), s))
      else case fill_lines E (SrcConn fd) buf (bs_world s) of
        (Some (ls, buf), w) \<Rightarrow>
          (let ((go, alive), s) = conn_lines E fd ls (s\<lparr>bs_world := w\<rparr>)
           in if \<not> go then ((False, []), s)
              else let ((go, kept), s) = serve_conns E ready cs s
                   in ((go, if alive then (fd, buf) # kept else kept), s))
      | (None, w) \<Rightarrow> serve_conns E ready cs (s\<lparr>bs_world := w\<rparr>))"

definition conn_phase :: "('j, 'w) bridge_os \<Rightarrow> (source \<Rightarrow> bool) \<Rightarrow> nat \<Rightarrow> 'w bridge \<Rightarrow> bool \<times> 'w bridge" where
  "conn_phase E ready polled s =
     (let ((go, kept), s') = serve_conns E ready (take polled (bs_conns s)) s
      in (go, s'\<lparr>bs_conns := kept @ drop polled (bs_conns s)\<rparr>))"

definition event_phase :: "('j, 'w) bridge_os \<Rightarrow> (source \<Rightarrow> bool) \<Rightarrow> 'w bridge \<Rightarrow> bool \<times> 'w bridge" where
  "event_phase E ready s =
     (case bs_events s of
        Some buf \<Rightarrow>
          if ready SrcEvents then
            (case fill_lines E SrcEvents buf (bs_world s) of
               (Some (ls, buf), w) \<Rightarrow> event_lines E ls (s\<lparr>bs_events := Some buf, bs_world := w\<rparr>)
             | (None, w) \<Rightarrow> (True, s\<lparr>bs_world := w\<rparr>))
          else (True, s)
      | None \<Rightarrow> (True, s))"

definition poll_set :: "'w bridge \<Rightarrow> source list" where
  "poll_set s = [SrcControl] @ (if bs_events s \<noteq> None then [SrcEvents] else [])
     @ (if bs_listener s then [SrcListener] else []) @ map (\<lambda>(fd, _). SrcConn fd) (bs_conns s)"

definition bridge_iter :: "('j, 'w) bridge_os \<Rightarrow> 'w bridge \<Rightarrow> bool \<times> 'w bridge" where
  "bridge_iter E s =
     (case br_poll E (bs_world s) (poll_set s) of
        (None, w) \<Rightarrow> (False, s\<lparr>bs_world := w\<rparr>)
      | (Some ready, w) \<Rightarrow>
          (let polled = length (bs_conns s);
               (go, s) = control_phase E ready (s\<lparr>bs_world := w\<rparr>)
           in if \<not> go then (False, s)
              else let (go, s) = conn_phase E ready polled (accept_phase E ready s)
                   in if \<not> go then (False, s) else event_phase E ready s))"

text \<open>From the start: the hello line, then rounds until one of them ends the agent.\<close>

definition bridge_new :: "bool \<Rightarrow> bool \<Rightarrow> 'w \<Rightarrow> 'w bridge" where
  "bridge_new events listener w =
     \<lparr>bs_agent = agent_new, bs_control = [], bs_events = (if events then Some [] else None), bs_listener = listener,
      bs_conns = [], bs_seq = 0, bs_tty = [], bs_world = w\<rparr>"

inductive bridge_reach :: "('j, 'w) bridge_os \<Rightarrow> bool \<Rightarrow> 'w bridge \<Rightarrow> bool" for E where
  start: "write_reply E (hello AGENT_ID (os_build (br_guest E))) (bridge_new events listener w) = (True, s)
          \<Longrightarrow> bridge_reach E True s"
| outside: "bridge_reach E go s \<Longrightarrow> bridge_reach E go (s\<lparr>bs_world := w\<rparr>)"
| iter: "bridge_reach E True s \<Longrightarrow> bridge_iter E s = (go, s') \<Longrightarrow> bridge_reach E go s'"

end
