(* ===== verification/BridgeProps.thy ===== *)
theory BridgeProps
  imports Bridge
begin

text \<open>
  The invariant of the agent's loop: each request is answered with its own id and operation, and what
  was written to the control tty is whole replies, of which at most one is a finish and carries the
  verdict that the agent recorded.
\<close>

section \<open>Replies\<close>

lemma err_reply_fields [simp]:
  "rep_id (err_reply i op e) = Some i" "rep_op (err_reply i op e) = Some op" "rep_ok (err_reply i op e) = Some False"
  "rep_error (err_reply i op e) = Some e" "rep_event (err_reply i op e) = None"
  by (simp_all add: err_reply_def reply_default_def)

lemma ok_stdout_fields [simp]:
  "rep_id (ok_stdout i op e) = Some i" "rep_op (ok_stdout i op e) = Some op" "rep_ok (ok_stdout i op e) = Some True"
  "rep_error (ok_stdout i op e) = None" "rep_event (ok_stdout i op e) = None"
  by (simp_all add: ok_stdout_def reply_default_def)

text \<open>A reply that answers a request: its id and operation, and an error exactly when it failed.\<close>

definition answers :: "Request \<Rightarrow> 'j Reply \<Rightarrow> bool" where
  "answers req r \<longleftrightarrow> rep_id r = Some (req_id req) \<and> rep_op r = Some (req_op req) \<and> rep_event r = None
     \<and> (rep_ok r = Some True \<and> rep_error r = None \<or> rep_ok r = Some False \<and> rep_error r \<noteq> None)"

lemma answers_ok: "answers req (ok_stdout (req_id req) (req_op req) out)"
  by (simp add: answers_def)

lemma answers_err: "answers req (err_reply (req_id req) (req_op req) e)"
  by (simp add: answers_def)

lemma answers_ping: "req_op req = ''ping'' \<Longrightarrow> answers req (ping_reply E req)"
  by (simp add: answers_def ping_reply_def reply_default_def)

lemma answers_containers: "req_op req = ''containers'' \<Longrightarrow> answers req (fst (do_containers E req w))"
  by (auto simp: answers_def do_containers_def reply_default_def split: prod.splits sum.splits)

lemma answers_exec_in: "req_op req = ''exec'' \<Longrightarrow> answers req (fst (exec_in E req i cmd w))"
  by (auto simp: answers_def exec_in_def reply_default_def Let_def split: prod.splits sum.splits)

lemma answers_exec: "req_op req = ''exec'' \<Longrightarrow> answers req (fst (do_exec E req w))"
  using answers_err [of req]
  by (auto simp: do_exec_def Let_def answers_exec_in split: prod.splits sum.splits option.splits)

lemma answers_lifecycle: "req_op req = op \<Longrightarrow> answers req (fst (do_lifecycle E req op w))"
  using answers_err [of req] answers_ok [of req]
  by (auto simp: do_lifecycle_def Let_def split: prod.splits sum.splits option.splits)

lemma answers_start: "req_op req = ''start'' \<Longrightarrow> answers req (fst (do_start E req w))"
  using answers_err [of req] answers_ok [of req]
  by (auto simp: do_start_def Let_def split: prod.splits sum.splits option.splits)

lemma answers_partition_ends:
  "req_op req = ''partition'' \<Longrightarrow> partition_ends E req a b w = (Inl r, w') \<Longrightarrow> answers req r"
  using answers_err [of req]
  by (auto simp: partition_ends_def Let_def split: prod.splits sum.splits option.splits)

lemma answers_partition: "req_op req = ''partition'' \<Longrightarrow> answers req (fst (do_partition E req ag w))"
  using answers_err [of req] answers_ok [of req] answers_partition_ends [of req E]
  by (auto simp: do_partition_def Let_def split: prod.splits sum.splits)

lemma answers_heal: "req_op req = ''heal'' \<Longrightarrow> answers req (fst (do_heal E req ag w))"
  using answers_err [of req] answers_ok [of req]
  by (auto simp: do_heal_def Let_def split: prod.splits sum.splits)

lemma answers_log_container: "req_op req = ''logs'' \<Longrightarrow> log_container E req s w = (Inl r, w') \<Longrightarrow> answers req r"
  using answers_err [of req]
  by (auto simp: log_container_def Let_def split: prod.splits sum.splits option.splits)

lemma answers_logs_reply: "req_op req = ''logs'' \<Longrightarrow> answers req (logs_reply req cursor r)"
  by (auto simp: logs_reply_def answers_def reply_default_def split: sum.splits prod.splits)

lemma answers_logs: "req_op req = ''logs'' \<Longrightarrow> answers req (fst (do_logs E req w))"
  using answers_err [of req] answers_log_container [of req E] answers_logs_reply [of req]
  by (auto simp: do_logs_def Let_def split: prod.splits sum.splits)

lemma answers_finish: "req_op req = OP_FINISH \<Longrightarrow> answers req (fst (do_finish req ag))"
  using answers_err [of req] answers_ok [of req] by (auto simp: do_finish_def Let_def split: option.splits)

lemma fst_pure: "fst (case x of (r, w) \<Rightarrow> (r, ag, w)) = fst x"
  by (cases x) simp

lemma answers_handle: "answers req (fst (handle E req ag w))"
proof -
  have f: "fst (case x of (r, ag) \<Rightarrow> (r, ag, w)) = fst x" for x :: "'c Reply \<times> Agent" by (cases x) simp
  note ops = answers_ping answers_containers answers_exec answers_lifecycle answers_start answers_partition answers_heal
    answers_logs answers_finish answers_err
  show ?thesis unfolding handle_def Let_def by (simp add: fst_pure f ops)
qed

section \<open>The verdict of the agent\<close>

lemma partition_finished: "ag_finished (fst (snd (do_partition E req ag w))) = ag_finished ag"
  by (auto simp: do_partition_def Let_def split: prod.splits sum.splits)

lemma heal_finished: "ag_finished (fst (snd (do_heal E req ag w))) = ag_finished ag"
  by (auto simp: do_heal_def Let_def split: prod.splits sum.splits)

lemma snd_pure: "fst (snd (case x of (r, w) \<Rightarrow> (r, ag, w))) = ag"
  by (cases x) simp

definition exit_of :: "Request \<Rightarrow> i64" where
  "exit_of req = (case req_exit req of Some c \<Rightarrow> c | None \<Rightarrow> 0)"

lemma handle_finished:
  assumes "handle E req ag w = (r, ag', w')"
  shows "accepted_finish req r \<Longrightarrow> ag_finished ag = None \<and> ag_finished ag' = Some (exit_of req)"
    and "\<not> accepted_finish req r \<Longrightarrow> ag_finished ag' = ag_finished ag"
proof -
  show "accepted_finish req r \<Longrightarrow> ag_finished ag = None \<and> ag_finished ag' = Some (exit_of req)"
    using assms by (auto simp: handle_def accepted_finish_def do_finish_def Let_def exit_of_def split: option.splits)
  assume n: "\<not> accepted_finish req r"
  show "ag_finished ag' = ag_finished ag"
  proof (cases "req_op req = OP_FINISH")
    case True
    then show ?thesis using assms n by (auto simp: handle_def accepted_finish_def do_finish_def Let_def split: option.splits)
  next
    case False
    have "ag_finished (fst (snd (r, ag', w'))) = ag_finished ag"
      unfolding assms [symmetric] handle_def Let_def using False by (simp add: snd_pure partition_finished heal_finished)
    then show ?thesis by simp
  qed
qed

text \<open>
  The replies on the control tty and the recorded verdict: at most one of them is a finish, and it carries
  that verdict; while the agent runs, a recorded verdict was told, by that finish or in the reply to a
  finish of the host itself.
\<close>

definition direct_finish :: "'j Reply \<Rightarrow> bool" where
  "direct_finish r \<longleftrightarrow> rep_event r = None \<and> rep_op r = Some OP_FINISH \<and> rep_ok r = Some True"

definition carries :: "i64 option \<Rightarrow> 'j Reply \<Rightarrow> bool" where
  "carries f r \<longleftrightarrow> f \<noteq> None \<and> ev_exit (the (rep_event r)) = f"

definition weak_ok :: "'j Reply list \<Rightarrow> i64 option \<Rightarrow> bool" where
  "weak_ok rs f \<longleftrightarrow> length (filter is_finish rs) \<le> 1 \<and> list_all (carries f) (filter is_finish rs)"

definition verdict_ok :: "'j Reply list \<Rightarrow> i64 option \<Rightarrow> bool" where
  "verdict_ok rs f \<longleftrightarrow> weak_ok rs f \<and> (f \<noteq> None \<longrightarrow> (\<exists>r \<in> set rs. is_finish r \<or> direct_finish r))"

lemma weak_ok_None: "weak_ok rs None \<Longrightarrow> filter is_finish rs = []"
  by (cases "filter is_finish rs") (simp_all add: weak_ok_def carries_def)

lemma verdict_ok_other: "verdict_ok rs f \<Longrightarrow> \<not> is_finish r \<Longrightarrow> verdict_ok (rs @ [r]) f"
  by (simp add: verdict_ok_def weak_ok_def)

lemma verdict_ok_None: "verdict_ok rs None \<Longrightarrow> filter is_finish rs = []"
  by (rule weak_ok_None) (simp add: verdict_ok_def)

lemma verdict_ok_direct:
  assumes "verdict_ok rs None" and "\<not> is_finish r" and "direct_finish r" shows "verdict_ok (rs @ [r]) f"
  using assms(2,3) by (simp add: verdict_ok_def weak_ok_def verdict_ok_None [OF assms(1)])

lemma verdict_ok_finish:
  assumes "verdict_ok rs None" and "is_finish r" and "carries f r" shows "verdict_ok (rs @ [r]) f"
  using assms(2,3) by (simp add: verdict_ok_def weak_ok_def verdict_ok_None [OF assms(1)])

lemma weak_ok_accept: "verdict_ok rs None \<Longrightarrow> weak_ok rs f"
  by (drule verdict_ok_None) (simp add: weak_ok_def)

abbreviation fin :: "'w bridge \<Rightarrow> i64 option" where
  "fin s \<equiv> ag_finished (bs_agent s)"

definition live :: "('j, 'w) bridge_os \<Rightarrow> 'j Reply list \<Rightarrow> 'w bridge \<Rightarrow> bool" where
  "live E rs s \<longleftrightarrow> sent_as (js_reply E) rs (bs_tty s) \<and> verdict_ok rs (fin s)"

definition ended :: "('j, 'w) bridge_os \<Rightarrow> 'w bridge \<Rightarrow> bool" where
  "ended E s \<longleftrightarrow> (\<exists>rs bs part. sent_as (js_reply E) rs bs \<and> bs_tty s = bs @ part \<and> 10 \<notin> set part \<and> weak_ok rs (fin s))"

definition state_ok :: "('j, 'w) bridge_os \<Rightarrow> bool \<Rightarrow> 'w bridge \<Rightarrow> bool" where
  "state_ok E go s \<longleftrightarrow> (if go then \<exists>rs. live E rs s else ended E s)"

lemma state_ok_cong: "state_ok E go s \<Longrightarrow> bs_tty s' = bs_tty s \<Longrightarrow> bs_agent s' = bs_agent s \<Longrightarrow> state_ok E go s'"
  unfolding state_ok_def live_def ended_def by (cases go) simp_all

lemma endedI:
  "sent_as (js_reply E) rs bs \<Longrightarrow> bs_tty s = bs @ part \<Longrightarrow> 10 \<notin> set part \<Longrightarrow> weak_ok rs (fin s) \<Longrightarrow> ended E s"
  unfolding ended_def by blast

lemma live_ended: "live E rs s \<Longrightarrow> ended E s"
  by (rule endedI [of _ rs "bs_tty s" _ "[]"]) (simp_all add: live_def verdict_ok_def)

lemma state_ok_stop: "state_ok E True s \<Longrightarrow> state_ok E False s"
  using live_ended by (auto simp: state_ok_def)

lemma sent_as_snoc: "sent_as to_vec rs bs \<Longrightarrow> encode_line to_vec r = Some t \<Longrightarrow> sent_as to_vec (rs @ [r]) (bs @ t)"
  unfolding sent_as_def by (elim exE conjE, rule_tac x = "ts @ [t]" in exI) (simp add: list_all2_appendI)

lemma write_reply_ok:
  assumes json: "json_text (js_reply E) J" and tty: "sent_as (js_reply E) rs (bs_tty s)"
    and weak: "weak_ok rs (fin s)" and ok: "verdict_ok (rs @ [r]) (fin s)" and w: "write_reply E r s = (go, s')"
  shows "state_ok E go s'"
proof (cases "js_reply E r")
  case None
  then have "\<not> go" "s' = s" using w by (simp_all add: write_reply_def encode_line_def)
  then show ?thesis using endedI [OF tty _ _ weak, of "[]"] by (simp add: state_ok_def)
next
  case (Some t)
  then have e: "encode_line (js_reply E) r = Some (t @ [10])" by (simp add: encode_line_def)
  have nl: "10 \<notin> set t" using json Some by (auto simp: json_text_def)
  have all: "sent_as (js_reply E) (rs @ [r]) (bs_tty s @ t @ [10])" by (rule sent_as_snoc [OF tty e])
  obtain a w1 where a: "br_tty_write E (bs_world s) (t @ [10]) = (a, w1)" by fastforce
  show ?thesis
  proof (cases a)
    case None
    then have "go" "bs_tty s' = bs_tty s @ t @ [10]" "bs_agent s' = bs_agent s" using w e a by (auto simp: write_reply_def)
    then have "live E (rs @ [r]) s'" using all ok by (simp add: live_def)
    then show ?thesis using \<open>go\<close> by (auto simp: state_ok_def)
  next
    case (Some k)
    then have s': "\<not> go" "bs_tty s' = bs_tty s @ take k (t @ [10])" "bs_agent s' = bs_agent s" using w e a by (auto simp: write_reply_def)
    show ?thesis
    proof (cases "k \<le> length t")
      case True
      then have "10 \<notin> set (take k (t @ [10]))" using nl set_take_subset [of k t] by auto
      then show ?thesis using endedI [OF tty s'(2)] s' weak by (simp add: state_ok_def)
    next
      case False
      then have "take k (t @ [10]) = t @ [10]" by simp
      then show ?thesis using endedI [OF all, of s' "[]"] s' ok by (simp add: state_ok_def verdict_ok_def)
    qed
  qed
qed

section \<open>Every round keeps the invariant\<close>

lemma no_event_no_finish: "rep_event r = None \<Longrightarrow> \<not> is_finish r"
  by (simp add: is_finish_def)

lemma bad_request_no_finish: "\<not> is_finish (bad_request e)"
  by (rule no_event_no_finish) (simp add: bad_request_def reply_default_def)

lemma from_event_finish: "is_finish (from_event n ev) \<longleftrightarrow> ev_kind ev = OP_FINISH"
  by (simp add: is_finish_def from_event_def reply_default_def is_hello_def)

lemma ctl_mirror_kind: "ev_kind (ctl_mirror E req r) \<noteq> OP_FINISH"
  by (simp add: ctl_mirror_def event_default_def Let_def OP_FINISH_def)

lemma parse_event_kind: "ev_kind (parse_event E line) \<noteq> OP_FINISH"
  by (auto simp: parse_event_def Let_def invalid_event_def event_default_def is_reserved_event_kind_def
      RESERVED_EVENT_KINDS_def OP_FINISH_def split: option.split)

lemma serve_props:
  assumes "serve E req s = (r, s')"
  shows "bs_tty s' = bs_tty s" "answers req r"
    "accepted_finish req r \<Longrightarrow> fin s = None \<and> fin s' = Some (exit_of req)" "\<not> accepted_finish req r \<Longrightarrow> fin s' = fin s"
proof -
  obtain ag w where h: "handle (br_guest E) req (bs_agent s) (bs_world s) = (r, ag, w)" "s' = s\<lparr>bs_agent := ag, bs_world := w\<rparr>"
    using assms by (auto simp: serve_def Let_def split: prod.splits)
  show "bs_tty s' = bs_tty s" using h by simp
  have "answers req (fst (r, ag, w))" unfolding h(1) [symmetric] by (rule answers_handle)
  then show "answers req r" by simp
  show "accepted_finish req r \<Longrightarrow> fin s = None \<and> fin s' = Some (exit_of req)" "\<not> accepted_finish req r \<Longrightarrow> fin s' = fin s"
    using handle_finished [OF h(1)] h(2) by simp_all
qed

lemma control_line_ok:
  assumes json: "json_text (js_reply E) J" and s: "state_ok E True s" and h: "handle_control_line E line s = (go, s')"
  shows "state_ok E go s'"
proof (cases "trim_frame line = []")
  case True
  then show ?thesis using s h by (simp add: handle_control_line_def)
next
  case False
  obtain rs where rs: "sent_as (js_reply E) rs (bs_tty s)" "verdict_ok rs (fin s)" using s by (auto simp: state_ok_def live_def)
  then have weak: "weak_ok rs (fin s)" by (simp add: verdict_ok_def)
  show ?thesis
  proof (cases "js_request E (trim_frame line)")
    case (Inl e)
    then have "write_reply E (bad_request e) s = (go, s')" using h False by (simp add: handle_control_line_def)
    then show ?thesis by (rule write_reply_ok [OF json rs(1) weak verdict_ok_other [OF rs(2) bad_request_no_finish]])
  next
    case (Inr req)
    obtain r s1 where r: "serve E req s = (r, s1)" by fastforce
    then have w: "write_reply E r s1 = (go, s')" using h False Inr by (simp add: handle_control_line_def)
    note p = serve_props [OF r]
    have n: "\<not> is_finish r" using p(2) by (intro no_event_no_finish) (simp add: answers_def)
    have tty: "sent_as (js_reply E) rs (bs_tty s1)" using rs(1) p(1) by simp
    show ?thesis
    proof (cases "accepted_finish req r")
      case True
      have none: "verdict_ok rs None" using rs(2) p(3) [OF True] by simp
      have "direct_finish r" using True p(2) by (simp add: direct_finish_def accepted_finish_def answers_def)
      then show ?thesis by (rule write_reply_ok [OF json tty weak_ok_accept [OF none] verdict_ok_direct [OF none n] w])
    next
      case False
      have f: "verdict_ok rs (fin s1)" using rs(2) p(4) [OF False] by simp
      then have "weak_ok rs (fin s1)" by (simp add: verdict_ok_def)
      then show ?thesis by (rule write_reply_ok [OF json tty _ verdict_ok_other [OF f n] w])
    qed
  qed
qed

lemma forward_ok:
  assumes json: "json_text (js_reply E) J" and s: "state_ok E True s" and k: "ev_kind ev \<noteq> OP_FINISH"
    and h: "forward_event E ev s = (go, s')"
  shows "state_ok E go s'"
proof -
  obtain rs where rs: "sent_as (js_reply E) rs (bs_tty s)" "verdict_ok rs (fin s)" using s by (auto simp: state_ok_def live_def)
  define s1 where "s1 = s\<lparr>bs_seq := bs_seq s + 1\<rparr>"
  have t: "sent_as (js_reply E) rs (bs_tty s1)" "verdict_ok rs (fin s1)" using rs by (simp_all add: s1_def)
  have w: "write_reply E (from_event (bs_seq s1) ev) s1 = (go, s')" using h by (simp add: forward_event_def s1_def Let_def)
  have n: "\<not> is_finish (from_event (bs_seq s1) ev)" using k by (simp add: from_event_finish)
  have "weak_ok rs (fin s1)" using t(2) by (simp add: verdict_ok_def)
  then show ?thesis by (rule write_reply_ok [OF json t(1) _ verdict_ok_other [OF t(2) n] w])
qed

lemma conn_reply_props: "conn_reply E fd r s = (alive, s') \<Longrightarrow> bs_tty s' = bs_tty s \<and> bs_agent s' = bs_agent s"
  by (auto simp: conn_reply_def Let_def split: option.splits prod.splits)

text \<open>One line of a connection, with the event it forwards.\<close>

lemma ctl_line_ok:
  assumes json: "json_text (js_reply E) J" and s: "state_ok E True s" and h: "handle_ctl_line E fd line s = ((forward, alive), s1)"
    and f: "(case forward of Some ev \<Rightarrow> forward_event E ev s1 | None \<Rightarrow> (True, s1)) = (go, s')"
  shows "state_ok E go s'"
proof (cases "forward")
  case None
  then have "bs_tty s1 = bs_tty s \<and> bs_agent s1 = bs_agent s"
    using h conn_reply_props [of E fd _ s] by (auto simp: handle_ctl_line_def Let_def split: if_splits sum.splits prod.splits)
  then show ?thesis using state_ok_cong [OF s] f None by simp
next
  case (Some ev)
  obtain rs where rs: "sent_as (js_reply E) rs (bs_tty s)" "verdict_ok rs (fin s)" using s by (auto simp: state_ok_def live_def)
  obtain req r s0 where r: "serve E req s = (r, s0)" and c: "conn_reply E fd r s0 = (alive, s1)"
      and ev: "ev = (if accepted_finish req r then finish_event req else ctl_mirror E req r)"
    using h Some by (auto simp: handle_ctl_line_def Let_def split: if_splits sum.splits prod.splits)
  note p = serve_props [OF r]
  have s1: "bs_tty s1 = bs_tty s" "fin s1 = fin s0" using conn_reply_props [OF c] p(1) by simp_all
  show ?thesis
  proof (cases "accepted_finish req r")
    case True
    have none: "verdict_ok rs None" using rs(2) p(3) [OF True] by simp
    define s2 where "s2 = s1\<lparr>bs_seq := bs_seq s1 + 1\<rparr>"
    have t: "sent_as (js_reply E) rs (bs_tty s2)" "fin s2 = Some (exit_of req)"
      using rs(1) s1 p(3) [OF True] by (simp_all add: s2_def)
    have e: "ev_kind ev = OP_FINISH" "ev_exit ev = Some (exit_of req)"
      using ev True by (simp_all add: finish_event_def event_default_def exit_of_def)
    have w: "write_reply E (from_event (bs_seq s2) ev) s2 = (go, s')" using f Some by (simp add: forward_event_def s2_def Let_def)
    have "verdict_ok (rs @ [from_event (bs_seq s2) ev]) (fin s2)"
      using e t(2) by (intro verdict_ok_finish [OF none])
        (simp_all add: from_event_finish carries_def, simp add: from_event_def reply_default_def)
    then show ?thesis by (rule write_reply_ok [OF json t(1) weak_ok_accept [OF none] _ w])
  next
    case False
    have "live E rs s1" using rs s1 p(4) [OF False] by (simp add: live_def)
    then have ok: "state_ok E True s1" by (auto simp: state_ok_def)
    have "ev_kind ev \<noteq> OP_FINISH" using ev False ctl_mirror_kind by simp
    then show ?thesis using forward_ok [OF json ok _] f Some by simp
  qed
qed

lemma control_lines_ok:
  "json_text (js_reply E) J \<Longrightarrow> state_ok E True s \<Longrightarrow> control_lines E ls s = (go, s') \<Longrightarrow> state_ok E go s'"
proof (induction ls arbitrary: s)
  case (Cons line ls)
  obtain ok s1 where h: "handle_control_line E line s = (ok, s1)" by fastforce
  note s1 = control_line_ok [OF Cons.prems(1,2) h]
  show ?case
  proof (cases ok)
    case True
    then show ?thesis using Cons.IH [OF Cons.prems(1), of s1] s1 Cons.prems(3) h by simp
  next
    case False
    then show ?thesis using s1 Cons.prems(3) h by simp
  qed
qed simp

lemma event_lines_ok:
  "json_text (js_reply E) J \<Longrightarrow> state_ok E True s \<Longrightarrow> event_lines E ls s = (go, s') \<Longrightarrow> state_ok E go s'"
proof (induction ls arbitrary: s)
  case (Cons line ls)
  obtain ok s1 where h: "forward_event E (parse_event E line) s = (ok, s1)" by fastforce
  note s1 = forward_ok [OF Cons.prems(1,2) parse_event_kind h]
  show ?case
  proof (cases ok)
    case True
    then show ?thesis using Cons.IH [OF Cons.prems(1), of s1] s1 Cons.prems(3) h by simp
  next
    case False
    then show ?thesis using s1 Cons.prems(3) h by simp
  qed
qed simp

lemma conn_lines_ok:
  "json_text (js_reply E) J \<Longrightarrow> state_ok E True s \<Longrightarrow> conn_lines E fd ls s = ((go, alive), s') \<Longrightarrow> state_ok E go s'"
proof (induction ls arbitrary: s)
  case (Cons line ls)
  obtain forward up s1 where h: "handle_ctl_line E fd line s = ((forward, up), s1)" by (metis prod.exhaust)
  obtain ok s2 where f: "(case forward of Some ev \<Rightarrow> forward_event E ev s1 | None \<Rightarrow> (True, s1)) = (ok, s2)" by fastforce
  note s2 = ctl_line_ok [OF Cons.prems(1,2) h f]
  show ?case
  proof (cases "ok \<and> up")
    case True
    then show ?thesis using Cons.IH [OF Cons.prems(1), of s2] s2 Cons.prems(3) h f by simp
  next
    case False
    then show ?thesis using s2 Cons.prems(3) h f by (auto split: if_splits)
  qed
qed simp

lemma state_ok_world: "state_ok E go s \<Longrightarrow> state_ok E go (s\<lparr>bs_world := w\<rparr>)"
  by (rule state_ok_cong) simp_all

lemma control_phase_ok:
  assumes json: "json_text (js_reply E) J" and s: "state_ok E True s" and h: "control_phase E ready s = (go, s')"
  shows "state_ok E go s'"
proof (cases "ready SrcControl")
  case True
  obtain r w where r: "fill_lines E SrcControl (bs_control s) (bs_world s) = (r, w)" by fastforce
  show ?thesis
  proof (cases r)
    case None
    then show ?thesis using True r h state_ok_world [OF state_ok_stop [OF s], of w] by (auto simp: control_phase_def)
  next
    case (Some lb)
    obtain ls buf where lb: "lb = (ls, buf)" by fastforce
    have "state_ok E True (s\<lparr>bs_control := buf, bs_world := w\<rparr>)" by (rule state_ok_cong [OF s]) simp_all
    moreover have "control_lines E ls (s\<lparr>bs_control := buf, bs_world := w\<rparr>) = (go, s')"
      using True r h Some lb by (simp add: control_phase_def)
    ultimately show ?thesis by (rule control_lines_ok [OF json])
  qed
qed (use s h in \<open>simp add: control_phase_def\<close>)

lemma event_phase_ok:
  assumes json: "json_text (js_reply E) J" and s: "state_ok E True s" and h: "event_phase E ready s = (go, s')"
  shows "state_ok E go s'"
proof (cases "bs_events s")
  case (Some buf)
  obtain r w where r: "fill_lines E SrcEvents buf (bs_world s) = (r, w)" by fastforce
  show ?thesis
  proof (cases "ready SrcEvents")
    case True
    show ?thesis
    proof (cases r)
      case None
      then show ?thesis using True Some r h state_ok_world [OF s, of w] by (auto simp: event_phase_def)
    next
      case (Some lb)
      obtain ls buf' where lb: "lb = (ls, buf')" by fastforce
      have "state_ok E True (s\<lparr>bs_events := Some buf', bs_world := w\<rparr>)" by (rule state_ok_cong [OF s]) simp_all
      moreover have "event_lines E ls (s\<lparr>bs_events := Some buf', bs_world := w\<rparr>) = (go, s')"
        using True r h Some lb \<open>bs_events s = Some buf\<close> by (simp add: event_phase_def)
      ultimately show ?thesis by (rule event_lines_ok [OF json])
    qed
  qed (use s h Some in \<open>simp add: event_phase_def\<close>)
qed (use s h in \<open>simp add: event_phase_def\<close>)

lemma accept_phase_ok: "state_ok E True s \<Longrightarrow> state_ok E True (accept_phase E ready s)"
  by (erule state_ok_cong) (auto simp: accept_phase_def Let_def split: prod.splits option.splits)

lemma serve_conns_eq:
  "serve_conns E ready ((fd, buf) # cs) s =
     (if \<not> ready (SrcConn fd) then
        (let r = serve_conns E ready cs s in ((fst (fst r), (fd, buf) # snd (fst r)), snd r))
      else case fst (fill_lines E (SrcConn fd) buf (bs_world s)) of
        None \<Rightarrow> serve_conns E ready cs (s\<lparr>bs_world := snd (fill_lines E (SrcConn fd) buf (bs_world s))\<rparr>)
      | Some lb \<Rightarrow>
          (let c = conn_lines E fd (fst lb) (s\<lparr>bs_world := snd (fill_lines E (SrcConn fd) buf (bs_world s))\<rparr>);
               r = serve_conns E ready cs (snd c)
           in if \<not> fst (fst c) then ((False, []), snd c)
              else ((fst (fst r), if snd (fst c) then (fd, snd lb) # snd (fst r) else snd (fst r)), snd r)))"
  by (simp add: case_prod_unfold Let_def split: option.split)

declare serve_conns.simps(2) [simp del]

lemma serve_conns_ok:
  "json_text (js_reply E) J \<Longrightarrow> state_ok E True s
   \<Longrightarrow> state_ok E (fst (fst (serve_conns E ready cs s))) (snd (serve_conns E ready cs s))"
proof (induction cs arbitrary: s)
  case (Cons c cs)
  obtain fd buf where c: "c = (fd, buf)" by fastforce
  define w where "w = snd (fill_lines E (SrcConn fd) buf (bs_world s))"
  note sw = state_ok_world [OF Cons.prems(2), of w]
  note rest = Cons.IH [OF Cons.prems(1)]
  show ?case
  proof (cases "ready (SrcConn fd)")
    case False
    then show ?thesis using rest [OF Cons.prems(2)] by (simp add: c serve_conns_eq Let_def)
  next
    case True
    show ?thesis
    proof (cases "fst (fill_lines E (SrcConn fd) buf (bs_world s))")
      case None
      then show ?thesis using True rest [OF sw] by (simp add: c serve_conns_eq w_def)
    next
      case (Some lb)
      define l where "l = conn_lines E fd (fst lb) (s\<lparr>bs_world := w\<rparr>)"
      have "conn_lines E fd (fst lb) (s\<lparr>bs_world := w\<rparr>) = ((fst (fst l), snd (fst l)), snd l)" by (simp add: l_def)
      note s1 = conn_lines_ok [OF Cons.prems(1) sw this]
      have eq: "serve_conns E ready (c # cs) s =
          (let r = serve_conns E ready cs (snd l)
           in if \<not> fst (fst l) then ((False, []), snd l)
              else ((fst (fst r), if snd (fst l) then (fd, snd lb) # snd (fst r) else snd (fst r)), snd r))"
        using True Some by (simp add: c serve_conns_eq w_def l_def Let_def)
      show ?thesis
      proof (cases "fst (fst l)")
        case g: True
        then show ?thesis using rest [of "snd l"] s1 by (simp add: eq Let_def)
      next
        case g: False
        then show ?thesis using s1 by (simp add: eq)
      qed
    qed
  qed
qed simp

lemma conn_phase_ok:
  assumes json: "json_text (js_reply E) J" and s: "state_ok E True s" and h: "conn_phase E ready n s = (go, s')"
  shows "state_ok E go s'"
proof -
  obtain kept s1 where c: "serve_conns E ready (take n (bs_conns s)) s = ((go, kept), s1)"
      "s' = s1\<lparr>bs_conns := kept @ drop n (bs_conns s)\<rparr>"
    using h by (auto simp: conn_phase_def Let_def split: prod.splits)
  have "state_ok E go s1" using serve_conns_ok [OF json s, of ready "take n (bs_conns s)"] c(1) by simp
  then show ?thesis unfolding c(2) by (rule state_ok_cong) simp_all
qed

lemma bridge_iter_ok:
  assumes json: "json_text (js_reply E) J" and s: "state_ok E True s" and h: "bridge_iter E s = (go, s')"
  shows "state_ok E go s'"
proof (cases "br_poll E (bs_world s) (poll_set s)")
  case (Pair r w)
  note sw = state_ok_world [OF s, of w]
  show ?thesis
  proof (cases r)
    case None
    then show ?thesis using h Pair state_ok_stop [OF sw] by (simp add: bridge_iter_def)
  next
    case (Some ready)
    obtain go1 s1 where c: "control_phase E ready (s\<lparr>bs_world := w\<rparr>) = (go1, s1)" by fastforce
    obtain go2 s2 where d: "conn_phase E ready (length (bs_conns s)) (accept_phase E ready s1) = (go2, s2)" by fastforce
    note s1 = control_phase_ok [OF json sw c]
    show ?thesis
    proof (cases go1)
      case False
      then show ?thesis using s1 h Pair Some c by (simp add: bridge_iter_def)
    next
      case True
      then have s2: "state_ok E go2 s2" using s1 by (intro conn_phase_ok [OF json accept_phase_ok d]) simp
      then show ?thesis using h Pair Some c d True event_phase_ok [OF json, of s2 ready go s']
        by (cases go2) (simp_all add: bridge_iter_def)
    qed
  qed
qed

lemma bridge_reach_ok: "bridge_reach E go s \<Longrightarrow> json_text (js_reply E) J \<Longrightarrow> state_ok E go s"
proof (induction rule: bridge_reach.induct)
  case (start events listener w s)
  let ?h = "hello AGENT_ID (os_build (br_guest E))"
  have n: "\<not> is_finish ?h" by (simp add: is_finish_def hello_def reply_default_def)
  have v: "verdict_ok [] (fin (bridge_new events listener w))"
    by (simp add: verdict_ok_def weak_ok_def bridge_new_def agent_new_def)
  have t: "sent_as (js_reply E) [] (bs_tty (bridge_new events listener w))" by (simp add: sent_as_Nil bridge_new_def)
  have "weak_ok [] (fin (bridge_new events listener w))" by (simp add: weak_ok_def)
  then show ?case by (rule write_reply_ok [OF start(2) t _ verdict_ok_other [OF v n] start(1)])
next
  case (outside go s w)
  then show ?case by (intro state_ok_world) simp
next
  case (iter s go s')
  then show ?case by (intro bridge_iter_ok [OF iter.prems _ iter.hyps(2)]) simp
qed

end
