(* ===== verification/AgentProps.thy ===== *)
theory AgentProps
  imports BridgeProps
begin

text \<open>
  The properties of the agent, over \<open>BridgeProps\<close>: the verdict from a container to the exit code of the
  host, replies and requests, partitions, and the framing of its streams.
\<close>

section \<open>The verdict, end to end\<close>

lemma finish_replies:
  assumes "weak_ok rs f"
  obtains "filter is_finish rs = []" | r c where "filter is_finish rs = [r]" "f = Some c" "ev_exit (the (rep_event r)) = Some c"
proof (cases "filter is_finish rs")
  case (Cons r xs)
  then have "xs = []" "carries f r" using assms by (simp_all add: weak_ok_def)
  then show thesis using that(2) Cons by (auto simp: carries_def)
qed (rule that(1))

lemma state_ok_sent:
  assumes "state_ok E go s"
  obtains rs bs part where "sent_as (js_reply E) rs bs" "bs_tty s = bs @ part" "10 \<notin> set part" "weak_ok rs (fin s)"
proof -
  have "ended E s" using assms by (cases go) (auto simp: state_ok_def live_ended)
  then show thesis using that by (auto simp: ended_def)
qed

text \<open>
  C6. The verdict of a container decides the run, and only it. Whatever the host, the containers and the
  shared pipe send, in every reachable state of the agent the host that reads the control tty stops for a
  finish only if the agent accepted one, and the exit code is then 0 exactly when the recorded verdict is
  0; without it the host has no verdict. While the agent runs, a recorded verdict was told: either the
  host stops, or the finish was the host's own and the tty holds the reply to it.
\<close>

theorem agent_verdict_decides:
  assumes json: "json_text (js_reply E) J" and reach: "bridge_reach E go s"
    and "cc_tx c = bs_tty s" and "dr_verdict d = None" and "drain_agent J c d = (stop, c', d')"
  shows "(stop \<longrightarrow> (\<exists>code. ag_finished (bs_agent s) = Some code
           \<and> ro_exit_code (run_outcome d' reason) = (if code = 0 then 0 else 1)))
    \<and> (\<not> stop \<longrightarrow> dr_verdict d' = None \<and> ro_exit_code (run_outcome d' reason) = stop_exit_code reason)
    \<and> (go \<and> ag_finished (bs_agent s) \<noteq> None \<longrightarrow> stop
         \<or> (\<exists>rs. sent_as (js_reply E) rs (bs_tty s) \<and> (\<exists>r \<in> set rs. direct_finish r)))"
proof (intro conjI impI)
  have ok: "state_ok E go s" by (rule bridge_reach_ok [OF reach json])
  obtain rs bs part where sent: "sent_as (js_reply E) rs bs" "bs_tty s = bs @ part" "10 \<notin> set part"
    and weak: "weak_ok rs (fin s)" by (rule state_ok_sent [OF ok])
  have tx: "cc_tx c = bs @ part" using assms(3) sent(2) by simp
  note v = drained_verdict [OF json sent(1,3) tx assms(4,5)]
  {
    assume stop
    then have "filter is_finish rs \<noteq> []" using v(1) by (auto simp: filter_empty_conv)
    then obtain r code where "filter is_finish rs = [r]" "fin s = Some code" "ev_exit (the (rep_event r)) = Some code"
      using finish_replies [OF weak] by metis
    then show "\<exists>code. fin s = Some code \<and> ro_exit_code (run_outcome d' reason) = (if code = 0 then 0 else 1)"
      using v(2) by (simp add: run_outcome_def finish_verdict_code)
  next
    assume "\<not> stop"
    then have "filter is_finish rs = []" using v(1) by (auto simp: filter_empty_conv)
    then show "dr_verdict d' = None" using v(2) by simp
    then show "ro_exit_code (run_outcome d' reason) = stop_exit_code reason" by (simp add: run_outcome_def)
  next
    assume h: "go \<and> fin s \<noteq> None"
    then obtain rs' where l: "sent_as (js_reply E) rs' (bs_tty s)" "verdict_ok rs' (fin s)"
      using ok by (auto simp: state_ok_def live_def)
    have tx': "cc_tx c = bs_tty s @ []" using assms(3) by simp
    have "stop \<longleftrightarrow> (\<exists>r \<in> set rs'. is_finish r)" using drained_verdict(1) [OF json l(1) _ tx' assms(4,5)] by simp
    then show "stop \<or> (\<exists>rs. sent_as (js_reply E) rs (bs_tty s) \<and> (\<exists>r \<in> set rs. direct_finish r))"
      using l h by (auto simp: verdict_ok_def)
  }
qed

text \<open>A guest whose container connects to the control socket and finishes the run with the verdict 0.\<close>

definition sample_guest :: "nat guest_os" where
  "sample_guest =
     \<lparr>os_output = (\<lambda>w _. (Inl ''no podman'', w)), os_timed = (\<lambda>w _ _. (Inl ''no podman'', w)),
      os_nft = (\<lambda>w _. (NftDone (Some 0) [] None, w)), os_ps = (\<lambda>_. Inr []), os_lower = (\<lambda>s. s), os_millis = (\<lambda>w. w),
      os_write_file = (\<lambda>w _ _. w), os_open = (\<lambda>w _. (OpenMissing, w)), os_seek = (\<lambda>w _. (None, w)),
      os_read = (\<lambda>w _. (Inr [], w)), os_build = ''b''\<rparr>"

definition finish_request :: Request where
  "finish_request = request_default\<lparr>req_id := 3, req_op := OP_FINISH, req_exit := Some 0, req_message := Some ''ok''\<rparr>"

definition sample_hello :: "unit Reply" where "sample_hello = hello AGENT_ID ''b''"
definition sample_told :: "unit Reply" where "sample_told = from_event 1 (finish_event finish_request)"

definition sample_text :: "unit Reply \<Rightarrow> bytes option" where
  "sample_text r = (if r = sample_hello then Some [72] else if r = sample_told then Some [70] else None)"

definition sample_reply :: "bytes \<Rightarrow> unit Reply option" where
  "sample_reply t = (if t = [72] then Some sample_hello else if t = [70] then Some sample_told else None)"

definition sample_bridge :: "(unit, nat) bridge_os" where
  "sample_bridge =
     \<lparr>br_guest = sample_guest,
      br_poll = (\<lambda>w _. (Some (\<lambda>src. src = (if w = 0 then SrcListener else SrcConn 5)), w)),
      br_read = (\<lambda>w _ _. (Some [70, 10], w)), br_tty_write = (\<lambda>w _. (None, w)),
      br_conn_write = (\<lambda>w _ _. (True, w)), br_accept = (\<lambda>w. (Some 5, w + 1)), br_try_clone = (\<lambda>w _. (True, w)),
      js_reply = sample_text, js_request = (\<lambda>_. Inr finish_request), js_event = (\<lambda>_. None), js_strings = (\<lambda>_. ())\<rparr>"

lemma sample_told_finish: "is_finish sample_told" "\<not> is_finish sample_hello" "sample_told \<noteq> sample_hello"
  by (simp_all add: is_finish_def sample_told_def sample_hello_def from_event_def hello_def reply_default_def is_hello_def
      finish_event_def)

lemma sample_bridge_json: "json_text (js_reply sample_bridge) sample_reply"
  using sample_told_finish(3)
  by (auto simp: json_text_def sample_bridge_def sample_text_def sample_reply_def is_ascii_whitespace_def split: if_splits)



definition sample_state :: "nat bridge" where
  "sample_state = (bridge_new False True 0)\<lparr>bs_tty := [72, 10]\<rparr>"

definition sample_connected :: "nat bridge" where
  "sample_connected = sample_state\<lparr>bs_conns := [(5, [])], bs_world := 1\<rparr>"

lemma sample_start: "bridge_reach sample_bridge True sample_state"
proof (rule bridge_reach.start)
  show "write_reply sample_bridge (hello AGENT_ID (os_build (br_guest sample_bridge))) (bridge_new False True 0) = (True, sample_state)"
    by (simp add: write_reply_def sample_bridge_def sample_guest_def encode_line_def sample_text_def sample_state_def
        bridge_new_def flip: sample_hello_def)
qed

lemma sample_accept: "bridge_iter sample_bridge sample_state = (True, sample_connected)"
  by (simp add: bridge_iter_def sample_bridge_def sample_state_def sample_connected_def bridge_new_def control_phase_def
      accept_phase_def conn_phase_def event_phase_def const_defs)

lemma sample_lines: "reader_lines [70, 10] = ([[70, 10]], [])"
  by (simp add: reader_lines.simps [of "[70, 10]"] reader_lines.simps [of "[]"] reader_next_def)

definition sample_ok :: "unit Reply" where "sample_ok = fst (do_finish finish_request agent_new)"

lemma sample_handle:
  "handle sample_guest finish_request agent_new w = (sample_ok, agent_new\<lparr>ag_finished := Some 0\<rparr>, w)"
  "accepted_finish finish_request sample_ok" "sample_text sample_ok = None"
proof -
  show "handle sample_guest finish_request agent_new w = (sample_ok, agent_new\<lparr>ag_finished := Some 0\<rparr>, w)"
    by (simp add: handle_def finish_request_def request_default_def do_finish_def agent_new_def sample_ok_def)
  show "accepted_finish finish_request sample_ok"
    by (simp add: sample_ok_def accepted_finish_def finish_request_def request_default_def do_finish_def agent_new_def)
  have "rep_ok sample_ok = Some True"
    by (simp add: sample_ok_def finish_request_def request_default_def do_finish_def agent_new_def)
  moreover have "rep_ok sample_hello = None" "rep_ok sample_told = None"
    by (simp_all add: sample_hello_def sample_told_def hello_def from_event_def reply_default_def)
  ultimately have "sample_ok \<noteq> sample_hello" "sample_ok \<noteq> sample_told" by auto
  then show "sample_text sample_ok = None" by (simp add: sample_text_def)
qed

lemma sample_line:
  "handle_ctl_line sample_bridge 5 [70, 10] sample_connected =
     ((Some (finish_event finish_request), False), sample_connected\<lparr>bs_agent := agent_new\<lparr>ag_finished := Some 0\<rparr>\<rparr>)"
proof -
  have t: "trim_frame [70, 10] = [70]" by code_simp
  have g: "br_guest sample_bridge = sample_guest" "js_request sample_bridge l = Inr finish_request"
    "js_reply sample_bridge = sample_text" "bs_agent sample_connected = agent_new" for l
    by (simp_all add: sample_bridge_def sample_connected_def sample_state_def bridge_new_def)
  show ?thesis by (simp add: handle_ctl_line_def t g serve_def sample_handle conn_reply_def encode_line_def)
qed

lemma sample_forward:
  assumes "bs_seq s = 0"
  shows "forward_event sample_bridge (finish_event finish_request) s = (True, s\<lparr>bs_seq := 1, bs_tty := bs_tty s @ [70, 10]\<rparr>)"
proof -
  have g: "js_reply sample_bridge sample_told = Some [70]" "br_tty_write sample_bridge = (\<lambda>w _. (None, w))"
    using sample_told_finish(3) by (simp_all add: sample_bridge_def sample_text_def)
  show ?thesis using assms by (simp add: forward_event_def write_reply_def encode_line_def g flip: sample_told_def)
qed

lemma sample_served:
  "bridge_iter sample_bridge sample_connected =
     (True, sample_connected\<lparr>bs_agent := agent_new\<lparr>ag_finished := Some 0\<rparr>, bs_seq := 1, bs_tty := [72, 10, 70, 10], bs_conns := []\<rparr>)"
proof -
  have w: "br_poll sample_bridge (Suc 0) l = (Some (\<lambda>src. src = SrcConn 5), Suc 0)"
    "br_read sample_bridge w src n = (Some [70, 10], w)" for l w src n
    by (simp_all add: sample_bridge_def sample_connected_def)
  have c: "sample_connected\<lparr>bs_world := Suc 0\<rparr> = sample_connected" "bs_conns sample_connected = [(5, [])]"
    "bs_world sample_connected = Suc 0" "bs_events sample_connected = None" "bs_seq sample_connected = 0"
    "bs_tty sample_connected = [72, 10]"
    by (simp_all add: sample_connected_def sample_state_def bridge_new_def)
  have l: "conn_lines sample_bridge 5 [[70, 10]] sample_connected = ((True, False), sample_connected\<lparr>bs_agent := agent_new\<lparr>ag_finished := Some 0\<rparr>, bs_seq := 1, bs_tty := [72, 10, 70, 10]\<rparr>)"
    by (simp add: sample_line sample_forward c)
  show ?thesis
    by (simp add: bridge_iter_def w c control_phase_def accept_phase_def conn_phase_def serve_conns_eq fill_lines_def sample_lines l
        event_phase_def Let_def del: conn_lines.simps)
qed

theorem agent_verdict_decides_witness:
  "\<exists>s stop c' d'. bridge_reach sample_bridge True s
     \<and> drain_agent sample_reply ((control_new ())\<lparr>cc_tx := bs_tty s\<rparr>) driver_default = (stop, c', d')
     \<and> stop \<and> ag_finished (bs_agent s) = Some 0 \<and> ro_exit_code (run_outcome d' DriverFinish) = 0"
proof -
  let ?s = "sample_connected\<lparr>bs_agent := agent_new\<lparr>ag_finished := Some 0\<rparr>, bs_seq := 1, bs_tty := [72, 10, 70, 10], bs_conns := []\<rparr>"
  let ?c = "(control_new ())\<lparr>cc_tx := bs_tty ?s\<rparr>"
  have reach: "bridge_reach sample_bridge True ?s"
    by (rule bridge_reach.iter [OF bridge_reach.iter [OF sample_start sample_accept] sample_served])
  obtain stop c' d' where d: "drain_agent sample_reply ?c driver_default = (stop, c', d')" by (rule prod_cases3)
  have tty: "cc_tx ?c = bs_tty ?s" by simp
  note v = agent_verdict_decides [OF sample_bridge_json reach tty _ d, of DriverFinish]
  have sent: "sent_as (js_reply sample_bridge) [sample_hello, sample_told] ([72, 10] @ [70, 10])"
    using sample_told_finish(3)
    by (auto simp: sent_as_def encode_line_def sample_bridge_def sample_text_def intro!: exI [of _ "[[72, 10], [70, 10]]"])
  have tx: "cc_tx ?c = ([72, 10] @ [70, 10]) @ []" by simp
  have stop
    using drained_verdict(1) [OF sample_bridge_json sent _ tx _ d] sample_told_finish by (simp add: driver_default_def)
  then show ?thesis using v reach d by (intro exI [of _ ?s] exI conjI) (auto simp: driver_default_def)
qed


section \<open>Replies and requests\<close>

text \<open>
  C34. Every request is answered: the reply carries the id and the operation of the request, it is no event
  (only the loop makes those, so that no command of a container passes for one), and it is either a success
  without an error or a failure with one, for every operation, known or not, and every answer of podman and nft.
\<close>

theorem handle_answers_request:
  "let r = fst (handle E req ag w)
   in rep_id r = Some (req_id req) \<and> rep_op r = Some (req_op req) \<and> rep_event r = None
      \<and> (rep_ok r = Some True \<and> rep_error r = None \<or> rep_ok r = Some False \<and> (\<exists>e. rep_error r = Some e))"
  using answers_handle [of req E ag w] by (simp add: answers_def Let_def)

section \<open>Partitions\<close>

lemma pair_key_sym: "pair_key a b = pair_key b a"
  by (auto simp: pair_key_def)

text \<open>The addresses of two running containers, as podman reports them one after the other.\<close>

definition addresses :: "'w guest_os \<Rightarrow> string \<Rightarrow> string \<Rightarrow> 'w \<Rightarrow> string \<times> string \<Rightarrow> bool" where
  "addresses E a b w ips \<longleftrightarrow>
     (\<exists>aid an bid bn w1 w2 w3 w4.
        resolve_by_service E a Running w = (Inr (Some (aid, an)), w1)
      \<and> resolve_by_service E b Running w1 = (Inr (Some (bid, bn)), w2)
      \<and> container_ip E aid w2 = (Inr (fst ips), w3) \<and> container_ip E bid w3 = (Inr (snd ips), w4))"

lemma partition_ends_addresses: "fst (partition_ends E req a b w) = Inr ips \<longleftrightarrow> addresses E a b w ips"
  by (cases ips) (auto simp: partition_ends_def addresses_def Let_def split: prod.splits sum.splits option.splits)

text \<open>What nft said of a script; acceptance is a clean exit after the whole script was written.\<close>

definition accepted :: "nft_answer \<Rightarrow> bool" where
  "accepted ans \<longleftrightarrow> (\<exists>stderr. ans = NftDone (Some 0) stderr None)"

definition nft_said :: "'w guest_os \<Rightarrow> partitions \<Rightarrow> bool \<Rightarrow> 'w \<Rightarrow> bool" where
  "nft_said E ps ok w' \<longleftrightarrow> (\<exists>w ans. os_nft E w (partition_script ps) = (ans, w') \<and> accepted ans = ok)"

lemma apply_partitions_said: "apply_partitions E ps w = (r, w') \<Longrightarrow> nft_said E ps (r = Inr ()) w'"
  by (cases "os_nft E w (partition_script ps)"; cases "fst (os_nft E w (partition_script ps))")
     (auto simp: apply_partitions_def nft_said_def accepted_def intro!: exI [of _ w] split: option.splits if_splits)

text \<open>What the table holds after a request that succeeded or failed, as a function of the table before.\<close>

definition partition_effect ::
  "'w guest_os \<Rightarrow> Request \<Rightarrow> 'w \<Rightarrow> bool \<Rightarrow> (string \<rightharpoonup> string \<times> string) \<Rightarrow> (string \<rightharpoonup> string \<times> string) \<Rightarrow> bool" where
  "partition_effect E req w ok m m' \<longleftrightarrow>
     (let a = or_empty (req_container req); b = or_empty (req_peer req)
      in if req_op req = ''partition'' then
           if a \<noteq> '''' \<and> b \<noteq> '''' \<and> (\<exists>ips. addresses E a b w ips)
           then \<exists>ips. addresses E a b w ips \<and> m' = m(pair_key a b := if ok then Some ips else None)
           else \<not> ok \<and> m' = m
         else if req_op req = ''heal'' then
           if (a = '''') = (b = '''') then m' = (if a = '''' then Map.empty else m(pair_key a b := None))
           else \<not> ok \<and> m' = m
         else m' = m)"

lemma bt_get_insert_map: "bt_ok t \<Longrightarrow> bt_get (bt_insert k v t) = (bt_get t)(k \<mapsto> v)"
  by (rule ext) (simp add: bt_get_insert)

lemma bt_get_remove_map: "bt_get (bt_remove k t) = (bt_get t)(k := None)"
  by (rule ext) (simp add: bt_get_remove)

lemmas bt_maps = bt_get_insert_map bt_get_remove_map bt_ok_insert bt_ok_remove

abbreviation tbl :: "Agent \<Rightarrow> partitions" where
  "tbl ag \<equiv> ag_partitions ag"

text \<open>The table that a request submits to nft, if it gets so far.\<close>

definition submitted :: "'w guest_os \<Rightarrow> Request \<Rightarrow> 'w \<Rightarrow> partitions \<Rightarrow> partitions \<Rightarrow> bool" where
  "submitted E req w ps qs \<longleftrightarrow>
     (let a = or_empty (req_container req); b = or_empty (req_peer req)
      in if req_op req = ''partition''
         then a \<noteq> '''' \<and> b \<noteq> '''' \<and> (\<exists>ips. addresses E a b w ips \<and> qs = bt_insert (pair_key a b) ips ps)
         else req_op req = ''heal'' \<and> (a = '''') = (b = '''') \<and> qs = (if a = '''' then [] else bt_remove (pair_key a b) ps))"

lemma partition_ends_fail: "partition_ends E req a b w = (Inl r, w') \<Longrightarrow> rep_ok r = Some False"
  by (auto simp: partition_ends_def Let_def split: prod.splits sum.splits option.splits)

lemma do_partition_effect:
  fixes r :: "'j Reply"
  assumes "bt_ok (tbl ag)" and "do_partition E req ag w = (r, ag', w')" and op: "req_op req = ''partition''"
  shows "bt_ok (tbl ag') \<and> partition_effect E req w (rep_ok r = Some True) (bt_get (tbl ag)) (bt_get (tbl ag'))
    \<and> (rep_ok r = Some True \<longrightarrow> nft_said E (tbl ag') True w')
    \<and> (\<forall>qs. submitted E req w (tbl ag) qs \<longrightarrow> nft_said E qs (rep_ok r = Some True) w')"
proof -
  let ?a = "or_empty (req_container req)" and ?b = "or_empty (req_peer req)"
  obtain p :: "'j Reply + string \<times> string" and w1 where p: "partition_ends E req ?a ?b w = (p, w1)" by fastforce
  have "addresses E ?a ?b w ips \<longleftrightarrow> fst (p, w1) = Inr ips" for ips
    unfolding p [symmetric] by (rule partition_ends_addresses [symmetric])
  then have ends: "addresses E ?a ?b w ips \<longleftrightarrow> p = Inr ips" for ips by simp
  show ?thesis
  proof (cases "?a = '''' \<or> ?b = '''' \<or> (\<exists>reply. p = Inl reply)")
    case True
    then have "ag' = ag" "rep_ok r = Some False"
      using assms(2) p partition_ends_fail [of E req ?a ?b w r w1] by (auto simp: do_partition_def Let_def split: if_splits)
    then show ?thesis using assms(1) True ends op by (auto simp: partition_effect_def submitted_def Let_def)
  next
    case False
    then obtain ips where ips: "p = Inr ips" by (cases p) auto
    define t where "t = bt_insert (pair_key ?a ?b) ips (tbl ag)"
    obtain q w2 where q: "apply_partitions E t (enable_bridge_netfilter E w1) = (q, w2)" by fastforce
    note said = apply_partitions_said [OF q]
    have t: "bt_ok t" "bt_get t = (bt_get (tbl ag))(pair_key ?a ?b \<mapsto> ips)" using assms(1) by (simp_all add: t_def bt_maps)
    have "(rep_ok r, tbl ag', w') =
        (case q of Inl e \<Rightarrow> (Some False, bt_remove (pair_key ?a ?b) t, w2) | Inr _ \<Rightarrow> (Some True, t, w2))"
      using assms(2) False p ips q unfolding do_partition_def Let_def t_def by (cases q; cases ips) auto
    then have r: "(rep_ok r = Some True) = (q = Inr ())" "w' = w2" "tbl ag' = (if q = Inr () then t else bt_remove (pair_key ?a ?b) t)"
      by (cases q; simp)+
    have "partition_effect E req w (q = Inr ()) (bt_get (tbl ag)) (bt_get (tbl ag'))"
      using False ends ips op t by (auto simp: partition_effect_def Let_def r(3) bt_maps)
    moreover have "submitted E req w (tbl ag) qs \<longleftrightarrow> qs = t" for qs
      using False ends ips op by (cases ips) (auto simp: submitted_def Let_def t_def)
    ultimately show ?thesis using t(1) said by (cases "q = Inr ()") (simp_all add: r bt_maps)
  qed
qed

lemma do_heal_effect:
  assumes "bt_ok (tbl ag)" and "do_heal E req ag w = (r, ag', w')" and op: "req_op req = ''heal''"
  shows "bt_ok (tbl ag') \<and> partition_effect E req w (rep_ok r = Some True) (bt_get (tbl ag)) (bt_get (tbl ag'))
    \<and> (rep_ok r = Some True \<longrightarrow> nft_said E (tbl ag') True w')
    \<and> (\<forall>qs. submitted E req w (tbl ag) qs \<longrightarrow> nft_said E qs (rep_ok r = Some True) w')"
proof -
  let ?a = "or_empty (req_container req)" and ?b = "or_empty (req_peer req)"
  show ?thesis
  proof (cases "(?a = '''') = (?b = '''')")
    case False
    then have "ag' = ag" "rep_ok r = Some False" using assms(2) by (auto simp: do_heal_def Let_def)
    then show ?thesis using assms False by (simp add: partition_effect_def submitted_def Let_def)
  next
    case True
    define t where "t = (if ?a = '''' then [] else bt_remove (pair_key ?a ?b) (tbl ag))"
    obtain q w2 where q: "apply_partitions E t w = (q, w2)" by fastforce
    note said = apply_partitions_said [OF q]
    have "bt_ok ([] :: partitions)" "bt_get ([] :: partitions) = Map.empty" by (auto simp: bt_ok_def bt_get_def)
    then have t: "bt_ok t" "bt_get t = (if ?a = '''' then Map.empty else (bt_get (tbl ag))(pair_key ?a ?b := None))"
      using assms(1) by (simp_all add: t_def bt_maps)
    have "(rep_ok r, tbl ag', w') = (Some (q = Inr ()), t, w2)"
      using assms(2) True q unfolding do_heal_def Let_def t_def by (cases q) auto
    then have r: "(rep_ok r = Some True) = (q = Inr ())" "w' = w2" "tbl ag' = t" by auto
    have "submitted E req w (tbl ag) qs \<longleftrightarrow> qs = t" for qs using True op by (simp add: submitted_def Let_def t_def)
    then show ?thesis using t True op said by (cases "q = Inr ()") (simp_all add: partition_effect_def Let_def r)
  qed
qed

lemma other_tables:
  fixes r :: "'j Reply"
  assumes "handle E req ag w = (r, ag', w')" and "req_op req \<noteq> ''partition''" and "req_op req \<noteq> ''heal''"
  shows "tbl ag' = tbl ag"
proof -
  have f: "tbl (fst (snd (case do_finish req ag of (r :: 'j Reply, ag) \<Rightarrow> (r, ag, w)))) = tbl ag"
    by (auto simp: do_finish_def Let_def split: option.splits)
  have "tbl (fst (snd (r, ag', w'))) = tbl ag"
    unfolding assms(1) [symmetric] handle_def Let_def using assms(2,3) f by (simp add: snd_pure)
  then show ?thesis by simp
qed

text \<open>
  C32. Partitions are what the table says. A request keeps the table ordered and changes it only as asked,
  under a key that does not depend on the order of the two services. A partition whose two services
  have running containers with addresses submits to nft the table with the pair of exactly these
  addresses added; if nft accepts, that is the new table and the reply is a success, and if nft refuses,
  the reply is a failure and the pair is out of the table, also one that stood before. Without such
  containers it fails and changes nothing. A heal takes one pair or all of them out, whatever nft says, and
  succeeds exactly when nft accepts the script of the new table. No other request touches the table.
\<close>

theorem partition_table_in_force:
  assumes "bt_ok (ag_partitions ag)" and "handle E req ag w = (r, ag', w')"
  shows "bt_ok (ag_partitions ag')
    \<and> partition_effect E req w (rep_ok r = Some True) (bt_get (ag_partitions ag)) (bt_get (ag_partitions ag'))
    \<and> pair_key (or_empty (req_container req)) (or_empty (req_peer req))
        = pair_key (or_empty (req_peer req)) (or_empty (req_container req))
    \<and> (rep_ok r = Some True \<and> (req_op req = ''partition'' \<or> req_op req = ''heal'') \<longrightarrow> nft_said E (ag_partitions ag') True w')
    \<and> (\<forall>qs. submitted E req w (ag_partitions ag) qs \<longrightarrow> nft_said E qs (rep_ok r = Some True) w')"
proof (cases "req_op req = ''partition'' \<or> req_op req = ''heal''")
  case True
  then show ?thesis
  proof
    assume op: "req_op req = ''partition''"
    then have "do_partition E req ag w = (r, ag', w')" using assms(2) by (simp add: handle_def const_defs)
    from do_partition_effect [OF assms(1) this op] show ?thesis using pair_key_sym by blast
  next
    assume op: "req_op req = ''heal''"
    then have "do_heal E req ag w = (r, ag', w')" using assms(2) by (simp add: handle_def const_defs)
    from do_heal_effect [OF assms(1) this op] show ?thesis using pair_key_sym by blast
  qed
next
  case False
  then have "tbl ag' = tbl ag" using other_tables [OF assms(2)] by blast
  then show ?thesis using assms(1) False pair_key_sym by (simp add: partition_effect_def submitted_def Let_def)
qed

text \<open>A guest with the containers \<open>web\<close> and \<open>db\<close>; nft refuses every script. The pair was partitioned before.\<close>

definition sample_container :: "string \<Rightarrow> PodmanPs" where
  "sample_container name =
     \<lparr>ps_id = name, ps_names = [name], ps_state = ''running'', ps_exit_code = 0, ps_labels = Map.empty, ps_status = ''Up''\<rparr>"

definition refusing_guest :: "nat guest_os" where
  "refusing_guest = sample_guest\<lparr>
     os_output := (\<lambda>w args. (Inr (Some 0, if last args = ''web'' then [49] else [50], []), w)),
     os_ps := (\<lambda>_. Inr [sample_container ''web'', sample_container ''db'']),
     os_nft := (\<lambda>w _. (NftDone (Some 1) [] None, w))\<rparr>"

definition partition_request :: Request where
  "partition_request = request_default\<lparr>req_op := ''partition'', req_container := Some ''web'', req_peer := Some ''db''\<rparr>"

lemma refusing_addresses: "addresses refusing_guest ''web'' ''db'' 0 (''1'', ''2'')"
proof -
  have o: "os_output refusing_guest w a = (Inr (Some 0, if last a = ''web'' then [49] else [50], []), w)"
    "os_ps refusing_guest t = Inr [sample_container ''web'', sample_container ''db'']" for w a t
    by (simp_all add: refusing_guest_def)
  have l: "first_token (lossy [49]) = Some ''1''" "first_token (lossy [50]) = Some ''2''" by code_simp+
  have "resolve_by_service refusing_guest ''web'' Running w = (Inr (Some (''web'', ''web'')), w)"
    "resolve_by_service refusing_guest ''db'' Running w = (Inr (Some (''db'', ''db'')), w)" for w
    by (simp_all add: resolve_by_service_def podman_json_def o matches_service_def wanted_def sample_container_def first_name_def)
  moreover have "container_ip refusing_guest ''web'' w = (Inr ''1'', w)" "container_ip refusing_guest ''db'' w = (Inr ''2'', w)" for w
    by (simp_all add: container_ip_def inspect_text_def o l)
  ultimately show ?thesis by (simp add: addresses_def)
qed

theorem partition_table_in_force_witness:
  "\<exists>r ag' w'. handle refusing_guest partition_request (agent_new\<lparr>ag_partitions := [(pair_key ''db'' ''web'', (''1'', ''2''))]\<rparr>) 0
       = (r :: unit Reply, ag', w')
     \<and> rep_ok r \<noteq> Some True \<and> bt_get (ag_partitions ag') (pair_key ''db'' ''web'') = None"
proof -
  let ?ag = "agent_new\<lparr>ag_partitions := [(pair_key ''db'' ''web'', (''1'', ''2''))]\<rparr>"
  obtain r :: "unit Reply" and ag' w' where h: "handle refusing_guest partition_request ?ag 0 = (r, ag', w')" by (rule prod_cases3)
  have q: "req_op partition_request = ''partition''" "or_empty (req_container partition_request) = ''web''"
    "or_empty (req_peer partition_request) = ''db''"
    by (simp_all add: partition_request_def request_default_def or_empty_def)
  have "bt_ok (ag_partitions ?ag)" by (simp add: bt_ok_def)
  note res = partition_table_in_force [OF this h]
  define t where "t = bt_insert (pair_key ''web'' ''db'') (''1'', ''2'') (ag_partitions ?ag)"
  have "submitted refusing_guest partition_request 0 (ag_partitions ?ag) t"
    using refusing_addresses unfolding submitted_def q Let_def t_def by auto
  then have said: "nft_said refusing_guest t (rep_ok r = Some True) w'" using res by blast
  then have ok: "rep_ok r \<noteq> Some True" by (auto simp: nft_said_def refusing_guest_def accepted_def)
  then have "bt_get (ag_partitions ag') (pair_key ''web'' ''db'') = None"
    using res refusing_addresses unfolding partition_effect_def q Let_def by (auto split: if_splits)
  then show ?thesis using h ok pair_key_sym [of "''web''" "''db''"] by auto
qed

section \<open>Framing and buffers\<close>

lemma no_newline: "length (takeWhile (\<lambda>b. b \<noteq> 10) buf) < length buf \<longleftrightarrow> 10 \<in> set (buf :: bytes)"
  by (induction buf) auto

lemma reader_next_None: "reader_next buf = None \<longleftrightarrow> 10 \<notin> set buf \<and> length buf \<le> RX_LINE_CAP"
  by (simp add: reader_next_def Let_def no_newline not_less)

lemma reader_next_Some: "reader_next buf = Some (line, rest) \<Longrightarrow> buf = line @ rest"
  by (auto simp: reader_next_def Let_def split: if_splits)

lemma reader_lines_exact:
  "concat (fst (reader_lines buf)) @ snd (reader_lines buf) = buf
   \<and> 10 \<notin> set (snd (reader_lines buf)) \<and> length (snd (reader_lines buf)) \<le> RX_LINE_CAP"
proof (induction buf rule: reader_lines.induct)
  case (1 buf)
  show ?case
  proof (cases "reader_next buf")
    case None
    then have "reader_lines buf = ([], buf)" by (simp add: reader_lines.simps [of buf])
    then show ?thesis using None by (simp add: reader_next_None)
  next
    case (Some lr)
    have r: "reader_lines buf = (fst lr # fst (reader_lines (snd lr)), snd (reader_lines (snd lr)))"
      using Some by (simp add: reader_lines.simps [of buf] case_prod_unfold Let_def)
    have "buf = fst lr @ snd lr" using Some by (intro reader_next_Some) simp
    then show ?thesis using 1 [OF Some, of "fst lr" "snd lr"] unfolding r by simp
  qed
qed

lemma reader_next_append: "10 \<in> set a \<Longrightarrow> reader_next a = Some (line, rest) \<Longrightarrow> reader_next (a @ b) = Some (line, rest @ b)"
proof -
  assume a: "10 \<in> set a" and n: "reader_next a = Some (line, rest)"
  have "takeWhile (\<lambda>b. b \<noteq> 10) (a @ b) = takeWhile (\<lambda>b. b \<noteq> 10) a" using a by (simp add: takeWhile_append1)
  then show ?thesis using a n no_newline [of a] by (auto simp: reader_next_def Let_def split: if_splits)
qed

lemma reader_lines_append:
  "\<forall>l \<in> set (fst (reader_lines a)). 10 \<in> set l \<Longrightarrow>
   reader_lines (a @ b) = (fst (reader_lines a) @ fst (reader_lines (snd (reader_lines a) @ b)), snd (reader_lines (snd (reader_lines a) @ b)))"
proof (induction a rule: reader_lines.induct)
  case (1 a)
  show ?case
  proof (cases "reader_next a")
    case None
    then show ?thesis by (simp add: reader_lines.simps [of a])
  next
    case (Some lr)
    obtain line rest where lr: "lr = (line, rest)" by fastforce
    have r: "reader_lines a = (line # fst (reader_lines rest), snd (reader_lines rest))"
      using Some lr by (simp add: reader_lines.simps [of a] case_prod_unfold Let_def)
    have "10 \<in> set line" using 1(2) by (simp add: r)
    then have "10 \<in> set a" unfolding reader_next_Some [OF Some [unfolded lr]] by simp
    then have n: "reader_next (a @ b) = Some (line, rest @ b)" using Some [unfolded lr] by (rule reader_next_append)
    have "reader_lines (rest @ b) = (fst (reader_lines rest) @ fst (reader_lines (snd (reader_lines rest) @ b)), snd (reader_lines (snd (reader_lines rest) @ b)))"
      using 1(2) by (intro 1(1) [OF Some]) (simp_all add: lr r)
    then show ?thesis using n by (simp add: r reader_lines.simps [of "a @ b"])
  qed
qed

definition buffer_ok :: "bytes \<Rightarrow> bool" where
  "buffer_ok buf \<longleftrightarrow> 10 \<notin> set buf \<and> length buf \<le> RX_LINE_CAP"

definition buffers_ok :: "'w bridge \<Rightarrow> bool" where
  "buffers_ok s \<longleftrightarrow> buffer_ok (bs_control s) \<and> (\<forall>buf. bs_events s = Some buf \<longrightarrow> buffer_ok buf)
     \<and> list_all (\<lambda>(fd, buf). buffer_ok buf) (bs_conns s) \<and> length (bs_conns s) \<le> MAX_CTL_CONNS"

text \<open>The buffers of a state; only the phases of the loop change them.\<close>

definition bufs :: "'w bridge \<Rightarrow> bytes \<times> bytes option \<times> (nat \<times> bytes) list" where
  "bufs s = (bs_control s, bs_events s, bs_conns s)"

lemma bufs_ok: "bufs s' = bufs s \<Longrightarrow> buffers_ok s' = buffers_ok s"
  by (simp add: bufs_def buffers_ok_def)

lemma fill_lines_buffer: "fill_lines E src buf w = (Some (ls, buf'), w') \<Longrightarrow> buffer_ok buf'"
  using reader_lines_exact by (auto simp: fill_lines_def buffer_ok_def split: prod.splits option.splits if_splits)
    (metis snd_conv)+

lemma write_reply_bufs: "write_reply E r s = (go, s') \<Longrightarrow> bufs s' = bufs s"
  by (auto simp: write_reply_def bufs_def split: option.splits prod.splits)

lemma conn_reply_bufs: "conn_reply E fd r s = (go, s') \<Longrightarrow> bufs s' = bufs s"
  by (auto simp: conn_reply_def bufs_def split: option.splits prod.splits)

lemma serve_bufs: "serve E req s = (r, s') \<Longrightarrow> bufs s' = bufs s"
  by (auto simp: serve_def bufs_def split: prod.splits)

lemma forward_bufs: "forward_event E ev s = (go, s') \<Longrightarrow> bufs s' = bufs s"
  by (auto simp: forward_event_def bufs_def dest!: write_reply_bufs)

lemma control_line_bufs: "handle_control_line E line s = (go, s') \<Longrightarrow> bufs s' = bufs s"
  by (auto simp: handle_control_line_def dest!: write_reply_bufs serve_bufs split: if_splits sum.splits prod.splits)

lemma ctl_line_bufs: "handle_ctl_line E fd line s = (r, s') \<Longrightarrow> bufs s' = bufs s"
  by (auto simp: handle_ctl_line_def Let_def dest!: conn_reply_bufs serve_bufs split: if_splits sum.splits prod.splits)


lemma control_lines_bufs: "control_lines E ls s = (go, s') \<Longrightarrow> bufs s' = bufs s"
proof (induction ls arbitrary: s)
  case (Cons l ls)
  obtain b s1 where h: "handle_control_line E l s = (b, s1)" by fastforce
  then show ?case using control_line_bufs [OF h] Cons by (cases b) auto
qed simp

lemma event_lines_bufs: "event_lines E ls s = (go, s') \<Longrightarrow> bufs s' = bufs s"
proof (induction ls arbitrary: s)
  case (Cons l ls)
  obtain b s1 where h: "forward_event E (parse_event E l) s = (b, s1)" by fastforce
  then show ?case using forward_bufs [OF h] Cons by (cases b) auto
qed simp

lemma conn_lines_bufs: "bufs (snd (conn_lines E fd ls s)) = bufs s"
proof (induction ls arbitrary: s)
  case (Cons l ls)
  obtain f alive s1 where h: "handle_ctl_line E fd l s = ((f, alive), s1)" by (metis prod.exhaust)
  obtain ok s2 where o: "(case f of Some ev \<Rightarrow> forward_event E ev s1 | None \<Rightarrow> (True, s1)) = (ok, s2)" by fastforce
  have "bufs s2 = bufs s1" using o by (auto split: option.splits dest: forward_bufs)
  then have "bufs s2 = bufs s" using ctl_line_bufs [OF h] by simp
  then show ?case using h o Cons.IH [of s2] by simp
qed simp

lemma serve_conns_bufs:
  "list_all (\<lambda>(fd, buf). buffer_ok buf) cs \<Longrightarrow>
   bufs (snd (serve_conns E ready cs s)) = bufs s
   \<and> list_all (\<lambda>(fd, buf). buffer_ok buf) (snd (fst (serve_conns E ready cs s)))
   \<and> length (snd (fst (serve_conns E ready cs s))) \<le> length cs"
proof (induction cs arbitrary: s)
  case (Cons c cs)
  obtain fd buf where c: "c = (fd, buf)" by fastforce
  obtain f w where f: "fill_lines E (SrcConn fd) buf (bs_world s) = (f, w)" by fastforce
  have cs: "list_all (\<lambda>(fd, buf). buffer_ok buf) cs" "buffer_ok buf" using Cons.prems c by simp_all
  have w: "bufs (s\<lparr>bs_world := w\<rparr>) = bufs s" by (simp add: bufs_def)
  note rest = Cons.IH [OF cs(1)]
  show ?case
  proof (cases "ready (SrcConn fd)")
    case False
    then show ?thesis using rest [of s] cs by (simp add: c serve_conns_eq Let_def)
  next
    case True
    show ?thesis
    proof (cases f)
      case None
      then show ?thesis using rest [of "s\<lparr>bs_world := w\<rparr>"] True f w by (simp add: c serve_conns_eq)
    next
      case (Some lb)
      define l where "l = conn_lines E fd (fst lb) (s\<lparr>bs_world := w\<rparr>)"
      have l: "bufs (snd l) = bufs s" using w by (simp add: l_def conn_lines_bufs)
      have b: "buffer_ok (snd lb)" using fill_lines_buffer [of E _ buf _ "fst lb" "snd lb" w] f Some by simp
      have eq: "serve_conns E ready (c # cs) s =
          (let r = serve_conns E ready cs (snd l)
           in if \<not> fst (fst l) then ((False, []), snd l)
              else ((fst (fst r), if snd (fst l) then (fd, snd lb) # snd (fst r) else snd (fst r)), snd r))"
        using True Some f by (simp add: c serve_conns_eq l_def Let_def)
      show ?thesis unfolding eq using rest [of "snd l"] l b by (cases "fst (fst l)"; cases "snd (fst l)") (simp_all add: Let_def)
    qed
  qed
qed simp


lemma control_phase_bufs:
  assumes "buffers_ok s" and "control_phase E ready s = (go, s')" shows "buffers_ok s'"
proof (cases "ready SrcControl")
  case True
  obtain f w where f: "fill_lines E SrcControl (bs_control s) (bs_world s) = (f, w)" by fastforce
  show ?thesis
  proof (cases f)
    case None
    then show ?thesis using assms True f by (auto simp: control_phase_def buffers_ok_def)
  next
    case (Some lb)
    then have l: "control_lines E (fst lb) (s\<lparr>bs_control := snd lb, bs_world := w\<rparr>) = (go, s')"
      using assms(2) True f by (simp add: control_phase_def case_prod_unfold)
    have "buffer_ok (snd lb)" using fill_lines_buffer [of E _ "bs_control s" _ "fst lb" "snd lb" w] f Some by simp
    then have "buffers_ok (s\<lparr>bs_control := snd lb, bs_world := w\<rparr>)" using assms(1) by (simp add: buffers_ok_def)
    then show ?thesis using bufs_ok [OF control_lines_bufs [OF l]] by simp
  qed
qed (use assms in \<open>simp add: control_phase_def\<close>)

lemma accept_phase_bufs: "buffers_ok s \<Longrightarrow> buffers_ok (accept_phase E ready s)"
  by (auto simp: accept_phase_def buffers_ok_def buffer_ok_def Let_def split: prod.splits option.splits)

lemma conn_phase_bufs:
  assumes "buffers_ok s" and "conn_phase E ready n s = (go, s')" shows "buffers_ok s'"
proof -
  define r where "r = serve_conns E ready (take n (bs_conns s)) s"
  have s': "s' = (snd r)\<lparr>bs_conns := snd (fst r) @ drop n (bs_conns s)\<rparr>"
    using assms(2) by (simp add: conn_phase_def r_def case_prod_unfold Let_def)
  have "list_all (\<lambda>(fd, buf). buffer_ok buf) (take n (bs_conns s) @ drop n (bs_conns s))"
    using assms(1) by (simp add: buffers_ok_def)
  then have "list_all (\<lambda>(fd, buf). buffer_ok buf) (take n (bs_conns s))" "list_all (\<lambda>(fd, buf). buffer_ok buf) (drop n (bs_conns s))"
    by (simp_all only: list_all_append)
  moreover from serve_conns_bufs [OF this(1)] have r: "bufs (snd r) = bufs s" "list_all (\<lambda>(fd, buf). buffer_ok buf) (snd (fst r))"
      "length (snd (fst r)) \<le> length (take n (bs_conns s))"
    unfolding r_def by blast+
  ultimately show ?thesis using assms(1) unfolding s' by (auto simp: buffers_ok_def bufs_def)
qed

lemma event_phase_bufs:
  assumes "buffers_ok s" and "event_phase E ready s = (go, s')" shows "buffers_ok s'"
proof (cases "bs_events s")
  case (Some buf)
  obtain f w where f: "fill_lines E SrcEvents buf (bs_world s) = (f, w)" by fastforce
  show ?thesis
  proof (cases "ready SrcEvents \<and> f \<noteq> None")
    case True
    then obtain lb where lb: "f = Some lb" by blast
    then have l: "event_lines E (fst lb) (s\<lparr>bs_events := Some (snd lb), bs_world := w\<rparr>) = (go, s')"
      using assms(2) True f Some by (simp add: event_phase_def case_prod_unfold)
    have "buffer_ok (snd lb)" using fill_lines_buffer [of E _ buf _ "fst lb" "snd lb" w] f lb by simp
    then have "buffers_ok (s\<lparr>bs_events := Some (snd lb), bs_world := w\<rparr>)" using assms(1) by (simp add: buffers_ok_def)
    then show ?thesis using bufs_ok [OF event_lines_bufs [OF l]] by simp
  next
    case False
    then have "s' = s \<or> s' = s\<lparr>bs_world := w\<rparr>" using assms f Some by (cases f) (auto simp: event_phase_def split: if_splits)
    then show ?thesis using assms(1) by (auto simp: buffers_ok_def)
  qed
qed (use assms in \<open>simp add: event_phase_def\<close>)

lemma bridge_iter_bufs:
  assumes "buffers_ok s" and "bridge_iter E s = (go, s')"
  shows "buffers_ok s'"
proof -
  obtain p w where p: "br_poll E (bs_world s) (poll_set s) = (p, w)" by fastforce
  have ok: "buffers_ok (s\<lparr>bs_world := w\<rparr>)" using assms(1) by (simp add: buffers_ok_def)
  show ?thesis
  proof (cases p)
    case None
    then show ?thesis using assms(2) p ok by (simp add: bridge_iter_def)
  next
    case (Some ready)
    obtain go1 s1 where c: "control_phase E ready (s\<lparr>bs_world := w\<rparr>) = (go1, s1)" by fastforce
    obtain go2 s2 where d: "conn_phase E ready (length (bs_conns s)) (accept_phase E ready s1) = (go2, s2)" by fastforce
    have s1: "buffers_ok s1" by (rule control_phase_bufs [OF ok c])
    have s2: "buffers_ok s2" by (rule conn_phase_bufs [OF accept_phase_bufs [OF s1] d])
    show ?thesis using assms(2) p Some c d s1 s2 event_phase_bufs [OF s2, of E ready go s']
      by (cases go1; cases go2) (simp_all add: bridge_iter_def)
  qed
qed

lemma bridge_reach_bufs: "bridge_reach E go s \<Longrightarrow> buffers_ok s"
proof (induction rule: bridge_reach.induct)
  case (start events listener w s)
  have "buffers_ok (bridge_new events listener w)" by (simp add: buffers_ok_def buffer_ok_def bridge_new_def)
  then show ?case using bufs_ok [OF write_reply_bufs [OF start]] by simp
next
  case (outside go s w)
  then show ?case by (simp add: buffers_ok_def)
next
  case (iter s go s')
  show ?case by (rule bridge_iter_bufs [OF iter.IH iter.hyps(2)])
qed


text \<open>
  C33. No input grows the agent. In every reachable state each of its buffers (of the control tty, of the
  shared pipe and of each container connection) holds one partial line of at most 64 KiB, and there are
  at most 32 connections; the framing loses and invents no byte, and as long as no line is over the
  limit the lines do not depend on how the bytes were cut into reads.
\<close>

theorem agent_buffers_bounded:
  assumes "bridge_reach E go s"
  shows "buffers_ok s \<and> length (bs_conns s) \<le> 32
    \<and> concat (fst (reader_lines a)) @ snd (reader_lines a) = a
    \<and> ((\<forall>l \<in> set (fst (reader_lines a)). 10 \<in> set l) \<longrightarrow>
         reader_lines (a @ b) =
           (fst (reader_lines a) @ fst (reader_lines (snd (reader_lines a) @ b)), snd (reader_lines (snd (reader_lines a) @ b))))"
proof (intro conjI impI)
  show ok: "buffers_ok s" by (rule bridge_reach_bufs [OF assms])
  then show "length (bs_conns s) \<le> 32" by (simp add: buffers_ok_def const_defs)
qed (use reader_lines_exact reader_lines_append in blast)+

theorem agent_buffers_bounded_witness:
  "bridge_reach sample_bridge True sample_connected \<and> buffers_ok sample_connected \<and> length (bs_conns sample_connected) = 1
   \<and> reader_lines ([70, 10] @ [71]) = ([[70, 10]], [71])"
proof -
  have r: "bridge_reach sample_bridge True sample_connected" by (rule bridge_reach.iter [OF sample_start sample_accept])
  have "\<forall>l \<in> set (fst (reader_lines [70, 10])). 10 \<in> set l" by (simp add: sample_lines)
  moreover have "reader_lines [71] = ([], [71])" by (simp add: reader_lines.simps [of "[71]"] reader_next_def const_defs)
  ultimately show ?thesis using agent_buffers_bounded [OF r, of "[70, 10]" "[71]"] r
    by (simp add: sample_lines) (simp add: sample_connected_def)
qed


end
