(* ===== verification/LogPull.thy ===== *)
theory LogPull
  imports AgentProps Capture
begin

text \<open>
  The two ends of a log capture together: the host's loop over the pieces of a log (\<open>pull_log\<close>) asks the
  agent's own \<open>handle\<close> instead of a guest it cannot read. What the log file and podman do is a hypothesis:
  a read returns the next bytes of the file, possibly fewer than asked but none only at its end.
\<close>

section \<open>The guest's files\<close>

definition log_file :: "'w guest_os \<Rightarrow> ('w \<Rightarrow> nat) \<Rightarrow> bytes \<Rightarrow> bool" where
  "log_file E pos content \<longleftrightarrow>
     (\<forall>w path. \<exists>w'. os_open E w path = (Opened, w'))
     \<and> (\<forall>w c. \<exists>w'. os_seek E w c = (None, w') \<and> pos w' = unat c)
     \<and> (\<forall>w n. \<exists>k w'. os_read E w n = (Inr (take k (drop (pos w) content)), w') \<and> k \<le> n \<and> (0 < n \<longrightarrow> 0 < k)
          \<and> pos w' = pos w + min k (length content - pos w))"

definition log_known :: "'w guest_os \<Rightarrow> string \<Rightarrow> bool" where
  "log_known E service \<longleftrightarrow>
     (\<forall>w. \<exists>i name w'. resolve_by_service E service Want.Running w = (Inr (Some (i, name)), w'))
     \<and> (\<forall>w i. \<exists>path w'. container_log_path E i w = (Inr path, w'))"

definition agent_ask :: "'w guest_os \<Rightarrow> Request \<Rightarrow> Agent \<times> 'w \<Rightarrow> ('j answer flow \<times> Agent \<times> 'w) option" where
  "agent_ask E req v = (let (r, ag, w) = handle E req (fst v) (snd v) in Some (Next (Inr (Some r)), ag, w))"

section \<open>One piece\<close>

lemma read_up_to_log:
  "log_file E pos content \<Longrightarrow> length buf \<le> cap
   \<Longrightarrow> \<exists>w'. read_up_to E cap buf w = (Inr (buf @ take (cap - length buf) (drop (pos w) content)), w')"
proof (induction E cap buf w rule: read_up_to.induct)
  case (1 E cap buf w)
  show ?case
  proof (cases "length buf < cap")
    case True
    let ?n = "cap - length buf" and ?rest = "drop (pos w) content"
    obtain k w1 where r: "os_read E w ?n = (Inr (take k ?rest), w1)" "k \<le> ?n" "0 < k"
      "pos w1 = pos w + min k (length content - pos w)"
      using "1.prems"(1) True unfolding log_file_def by (metis zero_less_diff)
    define bs where "bs = take k ?rest"
    have t: "take ?n bs = bs" "length bs \<le> ?n" using r(2) by (simp_all add: bs_def min_absorb2)
    show ?thesis
    proof (cases "bs = []")
      case True
      then have "?rest = []" using r(3) by (simp add: bs_def)
      then show ?thesis using \<open>length buf < cap\<close> r(1) True by (simp add: read_up_to.simps [of E cap buf] bs_def)
    next
      case False
      have p: "drop (pos w1) content = drop (length bs) ?rest" by (simp add: r(4) bs_def add.commute min.commute)
      have b: "take (length bs) ?rest = bs" unfolding bs_def by (cases "k \<le> length ?rest") simp_all
      have "take (length bs + (?n - length bs)) ?rest = bs @ take (?n - length bs) (drop (length bs) ?rest)"
        unfolding take_add b ..
      then have c: "take ?n ?rest = bs @ take (?n - length bs) (drop (length bs) ?rest)" unfolding le_add_diff_inverse [OF t(2)] .
      have "\<exists>w'. read_up_to E cap (buf @ bs) w1 = (Inr ((buf @ bs) @ take (cap - length (buf @ bs)) (drop (pos w1) content)), w')"
        using False t(2) True by (intro "1.IH" [OF True r(1) [folded bs_def, symmetric] refl t(1) [symmetric] _ "1.prems"(1)]) simp_all
      moreover have "read_up_to E cap buf w = read_up_to E cap (buf @ bs) w1"
        using \<open>length buf < cap\<close> r(1) [folded bs_def] False t(1) by (simp add: read_up_to.simps [of E cap buf] Let_def)
      ultimately show ?thesis unfolding c p by simp
    qed
  next
    case False
    then show ?thesis using "1.prems"(2) by (simp add: read_up_to.simps [of E cap buf])
  qed
qed

lemma log_chunk:
  assumes lf: "log_file E pos content"
  shows "\<exists>w'. read_log_chunk E path cursor cap w =
    (let d = take cap (drop (unat cursor) content) in (Inr (lossy d, length d, length d < cap), w'))"
proof -
  obtain w1 where o: "os_open E w path = (Opened, w1)" using lf unfolding log_file_def by blast
  obtain w2 where s: "os_seek E w1 cursor = (None, w2)" "pos w2 = unat cursor" using lf unfolding log_file_def by blast
  obtain w3 where r: "read_up_to E cap [] w2 = (Inr ([] @ take (cap - length []) (drop (pos w2) content)), w3)"
    using read_up_to_log [OF lf, of "[]" cap w2] by auto
  show ?thesis using r by (simp add: read_log_chunk_def o s Let_def)
qed

abbreviation piece :: "bytes \<Rightarrow> u64 \<Rightarrow> bytes" where
  "piece content cursor \<equiv> take (131072) (drop (unat cursor) content)"

lemma handle_logs:
  assumes lf: "log_file E pos content" and known: "log_known E service" and "service \<noteq> ''''"
  shows "\<exists>w'. handle E (logs_request i service cursor) ag w =
    (logs_reply (logs_request i service cursor) cursor
       (Inr (lossy (piece content cursor), length (piece content cursor), length (piece content cursor) < 131072)), ag, w')"
proof -
  let ?req = "logs_request i service cursor"
  have q: "req_op ?req = ''logs''" "or_empty (req_container ?req) = service" "req_cursor ?req = Some cursor" "log_cap ?req = 131072"
    by (simp_all add: logs_request_def request_default_def or_empty_def log_cap_def const_defs)
  obtain c name w1 where c: "resolve_by_service E service Want.Running w = (Inr (Some (c, name)), w1)"
    using known unfolding log_known_def by blast
  obtain path w2 where p: "container_log_path E c w1 = (Inr path, w2)" using known unfolding log_known_def by blast
  obtain w3 where k: "read_log_chunk E path cursor (131072) w2 =
      (let d = piece content cursor in (Inr (lossy d, length d, length d < 131072), w3))"
    using log_chunk [OF lf] by blast
  show ?thesis using assms(3)
    by (simp add: handle_def q do_logs_def log_container_def c p k Let_def const_defs del: length_take)
qed

section \<open>The whole log\<close>


lemma ascii_text_of: "ascii (text_of bs) = bs"
proof -
  have "of_nat (unat b mod 256) = b" for b :: u8
  proof -
    have "unat b < 256" using unsigned_less [of b] by simp
    then show ?thesis by simp
  qed
  then show ?thesis by (simp add: ascii_def text_of_def o_def of_char_of)
qed

lemma is_ascii_piece: "is_ascii content \<Longrightarrow> is_ascii (piece content cursor)"
  by (auto simp: is_ascii_def list_all_iff dest!: in_set_takeD in_set_dropD)

lemma fold_piece:
  assumes ascii: "is_ascii content" and len: "length content < 2 ^ 64" and c: "unat cursor \<le> length content"
    and d: "d = piece content cursor" and r: "r = logs_reply req cursor (Inr (lossy d, length d, length d < 131072))"
  shows "fold_answer cursor raw (Inr (Some r)) =
    (if length d < 131072 then Done False (raw @ d) else More (cursor + 131072) (raw @ d))"
proof -
  have "lossy d = text_of d" using is_ascii_piece [OF ascii] by (simp add: lossy_def d)
  then have data: "(case rep_data r of Some t \<Rightarrow> ascii t | None \<Rightarrow> []) = d"
    by (cases d) (simp_all add: r logs_reply_def ascii_text_of, simp_all add: text_of_def)
  have nxt: "cursor + 131072 = saturating_add cursor (of_nat (length d))" "cursor < cursor + 131072" if "\<not> length d < 131072"
  proof -
    have "length d = 131072" "unat cursor + 131072 \<le> length content" using that by (simp_all add: d)
    then show "cursor + 131072 = saturating_add cursor (of_nat (length d))" "cursor < cursor + 131072"
      using len by (simp_all add: saturating_add_def word_less_nat_alt unat_word_ariths)
  qed
  have f: "rep_ok r = Some True" "rep_eof r = Some (length d < 131072)"
      "rep_next_cursor r = Some (saturating_add cursor (of_nat (length d)))"
    by (simp_all add: r logs_reply_def)
  show ?thesis
  proof (cases "length d < 131072")
    case True
    then show ?thesis using f data by (simp add: fold_answer_def Let_def)
  next
    case False
    then show ?thesis using f data nxt [OF False] by (simp add: fold_answer_def Let_def)
  qed
qed


lemma pull_piece:
  fixes E :: "'w guest_os" and A :: "Request \<Rightarrow> Agent \<times> 'w \<Rightarrow> ('j answer flow \<times> Agent \<times> 'w) option"
  assumes A: "A = agent_ask E" and lf: "log_file E pos content" "log_known E service" "service \<noteq> ''''"
    and ascii: "is_ascii content" "length content < 2 ^ 64" "unat c \<le> length content" and d: "d = piece content c"
  shows "\<exists>w'. pull_log A service i c raw (ag, w) =
    (if length d < 131072 then Some (Next (False, raw @ d, i + 1), (ag, w'))
     else pull_log A service (i + 1) (c + 131072) (raw @ d) (ag, w'))"
proof -
  let ?req = "logs_request i service c"
  obtain r :: "'j Reply" and w' where r: "r = logs_reply ?req c (Inr (lossy d, length d, length d < 131072))"
    and h: "handle E ?req ag w = (r, ag, w')"
    unfolding d using handle_logs [OF lf] by blast
  have "A ?req (ag, w) = Some (Next (Inr (Some r)), ag, w')" by (simp add: A agent_ask_def h)
  then show ?thesis using fold_piece [OF ascii d r, of raw] by (auto simp: pull_log.simps [of A service i c])
qed

text \<open>
  C9. A captured log is the log. The host that pulls the log of a service from the agent, piece by piece,
  ends after finitely many requests and has exactly the bytes of the file, in order and none twice, when the
  file is ASCII, whatever sizes the reads return.
\<close>

theorem log_pull_exact:
  fixes A :: "Request \<Rightarrow> Agent \<times> 'w \<Rightarrow> ('j answer flow \<times> Agent \<times> 'w) option"
  assumes "A = agent_ask E" and "log_file E pos content" and "log_known E service" and "service \<noteq> ''''"
    and "is_ascii content" and "length content < 2 ^ 64"
  shows "\<exists>n v. pull_log A service next_id 0 [] (ag, w) = Some (Next (False, content, n), v)"
proof -
  have "\<exists>n v. pull_log A service i c (take (unat c) content) (ag, w) = Some (Next (False, content, n), v)"
    if "unat c \<le> length content" for i c w
    using that
  proof (induction "length content - unat c" arbitrary: i c w rule: less_induct)
    case less
    obtain w' where p: "pull_log A service i c (take (unat c) content) (ag, w) =
        (if length (piece content c) < 131072 then Some (Next (False, take (unat c) content @ piece content c, i + 1), (ag, w'))
         else pull_log A service (i + 1) (c + 131072) (take (unat c) content @ piece content c) (ag, w'))"
      using pull_piece [OF assms less.prems refl] by blast
    show ?case
    proof (cases "length (piece content c) < 131072")
      case True
      then have t: "take (unat c) content @ piece content c = content" by simp
      show ?thesis unfolding p t if_P [OF True] by blast
    next
      case False
      then have c: "unat c + 131072 \<le> length content" by simp
      have u: "unat (c + 131072) = unat c + 131072" using c assms(6) by (simp add: unat_word_ariths)
      have t: "take (unat c) content @ piece content c = take (unat (c + 131072)) content"
        unfolding u by (simp add: take_add)
      have "\<exists>n v. pull_log A service (i + 1) (c + 131072) (take (unat (c + 131072)) content) (ag, w') = Some (Next (False, content, n), v)"
        using c by (intro less.hyps) (simp_all only: u)
      then show ?thesis unfolding p t if_not_P [OF False] .
    qed
  qed
  from this [of 0 next_id w] show ?thesis by simp
qed


text \<open>A guest with one container, whose log is read a byte at a time; the world is the position in the file.\<close>

definition sample_ps :: PodmanPs where
  "sample_ps = \<lparr>ps_id = ''c1'', ps_names = [''web''], ps_state = ''running'', ps_exit_code = 0, ps_labels = Map.empty, ps_status = ''Up''\<rparr>"

definition log_guest :: "bytes \<Rightarrow> nat guest_os" where
  "log_guest content = sample_guest\<lparr>os_output := (\<lambda>w _. (Inr (Some 0, ascii ''/log'', []), w)), os_ps := (\<lambda>_. Inr [sample_ps]),
     os_open := (\<lambda>w _. (Opened, w)), os_seek := (\<lambda>_ c. (None, unat c)),
     os_read := (\<lambda>w n. (Inr (take (min n 1) (drop w content)), w + min (min n 1) (length content - w)))\<rparr>"

lemma log_guest_file: "log_file (log_guest content) (\<lambda>w. w) content"
proof -
  have r: "os_read (log_guest content) w n = (Inr (take (min n 1) (drop w content)), w + min (min n 1) (length content - w))" for w n
    by (simp add: log_guest_def)
  have "\<exists>k w'. os_read (log_guest content) w n = (Inr (take k (drop w content)), w') \<and> k \<le> n \<and> (0 < n \<longrightarrow> 0 < k)
      \<and> w' = w + min k (length content - w)" for w n
    unfolding r by (intro exI [of _ "min n 1"] exI conjI refl) auto
  then show ?thesis unfolding log_file_def by (simp add: log_guest_def)
qed

lemma log_guest_known: "log_known (log_guest content) ''web''"
proof -
  have o: "os_output (log_guest content) w a = (Inr (Some 0, ascii ''/log'', []), w)" "os_ps (log_guest content) t = Inr [sample_ps]" for w a t
    by (simp_all add: log_guest_def)
  have "lossy (ascii ''/log'') = ''/log''"
  proof -
    have "is_ascii (ascii ''/log'')" by (simp add: ascii_def is_ascii_def)
    then show ?thesis by (simp only: lossy_def from_utf8_lossy_ascii) code_simp
  qed
  moreover have "leading_white white_space ''/log'' = 0" "leading_white (map rev white_space) (rev ''/log'') = 0"
    by code_simp+
  ultimately have t: "trim_text (lossy (ascii ''/log'')) = ''/log''"
    by (simp add: trim_text_def trim_start.simps [of white_space] trim_start.simps [of "map rev white_space"])
  have "resolve_by_service (log_guest content) ''web'' Want.Running w = (Inr (Some (''c1'', ''web'')), w)" for w
    by (simp add: resolve_by_service_def podman_json_def o matches_service_def wanted_def sample_ps_def first_name_def)
  moreover have "container_log_path (log_guest content) i w = (Inr ''/log'', w)" for i w
    by (simp add: container_log_path_def inspect_text_def o t Let_def)
  ultimately show ?thesis by (simp add: log_known_def)
qed

theorem log_pull_exact_witness:
  "\<exists>n v. pull_log (agent_ask (log_guest [104, 105, 10]) :: Request \<Rightarrow> Agent \<times> nat \<Rightarrow> (unit answer flow \<times> Agent \<times> nat) option)
     ''web'' 1 0 [] (agent_new, 0) = Some (Next (False, [104, 105, 10], n), v)"
  by (rule log_pull_exact [OF refl log_guest_file log_guest_known]) (simp_all add: is_ascii_def)


end
