(* ===== verification/Spec2Isabelle.thy ===== *)
theory Spec2Isabelle
  imports Prelude Vtsc Events Lapic Ioapic Pic Pit EgressCodec Collections Egress
    EgressSessions EgressPump Text Tar Artifact Cpio CpioProps Serial
    Control Proto Driver Timers Telemetry EgressGate Idle IdleProps ParkProps
    Conscan RunLoop Capture RunProps RunOutcome
    Forwarder ForwarderProps Agent Bridge BridgeProps AgentProps LogPull
begin

text \<open>
  A verification development for tdvmm, a KVM virtual machine monitor in Rust. A guest runs a compose
  stack of containers on a virtual clock; while the guest is idle the clock is moved to the next timer
  instead of waiting for it. The program emulates the devices of the guest in user space, carries its
  network traffic over a serial port, packs its images, and takes the verdict of the run from an agent
  inside the guest.

  \<^bold>\<open>The parts and how they interact.\<close> The vCPU loop (\<open>src/src/main.rs\<close>, \<open>run_user_backend\<close>) enters the
  guest through KVM and serves every exit: it dispatches port and memory accesses to the devices, injects
  the vector the local APIC selects, arms a host timer (the doorbell) for the next deadline, and parks when
  the guest halts. The park waits in real time or, with fast-forward on, jumps the virtual clock. The
  deadlines are those of the APIC timer and the run's horizon, in one event queue. Three serial ports lead
  out of the guest: the console, teed to a scanner that splits it by service; the control channel, on which
  the agent speaks JSON lines; the egress channel, a binary multiplex of TCP streams between the forwarder
  in the guest and the backend on the host. After the loop the logs of the services are pulled from the
  agent. Images and artifacts are written before, by deterministic emitters.

  \<^bold>\<open>Conventions.\<close> A struct is a record, an enum a datatype, an integer a word of its width; a text is its
  bytes or, for the constants of the sources, a HOL string. A fallible function returns a sum, \<open>Inl\<close> the error;
  a panic is a constructor of its own (\<open>Panics\<close>, \<open>outcome\<close>). What is not in the repository is a parameter: KVM,
  the 16550 of the serial library, sockets and epoll, poll, clocks, files, podman and nft, the JSON library,
  the digest, floating-point comparisons. A parameter is a record of functions on a world \<open>'w\<close>; a law that a
  property needs of it is a named predicate in its premises (\<open>json_text\<close>, the FIFO law of \<open>Serial\<close>,
  \<open>healthy_tty\<close>, \<open>client_law\<close>, \<open>log_file\<close>, \<open>counts_reads\<close>), and the witness of the property instantiates it. Log lines and
  texts for the terminal are left out.

  \<^bold>\<open>The theories.\<close>
  \<^item> \<open>Prelude\<close>, \<open>Text\<close>, \<open>Collections\<close>: machine integers, UTF-8, the ordered map of the standard library (locale
    \<open>ordered_map\<close>, interpreted on the sorted list that models \<open>BTreeMap\<close>).
  \<^item> \<open>Vtsc\<close> (\<open>src/src/vtsc.rs\<close>), \<open>Events\<close> (\<open>events.rs\<close>; locale \<open>event_queue\<close>): the clock and the queue of deadlines.
    A jump lands every clone of the clock on the deadline; the queue pops in order, first in first out among
    equals.
  \<^item> \<open>Lapic\<close> (\<open>lapic.rs\<close>; locale \<open>vector_set\<close> for its bitmaps), \<open>Ioapic\<close> (\<open>ioapic.rs\<close>), \<open>Pic\<close>, \<open>Pit\<close>: the interrupt
    controllers and the counter. What is deliverable, injection and end of interrupt, nesting of at most
    fifteen, the timer and its re-arming, the wiring of the lines.
  \<^item> \<open>EgressCodec\<close> (\<open>src/tdvmm-proto/src/egress.rs\<close>), \<open>Egress\<close>, \<open>EgressSessions\<close>, \<open>EgressPump\<close>, \<open>EgressGate\<close>
    (\<open>src/src/egress.rs\<close>): frames, sessions, the pump and the channel. Round trips of the codec, the invariant of
    the session table, only whole frames for the guest, independence of how bytes are cut, error paths, and the
    service of a stream against the calls made on its socket. The buffers of the sessions and the unparsed
    input are bounded; the queue of frames for the guest has no cap and no bound is claimed for it.
  \<^item> \<open>Forwarder\<close>, \<open>ForwarderProps\<close> (\<open>src/tdvmm-agent/src/forwarder.rs\<close>): the other end of that wire, its threads as
    a step relation whose steps reach from one blocking call of a thread to the next. Its frames are accepted by the backend; stream ids are exclusive; the window never
    stalls; the SOCKS5 handshake.
  \<^item> \<open>Tar\<close>, \<open>Artifact\<close> (\<open>src/src/artifact\<close>), \<open>Cpio\<close>, \<open>CpioProps\<close> (\<open>cpio.rs\<close>): the emitters and readers. Round trip of
    an artifact through any sink and any reads, detection of corruption, contents of the image segment and
    its independence of the host. Of several unreadable files the first in order is the one reported, where the
    parallel reads of the code may report any.
  \<^item> \<open>Serial\<close> (\<open>serial.rs\<close>), \<open>Control\<close> (\<open>control.rs\<close>), \<open>Conscan\<close> (\<open>conscan.rs\<close>): the console, the control channel, the
    scanner. Streams are kept exactly, over every interleaving with the guest.
  \<^item> \<open>Proto\<close> (\<open>src/tdvmm-proto/src/lib.rs\<close>), \<open>Driver\<close> (\<open>exit.rs\<close>, \<open>driver.rs\<close>): messages, framing, stop reasons, verdict.
  \<^item> \<open>Agent\<close> (\<open>src/tdvmm-agent/src/agent.rs\<close>), \<open>Bridge\<close> (\<open>bridge.rs\<close>), \<open>BridgeProps\<close>, \<open>AgentProps\<close>: the agent and its loop as a
    reachability relation over everything host, containers and pipe may send. The verdict end to end,
    replies, partitions, bounded buffers.
  \<^item> \<open>Timers\<close> (\<open>doorbell.rs\<close>, \<open>park.rs\<close>, \<open>util.rs\<close>), \<open>Telemetry\<close> (\<open>telemetry.rs\<close>), \<open>Idle\<close>, \<open>IdleProps\<close>, \<open>ParkProps\<close> (\<open>main.rs\<close>):
    host timers, accounting, the park. No wakeup is lost to the signal; due timers fire exactly once; a
    jump is legal and exact; a halted guest with an armed timer wakes.
  \<^item> \<open>RunLoop\<close>, \<open>RunProps\<close>, \<open>Capture\<close>, \<open>RunOutcome\<close>, \<open>LogPull\<close> (\<open>main.rs\<close>): the loop, the log capture and the end of a run.
    The entry protocol, well-formed devices in every state, what a stop means, the capture changes no
    verdict, and a pulled log is the log.

  \<^bold>\<open>Loops.\<close> Loops whose end the code guarantees are functions with a termination proof. The vCPU loop, the
  park loops, the loop of the log capture, the re-arming of the periodic timer and the search for a stream
  id may run forever: they are partial functions into an option, \<open>None\<close> for a loop that does not end, and
  that they end is a property of its own where it holds (\<open>ff_wakes\<close>, \<open>fire_timer_spec\<close>, \<open>stream_ids_exclusive\<close>). No
  definition uses fuel.

  \<^bold>\<open>Not modelled.\<close> The set-up of guest memory, boot structures and vCPU registers (\<open>memory.rs\<close>, \<open>boot.rs\<close>, \<open>mptable.rs\<close>
  apart from the id of the I/O APIC and the wiring, \<open>cpuid.rs\<close>, \<open>msrs.rs\<close>, \<open>regs.rs\<close>), which are tables handed to
  KVM; the command line, host probes and terminal output; the watchdog that prints diagnostics; the image
  build and the artifact store, which run external commands and move files; the compose front end, which
  works on the values of a YAML library; the real TCP connector, signal installation and raw system calls.
  Quantiles and reports that only format floating-point numbers are left out of \<open>Telemetry\<close>, and the budget of
  the log capture in virtual seconds, a floating-point product, is an argument.
\<close>

end
